(* ===== verification/Prelude.thy ===== *)
theory Prelude
  imports Main "HOL-Library.Word"
begin

text \<open>
  Shared vocabulary of the development: the integer types of
  \<^verbatim>\<open>talk/base/basictypes.h\<close>, memory blocks as byte lists with
  \<^verbatim>\<open>memcpy\<close>, the big-endian value of a byte list, and the generic lemmas on
  lists, options and words that the component theories use.

  Conventions used by every theory of the development:
  \<^item> a \<^verbatim>\<open>uint8\<close>, \<^verbatim>\<open>uint16\<close>, \<^verbatim>\<open>uint32\<close>, \<^verbatim>\<open>uint64\<close> is a
    word of that width, so that arithmetic wraps as it does in C++;
  \<^item> a \<^verbatim>\<open>size_t\<close> that counts bytes of an object in memory is a natural number
    (an object never fills the address space, so these never wrap);
  \<^item> an allocated \<^verbatim>\<open>char\<close> array is a list of bytes whose length is the
    allocation's size;
  \<^item> a result type with \<^verbatim>\<open>option\<close> uses \<open>None\<close> either for the
    operation's own failure result or for behaviour that C++ leaves undefined; each
    definition says which.
\<close>

unbundle bit_operations_syntax

section \<open>Integer types\<close>

type_synonym u8 = "8 word"
type_synonym u16 = "16 word"
type_synonym u32 = "32 word"
type_synonym u64 = "64 word"

type_synonym bytes = "u8 list"

text \<open>The bytes of a string literal.\<close>

definition text_bytes :: "string \<Rightarrow> bytes" where
  "text_bytes s = map of_char s"

named_theorems bytes_simps \<open>evaluation of byte encodings\<close>

section \<open>Memory blocks\<close>

text \<open>
  \<open>blit dst off src\<close> is \<^verbatim>\<open>memcpy(dst + off, src, |src|)\<close>. It is
  used within the bounds of \<open>dst\<close>; where the bounds depend on an argument, the
  calling definition checks them or a lemma of its theory shows them.
\<close>

definition blit :: "'a list \<Rightarrow> nat \<Rightarrow> 'a list \<Rightarrow> 'a list" where
  "blit dst off src = take off dst @ src @ drop (off + length src) dst"

lemma length_blit [simp]: "off + length src \<le> length dst \<Longrightarrow> length (blit dst off src) = length dst"
  by (simp add: blit_def)

lemma blit_Nil [simp]: "blit dst off [] = dst"
  by (simp add: blit_def)

lemma nth_blit:
  assumes "off + length src \<le> length dst" "i < length dst"
  shows "blit dst off src ! i = (if off \<le> i \<and> i < off + length src then src ! (i - off) else dst ! i)"
  using assms by (auto simp: blit_def nth_append min_def)

lemma take_blit:
  "off + length src \<le> length dst \<Longrightarrow> n \<le> off \<Longrightarrow> take n (blit dst off src) = take n dst"
  by (simp add: blit_def)

lemma blit_at_end: "off \<le> length dst \<Longrightarrow> take (off + length src) (blit dst off src) = take off dst @ src"
  by (simp add: blit_def)

text \<open>\<open>chunk off n xs\<close> is the \<open>n\<close> elements from index \<open>off\<close>.\<close>

definition chunk :: "nat \<Rightarrow> nat \<Rightarrow> 'a list \<Rightarrow> 'a list" where
  "chunk off n xs = take n (drop off xs)"

lemma length_chunk [simp]: "off + n \<le> length xs \<Longrightarrow> length (chunk off n xs) = n"
  by (simp add: chunk_def)

lemma nth_chunk [simp]: "i < n \<Longrightarrow> off + n \<le> length xs \<Longrightarrow> chunk off n xs ! i = xs ! (off + i)"
  by (simp add: chunk_def)

lemma chunk_0 [simp]: "chunk off 0 xs = []"
  by (simp add: chunk_def)

lemma drop_chunk: "k \<le> n \<Longrightarrow> drop k (chunk off n xs) = chunk (off + k) (n - k) xs"
  by (simp add: chunk_def drop_take add.commute)

lemma take_chunk: "k \<le> n \<Longrightarrow> take k (chunk off n xs) = chunk off k xs"
  by (simp add: chunk_def min_def)

lemma chunk_add: "chunk off (m + n) xs = chunk off m xs @ chunk (off + m) n xs"
  by (simp add: chunk_def take_add add.commute)

section \<open>Lists\<close>

lemma list_eq_nthI: "length xs = length ys \<Longrightarrow> (\<And>i. i < length ys \<Longrightarrow> xs ! i = ys ! i) \<Longrightarrow> xs = ys"
  by (simp add: list_eq_iff_nth_eq)

lemma take_all_append: "length xs = n \<Longrightarrow> take n (xs @ ys) = xs"
  by simp

lemma drop_all_append: "length xs = n \<Longrightarrow> drop n (xs @ ys) = ys"
  by simp

lemma sum_list_takeWhile_le: "sum_list (map f (takeWhile P xs)) \<le> sum_list (map f xs)" for f :: "'a \<Rightarrow> nat"
  by (induction xs) auto

lemma list_update_Cons_numeral: "(x # xs)[numeral k := v] = x # xs[pred_numeral k := v]"
  by (simp add: numeral_eq_Suc)

section \<open>Big-endian values of byte lists\<close>

definition be_bytes :: "nat \<Rightarrow> 'a::len word \<Rightarrow> u8 list" where
  "be_bytes n v = map (\<lambda>i. ucast (drop_bit (8 * i) v)) (rev [0..<n])"

definition be_word :: "u8 list \<Rightarrow> 'a::len word" where
  "be_word bs = foldl (\<lambda>acc b. push_bit 8 acc OR ucast b) 0 bs"

lemma length_be_bytes [simp]: "length (be_bytes n v) = n"
  by (simp add: be_bytes_def)

lemma be_bytes_nth: "i < n \<Longrightarrow> be_bytes n v ! i = ucast (drop_bit (8 * (n - 1 - i)) v)"
  by (simp add: be_bytes_def rev_nth)

lemma be_word_Nil [simp]: "be_word [] = 0"
  by (simp add: be_word_def)

lemma be_word_snoc: "be_word (bs @ [b]) = push_bit 8 (be_word bs) OR ucast b"
  by (simp add: be_word_def)

lemma bit_be_word:
  "bit (be_word bs :: 'a::len word) n \<longleftrightarrow>
     n < LENGTH('a) \<and> n div 8 < length bs \<and> bit (rev bs ! (n div 8)) (n mod 8)"
proof (induction bs arbitrary: n rule: rev_induct)
  case Nil
  show ?case by simp
next
  case (snoc b bs)
  show ?case
  proof (cases "n < 8")
    case True
    then show ?thesis
      by (auto simp: be_word_snoc bit_simps)
  next
    case False
    then have n8: "8 \<le> n" by simp
    have div: "n div 8 = Suc ((n - 8) div 8)" and mod: "(n - 8) mod 8 = n mod 8"
      using n8 by (simp_all add: le_div_geq le_mod_geq)
    have no: "\<not> bit b n" using n8 by (auto dest: bit_imp_le_length)
    have "bit (be_word (bs @ [b]) :: 'a word) n \<longleftrightarrow> n < LENGTH('a) \<and> bit (be_word bs :: 'a word) (n - 8)"
      using n8 no by (auto simp: be_word_snoc bit_simps)
    then show ?thesis
      using n8 by (auto simp: snoc.IH[of "n - 8"] div mod)
  qed
qed

lemma be_word_be_bytes: "LENGTH('a::len) \<le> 8 * n \<Longrightarrow> be_word (be_bytes n (v :: 'a word)) = v"
proof (rule bit_word_eqI)
  fix k assume le: "LENGTH('a) \<le> 8 * n" and k: "k < LENGTH('a)"
  then have "k div 8 < n" by (simp add: less_mult_imp_div_less mult.commute)
  moreover from this have "rev (be_bytes n v) ! (k div 8) = ucast (drop_bit (8 * (k div 8)) v)"
    by (simp add: be_bytes_def flip: rev_map)
  ultimately show "bit (be_word (be_bytes n v) :: 'a word) k = bit v k"
    using k by (simp add: bit_be_word bit_simps)
qed

lemma be_bytes_be_word:
  assumes "8 * length bs \<le> LENGTH('a::len)"
  shows "be_bytes (length bs) (be_word bs :: 'a word) = bs"
proof (rule list_eq_nthI)
  fix i assume i: "i < length bs"
  show "be_bytes (length bs) (be_word bs :: 'a word) ! i = bs ! i"
  proof (rule bit_word_eqI)
    fix k assume k: "k < LENGTH(8)"
    define m where "m = length bs - 1 - i"
    have m: "m < length bs" and im: "length bs - Suc m = i" and mi: "length bs - Suc i = m"
      using i by (auto simp: m_def)
    have lt: "8 * m + k < LENGTH('a)" using assms m k by simp
    have d: "(8 * m + k) div 8 = m" "(8 * m + k) mod 8 = k" using k by simp_all
    show "bit (be_bytes (length bs) (be_word bs :: 'a word) ! i) k = bit (bs ! i) k"
      using i k m lt im by (simp add: be_bytes_nth bit_simps bit_be_word d rev_nth mi)
  qed
qed simp

lemma be_bytes_1: "be_bytes (Suc 0) v = [ucast v]"
  by (simp add: be_bytes_def)

lemma be_bytes_2: "be_bytes 2 v = [ucast (drop_bit 8 v), ucast v]"
  by (simp add: be_bytes_def numeral_2_eq_2 upt_rec)

lemma be_bytes_3: "be_bytes 3 v = [ucast (drop_bit 16 v), ucast (drop_bit 8 v), ucast v]"
  by (simp add: be_bytes_def numeral_3_eq_3 upt_rec)

lemma be_bytes_4: "be_bytes 4 v = [ucast (drop_bit 24 v), ucast (drop_bit 16 v), ucast (drop_bit 8 v), ucast v]"
  by (simp add: be_bytes_def upt_rec)

lemma be_bytes_8:
  "be_bytes 8 v = [ucast (drop_bit 56 v), ucast (drop_bit 48 v), ucast (drop_bit 40 v), ucast (drop_bit 32 v),
     ucast (drop_bit 24 v), ucast (drop_bit 16 v), ucast (drop_bit 8 v), ucast v]"
  by (simp add: be_bytes_def upt_rec)

lemma be_bytes_inj:
  "LENGTH('a::len) \<le> 8 * n \<Longrightarrow> be_bytes n (v :: 'a word) = be_bytes n w \<Longrightarrow> v = w"
  by (metis be_word_be_bytes)

section \<open>Words\<close>

lemma unat_of_nat_u32: "n < 2 ^ 32 \<Longrightarrow> unat (of_nat n :: u32) = n"
  by (simp add: unat_of_nat take_bit_nat_eq_self)

lemma unat_of_nat_u16: "n < 2 ^ 16 \<Longrightarrow> unat (of_nat n :: u16) = n"
  by (simp add: unat_of_nat take_bit_nat_eq_self)

lemma unat_sub_u32: "b \<le> a \<Longrightarrow> unat (a - b) = unat a - unat b" for a b :: "'a::len word"
  by (rule unat_sub)

lemma unat_lt_u16: "unat (x :: u16) < 65536"
  using unsigned_less[of x] by simp

lemma unat_lt_u32: "unat (x :: u32) < 4294967296"
  using unsigned_less[of x] by simp

lemma unat_lt_u8: "unat (x :: u8) < 256"
  using unsigned_less[of x] by simp

lemma xor_cancel_right: "a XOR c = b XOR c \<longleftrightarrow> a = b" for a b c :: "'a::len word"
proof
  assume "a XOR c = b XOR c"
  then have "(a XOR c) XOR c = (b XOR c) XOR c" by simp
  then show "a = b" by (simp add: xor.assoc)
qed simp

lemma xor_cancel_left: "c XOR a = c XOR b \<longleftrightarrow> a = b" for a b c :: "'a::len word"
  using xor_cancel_right[of a c b] by (simp add: xor.commute)

lemma ucast_inj_up:
  assumes "(ucast (u :: 'a::len word) :: 'b::len word) = ucast v" "LENGTH('a) \<le> LENGTH('b)"
  shows "u = v"
proof (rule bit_word_eqI)
  fix n assume "n < LENGTH('a)"
  moreover have "bit (ucast u :: 'b word) n = bit (ucast v :: 'b word) n" using assms(1) by simp
  ultimately show "bit u n = bit v n" using assms(2) by (simp add: bit_simps)
qed

end
