(* ===== verification/ByteOrder.thy ===== *)
theory ByteOrder
  imports Prelude
begin

text \<open>
  \<^verbatim>\<open>talk/base/byteorder.h\<close>: reading and writing integers of both byte orders
  in memory, and the conversions between host and network order. Memory is the byte list
  from the given pointer on; a host integer in memory is its little-endian bytes, the order
  of the target (\<^verbatim>\<open>ARCH_CPU_LITTLE_ENDIAN\<close> in
  \<^verbatim>\<open>talk/base/basictypes.h\<close>, armv7 in the project's README).

  The lemmas give each accessor its closed form over \<open>be_bytes\<close> and
  \<open>be_word\<close>, from which the round trips follow.
\<close>

section \<open>Memory accessors\<close>

definition Set8 :: "u8 list \<Rightarrow> nat \<Rightarrow> u8 \<Rightarrow> u8 list" where
  "Set8 memory offset v = memory[offset := v]"

definition Get8 :: "u8 list \<Rightarrow> nat \<Rightarrow> u8" where
  "Get8 memory offset = memory ! offset"

definition SetBE16 :: "u8 list \<Rightarrow> u16 \<Rightarrow> u8 list" where
  "SetBE16 memory v = Set8 (Set8 memory 0 (ucast (drop_bit 8 v))) 1 (ucast v)"

definition SetBE32 :: "u8 list \<Rightarrow> u32 \<Rightarrow> u8 list" where
  "SetBE32 memory v =
     (let memory = Set8 memory 0 (ucast (drop_bit 24 v));
          memory = Set8 memory 1 (ucast (drop_bit 16 v));
          memory = Set8 memory 2 (ucast (drop_bit 8 v))
      in Set8 memory 3 (ucast v))"

definition SetBE64 :: "u8 list \<Rightarrow> u64 \<Rightarrow> u8 list" where
  "SetBE64 memory v =
     (let memory = Set8 memory 0 (ucast (drop_bit 56 v));
          memory = Set8 memory 1 (ucast (drop_bit 48 v));
          memory = Set8 memory 2 (ucast (drop_bit 40 v));
          memory = Set8 memory 3 (ucast (drop_bit 32 v));
          memory = Set8 memory 4 (ucast (drop_bit 24 v));
          memory = Set8 memory 5 (ucast (drop_bit 16 v));
          memory = Set8 memory 6 (ucast (drop_bit 8 v))
      in Set8 memory 7 (ucast v))"

text \<open>\<^verbatim>\<open>Get8(...) << 8\<close> is computed in \<^verbatim>\<open>int\<close>, then cut to 16 bits.\<close>

definition GetBE16 :: "u8 list \<Rightarrow> u16" where
  "GetBE16 memory = ucast (push_bit 8 (ucast (Get8 memory 0) :: u32) OR ucast (Get8 memory 1))"

definition GetBE32 :: "u8 list \<Rightarrow> u32" where
  "GetBE32 memory =
     push_bit 24 (ucast (Get8 memory 0)) OR
     push_bit 16 (ucast (Get8 memory 1)) OR
     push_bit 8 (ucast (Get8 memory 2)) OR
     ucast (Get8 memory 3)"

definition GetBE64 :: "u8 list \<Rightarrow> u64" where
  "GetBE64 memory =
     push_bit 56 (ucast (Get8 memory 0)) OR
     push_bit 48 (ucast (Get8 memory 1)) OR
     push_bit 40 (ucast (Get8 memory 2)) OR
     push_bit 32 (ucast (Get8 memory 3)) OR
     push_bit 24 (ucast (Get8 memory 4)) OR
     push_bit 16 (ucast (Get8 memory 5)) OR
     push_bit 8 (ucast (Get8 memory 6)) OR
     ucast (Get8 memory 7)"

definition SetLE16 :: "u8 list \<Rightarrow> u16 \<Rightarrow> u8 list" where
  "SetLE16 memory v = Set8 (Set8 memory 0 (ucast v)) 1 (ucast (drop_bit 8 v))"

definition SetLE32 :: "u8 list \<Rightarrow> u32 \<Rightarrow> u8 list" where
  "SetLE32 memory v =
     (let memory = Set8 memory 0 (ucast v);
          memory = Set8 memory 1 (ucast (drop_bit 8 v));
          memory = Set8 memory 2 (ucast (drop_bit 16 v))
      in Set8 memory 3 (ucast (drop_bit 24 v)))"

definition SetLE64 :: "u8 list \<Rightarrow> u64 \<Rightarrow> u8 list" where
  "SetLE64 memory v =
     (let memory = Set8 memory 0 (ucast v);
          memory = Set8 memory 1 (ucast (drop_bit 8 v));
          memory = Set8 memory 2 (ucast (drop_bit 16 v));
          memory = Set8 memory 3 (ucast (drop_bit 24 v));
          memory = Set8 memory 4 (ucast (drop_bit 32 v));
          memory = Set8 memory 5 (ucast (drop_bit 40 v));
          memory = Set8 memory 6 (ucast (drop_bit 48 v))
      in Set8 memory 7 (ucast (drop_bit 56 v)))"

definition GetLE16 :: "u8 list \<Rightarrow> u16" where
  "GetLE16 memory = ucast ((ucast (Get8 memory 0) :: u32) OR push_bit 8 (ucast (Get8 memory 1)))"

definition GetLE32 :: "u8 list \<Rightarrow> u32" where
  "GetLE32 memory =
     ucast (Get8 memory 0) OR
     push_bit 8 (ucast (Get8 memory 1)) OR
     push_bit 16 (ucast (Get8 memory 2)) OR
     push_bit 24 (ucast (Get8 memory 3))"

definition GetLE64 :: "u8 list \<Rightarrow> u64" where
  "GetLE64 memory =
     ucast (Get8 memory 0) OR
     push_bit 8 (ucast (Get8 memory 1)) OR
     push_bit 16 (ucast (Get8 memory 2)) OR
     push_bit 24 (ucast (Get8 memory 3)) OR
     push_bit 32 (ucast (Get8 memory 4)) OR
     push_bit 40 (ucast (Get8 memory 5)) OR
     push_bit 48 (ucast (Get8 memory 6)) OR
     push_bit 56 (ucast (Get8 memory 7))"

section \<open>Host integers in memory\<close>

text \<open>
  \<open>store_host n v\<close> is the \<open>n\<close> bytes of the object \<open>v\<close>, as a
  \<^verbatim>\<open>reinterpret_cast\<close> to \<^verbatim>\<open>char*\<close> shows them;
  \<open>load_host\<close> is the value of such an object.
\<close>

definition store_host :: "nat \<Rightarrow> 'a::len word \<Rightarrow> u8 list" where
  "store_host n v = rev (be_bytes n v)"

definition load_host :: "u8 list \<Rightarrow> 'a::len word" where
  "load_host memory = be_word (rev memory)"

definition IsHostBigEndian :: bool where
  "IsHostBigEndian \<longleftrightarrow> Get8 (store_host 4 (1 :: u32)) 0 = 0"

definition HostToNetwork16 :: "u16 \<Rightarrow> u16" where
  "HostToNetwork16 n = load_host (SetBE16 (store_host 2 (0 :: u16)) n)"

definition HostToNetwork32 :: "u32 \<Rightarrow> u32" where
  "HostToNetwork32 n = load_host (SetBE32 (store_host 4 (0 :: u32)) n)"

definition HostToNetwork64 :: "u64 \<Rightarrow> u64" where
  "HostToNetwork64 n = load_host (SetBE64 (store_host 8 (0 :: u64)) n)"

definition NetworkToHost16 :: "u16 \<Rightarrow> u16" where
  "NetworkToHost16 n = GetBE16 (store_host 2 n)"

definition NetworkToHost32 :: "u32 \<Rightarrow> u32" where
  "NetworkToHost32 n = GetBE32 (store_host 4 n)"

definition NetworkToHost64 :: "u64 \<Rightarrow> u64" where
  "NetworkToHost64 n = GetBE64 (store_host 8 n)"

section \<open>Closed forms\<close>

lemma length_SetBE [simp]:
  "length (SetBE16 m v16) = length m" "length (SetBE32 m v32) = length m" "length (SetBE64 m v64) = length m"
  by (simp_all add: SetBE16_def SetBE32_def SetBE64_def Set8_def)

lemma split_at_2: "2 \<le> length m \<Longrightarrow> \<exists>a b r. m = a # b # r"
  by (cases m; cases "tl m") auto

lemma split_at_4: "4 \<le> length m \<Longrightarrow> \<exists>a b c d r. m = a # b # c # d # r"
  using split_at_2[of m] split_at_2[of "drop 2 m"] by auto

lemma split_at_8: "8 \<le> length m \<Longrightarrow> \<exists>a b c d e f g h r. m = a # b # c # d # e # f # g # h # r"
proof -
  assume l: "8 \<le> length m"
  obtain a b c d r where m: "m = a # b # c # d # r" using split_at_4[of m] l by auto
  then obtain e f g h r' where "r = e # f # g # h # r'" using split_at_4[of r] l by auto
  with m show ?thesis by blast
qed

lemma SetBE16_eq: "2 \<le> length m \<Longrightarrow> SetBE16 m v = be_bytes 2 v @ drop 2 m"
  by (drule split_at_2) (auto simp: SetBE16_def Set8_def be_bytes_2)

lemma SetBE32_eq: "4 \<le> length m \<Longrightarrow> SetBE32 m v = be_bytes 4 v @ drop 4 m"
  by (drule split_at_4) (auto simp: SetBE32_def Set8_def be_bytes_4 Let_def list_update_Cons_numeral)

lemma SetBE64_eq: "8 \<le> length m \<Longrightarrow> SetBE64 m v = be_bytes 8 v @ drop 8 m"
  by (drule split_at_8) (auto simp: SetBE64_def Set8_def be_bytes_8 Let_def list_update_Cons_numeral)

lemma SetLE16_eq: "2 \<le> length m \<Longrightarrow> SetLE16 m v = store_host 2 v @ drop 2 m"
  by (drule split_at_2) (auto simp: SetLE16_def Set8_def store_host_def be_bytes_2)

lemma SetLE32_eq: "4 \<le> length m \<Longrightarrow> SetLE32 m v = store_host 4 v @ drop 4 m"
  by (drule split_at_4) (auto simp: SetLE32_def Set8_def store_host_def be_bytes_4 Let_def list_update_Cons_numeral)

lemma SetLE64_eq: "8 \<le> length m \<Longrightarrow> SetLE64 m v = store_host 8 v @ drop 8 m"
  by (drule split_at_8) (auto simp: SetLE64_def Set8_def store_host_def be_bytes_8 Let_def list_update_Cons_numeral)

lemma GetBE16_eq: "2 \<le> length m \<Longrightarrow> GetBE16 m = be_word (take 2 m)"
  by (drule split_at_2)
    (auto simp: GetBE16_def Get8_def be_word_def bit_simps intro!: bit_word_eqI)

lemma GetBE32_eq: "4 \<le> length m \<Longrightarrow> GetBE32 m = be_word (take 4 m)"
  by (drule split_at_4)
    (auto simp: GetBE32_def Get8_def be_word_def push_bit_or or.assoc)

lemma GetBE64_eq: "8 \<le> length m \<Longrightarrow> GetBE64 m = be_word (take 8 m)"
  by (drule split_at_8)
    (auto simp: GetBE64_def Get8_def be_word_def push_bit_or or.assoc)

lemma GetLE32_eq: "4 \<le> length m \<Longrightarrow> GetLE32 m = load_host (take 4 m)"
  by (drule split_at_4)
    (auto simp: GetLE32_def Get8_def load_host_def be_word_def push_bit_or ac_simps)

lemma GetLE64_eq: "8 \<le> length m \<Longrightarrow> GetLE64 m = load_host (take 8 m)"
  by (drule split_at_8)
    (auto simp: GetLE64_def Get8_def load_host_def be_word_def push_bit_or ac_simps)

lemma GetLE16_eq: "2 \<le> length m \<Longrightarrow> GetLE16 m = load_host (take 2 m)"
  by (drule split_at_2)
    (auto simp: GetLE16_def Get8_def load_host_def be_word_def bit_simps intro!: bit_word_eqI)

section \<open>Round trips\<close>

lemma length_store_host [simp]: "length (store_host n v) = n"
  by (simp add: store_host_def)

lemma load_store_host: "LENGTH('a::len) \<le> 8 * n \<Longrightarrow> load_host (store_host n (v :: 'a word)) = v"
  by (simp add: load_host_def store_host_def be_word_be_bytes)

lemma store_load_host: "8 * length m \<le> LENGTH('a::len) \<Longrightarrow> store_host (length m) (load_host m :: 'a word) = m"
  using be_bytes_be_word[of "rev m", where 'a = 'a] by (simp add: load_host_def store_host_def)

lemma not_big_endian: "\<not> IsHostBigEndian"
  by (simp add: IsHostBigEndian_def Get8_def store_host_def be_bytes_4)

lemma store_HostToNetwork:
  "store_host 2 (HostToNetwork16 a) = be_bytes 2 a"
  "store_host 4 (HostToNetwork32 b) = be_bytes 4 b"
  "store_host 8 (HostToNetwork64 c) = be_bytes 8 c"
  using store_load_host[of "be_bytes 2 a", where 'a = 16] store_load_host[of "be_bytes 4 b", where 'a = 32]
    store_load_host[of "be_bytes 8 c", where 'a = 64]
  by (simp_all add: HostToNetwork16_def HostToNetwork32_def HostToNetwork64_def SetBE16_eq SetBE32_eq SetBE64_eq)

lemma NetworkToHost_load:
  "length m2 = 2 \<Longrightarrow> NetworkToHost16 (load_host m2) = be_word m2"
  "length m4 = 4 \<Longrightarrow> NetworkToHost32 (load_host m4) = be_word m4"
  "length m8 = 8 \<Longrightarrow> NetworkToHost64 (load_host m8) = be_word m8"
  using store_load_host[of m2, where 'a = 16] store_load_host[of m4, where 'a = 32] store_load_host[of m8, where 'a = 64]
  by (simp_all add: NetworkToHost16_def NetworkToHost32_def NetworkToHost64_def GetBE16_eq GetBE32_eq GetBE64_eq)

lemma GetBE_SetBE:
  "2 \<le> length m \<Longrightarrow> GetBE16 (SetBE16 m a) = a"
  "4 \<le> length m \<Longrightarrow> GetBE32 (SetBE32 m b) = b"
  "8 \<le> length m \<Longrightarrow> GetBE64 (SetBE64 m c) = c"
  by (simp_all add: GetBE16_eq GetBE32_eq GetBE64_eq SetBE16_eq SetBE32_eq SetBE64_eq be_word_be_bytes)

lemma GetLE_SetLE:
  "2 \<le> length m \<Longrightarrow> GetLE16 (SetLE16 m a) = a"
  "4 \<le> length m \<Longrightarrow> GetLE32 (SetLE32 m b) = b"
  "8 \<le> length m \<Longrightarrow> GetLE64 (SetLE64 m c) = c"
  by (simp_all add: GetLE16_eq GetLE32_eq GetLE64_eq SetLE16_eq SetLE32_eq SetLE64_eq load_store_host)

lemma NetworkToHost_HostToNetwork [simp]:
  "NetworkToHost16 (HostToNetwork16 a) = a"
  "NetworkToHost32 (HostToNetwork32 b) = b"
  "NetworkToHost64 (HostToNetwork64 c) = c"
  by (simp_all add: NetworkToHost16_def NetworkToHost32_def NetworkToHost64_def store_HostToNetwork
      GetBE16_eq GetBE32_eq GetBE64_eq be_word_be_bytes)

end
