(* ===== verification/ByteBuf.thy ===== *)
theory ByteBuf
  imports ByteOrder
begin

text \<open>
  \<^verbatim>\<open>talk/base/bytebuffer.h\<close> and \<^verbatim>\<open>bytebuffer.cc\<close>: the growable
  buffer that the STUN codec and the PseudoTcp options are read from and written to.

  The record holds the class's members; \<^verbatim>\<open>size_\<close> is the length of the
  allocation \<open>bb_bytes\<close>. Fresh memory (\<^verbatim>\<open>new char[n]\<close>) is modelled as
  zeros; \<open>content\<close> below, which is all a reader can obtain, never includes it.
  Read operations return \<open>None\<close> where the code returns false; they leave the
  buffer as it was in that case.

  The locale \<open>byte_stream\<close> states what a client relies on: a written byte string
  is appended to the content, a read takes a prefix off it and fails exactly when there is
  not enough. It is interpreted on the model as \<open>bb\<close>; the STUN theories use the
  buffer through these laws.
\<close>

section \<open>The interface\<close>

locale byte_stream =
  fixes inv :: "'b \<Rightarrow> bool"
    and content :: "'b \<Rightarrow> u8 list"
    and put :: "'b \<Rightarrow> u8 list \<Rightarrow> 'b"
    and get :: "'b \<Rightarrow> nat \<Rightarrow> (u8 list \<times> 'b) option"
    and skip :: "'b \<Rightarrow> nat \<Rightarrow> 'b option"
  assumes put_inv: "inv b \<Longrightarrow> inv (put b v)"
    and put_content: "inv b \<Longrightarrow> content (put b v) = content b @ v"
    and get_some: "inv b \<Longrightarrow> n \<le> length (content b) \<Longrightarrow>
      \<exists>b'. get b n = Some (take n (content b), b') \<and> inv b' \<and> content b' = drop n (content b)"
    and get_none: "inv b \<Longrightarrow> length (content b) < n \<Longrightarrow> get b n = None"
    and skip_some: "inv b \<Longrightarrow> n \<le> length (content b) \<Longrightarrow>
      \<exists>b'. skip b n = Some b' \<and> inv b' \<and> content b' = drop n (content b)"
    and skip_none: "inv b \<Longrightarrow> length (content b) < n \<Longrightarrow> skip b n = None"
begin

lemma get_prefix:
  assumes "inv b" "content b = u @ rest" "n = length u"
  shows "\<exists>b'. get b n = Some (u, b') \<and> inv b' \<and> content b' = rest"
  using get_some[OF assms(1), of n] assms by simp

lemma skip_prefix:
  assumes "inv b" "content b = u @ rest" "n = length u"
  shows "\<exists>b'. skip b n = Some b' \<and> inv b' \<and> content b' = rest"
  using skip_some[OF assms(1), of n] assms by simp

lemma get_cases:
  assumes "inv b" "get b n = r"
  obtains "r = None" "length (content b) < n"
  | b' where "r = Some (take n (content b), b')" "inv b'" "content b' = drop n (content b)" "n \<le> length (content b)"
  using assms get_some[of b n] get_none[of b n] by (cases "n \<le> length (content b)") auto

lemma skip_cases:
  assumes "inv b" "skip b n = r"
  obtains "r = None" "length (content b) < n"
  | b' where "r = Some b'" "inv b'" "content b' = drop n (content b)" "n \<le> length (content b)"
  using assms skip_some[of b n] skip_none[of b n] by (cases "n \<le> length (content b)") auto

text \<open>What was written to an empty stream is read back, in order.\<close>

lemma put_then_get:
  assumes "inv b" "content b = []"
  shows "\<exists>b1 b2. get (put (put b u) v) (length u) = Some (u, b1) \<and>
                 get b1 (length v) = Some (v, b2) \<and> content b2 = []"
proof -
  have "inv (put (put b u) v)" "content (put (put b u) v) = u @ v"
    using assms by (simp_all add: put_inv put_content)
  then obtain b1 where b1: "get (put (put b u) v) (length u) = Some (u, b1)" "inv b1" "content b1 = v"
    using get_prefix by blast
  then obtain b2 where "get b1 (length v) = Some (v, b2)" "content b2 = []"
    using get_prefix[of b1 v "[]"] by auto
  with b1 show ?thesis by blast
qed

end

section \<open>State\<close>

datatype ByteOrder = ORDER_NETWORK | ORDER_HOST

record ByteBuffer =
  bb_bytes :: "u8 list"
  bb_start :: nat
  bb_end :: nat
  bb_version :: int
  bb_order :: ByteOrder

definition DEFAULT_SIZE :: nat where
  "DEFAULT_SIZE = 4096"

definition bb_size :: "ByteBuffer \<Rightarrow> nat" where
  "bb_size b = length (bb_bytes b)"

definition Length :: "ByteBuffer \<Rightarrow> nat" where
  "Length b = bb_end b - bb_start b"

definition Capacity :: "ByteBuffer \<Rightarrow> nat" where
  "Capacity b = bb_size b - bb_start b"

definition Data :: "ByteBuffer \<Rightarrow> u8 list" where
  "Data b = drop (bb_start b) (bb_bytes b)"

text \<open>\<^verbatim>\<open>Construct(bytes, len, order)\<close>: \<open>None\<close> is a null \<^verbatim>\<open>bytes\<close>.\<close>

definition Construct :: "u8 list option \<Rightarrow> nat \<Rightarrow> ByteOrder \<Rightarrow> ByteBuffer" where
  "Construct bytes len order =
     (case bytes of
        Some src \<Rightarrow> \<lparr>bb_bytes = blit (replicate len 0) 0 (take len src), bb_start = 0, bb_end = len, bb_version = 0, bb_order = order\<rparr>
      | None \<Rightarrow> \<lparr>bb_bytes = replicate len 0, bb_start = 0, bb_end = 0, bb_version = 0, bb_order = order\<rparr>)"

definition ByteBuffer_empty :: "ByteOrder \<Rightarrow> ByteBuffer" where
  "ByteBuffer_empty order = Construct None DEFAULT_SIZE order"

definition ByteBuffer_of :: "u8 list \<Rightarrow> ByteBuffer" where
  "ByteBuffer_of bytes = Construct (Some bytes) (length bytes) ORDER_NETWORK"

section \<open>Reading\<close>

definition ReadBytes :: "ByteBuffer \<Rightarrow> nat \<Rightarrow> (u8 list \<times> ByteBuffer) option" where
  "ReadBytes b len =
     (if len > Length b then None
      else Some (chunk (bb_start b) len (bb_bytes b), b\<lparr>bb_start := bb_start b + len\<rparr>))"

definition ReadString :: "ByteBuffer \<Rightarrow> u8 list \<Rightarrow> nat \<Rightarrow> (u8 list \<times> ByteBuffer) option" where
  "ReadString b val len =
     (if len > Length b then None
      else Some (val @ chunk (bb_start b) len (bb_bytes b), b\<lparr>bb_start := bb_start b + len\<rparr>))"

definition ReadUInt8 :: "ByteBuffer \<Rightarrow> (u8 \<times> ByteBuffer) option" where
  "ReadUInt8 b = (case ReadBytes b 1 of None \<Rightarrow> None | Some (m, b') \<Rightarrow> Some (Get8 m 0, b'))"

definition ReadUInt16 :: "ByteBuffer \<Rightarrow> (u16 \<times> ByteBuffer) option" where
  "ReadUInt16 b =
     (case ReadBytes b 2 of
        None \<Rightarrow> None
      | Some (m, b') \<Rightarrow>
          let v = load_host m
          in Some (if bb_order b = ORDER_NETWORK then NetworkToHost16 v else v, b'))"

definition ReadUInt24 :: "ByteBuffer \<Rightarrow> (u32 \<times> ByteBuffer) option" where
  "ReadUInt24 b =
     (let off = (if bb_order b = ORDER_NETWORK \<or> IsHostBigEndian then 1 else 0)
      in case ReadBytes b 3 of
           None \<Rightarrow> None
         | Some (m, b') \<Rightarrow>
             let v = load_host (blit (store_host 4 (0 :: u32)) off m)
             in Some (if bb_order b = ORDER_NETWORK then NetworkToHost32 v else v, b'))"

definition ReadUInt32 :: "ByteBuffer \<Rightarrow> (u32 \<times> ByteBuffer) option" where
  "ReadUInt32 b =
     (case ReadBytes b 4 of
        None \<Rightarrow> None
      | Some (m, b') \<Rightarrow>
          let v = load_host m
          in Some (if bb_order b = ORDER_NETWORK then NetworkToHost32 v else v, b'))"

definition ReadUInt64 :: "ByteBuffer \<Rightarrow> (u64 \<times> ByteBuffer) option" where
  "ReadUInt64 b =
     (case ReadBytes b 8 of
        None \<Rightarrow> None
      | Some (m, b') \<Rightarrow>
          let v = load_host m
          in Some (if bb_order b = ORDER_NETWORK then NetworkToHost64 v else v, b'))"

section \<open>Writing\<close>

definition Resize :: "ByteBuffer \<Rightarrow> nat \<Rightarrow> ByteBuffer" where
  "Resize b sz =
     (let len = min (bb_end b - bb_start b) sz;
          kept = chunk (bb_start b) len (bb_bytes b);
          bytes = (if sz \<le> bb_size b then blit (bb_bytes b) 0 kept
                   else blit (replicate (max sz (3 * bb_size b div 2)) 0) 0 kept)
      in b\<lparr>bb_bytes := bytes, bb_start := 0, bb_end := len, bb_version := bb_version b + 1\<rparr>)"

text \<open>
  \<^verbatim>\<open>ReserveWriteBuffer(len)\<close> returns the pointer as an offset into the
  (possibly reallocated) array.
\<close>

definition ReserveWriteBuffer :: "ByteBuffer \<Rightarrow> nat \<Rightarrow> nat \<times> ByteBuffer" where
  "ReserveWriteBuffer b len =
     (let b = (if Length b + len > Capacity b then Resize b (Length b + len) else b);
          start = bb_end b
      in (start, b\<lparr>bb_end := bb_end b + len\<rparr>))"

definition WriteBytes :: "ByteBuffer \<Rightarrow> u8 list \<Rightarrow> ByteBuffer" where
  "WriteBytes b val =
     (let (start, b) = ReserveWriteBuffer b (length val)
      in b\<lparr>bb_bytes := blit (bb_bytes b) start val\<rparr>)"

definition WriteString :: "ByteBuffer \<Rightarrow> u8 list \<Rightarrow> ByteBuffer" where
  "WriteString b val = WriteBytes b val"

definition WriteUInt8 :: "ByteBuffer \<Rightarrow> u8 \<Rightarrow> ByteBuffer" where
  "WriteUInt8 b val = WriteBytes b [val]"

definition WriteUInt16 :: "ByteBuffer \<Rightarrow> u16 \<Rightarrow> ByteBuffer" where
  "WriteUInt16 b val =
     (let v = (if bb_order b = ORDER_NETWORK then HostToNetwork16 val else val)
      in WriteBytes b (store_host 2 v))"

definition WriteUInt24 :: "ByteBuffer \<Rightarrow> u32 \<Rightarrow> ByteBuffer" where
  "WriteUInt24 b val =
     (let v = (if bb_order b = ORDER_NETWORK then HostToNetwork32 val else val);
          off = (if bb_order b = ORDER_NETWORK \<or> IsHostBigEndian then 1 else 0)
      in WriteBytes b (chunk off 3 (store_host 4 v)))"

definition WriteUInt32 :: "ByteBuffer \<Rightarrow> u32 \<Rightarrow> ByteBuffer" where
  "WriteUInt32 b val =
     (let v = (if bb_order b = ORDER_NETWORK then HostToNetwork32 val else val)
      in WriteBytes b (store_host 4 v))"

definition WriteUInt64 :: "ByteBuffer \<Rightarrow> u64 \<Rightarrow> ByteBuffer" where
  "WriteUInt64 b val =
     (let v = (if bb_order b = ORDER_NETWORK then HostToNetwork64 val else val)
      in WriteBytes b (store_host 8 v))"

section \<open>Positions\<close>

definition Consume :: "ByteBuffer \<Rightarrow> nat \<Rightarrow> ByteBuffer option" where
  "Consume b sz = (if sz > Length b then None else Some (b\<lparr>bb_start := bb_start b + sz\<rparr>))"

record ReadPosition =
  rp_start :: nat
  rp_version :: int

definition GetReadPosition :: "ByteBuffer \<Rightarrow> ReadPosition" where
  "GetReadPosition b = \<lparr>rp_start = bb_start b, rp_version = bb_version b\<rparr>"

definition SetReadPosition :: "ByteBuffer \<Rightarrow> ReadPosition \<Rightarrow> ByteBuffer option" where
  "SetReadPosition b position =
     (if rp_version position \<noteq> bb_version b then None else Some (b\<lparr>bb_start := rp_start position\<rparr>))"

definition Clear :: "ByteBuffer \<Rightarrow> ByteBuffer" where
  "Clear b = b\<lparr>bb_bytes := replicate (bb_size b) 0, bb_start := 0, bb_end := 0, bb_version := bb_version b + 1\<rparr>"

section \<open>Invariant and content\<close>

definition bb_inv :: "ByteBuffer \<Rightarrow> bool" where
  "bb_inv b \<longleftrightarrow> bb_start b \<le> bb_end b \<and> bb_end b \<le> length (bb_bytes b)"

definition content :: "ByteBuffer \<Rightarrow> u8 list" where
  "content b = chunk (bb_start b) (Length b) (bb_bytes b)"

text \<open>A buffer in network order, as the codecs use it.\<close>

definition bb_net :: "ByteBuffer \<Rightarrow> bool" where
  "bb_net b \<longleftrightarrow> bb_inv b \<and> bb_order b = ORDER_NETWORK"

lemma length_content [simp]: "bb_inv b \<Longrightarrow> length (content b) = Length b"
  by (simp add: content_def Length_def bb_inv_def)

lemma Resize_inv: "bb_inv b \<Longrightarrow> bb_inv (Resize b n)"
  by (auto simp: Resize_def bb_inv_def Let_def bb_size_def min_def)

lemma Resize_content:
  assumes "bb_inv b" "Length b \<le> n"
  shows "content (Resize b n) = content b" "Length (Resize b n) = Length b"
    "n \<le> length (bb_bytes (Resize b n))"
  using assms by (auto simp: Resize_def bb_inv_def Let_def bb_size_def content_def Length_def chunk_def blit_def min_def)

lemma ReserveWriteBuffer_spec:
  assumes "bb_inv b" "ReserveWriteBuffer b n = (p, b')"
  shows "p = bb_end b' - n" "n \<le> bb_end b'" "bb_start b' \<le> p" "bb_end b' \<le> length (bb_bytes b')"
    "chunk (bb_start b') (p - bb_start b') (bb_bytes b') = content b" "bb_order b' = bb_order b"
proof -
  define c where "c = (if Length b + n > Capacity b then Resize b (Length b + n) else b)"
  have c: "bb_inv c" "content c = content b" "bb_end c + n \<le> length (bb_bytes c)" "bb_order c = bb_order b"
    using assms(1) Resize_inv[OF assms(1)] Resize_content[OF assms(1), of "Length b + n"]
    by (auto simp: c_def Capacity_def Length_def bb_size_def bb_inv_def Resize_def Let_def)
  have "p = bb_end c" "b' = c\<lparr>bb_end := bb_end c + n\<rparr>"
    using assms(2) unfolding ReserveWriteBuffer_def Let_def c_def[symmetric] by auto
  with c show "p = bb_end b' - n" "n \<le> bb_end b'" "bb_start b' \<le> p" "bb_end b' \<le> length (bb_bytes b')"
    "chunk (bb_start b') (p - bb_start b') (bb_bytes b') = content b" "bb_order b' = bb_order b"
    by (auto simp: content_def Length_def bb_inv_def)
qed

lemma WriteBytes_spec:
  assumes "bb_inv b"
  shows "bb_inv (WriteBytes b v)" "content (WriteBytes b v) = content b @ v"
    "bb_order (WriteBytes b v) = bb_order b"
proof -
  obtain p b' where r: "ReserveWriteBuffer b (length v) = (p, b')" by fastforce
  note s = ReserveWriteBuffer_spec[OF assms r]
  have w: "WriteBytes b v = b'\<lparr>bb_bytes := blit (bb_bytes b') p v\<rparr>"
    using r by (simp add: WriteBytes_def)
  show "bb_inv (WriteBytes b v)" "bb_order (WriteBytes b v) = bb_order b"
    using s by (simp_all add: w bb_inv_def)
  have e: "Length (WriteBytes b v) = (p - bb_start b') + length v" using s(1-3) by (simp add: w Length_def)
  have "content (WriteBytes b v) =
      chunk (bb_start b') (p - bb_start b') (blit (bb_bytes b') p v) @ chunk p (length v) (blit (bb_bytes b') p v)"
    using s(3) unfolding content_def e chunk_add by (simp add: w)
  moreover have "chunk (bb_start b') (p - bb_start b') (blit (bb_bytes b') p v) = content b"
    using s by (simp add: chunk_def blit_def flip: s(5) take_drop) (simp add: take_drop min_def)
  moreover have "chunk p (length v) (blit (bb_bytes b') p v) = v"
    using s(1,2,4) by (simp add: chunk_def blit_def)
  ultimately show "content (WriteBytes b v) = content b @ v" by simp
qed

lemma ReadBytes_some:
  assumes "bb_inv b" "n \<le> length (content b)"
  shows "\<exists>b'. ReadBytes b n = Some (take n (content b), b') \<and> bb_inv b' \<and> content b' = drop n (content b)"
  using assms
  by (auto simp: ReadBytes_def bb_inv_def content_def Length_def take_chunk drop_chunk)

lemma Consume_some:
  assumes "bb_inv b" "n \<le> length (content b)"
  shows "\<exists>b'. Consume b n = Some b' \<and> bb_inv b' \<and> content b' = drop n (content b)"
  using assms by (auto simp: Consume_def bb_inv_def content_def Length_def drop_chunk)

interpretation bb: byte_stream bb_inv content WriteBytes ReadBytes Consume
proof unfold_locales
  fix b n
  show "bb_inv b \<Longrightarrow> length (content b) < n \<Longrightarrow> ReadBytes b n = None"
    "bb_inv b \<Longrightarrow> length (content b) < n \<Longrightarrow> Consume b n = None"
    by (simp_all add: ReadBytes_def Consume_def)
qed (use WriteBytes_spec ReadBytes_some Consume_some in auto)

section \<open>Integers in network order\<close>

lemma bb_net_inv: "bb_net b \<Longrightarrow> bb_inv b"
  by (simp add: bb_net_def)

lemma WriteBytes_net [simp]: "bb_net b \<Longrightarrow> bb_net (WriteBytes b v)"
  by (simp add: bb_net_def WriteBytes_spec)

lemma content_WriteBytes [simp]: "bb_net b \<Longrightarrow> content (WriteBytes b v) = content b @ v"
  by (simp add: bb_net_def bb.put_content)

lemma WriteUInt_WriteBytes:
  assumes "bb_net b"
  shows "WriteUInt8 b v8 = WriteBytes b (be_bytes 1 v8)"
    "WriteUInt16 b v16 = WriteBytes b (be_bytes 2 v16)"
    "WriteUInt24 b v32 = WriteBytes b (be_bytes 3 v32)"
    "WriteUInt32 b v32 = WriteBytes b (be_bytes 4 v32)"
    "WriteUInt64 b v64 = WriteBytes b (be_bytes 8 v64)"
    "WriteString b s = WriteBytes b s"
proof -
  have "chunk 1 3 (be_bytes 4 v32) = be_bytes 3 v32"
    by (simp add: chunk_def be_bytes_3 be_bytes_4)
  then show "WriteUInt24 b v32 = WriteBytes b (be_bytes 3 v32)"
    using assms by (simp add: bb_net_def WriteUInt24_def store_HostToNetwork)
qed (use assms in \<open>simp_all add: bb_net_def WriteUInt8_def WriteUInt16_def WriteUInt32_def WriteUInt64_def
       WriteString_def store_HostToNetwork be_bytes_1\<close>)

lemma ReadBytes_net: "bb_net b \<Longrightarrow> ReadBytes b n = Some (m, b') \<Longrightarrow> bb_net b'"
  by (auto simp: bb_net_def bb_inv_def ReadBytes_def Length_def split: if_splits)

lemma Consume_net: "bb_net b \<Longrightarrow> Consume b n = Some b' \<Longrightarrow> bb_net b'"
  by (auto simp: bb_net_def bb_inv_def Consume_def Length_def split: if_splits)

lemma ReadBytes_prefix:
  assumes "bb_net b" "content b = u @ rest" "n = length u"
  shows "\<exists>b'. ReadBytes b n = Some (u, b') \<and> bb_net b' \<and> content b' = rest"
  using bb.get_prefix[OF bb_net_inv[OF assms(1)] assms(2,3)] ReadBytes_net[OF assms(1)] by blast

lemma Consume_prefix:
  assumes "bb_net b" "content b = u @ rest" "n = length u"
  shows "\<exists>b'. Consume b n = Some b' \<and> bb_net b' \<and> content b' = rest"
  using bb.skip_prefix[OF bb_net_inv[OF assms(1)] assms(2,3)] Consume_net[OF assms(1)] by blast

lemma ReadString_ReadBytes:
  "ReadString b val n = (case ReadBytes b n of None \<Rightarrow> None | Some (m, b') \<Rightarrow> Some (val @ m, b'))"
  by (simp add: ReadString_def ReadBytes_def)

lemma be_word_byte: "be_word [b] = (b :: u8)"
  using be_word_be_bytes[where 'a = 8, of 1 b] by (simp add: be_bytes_1)

lemma ReadUInt_ReadBytes:
  assumes "bb_net b"
  shows "ReadUInt8 b = map_option (map_prod be_word id) (ReadBytes b 1)"
    "ReadUInt16 b = map_option (map_prod be_word id) (ReadBytes b 2)"
    "ReadUInt24 b = map_option (map_prod be_word id) (ReadBytes b 3)"
    "ReadUInt32 b = map_option (map_prod be_word id) (ReadBytes b 4)"
    "ReadUInt64 b = map_option (map_prod be_word id) (ReadBytes b 8)"
proof -
  have len: "length m = n" if "ReadBytes b n = Some (m, b')" for n m b'
    using that bb_net_inv[OF assms] by (auto simp: ReadBytes_def bb_inv_def Length_def split: if_splits)
  have one: "Get8 m 0 = be_word m" if "length m = 1" for m
    using that by (cases m) (auto simp: Get8_def be_word_byte)
  have three: "NetworkToHost32 (load_host (blit (store_host 4 (0 :: u32)) (Suc 0) m)) = be_word m" if "length m = 3" for m
  proof -
    have "blit (store_host 4 (0 :: u32)) (Suc 0) m = 0 # m"
      using that by (simp add: blit_def store_host_def be_bytes_4)
    then show ?thesis
      using that by (simp add: NetworkToHost_load(2)) (simp add: be_word_def)
  qed
  show "ReadUInt8 b = map_option (map_prod be_word id) (ReadBytes b 1)"
    by (auto simp: ReadUInt8_def one dest!: len split: option.splits)
  show "ReadUInt24 b = map_option (map_prod be_word id) (ReadBytes b 3)"
    using assms by (auto simp: ReadUInt24_def bb_net_def Let_def three dest!: len split: option.splits)
  show "ReadUInt16 b = map_option (map_prod be_word id) (ReadBytes b 2)"
    "ReadUInt32 b = map_option (map_prod be_word id) (ReadBytes b 4)"
    "ReadUInt64 b = map_option (map_prod be_word id) (ReadBytes b 8)"
    using assms
    by (auto simp: ReadUInt16_def ReadUInt32_def ReadUInt64_def bb_net_def NetworkToHost_load dest!: len split: option.splits)
qed

text \<open>Reading back an integer that stands at the front of the buffer.\<close>

lemma ReadUInt_prefix:
  assumes "bb_net b"
  shows "content b = be_bytes 1 v8 @ rest \<Longrightarrow> \<exists>b'. ReadUInt8 b = Some (v8, b') \<and> bb_net b' \<and> content b' = rest"
    "content b = be_bytes 2 v16 @ rest \<Longrightarrow> \<exists>b'. ReadUInt16 b = Some (v16, b') \<and> bb_net b' \<and> content b' = rest"
    "content b = be_bytes 4 v32 @ rest \<Longrightarrow> \<exists>b'. ReadUInt32 b = Some (v32, b') \<and> bb_net b' \<and> content b' = rest"
    "content b = be_bytes 8 v64 @ rest \<Longrightarrow> \<exists>b'. ReadUInt64 b = Some (v64, b') \<and> bb_net b' \<and> content b' = rest"
  using ReadBytes_prefix[OF assms, of "be_bytes 1 v8" rest 1] ReadBytes_prefix[OF assms, of "be_bytes 2 v16" rest 2]
    ReadBytes_prefix[OF assms, of "be_bytes 4 v32" rest 4] ReadBytes_prefix[OF assms, of "be_bytes 8 v64" rest 8]
  by (auto simp: ReadUInt_ReadBytes[OF assms] be_word_be_bytes)

lemma bb_net_empty [simp]: "bb_net (ByteBuffer_empty ORDER_NETWORK)" "content (ByteBuffer_empty ORDER_NETWORK) = []"
  by (simp_all add: ByteBuffer_empty_def Construct_def bb_net_def bb_inv_def content_def Length_def)

lemma bb_net_of [simp]: "bb_net (ByteBuffer_of m)" "content (ByteBuffer_of m) = m"
  by (simp_all add: ByteBuffer_of_def Construct_def bb_net_def bb_inv_def content_def Length_def chunk_def blit_def)

lemma Length_content: "bb_net b \<Longrightarrow> Length b = length (content b)"
  by (simp add: bb_net_def)

lemma Data_content: "bb_net b \<Longrightarrow> take (Length b) (Data b) = content b"
  by (simp add: Data_def content_def chunk_def)

section \<open>Reading what stands in front\<close>

text \<open>\<open>bb_at b xs\<close>: the unread content of a network-order buffer is \<open>xs\<close>.\<close>

definition bb_at :: "ByteBuffer \<Rightarrow> u8 list \<Rightarrow> bool" where
  "bb_at b xs \<longleftrightarrow> bb_net b \<and> content b = xs"

lemma bb_at_read:
  "bb_at b (be_bytes 1 v8 @ r) \<Longrightarrow> \<exists>b'. ReadUInt8 b = Some (v8, b') \<and> bb_at b' r"
  "bb_at b (be_bytes 2 v16 @ r) \<Longrightarrow> \<exists>b'. ReadUInt16 b = Some (v16, b') \<and> bb_at b' r"
  "bb_at b (be_bytes 4 v32 @ r) \<Longrightarrow> \<exists>b'. ReadUInt32 b = Some (v32, b') \<and> bb_at b' r"
  "bb_at b (be_bytes 8 v64 @ r) \<Longrightarrow> \<exists>b'. ReadUInt64 b = Some (v64, b') \<and> bb_at b' r"
  using ReadUInt_prefix[of b] by (auto simp: bb_at_def)

lemma bb_at_bytes:
  "bb_at b (u @ r) \<Longrightarrow> n = length u \<Longrightarrow> \<exists>b'. ReadBytes b n = Some (u, b') \<and> bb_at b' r"
  "bb_at b (u @ r) \<Longrightarrow> n = length u \<Longrightarrow> \<exists>b'. ReadString b s n = Some (s @ u, b') \<and> bb_at b' r"
  "bb_at b (u @ r) \<Longrightarrow> n = length u \<Longrightarrow> \<exists>b'. Consume b n = Some b' \<and> bb_at b' r"
  using ReadBytes_prefix[of b u r n] Consume_prefix[of b u r n]
  by (auto simp: bb_at_def ReadString_ReadBytes)

lemma bb_at_write:
  "bb_at b xs \<Longrightarrow> bb_at (WriteBytes b v) (xs @ v)"
  "bb_at b xs \<Longrightarrow> bb_at (WriteString b v) (xs @ v)"
  "bb_at b xs \<Longrightarrow> bb_at (WriteUInt8 b v8) (xs @ be_bytes 1 v8)"
  "bb_at b xs \<Longrightarrow> bb_at (WriteUInt16 b v16) (xs @ be_bytes 2 v16)"
  "bb_at b xs \<Longrightarrow> bb_at (WriteUInt32 b v32) (xs @ be_bytes 4 v32)"
  "bb_at b xs \<Longrightarrow> bb_at (WriteUInt64 b v64) (xs @ be_bytes 8 v64)"
  by (auto simp: bb_at_def WriteUInt_WriteBytes)

lemma bb_at_new: "bb_at (ByteBuffer_empty ORDER_NETWORK) []" "bb_at (ByteBuffer_of m) m"
  by (simp_all add: bb_at_def)

lemma bb_at_Length: "bb_at b xs \<Longrightarrow> Length b = length xs"
  by (simp add: bb_at_def Length_content)

text \<open>A successful read shortens the buffer by what it read; no invariant is needed.\<close>

lemma Read_Length:
  "ReadBytes b n = Some (m, b') \<Longrightarrow> Length b' + n = Length b"
  "ReadString b s n = Some (m, b') \<Longrightarrow> Length b' + n = Length b"
  "Consume b n = Some b' \<Longrightarrow> Length b' + n = Length b"
  by (auto simp: ReadBytes_def ReadString_def Consume_def Length_def split: if_splits)

lemma ReadUInt_Length:
  "ReadUInt8 b = Some (v8, b') \<Longrightarrow> Length b' + 1 = Length b"
  "ReadUInt16 b = Some (v16, b') \<Longrightarrow> Length b' + 2 = Length b"
  "ReadUInt32 b = Some (v32, b') \<Longrightarrow> Length b' + 4 = Length b"
  "ReadUInt64 b = Some (v64, b') \<Longrightarrow> Length b' + 8 = Length b"
  by (auto simp: ReadUInt8_def ReadUInt16_def ReadUInt32_def ReadUInt64_def Let_def split: option.splits
      dest!: Read_Length(1))

section \<open>Properties\<close>

text \<open>C26: Integers of 8, 16, 32 and 64 bits and a byte string, written to an empty buffer in network order,
  are read back in the order they were written, and nothing is left.\<close>
theorem ByteBuffer_roundtrip:
  "let b = ByteBuffer_empty ORDER_NETWORK;
       b = WriteUInt8 b v8; b = WriteUInt16 b v16; b = WriteUInt32 b v32; b = WriteUInt64 b v64; b = WriteString b s
   in \<exists>b1 b2 b3 b4 b5.
        ReadUInt8 b = Some (v8, b1) \<and> ReadUInt16 b1 = Some (v16, b2) \<and> ReadUInt32 b2 = Some (v32, b3) \<and>
        ReadUInt64 b3 = Some (v64, b4) \<and> ReadString b4 [] (length s) = Some (s, b5) \<and> Length b5 = 0"
proof -
  let ?e = "ByteBuffer_empty ORDER_NETWORK"
  let ?b = "WriteString (WriteUInt64 (WriteUInt32 (WriteUInt16 (WriteUInt8 ?e v8) v16) v32) v64) s"
  have b: "bb_net ?b"
    "content ?b = be_bytes 1 v8 @ be_bytes 2 v16 @ be_bytes 4 v32 @ be_bytes 8 v64 @ s"
    by (simp_all add: WriteUInt_WriteBytes WriteBytes_net WriteString_def content_WriteBytes)
  from ReadUInt_prefix(1)[OF b(1) b(2)] obtain b1 where b1: "ReadUInt8 ?b = Some (v8, b1)" "bb_net b1"
    "content b1 = be_bytes 2 v16 @ be_bytes 4 v32 @ be_bytes 8 v64 @ s" by blast
  from ReadUInt_prefix(2)[OF b1(2,3)] obtain b2 where b2: "ReadUInt16 b1 = Some (v16, b2)" "bb_net b2"
    "content b2 = be_bytes 4 v32 @ be_bytes 8 v64 @ s" by blast
  from ReadUInt_prefix(3)[OF b2(2,3)] obtain b3 where b3: "ReadUInt32 b2 = Some (v32, b3)" "bb_net b3"
    "content b3 = be_bytes 8 v64 @ s" by blast
  from ReadUInt_prefix(4)[OF b3(2,3)] obtain b4 where b4: "ReadUInt64 b3 = Some (v64, b4)" "bb_net b4"
    "content b4 = s" by blast
  from ReadBytes_prefix[OF b4(2), of s "[]" "length s"] b4(3)
  obtain b5 where b5: "ReadBytes b4 (length s) = Some (s, b5)" "bb_net b5" "content b5 = []" by auto
  have "ReadString b4 [] (length s) = Some (s, b5)"
    using b5(1) by (simp add: ReadString_ReadBytes)
  moreover have "Length b5 = 0" using b5(2,3) by (simp add: Length_content)
  ultimately show ?thesis using b1(1) b2(1) b3(1) b4(1) by (simp add: Let_def)
qed

end
