(* ===== verification/FifoBuf.thy ===== *)
theory FifoBuf
  imports Prelude
begin

text \<open>
  \<^verbatim>\<open>FifoBuffer\<close> of \<^verbatim>\<open>talk/base/stream.h\<close> and
  \<^verbatim>\<open>stream.cc\<close>: the circular byte buffer that holds PseudoTcp's send and receive
  windows. The record has the class's members (\<^verbatim>\<open>buffer_length_\<close> is the length
  of \<open>f_buffer\<close>) and the events it posted to its owner thread; the lock makes each method
  one step, so a method is one function here. A new buffer, whose memory the code leaves uninitialised, is
  filled with zeros here; no reader sees a byte that has not been written. The subtractions of the code are of
  unsigned numbers and would wrap below zero, those here stop there: the two differ only after a call
  that breaks one of the class's assertions, which are the hypotheses of the lemmas.

  The abstract state is \<open>queue f\<close>, the readable bytes in order, and \<open>view f\<close>,
  the whole buffer rotated so that the readable bytes come first and the writable ones follow.
  The locales \<open>byte_fifo\<close> and \<open>byte_window\<close> state what the clients rely on
  (append, read at an offset, consume; write ahead of the queue and commit later); they are
  interpreted on the model at the end of the theory.
\<close>

section \<open>Interfaces\<close>

locale byte_fifo =
  fixes inv :: "'f \<Rightarrow> bool"
    and queue :: "'f \<Rightarrow> u8 list"
    and cap :: "'f \<Rightarrow> nat"
    and append :: "'f \<Rightarrow> u8 list \<Rightarrow> 'f"
    and peek :: "'f \<Rightarrow> nat \<Rightarrow> nat \<Rightarrow> u8 list option"
    and dequeue :: "'f \<Rightarrow> nat \<Rightarrow> 'f"
  assumes queue_cap: "inv f \<Longrightarrow> length (queue f) \<le> cap f"
    and append_inv: "inv f \<Longrightarrow> inv (append f d)"
    and append_cap: "inv f \<Longrightarrow> cap (append f d) = cap f"
    and append_queue: "inv f \<Longrightarrow> queue (append f d) = queue f @ take (cap f - length (queue f)) d"
    and peek_queue: "inv f \<Longrightarrow> peek f n off =
      (if off < length (queue f) then Some (take n (drop off (queue f))) else None)"
    and dequeue_inv: "inv f \<Longrightarrow> n \<le> length (queue f) \<Longrightarrow> inv (dequeue f n)"
    and dequeue_cap: "inv f \<Longrightarrow> n \<le> length (queue f) \<Longrightarrow> cap (dequeue f n) = cap f"
    and dequeue_queue: "inv f \<Longrightarrow> n \<le> length (queue f) \<Longrightarrow> queue (dequeue f n) = drop n (queue f)"
begin

lemma append_fits:
  assumes "inv f" "length (queue f) + length d \<le> cap f"
  shows "queue (append f d) = queue f @ d"
  using assms by (simp add: append_queue)

lemma peek_appended:
  assumes "inv f" "length (queue f) + length d \<le> cap f" "d \<noteq> []"
  shows "peek (append f d) (length d) (length (queue f)) = Some d"
  using assms by (simp add: peek_queue append_inv append_fits)

lemma peek_after_dequeue:
  assumes "inv f" "n \<le> length (queue f)"
  shows "peek (dequeue f n) m off = peek f m (n + off)"
  using assms by (auto simp: peek_queue dequeue_inv dequeue_queue add.commute)

text \<open>Bytes come out in the order they went in.\<close>

lemma fifo_order:
  assumes "inv f" "queue f = []" "length d + length e \<le> cap f"
  shows "queue (dequeue (append (append f d) e) (length d)) = e"
  using assms by (simp add: append_inv append_fits append_cap dequeue_queue)

end

locale byte_window = byte_fifo +
  fixes view :: "'f \<Rightarrow> u8 list"
    and poke :: "'f \<Rightarrow> u8 list \<Rightarrow> nat \<Rightarrow> 'f"
    and commit :: "'f \<Rightarrow> nat \<Rightarrow> 'f"
  assumes view_length: "inv f \<Longrightarrow> length (view f) = cap f"
    and view_queue: "inv f \<Longrightarrow> take (length (queue f)) (view f) = queue f"
    and poke_inv: "inv f \<Longrightarrow> inv (poke f d off)"
    and poke_queue: "inv f \<Longrightarrow> queue (poke f d off) = queue f"
    and poke_view: "inv f \<Longrightarrow> length (queue f) + off + length d \<le> cap f \<Longrightarrow>
      view (poke f d off) = blit (view f) (length (queue f) + off) d"
    and commit_inv: "inv f \<Longrightarrow> length (queue f) + n \<le> cap f \<Longrightarrow> inv (commit f n)"
    and commit_queue: "inv f \<Longrightarrow> length (queue f) + n \<le> cap f \<Longrightarrow>
      queue (commit f n) = take (length (queue f) + n) (view f)"
    and commit_view: "inv f \<Longrightarrow> length (queue f) + n \<le> cap f \<Longrightarrow> view (commit f n) = view f"
begin

text \<open>A block written at offset 0 and committed is appended.\<close>

lemma poke_commit:
  assumes "inv f" "length (queue f) + length d \<le> cap f"
  shows "queue (commit (poke f d 0) (length d)) = queue f @ d"
proof -
  have "cap (poke f d 0) = cap f"
    using assms view_length poke_inv poke_view[of f 0 d] by (metis add.right_neutral length_blit)
  then show ?thesis
    using assms by (simp add: commit_queue poke_inv poke_queue poke_view blit_at_end view_length view_queue queue_cap)
qed

text \<open>Two blocks that arrive out of order are committed in order.\<close>

lemma out_of_order:
  assumes "inv f" "length (queue f) + length d + length e \<le> cap f"
  shows "queue (commit (poke (poke f e (length d)) d 0) (length d + length e)) = queue f @ d @ e"
proof -
  let ?f1 = "poke f e (length d)" and ?q = "length (queue f)"
  have v1: "view ?f1 = blit (view f) (?q + length d) e"
    using assms by (simp add: poke_view)
  have i1: "inv ?f1" "queue ?f1 = queue f" using assms by (simp_all add: poke_inv poke_queue)
  have c1: "cap ?f1 = cap f"
    using view_length[OF i1(1)] v1 assms by (simp add: view_length)
  have v2: "view (poke ?f1 d 0) = blit (view ?f1) ?q d"
    using poke_view[OF i1(1), of 0 d] i1 c1 assms by simp
  have i2: "inv (poke ?f1 d 0)" "queue (poke ?f1 d 0) = queue f"
    using i1 by (simp_all add: poke_inv poke_queue)
  have c2: "cap (poke ?f1 d 0) = cap f"
    using view_length[OF i2(1)] v1 v2 assms by (simp add: view_length)
  have "take (?q + (length d + length e)) (view (poke ?f1 d 0)) = queue f @ d @ e"
    using assms v1 v2 view_queue[OF assms(1)] view_length[OF assms(1)]
    by (simp add: blit_def min_def take_add)
  then show ?thesis
    using commit_queue[OF i2(1), of "length d + length e"] i2 c2 assms by simp
qed

end

section \<open>State\<close>

datatype StreamState = SS_CLOSED | SS_OPENING | SS_OPEN

datatype StreamResult = SR_ERROR | SR_SUCCESS | SR_BLOCK | SR_EOS

datatype StreamEvent = SE_READ | SE_WRITE

record FifoBuffer =
  f_state :: StreamState
  f_buffer :: "u8 list"
  f_data_length :: nat
  f_read_position :: nat
  f_posted :: "StreamEvent list"

definition buffer_length :: "FifoBuffer \<Rightarrow> nat" where
  "buffer_length f = length (f_buffer f)"

definition PostEvent :: "FifoBuffer \<Rightarrow> StreamEvent \<Rightarrow> FifoBuffer" where
  "PostEvent f e = f\<lparr>f_posted := f_posted f @ [e]\<rparr>"

definition FifoBuffer_new :: "nat \<Rightarrow> FifoBuffer" where
  "FifoBuffer_new n =
     \<lparr>f_state = SS_OPEN, f_buffer = replicate n 0, f_data_length = 0, f_read_position = 0, f_posted = []\<rparr>"

definition GetBuffered :: "FifoBuffer \<Rightarrow> nat" where
  "GetBuffered f = f_data_length f"

definition GetWriteRemaining :: "FifoBuffer \<Rightarrow> nat" where
  "GetWriteRemaining f = buffer_length f - f_data_length f"

section \<open>Operations\<close>

definition SetCapacity :: "FifoBuffer \<Rightarrow> nat \<Rightarrow> bool \<times> FifoBuffer" where
  "SetCapacity f sz =
     (if f_data_length f > sz then (False, f)
      else if sz \<noteq> buffer_length f then
        (let copy = f_data_length f;
             tail_copy = min copy (buffer_length f - f_read_position f);
             buffer = blit (replicate sz 0) 0 (chunk (f_read_position f) tail_copy (f_buffer f));
             buffer = blit buffer tail_copy (chunk 0 (copy - tail_copy) (f_buffer f))
         in (True, f\<lparr>f_buffer := buffer, f_read_position := 0\<rparr>))
      else (True, f))"

text \<open>
  \<^verbatim>\<open>ReadOffsetLocked\<close> returns the result and the bytes put into the caller's
  buffer; it does not change the object.
\<close>

definition ReadOffsetLocked :: "FifoBuffer \<Rightarrow> nat \<Rightarrow> nat \<Rightarrow> StreamResult \<times> u8 list" where
  "ReadOffsetLocked f bytes offset =
     (if offset \<ge> f_data_length f then (if f_state f \<noteq> SS_CLOSED then SR_BLOCK else SR_EOS, [])
      else
        let available = f_data_length f - offset;
            read_position = (f_read_position f + offset) mod buffer_length f;
            copy = min bytes available;
            tail_copy = min copy (buffer_length f - read_position)
        in (SR_SUCCESS, chunk read_position tail_copy (f_buffer f) @ chunk 0 (copy - tail_copy) (f_buffer f)))"

text \<open>\<open>buf\<close> is the caller's memory, of which \<open>bytes\<close> bytes are offered.\<close>

definition WriteOffsetLocked ::
  "FifoBuffer \<Rightarrow> u8 list \<Rightarrow> nat \<Rightarrow> nat \<Rightarrow> StreamResult \<times> nat \<times> FifoBuffer" where
  "WriteOffsetLocked f buf bytes offset =
     (if f_state f = SS_CLOSED then (SR_EOS, 0, f)
      else if f_data_length f + offset \<ge> buffer_length f then (SR_BLOCK, 0, f)
      else
        let available = buffer_length f - f_data_length f - offset;
            write_position = (f_read_position f + f_data_length f + offset) mod buffer_length f;
            copy = min bytes available;
            tail_copy = min copy (buffer_length f - write_position);
            buffer = blit (f_buffer f) write_position (chunk 0 tail_copy buf);
            buffer = blit buffer 0 (chunk tail_copy (copy - tail_copy) buf)
        in (SR_SUCCESS, copy, f\<lparr>f_buffer := buffer\<rparr>))"

definition ReadOffset :: "FifoBuffer \<Rightarrow> nat \<Rightarrow> nat \<Rightarrow> StreamResult \<times> u8 list" where
  "ReadOffset f bytes offset = ReadOffsetLocked f bytes offset"

definition WriteOffset ::
  "FifoBuffer \<Rightarrow> u8 list \<Rightarrow> nat \<Rightarrow> nat \<Rightarrow> StreamResult \<times> nat \<times> FifoBuffer" where
  "WriteOffset f buf bytes offset = WriteOffsetLocked f buf bytes offset"

definition FifoRead :: "FifoBuffer \<Rightarrow> nat \<Rightarrow> StreamResult \<times> u8 list \<times> FifoBuffer" where
  "FifoRead f bytes =
     (let was_writable = f_data_length f < buffer_length f;
          (result, data) = ReadOffsetLocked f bytes 0;
          copy = length data
      in if result = SR_SUCCESS then
           let f = f\<lparr>f_read_position := (f_read_position f + copy) mod buffer_length f,
                     f_data_length := f_data_length f - copy\<rparr>;
               f = (if \<not> was_writable \<and> copy > 0 then PostEvent f SE_WRITE else f)
           in (result, data, f)
         else (result, [], f))"

definition FifoWrite :: "FifoBuffer \<Rightarrow> u8 list \<Rightarrow> nat \<Rightarrow> StreamResult \<times> nat \<times> FifoBuffer" where
  "FifoWrite f buf bytes =
     (let was_readable = f_data_length f > 0;
          (result, copy, f) = WriteOffsetLocked f buf bytes 0
      in if result = SR_SUCCESS then
           let f = f\<lparr>f_data_length := f_data_length f + copy\<rparr>;
               f = (if \<not> was_readable \<and> copy > 0 then PostEvent f SE_READ else f)
           in (result, copy, f)
         else (result, copy, f))"

definition FifoClose :: "FifoBuffer \<Rightarrow> FifoBuffer" where
  "FifoClose f = f\<lparr>f_state := SS_CLOSED\<rparr>"

text \<open>The pointer and size \<^verbatim>\<open>GetReadData\<close> returns, as the bytes they delimit.\<close>

definition GetReadData :: "FifoBuffer \<Rightarrow> u8 list" where
  "GetReadData f =
     (let sz = (if f_read_position f + f_data_length f \<le> buffer_length f then f_data_length f
                else buffer_length f - f_read_position f)
      in chunk (f_read_position f) sz (f_buffer f))"

definition ConsumeReadData :: "FifoBuffer \<Rightarrow> nat \<Rightarrow> FifoBuffer" where
  "ConsumeReadData f sz =
     (let was_writable = f_data_length f < buffer_length f;
          f = f\<lparr>f_read_position := (f_read_position f + sz) mod buffer_length f,
                f_data_length := f_data_length f - sz\<rparr>
      in if \<not> was_writable \<and> sz > 0 then PostEvent f SE_WRITE else f)"

text \<open>
  \<^verbatim>\<open>GetWriteBuffer\<close> returns the offset and size of the largest contiguous writable
  block, \<open>None\<close> for the null pointer.
\<close>

definition GetWriteBuffer :: "FifoBuffer \<Rightarrow> (nat \<times> nat) option \<times> FifoBuffer" where
  "GetWriteBuffer f =
     (if f_state f = SS_CLOSED then (None, f)
      else
        let f = (if f_data_length f = 0 then f\<lparr>f_read_position := 0\<rparr> else f);
            write_position = (f_read_position f + f_data_length f) mod buffer_length f;
            sz = (if write_position > f_read_position f \<or> f_data_length f = 0
                  then buffer_length f - write_position else f_read_position f - write_position)
        in (Some (write_position, sz), f))"

definition ConsumeWriteBuffer :: "FifoBuffer \<Rightarrow> nat \<Rightarrow> FifoBuffer" where
  "ConsumeWriteBuffer f sz =
     (let was_readable = f_data_length f > 0;
          f = f\<lparr>f_data_length := f_data_length f + sz\<rparr>
      in if \<not> was_readable \<and> sz > 0 then PostEvent f SE_READ else f)"

section \<open>Invariant and abstraction\<close>

definition fifo_inv :: "FifoBuffer \<Rightarrow> bool" where
  "fifo_inv f \<longleftrightarrow>
     0 < buffer_length f \<and> f_data_length f \<le> buffer_length f \<and> f_read_position f < buffer_length f"

definition view :: "FifoBuffer \<Rightarrow> u8 list" where
  "view f = rotate (f_read_position f) (f_buffer f)"

definition queue :: "FifoBuffer \<Rightarrow> u8 list" where
  "queue f = take (f_data_length f) (view f)"

lemma length_view [simp]: "length (view f) = buffer_length f"
  by (simp add: view_def buffer_length_def)

lemma length_queue [simp]: "fifo_inv f \<Longrightarrow> length (queue f) = f_data_length f"
  by (simp add: queue_def fifo_inv_def)

lemma mod_wrap:
  fixes i j n :: nat
  assumes "i < n" "j \<le> n"
  shows "(i + j) mod n = (if i + j < n then i + j else i + j - n)"
  using assms by (auto simp: mod_if)

text \<open>The two-part copy out of the ring is a contiguous piece of the view.\<close>

lemma ring_read:
  fixes buf :: "'a list" and rp :: nat
  assumes "off + copy \<le> length buf" "0 < length buf"
  defines "p \<equiv> (rp + off) mod length buf"
  defines "tail \<equiv> min copy (length buf - p)"
  shows "chunk p tail buf @ chunk 0 (copy - tail) buf = chunk off copy (rotate rp buf)"
proof (rule list_eq_nthI)
  have p: "p < length buf" using assms(2) by (simp add: p_def)
  show len: "length (chunk p tail buf @ chunk 0 (copy - tail) buf) = length (chunk off copy (rotate rp buf))"
    using assms(1) p by (simp add: tail_def chunk_def)
  fix i assume "i < length (chunk off copy (rotate rp buf))"
  then have i: "i < copy" using assms(1) by simp
  have "(rp + (off + i)) mod length buf = (p + i) mod length buf"
    by (simp add: p_def mod_add_left_eq add.assoc)
  also have "\<dots> = (if i < tail then p + i else i - tail)"
    using i assms(1) p by (auto simp: tail_def min_def mod_wrap)
  finally show "(chunk p tail buf @ chunk 0 (copy - tail) buf) ! i = chunk off copy (rotate rp buf) ! i"
    using i assms(1) p by (auto simp: nth_append nth_rotate tail_def)
qed

text \<open>The two-part copy into the ring overwrites a contiguous piece of the view.\<close>

lemma ring_write:
  fixes buf :: "'a list" and rp :: nat
  assumes "off + length d \<le> length buf" "0 < length buf"
  defines "p \<equiv> (rp + off) mod length buf"
  defines "tail \<equiv> min (length d) (length buf - p)"
  shows "rotate rp (blit (blit buf p (take tail d)) 0 (drop tail d)) = blit (rotate rp buf) off d"
    (is "rotate rp ?b = _")
proof (rule list_eq_nthI)
  let ?n = "length buf"
  have p: "p < ?n" using assms(2) by (simp add: p_def)
  have tail: "tail \<le> length d" "p + tail \<le> ?n" "length d - tail \<le> p"
    using assms(1) p by (auto simp: tail_def min_def)
  have len1: "length (blit buf p (take tail d)) = ?n" using tail by simp
  have lenb: "length ?b = ?n" using tail len1 p by simp
  show "length (rotate rp ?b) = length (blit (rotate rp buf) off d)"
    using lenb assms(1) by simp
  fix i assume "i < length (blit (rotate rp buf) off d)"
  then have i: "i < ?n" using assms(1) by simp
  define q where "q = (rp + i) mod ?n"
  have q: "q < ?n" using assms(2) by (simp add: q_def)
  have nthb: "?b ! q = (if q < length d - tail then d ! (tail + q)
      else if p \<le> q \<and> q < p + tail then d ! (q - p) else buf ! q)"
    using tail len1 p q by (simp add: nth_blit) auto
  have q_p: "q = (if off \<le> i then (if p + (i - off) < ?n then p + (i - off) else p + (i - off) - ?n)
      else (if off - i \<le> p then p - (off - i) else p + ?n - (off - i)))"
  proof (cases "off \<le> i")
    case True
    then have "rp + i = (rp + off) + (i - off)" by simp
    then have "q = (p + (i - off)) mod ?n"
      unfolding q_def p_def by (metis mod_add_left_eq)
    with True i p mod_wrap[of p ?n "i - off"] show ?thesis by auto
  next
    case False
    then have "rp + off = (rp + i) + (off - i)" by simp
    then have "p = (q + (off - i)) mod ?n"
      unfolding q_def p_def by (metis mod_add_left_eq)
    with False i q assms(1) mod_wrap[of q ?n "off - i"] show ?thesis by (auto split: if_splits)
  qed
  have tail_cases: "tail = length d \<and> length d \<le> ?n - p \<or> tail = ?n - p \<and> ?n - p \<le> length d"
    by (auto simp: tail_def min_def)
  have rot: "rotate rp ?b ! i = ?b ! q" "rotate rp buf ! i = buf ! q"
    using i lenb by (simp_all add: nth_rotate q_def)
  show "rotate rp ?b ! i = blit (rotate rp buf) off d ! i"
  proof (cases "off \<le> i \<and> i < off + length d")
    case True
    consider "p + (i - off) < ?n" "q = p + (i - off)" | "?n \<le> p + (i - off)" "q = p + (i - off) - ?n"
      using q_p True by (cases "p + (i - off) < ?n") auto
    then have "?b ! q = d ! (i - off)"
    proof cases
      case 1
      then have "\<not> q < length d - tail" "p \<le> q" "q < p + tail" "q - p = i - off"
        using True tail_cases tail(3) by linarith+
      then show ?thesis using nthb by simp
    next
      case 2
      then have "q < length d - tail" "tail + q = i - off"
        using True tail_cases p by linarith+
      then show ?thesis using nthb by simp
    qed
    then show ?thesis using True i assms(1) rot by (simp add: nth_blit)
  next
    case False
    have "\<not> q < length d - tail \<and> \<not> (p \<le> q \<and> q < p + tail)"
    proof (cases "off \<le> i")
      case True
      then have "off + length d \<le> i" using False by simp
      then show ?thesis using q_p True tail_cases p i by (cases "p + (i - off) < ?n") (simp_all, linarith+)
    next
      case f: False
      then show ?thesis using q_p tail_cases p i assms(1) by (cases "off - i \<le> p") (simp_all, linarith+)
    qed
    then have "?b ! q = buf ! q" using nthb by (auto split: if_splits)
    then show ?thesis using False i assms(1) rot by (auto simp: nth_blit)
  qed
qed

section \<open>Refinement\<close>

lemma queue_conv: "fifo_inv f \<Longrightarrow> queue f = chunk 0 (f_data_length f) (view f)"
  by (simp add: queue_def chunk_def)

lemma FifoBuffer_new_ok: "0 < n \<Longrightarrow> fifo_inv (FifoBuffer_new n)" "queue (FifoBuffer_new n) = []"
  "buffer_length (FifoBuffer_new n) = n"
  by (simp_all add: FifoBuffer_new_def fifo_inv_def buffer_length_def queue_def)

lemma PostEvent_simps [simp]:
  "fifo_inv (PostEvent f e) = fifo_inv f" "queue (PostEvent f e) = queue f" "view (PostEvent f e) = view f"
  "buffer_length (PostEvent f e) = buffer_length f" "f_state (PostEvent f e) = f_state f"
  "f_data_length (PostEvent f e) = f_data_length f"
  by (simp_all add: PostEvent_def fifo_inv_def queue_def view_def buffer_length_def)

lemma ReadOffset_queue:
  assumes "fifo_inv f"
  shows "ReadOffset f n off =
    (if off < f_data_length f then (SR_SUCCESS, take n (drop off (queue f)))
     else (if f_state f \<noteq> SS_CLOSED then SR_BLOCK else SR_EOS, []))"
proof (cases "off < f_data_length f")
  case True
  define copy where "copy = min n (f_data_length f - off)"
  have "off + copy \<le> length (f_buffer f)" "0 < length (f_buffer f)"
    using assms True by (auto simp: copy_def fifo_inv_def buffer_length_def)
  note r = ring_read[OF this, of "f_read_position f"]
  have "ReadOffset f n off = (SR_SUCCESS, chunk off copy (view f))"
    using True r unfolding view_def
    by (simp add: ReadOffset_def ReadOffsetLocked_def Let_def copy_def buffer_length_def)
  moreover have "chunk off copy (view f) = take n (drop off (queue f))"
    using assms True by (simp add: queue_def chunk_def copy_def drop_take min_def)
  ultimately show ?thesis using True by simp
next
  case False
  then show ?thesis by (simp add: ReadOffset_def ReadOffsetLocked_def)
qed

text \<open>
  Writing at an offset past the readable bytes: the copied bytes land at that place of the
  view, and nothing else of the view changes.
\<close>

lemma WriteOffset_view:
  assumes inv: "fifo_inv f" and st: "f_state f \<noteq> SS_CLOSED" and n: "n \<le> length buf"
    and off: "f_data_length f + off < buffer_length f"
  defines "copy \<equiv> min n (buffer_length f - f_data_length f - off)"
  shows "\<exists>f'. WriteOffset f buf n off = (SR_SUCCESS, copy, f') \<and> fifo_inv f' \<and>
      view f' = blit (view f) (f_data_length f + off) (take copy buf) \<and>
      queue f' = queue f \<and> buffer_length f' = buffer_length f \<and> f_state f' = f_state f \<and>
      f_data_length f' = f_data_length f \<and> f_posted f' = f_posted f"
proof -
  let ?n = "length (f_buffer f)" and ?rp = "f_read_position f" and ?d = "take copy buf"
  let ?off = "f_data_length f + off"
  have copy: "?off + copy \<le> ?n" using off by (auto simp: copy_def buffer_length_def)
  have ld: "length ?d = copy" using n by (simp add: copy_def)
  have b: "?off + length ?d \<le> ?n" using copy ld by simp
  have n0: "0 < ?n" using off unfolding buffer_length_def by linarith
  define p where "p = (?rp + ?off) mod ?n"
  define tail where "tail = min copy (?n - p)"
  have p: "p < ?n" using n0 unfolding p_def by (rule mod_less_divisor)
  have "chunk 0 tail buf = take tail ?d" "chunk tail (copy - tail) buf = drop tail ?d"
    by (simp_all add: chunk_def tail_def drop_take min_def)
  then have w: "WriteOffset f buf n off =
      (SR_SUCCESS, copy, f\<lparr>f_buffer := blit (blit (f_buffer f) p (take tail ?d)) 0 (drop tail ?d)\<rparr>)"
    using st off by (simp add: WriteOffset_def WriteOffsetLocked_def Let_def buffer_length_def copy_def
        p_def tail_def add.assoc diff_diff_left)
  let ?f = "f\<lparr>f_buffer := blit (blit (f_buffer f) p (take tail ?d)) 0 (drop tail ?d)\<rparr>"
  have len: "length (blit (blit (f_buffer f) p (take tail ?d)) 0 (drop tail ?d)) = ?n"
    using p copy ld by (simp add: tail_def min_def) auto
  have v: "view ?f = blit (view f) ?off ?d"
    using ring_write[OF b n0, of ?rp] ld by (simp add: view_def p_def tail_def)
  have "take (f_data_length f) (view ?f) = queue f"
    using v b by (simp add: queue_def take_blit buffer_length_def)
  then show ?thesis
    using w v len inv by (auto simp: fifo_inv_def buffer_length_def queue_def)
qed

lemma WriteOffset_block:
  assumes "f_state f \<noteq> SS_CLOSED" "buffer_length f \<le> f_data_length f + off"
  shows "WriteOffset f buf n off = (SR_BLOCK, 0, f)"
  using assms by (simp add: WriteOffset_def WriteOffsetLocked_def)

lemma FifoWrite_queue:
  assumes inv: "fifo_inv f" and st: "f_state f \<noteq> SS_CLOSED" and n: "n \<le> length buf"
    and room: "f_data_length f < buffer_length f"
  defines "copy \<equiv> min n (buffer_length f - f_data_length f)"
  shows "\<exists>f'. FifoWrite f buf n = (SR_SUCCESS, copy, f') \<and> fifo_inv f' \<and>
      queue f' = queue f @ take copy buf \<and> buffer_length f' = buffer_length f \<and> f_state f' = f_state f \<and>
      f_data_length f' = f_data_length f + copy"
proof -
  obtain f1 where f1: "WriteOffset f buf n 0 = (SR_SUCCESS, copy, f1)" "fifo_inv f1"
      "view f1 = blit (view f) (f_data_length f) (take copy buf)"
      "buffer_length f1 = buffer_length f" "f_state f1 = f_state f" "f_data_length f1 = f_data_length f"
    using WriteOffset_view[OF inv st n, of 0] room by (auto simp: copy_def)
  define f2 where "f2 = f1\<lparr>f_data_length := f_data_length f1 + copy\<rparr>"
  have ld: "length (take copy buf) = copy" using n by (simp add: copy_def)
  have c: "f_data_length f + copy \<le> buffer_length f" using inv by (auto simp: copy_def fifo_inv_def)
  have v2: "view f2 = view f1" by (simp add: f2_def view_def)
  have i2: "fifo_inv f2" using f1 c unfolding f2_def fifo_inv_def buffer_length_def by simp
  have "queue f2 = take (f_data_length f + length (take copy buf)) (view f1)"
    using f1 ld v2 by (simp add: queue_def) (simp add: f2_def)
  also have "\<dots> = queue f @ take copy buf"
    using f1(3) blit_at_end[of "f_data_length f" "view f" "take copy buf"] inv
    by (simp add: queue_def fifo_inv_def)
  finally have q2: "queue f2 = queue f @ take copy buf" .
  have "FifoWrite f buf n =
      (SR_SUCCESS, copy, if f_data_length f = 0 \<and> 0 < copy then PostEvent f2 SE_READ else f2)"
    using f1(1) by (simp add: FifoWrite_def WriteOffset_def Let_def f2_def)
  moreover have "buffer_length f2 = buffer_length f" "f_state f2 = f_state f"
      "f_data_length f2 = f_data_length f + copy"
    using f1(4-6) by (simp_all add: f2_def) (simp add: buffer_length_def)
  ultimately show ?thesis using i2 q2 by simp
qed

lemma advance_view:
  "view (f\<lparr>f_read_position := (f_read_position f + n) mod buffer_length f, f_data_length := m\<rparr>) = rotate n (view f)"
  unfolding view_def buffer_length_def by (simp add: rotate_rotate add.commute flip: rotate_conv_mod)

lemma advance_queue:
  assumes "fifo_inv f" "n \<le> f_data_length f"
  defines "f' \<equiv> f\<lparr>f_read_position := (f_read_position f + n) mod buffer_length f,
              f_data_length := f_data_length f - n\<rparr>"
  shows "fifo_inv f'" "queue f' = drop n (queue f)" "buffer_length f' = buffer_length f" "f_state f' = f_state f"
proof -
  show "fifo_inv f'" "buffer_length f' = buffer_length f" "f_state f' = f_state f"
    using assms by (auto simp: fifo_inv_def buffer_length_def)
  have l: "f_data_length f \<le> length (view f)" using assms(1) by (simp add: fifo_inv_def)
  then have "rotate n (view f) = drop n (view f) @ take n (view f)"
    using assms(2) rotate_append[of "take n (view f)" "drop n (view f)"] by (simp add: min_absorb2)
  then show "queue f' = drop n (queue f)"
    using assms(2) l unfolding f'_def queue_def advance_view by (simp add: drop_take)
qed

lemma ConsumeReadData_queue:
  assumes "fifo_inv f" "n \<le> f_data_length f"
  shows "fifo_inv (ConsumeReadData f n)" "queue (ConsumeReadData f n) = drop n (queue f)"
    "buffer_length (ConsumeReadData f n) = buffer_length f" "f_state (ConsumeReadData f n) = f_state f"
    "f_data_length (ConsumeReadData f n) = f_data_length f - n"
  using advance_queue[OF assms] by (simp_all add: ConsumeReadData_def Let_def)

lemma FifoRead_queue:
  fixes n :: nat
  assumes "fifo_inv f"
  defines "n' \<equiv> min n (f_data_length f)"
  shows "FifoRead f n =
    (if f_data_length f = 0 then (if f_state f \<noteq> SS_CLOSED then SR_BLOCK else SR_EOS, [], f)
     else (SR_SUCCESS, take n (queue f), ConsumeReadData f n'))"
proof -
  define d where "d = take n (queue f)"
  have ld: "length d = n'" using assms by (simp add: d_def min.commute)
  have r: "ReadOffsetLocked f n 0 =
      (if 0 < f_data_length f then (SR_SUCCESS, d) else (if f_state f \<noteq> SS_CLOSED then SR_BLOCK else SR_EOS, []))"
    using ReadOffset_queue[OF assms(1), of n 0] by (simp add: ReadOffset_def d_def)
  show ?thesis
    unfolding FifoRead_def r d_def[symmetric] by (auto simp: ConsumeReadData_def Let_def ld simp flip: length_greater_0_conv)
qed

lemma ConsumeWriteBuffer_queue:
  assumes "fifo_inv f" "f_data_length f + n \<le> buffer_length f"
  shows "fifo_inv (ConsumeWriteBuffer f n)" "queue (ConsumeWriteBuffer f n) = take (f_data_length f + n) (view f)"
    "view (ConsumeWriteBuffer f n) = view f" "buffer_length (ConsumeWriteBuffer f n) = buffer_length f"
    "f_state (ConsumeWriteBuffer f n) = f_state f" "f_data_length (ConsumeWriteBuffer f n) = f_data_length f + n"
  using assms
  by (simp_all add: ConsumeWriteBuffer_def Let_def PostEvent_def fifo_inv_def queue_def view_def buffer_length_def)

lemma SetCapacity_queue:
  assumes inv: "fifo_inv f" and sz: "0 < sz"
  shows "SetCapacity f sz = (r, f') \<Longrightarrow> r = (f_data_length f \<le> sz)"
    "SetCapacity f sz = (r, f') \<Longrightarrow> fifo_inv f' \<and> queue f' = queue f \<and> f_state f' = f_state f \<and>
       f_data_length f' = f_data_length f \<and> buffer_length f' = (if r then sz else buffer_length f)"
proof -
  show "SetCapacity f sz = (r, f') \<Longrightarrow> r = (f_data_length f \<le> sz)"
    by (auto simp: SetCapacity_def Let_def split: if_splits)
  assume s: "SetCapacity f sz = (r, f')"
  show "fifo_inv f' \<and> queue f' = queue f \<and> f_state f' = f_state f \<and>
       f_data_length f' = f_data_length f \<and> buffer_length f' = (if r then sz else buffer_length f)"
  proof (cases "f_data_length f \<le> sz \<and> sz \<noteq> buffer_length f")
    case False
    with s inv show ?thesis by (auto simp: SetCapacity_def Let_def split: if_splits)
  next
    case True
    define copy tail where "copy = f_data_length f" and "tail = min copy (buffer_length f - f_read_position f)"
    define a b where "a = chunk (f_read_position f) tail (f_buffer f)" and "b = chunk 0 (copy - tail) (f_buffer f)"
    have le: "copy \<le> length (f_buffer f)" "f_read_position f < length (f_buffer f)" "tail \<le> copy"
      using inv by (auto simp: copy_def tail_def fifo_inv_def buffer_length_def)
    have la: "length a = tail" "length b = copy - tail"
      using le by (auto simp: a_def b_def tail_def buffer_length_def)
    have "queue f = a @ b"
      using ring_read[of 0 copy "f_buffer f" "f_read_position f"] le inv
      by (simp add: a_def b_def tail_def queue_def view_def chunk_def copy_def buffer_length_def fifo_inv_def)
    moreover have "blit (blit (replicate sz 0) 0 a) tail b = a @ b @ replicate (sz - copy) 0"
      using la le True by (simp add: blit_def copy_def)
    then have f': "r = True" "f' = f\<lparr>f_buffer := a @ b @ replicate (sz - copy) 0, f_read_position := 0\<rparr>"
      using s True by (simp_all add: SetCapacity_def Let_def copy_def a_def b_def tail_def)
    ultimately show ?thesis
      using la le sz True inv by (auto simp: fifo_inv_def queue_def view_def buffer_length_def copy_def)
  qed
qed

section \<open>The interfaces, on the model\<close>

text \<open>An open buffer: writing to a closed one is refused (\<^verbatim>\<open>SR_EOS\<close>).\<close>

definition fifo_open :: "FifoBuffer \<Rightarrow> bool" where
  "fifo_open f \<longleftrightarrow> fifo_inv f \<and> f_state f \<noteq> SS_CLOSED"

definition fifo_append :: "FifoBuffer \<Rightarrow> u8 list \<Rightarrow> FifoBuffer" where
  "fifo_append f d = snd (snd (FifoWrite f d (length d)))"

definition fifo_peek :: "FifoBuffer \<Rightarrow> nat \<Rightarrow> nat \<Rightarrow> u8 list option" where
  "fifo_peek f n off = (case ReadOffset f n off of (r, d) \<Rightarrow> if r = SR_SUCCESS then Some d else None)"

definition fifo_poke :: "FifoBuffer \<Rightarrow> u8 list \<Rightarrow> nat \<Rightarrow> FifoBuffer" where
  "fifo_poke f d off = snd (snd (WriteOffset f d (length d) off))"

lemma FifoWrite_full: "fifo_open f \<Longrightarrow> f_data_length f = buffer_length f \<Longrightarrow> FifoWrite f d n = (SR_BLOCK, 0, f)"
  by (simp add: FifoWrite_def WriteOffsetLocked_def fifo_open_def)

lemma fifo_append_spec:
  assumes "fifo_open f"
  shows "fifo_open (fifo_append f d) \<and> buffer_length (fifo_append f d) = buffer_length f \<and>
    queue (fifo_append f d) = queue f @ take (buffer_length f - length (queue f)) d"
proof (cases "f_data_length f < buffer_length f")
  case True
  obtain f' where f': "FifoWrite f d (length d) = (SR_SUCCESS, min (length d) (buffer_length f - f_data_length f), f')"
    "fifo_inv f'" "queue f' = queue f @ take (min (length d) (buffer_length f - f_data_length f)) d"
    "buffer_length f' = buffer_length f" "f_state f' = f_state f"
    using FifoWrite_queue[of f "length d" d] True assms by (auto simp: fifo_open_def)
  have "take (min (length d) (buffer_length f - f_data_length f)) d = take (buffer_length f - f_data_length f) d"
    by (simp add: min_def)
  with f' assms show ?thesis by (simp add: fifo_append_def fifo_open_def)
next
  case False
  then have "f_data_length f = buffer_length f" using assms by (simp add: fifo_open_def fifo_inv_def)
  then show ?thesis using assms by (simp add: fifo_append_def FifoWrite_full) (simp add: fifo_open_def)
qed

lemma fifo_poke_spec:
  assumes "fifo_open f"
  shows "fifo_open (fifo_poke f d off) \<and> queue (fifo_poke f d off) = queue f"
    "length (queue f) + off + length d \<le> buffer_length f \<Longrightarrow>
       view (fifo_poke f d off) = blit (view f) (length (queue f) + off) d"
proof -
  have *: "fifo_open (fifo_poke f d off) \<and> queue (fifo_poke f d off) = queue f \<and>
    (length (queue f) + off + length d \<le> buffer_length f \<longrightarrow>
       view (fifo_poke f d off) = blit (view f) (length (queue f) + off) d)"
  proof (cases "f_data_length f + off < buffer_length f")
    case True
    then show ?thesis
      using WriteOffset_view[of f "length d" d off] assms by (auto simp: fifo_open_def fifo_poke_def)
  next
    case False
    then show ?thesis
      using assms WriteOffset_block[of f off d "length d"]
      by (cases d) (auto simp: fifo_open_def fifo_poke_def)
  qed
  then show "fifo_open (fifo_poke f d off) \<and> queue (fifo_poke f d off) = queue f"
    "length (queue f) + off + length d \<le> buffer_length f \<Longrightarrow>
       view (fifo_poke f d off) = blit (view f) (length (queue f) + off) d" by blast+
qed

interpretation fifo: byte_window fifo_open queue buffer_length fifo_append fifo_peek ConsumeReadData
  view fifo_poke ConsumeWriteBuffer
proof unfold_locales
  fix f :: FifoBuffer and d :: "u8 list" and n off :: nat
  show "fifo_open f \<Longrightarrow> fifo_peek f n off =
      (if off < length (queue f) then Some (take n (drop off (queue f))) else None)"
    by (auto simp: fifo_open_def fifo_peek_def ReadOffset_queue)
  show "fifo_open f \<Longrightarrow> length (queue f) + off + length d \<le> buffer_length f \<Longrightarrow>
      view (fifo_poke f d off) = blit (view f) (length (queue f) + off) d"
    by (rule fifo_poke_spec(2))
  show "fifo_open f \<Longrightarrow> length (queue f) \<le> buffer_length f"
    by (simp add: fifo_open_def fifo_inv_def)
  show "fifo_open f \<Longrightarrow> take (length (queue f)) (view f) = queue f"
    by (simp add: fifo_open_def) (simp add: queue_def)
  show "fifo_open f \<Longrightarrow> length (view f) = buffer_length f" by simp
qed (use fifo_append_spec fifo_poke_spec(1) ConsumeReadData_queue ConsumeWriteBuffer_queue
      in \<open>simp_all add: fifo_open_def\<close>)

section \<open>Runs\<close>

text \<open>
  Any sequence of operations on one buffer: the bytes its writes accepted, the bytes its reads
  delivered, and the buffer left.
\<close>

datatype FifoOp = OpWrite "u8 list" | OpRead nat | OpSetCapacity nat | OpClose

fun fifo_exec :: "FifoBuffer \<Rightarrow> FifoOp \<Rightarrow> u8 list \<times> u8 list \<times> FifoBuffer" where
  "fifo_exec f (OpWrite d) = (case FifoWrite f d (length d) of (r, n, f') \<Rightarrow> (take n d, [], f'))"
| "fifo_exec f (OpRead n) = (case FifoRead f n of (r, d, f') \<Rightarrow> ([], d, f'))"
| "fifo_exec f (OpSetCapacity n) = ([], [], snd (SetCapacity f n))"
| "fifo_exec f OpClose = ([], [], FifoClose f)"

fun fifo_run :: "FifoBuffer \<Rightarrow> FifoOp list \<Rightarrow> u8 list \<times> u8 list \<times> FifoBuffer" where
  "fifo_run f [] = ([], [], f)"
| "fifo_run f (x # xs) =
     (case fifo_exec f x of (a, d, f') \<Rightarrow> case fifo_run f' xs of (a', d', f'') \<Rightarrow> (a @ a', d @ d', f''))"

lemma FifoClose_queue [simp]: "fifo_inv (FifoClose f) = fifo_inv f" "queue (FifoClose f) = queue f"
  by (simp_all add: FifoClose_def fifo_inv_def queue_def view_def buffer_length_def)

lemma FifoWrite_exec:
  assumes "fifo_inv f" "FifoWrite f d (length d) = (r, n, f')"
  shows "fifo_inv f' \<and> queue f' = queue f @ take n d"
proof (cases "f_state f = SS_CLOSED \<or> f_data_length f = buffer_length f")
  case True
  then have "r = (if f_state f = SS_CLOSED then SR_EOS else SR_BLOCK)" "n = 0" "f' = f"
    using assms FifoWrite_full[of f d "length d"]
    by (simp_all add: fifo_open_def) (auto simp: FifoWrite_def WriteOffsetLocked_def split: if_splits)
  then show ?thesis using assms(1) by simp
next
  case False
  then have "f_data_length f < buffer_length f" using assms(1) by (simp add: fifo_inv_def)
  then show ?thesis using FifoWrite_queue[of f "length d" d] False assms by auto
qed

lemma fifo_exec_queue:
  assumes "fifo_inv f" "x \<noteq> OpSetCapacity 0" "fifo_exec f x = (a, d, f')"
  shows "fifo_inv f' \<and> queue f @ a = d @ queue f'"
proof (cases x)
  case (OpWrite y)
  then show ?thesis using assms FifoWrite_exec[of f y] by (auto split: prod.splits)
next
  case (OpRead n)
  then show ?thesis
    using assms ConsumeReadData_queue[of f "min n (f_data_length f)"] length_queue[of f]
    by (auto simp: FifoRead_queue min_def split: if_splits)
next
  case (OpSetCapacity n)
  then show ?thesis
    using assms SetCapacity_queue(2)[OF assms(1), of n "fst (SetCapacity f n)" f'] by auto
next
  case OpClose
  then show ?thesis using assms by auto
qed

lemma fifo_run_queue:
  assumes "fifo_inv f" "OpSetCapacity 0 \<notin> set ops" "fifo_run f ops = (a, d, f')"
  shows "fifo_inv f' \<and> queue f @ a = d @ queue f'"
  using assms
proof (induction ops arbitrary: f a d)
  case (Cons x xs)
  obtain a1 d1 f1 where x: "fifo_exec f x = (a1, d1, f1)" by (cases "fifo_exec f x")
  obtain a2 d2 where xs: "fifo_run f1 xs = (a2, d2, f')" "a = a1 @ a2" "d = d1 @ d2"
    using Cons.prems x by (auto split: prod.splits)
  have 1: "fifo_inv f1" "queue f @ a1 = d1 @ queue f1"
    using fifo_exec_queue[OF Cons.prems(1) _ x] Cons.prems(2) by auto
  have "fifo_inv f' \<and> queue f1 @ a2 = d2 @ queue f'" using Cons.IH[OF 1(1) _ xs(1)] Cons.prems(2) by auto
  then show ?case using 1(2) xs by (metis append.assoc)
qed simp

section \<open>Properties\<close>

text \<open>C18: Over any sequence of writes, reads, capacity changes and a close, the bytes a FIFO buffer
  delivered followed by the bytes it still holds are exactly the bytes it accepted, in order, and
  it never holds more than its capacity.\<close>
theorem fifo_stream_integrity:
  assumes "0 < n" "OpSetCapacity 0 \<notin> set ops" "fifo_run (FifoBuffer_new n) ops = (accepted, delivered, f)"
  shows "accepted = delivered @ queue f \<and> GetBuffered f \<le> buffer_length f"
  using fifo_run_queue[OF FifoBuffer_new_ok(1)[OF assms(1)] assms(2,3)]
  by (auto simp: FifoBuffer_new_ok GetBuffered_def fifo_inv_def)

lemma fifo_stream_integrity_witness:
  "\<exists>f. fifo_run (FifoBuffer_new 4) [OpWrite [1, 2, 3], OpRead 2, OpWrite [4, 5, 6, 7], OpRead 3] =
       ([1, 2, 3, 4, 5, 6], [1, 2, 3, 4, 5], f) \<and> [1, 2, 3, 4, 5, 6] = [1, 2, 3, 4, 5] @ queue f"
proof -
  let ?run = "fifo_run (FifoBuffer_new 4) [OpWrite [1, 2, 3], OpRead 2, OpWrite [4, 5, 6, 7], OpRead 3]"
  have "fst ?run = [1, 2, 3, 4, 5, 6]" by code_simp
  moreover have "fst (snd ?run) = [1, 2, 3, 4, 5]" by code_simp
  ultimately have f: "?run = ([1, 2, 3, 4, 5, 6], [1, 2, 3, 4, 5], snd (snd ?run))" by (metis prod.collapse)
  then show ?thesis using fifo_stream_integrity[OF _ _ f] by auto
qed

text \<open>Two blocks written ahead of the readable bytes in the wrong order (PseudoTcp's
  out-of-order segments) and then committed are appended in stream order.\<close>
theorem fifo_out_of_order:
  assumes "fifo_inv f" "f_state f \<noteq> SS_CLOSED" "GetBuffered f + length d + length e \<le> buffer_length f"
  shows "queue (ConsumeWriteBuffer (fifo_poke (fifo_poke f e (length d)) d 0) (length d + length e)) = queue f @ d @ e"
  using fifo.out_of_order[of f d e] assms by (simp add: fifo_open_def GetBuffered_def)

lemma fifo_out_of_order_witness:
  "queue (ConsumeWriteBuffer (fifo_poke (fifo_poke (FifoBuffer_new 4) [3, 4] (length [1 :: u8, 2])) [1, 2] 0)
     (length [1 :: u8, 2] + length [3 :: u8, 4])) = queue (FifoBuffer_new 4) @ [1, 2] @ [3, 4]"
  by (rule fifo_out_of_order) (simp_all add: FifoBuffer_new_def fifo_inv_def buffer_length_def GetBuffered_def)

end
