(* ===== verification/Crc32.thy ===== *)
theory Crc32
  imports Prelude
begin

text \<open>
  \<^verbatim>\<open>talk/base/crc32.cc\<close>: the CRC-32 of the STUN FINGERPRINT attribute. The table
  that \<^verbatim>\<open>EnsureCrc32TableInited\<close> fills on first use is the constant
  \<open>kCrc32Table\<close> (the initialisation is idempotent and its guard only saves work).

  The lemmas show that the table-driven update is the bitwise polynomial division
  \<open>crc_bits\<close>, that it can be continued over consecutive buffers, and that it is injective
  in each byte, so that a change confined to one byte never keeps the checksum.
\<close>

section \<open>The code\<close>

definition kCrc32Polynomial :: u32 where
  "kCrc32Polynomial = 0xEDB88320"

definition crc_step :: "u32 \<Rightarrow> u32" where
  "crc_step c = (if c AND 1 \<noteq> 0 then kCrc32Polynomial XOR drop_bit 1 c else drop_bit 1 c)"

definition kCrc32Table :: "u32 list" where
  "kCrc32Table = map (\<lambda>i. (crc_step ^^ 8) (of_nat i)) [0..<256]"

definition UpdateCrc32 :: "u32 \<Rightarrow> u8 list \<Rightarrow> u32" where
  "UpdateCrc32 start buf =
     (let c = start XOR 0xFFFFFFFF
      in foldl (\<lambda>c u. kCrc32Table ! unat ((c XOR ucast u) AND 0xFF) XOR drop_bit 8 c) c buf XOR 0xFFFFFFFF)"

definition ComputeCrc32 :: "u8 list \<Rightarrow> u32" where
  "ComputeCrc32 buf = UpdateCrc32 0 buf"

section \<open>Equivalence with bitwise division\<close>

definition crc_bits :: "u32 \<Rightarrow> u8 list \<Rightarrow> u32" where
  "crc_bits c buf = foldl (\<lambda>c u. (crc_step ^^ 8) (c XOR ucast u)) c buf"

lemma crc_step_alt: "crc_step c = (if bit c 0 then kCrc32Polynomial else 0) XOR drop_bit 1 c"
  by (simp add: crc_step_def bit_0 and_one_eq odd_iff_mod_2_eq_one)

lemma crc_step_XOR: "crc_step (a XOR b) = crc_step a XOR crc_step b"
  unfolding crc_step_alt by (auto simp: bit_xor_iff drop_bit_xor ac_simps)

lemma crc_steps_XOR: "(crc_step ^^ n) (a XOR b) = (crc_step ^^ n) a XOR (crc_step ^^ n) b"
  by (induction n) (simp_all add: crc_step_XOR)

lemma crc_steps_high:
  "\<forall>i<n. \<not> bit c i \<Longrightarrow> (crc_step ^^ n) c = drop_bit n c"
proof (induction n arbitrary: c)
  case (Suc n)
  have "crc_step c = drop_bit 1 c" using Suc.prems by (simp add: crc_step_alt)
  moreover have "\<forall>i<n. \<not> bit (drop_bit 1 c) i" using Suc.prems by (auto simp: bit_drop_bit_eq)
  ultimately show ?case using Suc.IH[of "drop_bit 1 c"] by (simp add: funpow_swap1)
qed simp

lemma byte_table: "i < 256 \<Longrightarrow> kCrc32Table ! i = (crc_step ^^ 8) (of_nat i)"
  by (simp add: kCrc32Table_def del: upt_conv_Cons funpow.simps)

lemma crc_byte:
  fixes c :: u32
  shows "kCrc32Table ! unat (c AND 0xFF) XOR drop_bit 8 c = (crc_step ^^ 8) c"
proof -
  have m: "(0xFF :: u32) = mask 8" by (simp add: mask_eq_decr_exp)
  define lo hi where "lo = take_bit 8 c" and "hi = push_bit 8 (drop_bit 8 c)"
  have lo: "c AND 0xFF = lo" by (simp add: lo_def m take_bit_eq_mask)
  have lt: "unat lo < 256" using take_bit_nat_less_exp[of 8 "unat c"] by (simp add: lo_def unsigned_take_bit_eq)
  have c: "c = lo XOR hi"
    by (rule bit_word_eqI) (auto simp: lo_def hi_def bit_simps)
  have "(crc_step ^^ 8) hi = drop_bit 8 hi"
    by (rule crc_steps_high) (simp add: hi_def bit_simps)
  moreover have "drop_bit 8 hi = drop_bit 8 c"
    by (rule bit_word_eqI) (auto simp: hi_def bit_simps dest: bit_imp_le_length)
  moreover have "(crc_step ^^ 8) c = (crc_step ^^ 8) lo XOR (crc_step ^^ 8) hi"
    by (subst c) (rule crc_steps_XOR)
  ultimately show ?thesis
    using byte_table[OF lt] unfolding lo by simp
qed

lemma ucast_low: "drop_bit 8 (ucast (u :: u8) :: u32) = 0"
  by (rule bit_word_eqI) (auto simp: bit_simps dest: bit_imp_le_length)

lemma crc_table_step:
  "kCrc32Table ! unat ((c XOR ucast u) AND 0xFF) XOR drop_bit 8 c = (crc_step ^^ 8) (c XOR ucast (u :: u8))"
  using crc_byte[of "c XOR ucast u"] by (simp add: drop_bit_xor ucast_low)

lemma UpdateCrc32_bits: "UpdateCrc32 start buf = crc_bits (start XOR 0xFFFFFFFF) buf XOR 0xFFFFFFFF"
  unfolding UpdateCrc32_def crc_bits_def crc_table_step Let_def ..

section \<open>Incremental computation\<close>

lemma UpdateCrc32_append: "UpdateCrc32 start (a @ b) = UpdateCrc32 (UpdateCrc32 start a) b"
  by (simp add: UpdateCrc32_def xor.assoc)

section \<open>Injectivity\<close>

lemma crc_step_inj: "crc_step a = crc_step b \<Longrightarrow> a = b"
proof -
  assume eq: "crc_step a = crc_step b"
  have top: "bit (crc_step c) 31 = bit c 0" for c
    by (auto simp: crc_step_alt bit_simps kCrc32Polynomial_def dest: bit_imp_le_length)
  have b0: "bit a 0 = bit b 0" using top[of a] top[of b] eq by simp
  then have "drop_bit 1 a = drop_bit 1 b"
    using eq unfolding crc_step_alt by (auto dest: arg_cong[where f = "\<lambda>x. kCrc32Polynomial XOR x"] simp flip: xor.assoc)
  then have "bit a (Suc n) = bit b (Suc n)" for n
    by (metis bit_drop_bit_eq plus_1_eq_Suc comp_apply)
  with b0 have "bit a n = bit b n" for n by (cases n) auto
  then show "a = b" by (rule bit_eqI)
qed

lemma crc_steps_inj: "(crc_step ^^ n) a = (crc_step ^^ n) b \<Longrightarrow> a = b"
  by (induction n) (auto dest: crc_step_inj)

lemma crc_bits_inj: "crc_bits c buf = crc_bits d buf \<Longrightarrow> c = d"
proof (induction buf arbitrary: c d)
  case (Cons u buf)
  then have "(crc_step ^^ 8) (c XOR ucast u) = (crc_step ^^ 8) (d XOR ucast u)"
    by (auto simp: crc_bits_def)
  then have "c XOR ucast u = d XOR ucast u" by (rule crc_steps_inj)
  then show ?case by (simp add: xor_cancel_right)
qed (simp add: crc_bits_def)

lemma crc_bits_append: "crc_bits c (a @ b) = crc_bits (crc_bits c a) b"
  by (simp add: crc_bits_def)

lemma UpdateCrc32_change:
  assumes "u \<noteq> v"
  shows "UpdateCrc32 s (a @ [u] @ b) \<noteq> UpdateCrc32 s (a @ [v] @ b)"
proof
  assume "UpdateCrc32 s (a @ [u] @ b) = UpdateCrc32 s (a @ [v] @ b)"
  then have "crc_bits (s XOR 0xFFFFFFFF) (a @ [u] @ b) = crc_bits (s XOR 0xFFFFFFFF) (a @ [v] @ b)"
    unfolding UpdateCrc32_bits by (simp add: xor_cancel_right)
  then have "crc_bits (crc_bits (s XOR 0xFFFFFFFF) a) [u] = crc_bits (crc_bits (s XOR 0xFFFFFFFF) a) [v]"
    unfolding crc_bits_append by (rule crc_bits_inj)
  then have "(crc_step ^^ 8) (crc_bits (s XOR 0xFFFFFFFF) a XOR ucast u) =
      (crc_step ^^ 8) (crc_bits (s XOR 0xFFFFFFFF) a XOR ucast v)"
    by (simp add: crc_bits_def)
  then have "crc_bits (s XOR 0xFFFFFFFF) a XOR ucast u = crc_bits (s XOR 0xFFFFFFFF) a XOR ucast v"
    by (rule crc_steps_inj)
  then have "(ucast u :: u32) = ucast v" by (simp add: xor_cancel_left)
  then have "u = v" by (rule ucast_inj_up) simp
  with assms show False by blast
qed

section \<open>Properties\<close>

text \<open>C23: The table-driven CRC of a buffer is the bit-by-bit polynomial division of that buffer,
  started and finished with all ones.\<close>
theorem crc32_is_division:
  "ComputeCrc32 buf = crc_bits 0xFFFFFFFF buf XOR 0xFFFFFFFF"
  by (simp add: ComputeCrc32_def UpdateCrc32_bits)

text \<open>A change confined to one byte of a message always changes its CRC.\<close>
theorem crc32_detects_byte:
  "u \<noteq> v \<Longrightarrow> ComputeCrc32 (a @ [u] @ b) \<noteq> ComputeCrc32 (a @ [v] @ b)"
  unfolding ComputeCrc32_def by (rule UpdateCrc32_change)

lemma crc32_detects_byte_witness:
  "ComputeCrc32 ([1, 2] @ [3] @ [4]) \<noteq> ComputeCrc32 ([1, 2] @ [7] @ [4])"
  by (rule crc32_detects_byte) simp

end
