(* ===== verification/BlockHash.thy ===== *)
theory BlockHash
  imports ByteOrder
begin

text \<open>
  What SHA-1 and MD5 share: a compression function is applied to the 64-byte blocks of the
  message, and the bytes after the last full block wait in a buffer. \<open>absorb\<close> applies
  it to the full blocks of a byte string, \<open>leftover\<close> is what waits. The lemmas say how
  both behave under concatenation, which is what makes a chunked
  \<^verbatim>\<open>Update\<close> independent of the chunking.

  The locale \<open>digest_law\<close> is the contract of \<^verbatim>\<open>talk_base::MessageDigest\<close>
  (\<^verbatim>\<open>talk/base/messagedigest.h\<close>): an object represents the bytes given to it since
  the last \<^verbatim>\<open>Finish\<close>, and \<^verbatim>\<open>Finish\<close> outputs the hash of those bytes
  and starts over. Both digest theories interpret it.
\<close>

section \<open>Blocks\<close>

function absorb :: "('s \<Rightarrow> u8 list \<Rightarrow> 's) \<Rightarrow> 's \<Rightarrow> u8 list \<Rightarrow> 's" where
  "absorb f s xs = (if length xs < 64 then s else absorb f (f s (take 64 xs)) (drop 64 xs))"
  by pat_completeness auto
termination by (relation "measure (\<lambda>(f, s, xs). length xs)") auto

declare absorb.simps [simp del]

definition leftover :: "u8 list \<Rightarrow> u8 list" where
  "leftover xs = drop (64 * (length xs div 64)) xs"

lemma absorb_short: "length xs < 64 \<Longrightarrow> absorb f s xs = s"
  by (simp add: absorb.simps)

lemma absorb_step: "64 \<le> length xs \<Longrightarrow> absorb f s xs = absorb f (f s (take 64 xs)) (drop 64 xs)"
  by (subst absorb.simps) simp

lemma absorb_block: "length b = 64 \<Longrightarrow> absorb f s (b @ xs) = absorb f (f s b) xs"
  by (simp add: absorb_step)

lemma leftover_short [simp]: "length xs < 64 \<Longrightarrow> leftover xs = xs"
  by (simp add: leftover_def)

lemma leftover_step: "64 \<le> length xs \<Longrightarrow> leftover xs = leftover (drop 64 xs)"
proof -
  assume "64 \<le> length xs"
  then have "64 * (length xs div 64) = 64 * ((length xs - 64) div 64) + 64" by (simp add: le_div_geq)
  then show ?thesis by (simp add: leftover_def)
qed

lemma length_leftover: "length (leftover xs) = length xs mod 64"
  by (simp add: leftover_def minus_mult_div_eq_mod)

lemma absorb_append: "absorb f s (a @ b) = absorb f (absorb f s a) (leftover a @ b)"
proof (induction f s a rule: absorb.induct)
  case (1 f s a)
  then show ?case
    by (cases "length a < 64") (simp_all add: absorb_short absorb_step leftover_step)
qed

lemma leftover_append: "leftover (a @ b) = leftover (leftover a @ b)"
proof (induction "length a" arbitrary: a rule: less_induct)
  case less
  then show ?case
    by (cases "length a < 64") (simp_all add: leftover_step)
qed

lemma absorb_leftover: "absorb f s (leftover xs) = s"
  by (rule absorb_short) (simp add: length_leftover)

section \<open>Bit counts\<close>

text \<open>
  The bit count of a message, kept by the code in two 32-bit words: adding the length of a
  chunk with a carry between the words adds it to the 64-bit count.
\<close>

definition count_lo :: "nat \<Rightarrow> u32" where
  "count_lo n = of_nat (8 * n)"

definition count_hi :: "nat \<Rightarrow> u32" where
  "count_hi n = of_nat (8 * n div 2 ^ 32)"

lemma div_add_carry:
  fixes a b m :: nat
  assumes "0 < m"
  shows "(a + b) div m = a div m + b div m + (if (a + b) mod m < b mod m then 1 else 0)"
proof -
  have split: "(a + b) mod m = (a mod m + b mod m) mod m" by (simp add: mod_add_eq)
  have lt: "a mod m < m" "b mod m < m" using assms by simp_all
  have "(a mod m + b mod m) div m = (if (a + b) mod m < b mod m then 1 else 0)"
  proof (cases "a mod m + b mod m < m")
    case True
    then show ?thesis unfolding split by simp
  next
    case False
    then have "(a mod m + b mod m) div m = 1" "(a mod m + b mod m) mod m = a mod m + b mod m - m"
      using lt assms le_div_geq[of m "a mod m + b mod m"] le_mod_geq[of m "a mod m + b mod m"]
        div_less[of "a mod m + b mod m - m" m] mod_less[of "a mod m + b mod m - m" m] by linarith+
    moreover have "a mod m + b mod m - m < b mod m" using lt False by linarith
    ultimately have "(a + b) mod m < b mod m" "(a mod m + b mod m) div m = 1" by (simp_all only: split)
    then show ?thesis by (simp only: if_True)
  qed
  then show ?thesis by (simp only: div_add1_eq[of a b m])
qed

lemma word_carry:
  "(of_nat (a + b) :: u32) < of_nat b \<longleftrightarrow> (a + b) mod 2 ^ 32 < b mod 2 ^ 32"
  unfolding word_less_nat_alt unat_of_nat by (simp add: take_bit_eq_mod)

lemma count_carry:
  fixes n len :: nat
  defines "t \<equiv> (of_nat (8 * len) :: u32)"
  shows "count_lo n + t = count_lo (n + len)"
    "count_hi (n + len) = count_hi n + of_nat (len div 2 ^ 29) + (if count_lo n + t < t then 1 else 0)"
proof -
  show lo: "count_lo n + t = count_lo (n + len)"
    by (simp add: count_lo_def t_def)
  have "(8 * n + 8 * len) div 2 ^ 32 =
      8 * n div 2 ^ 32 + 8 * len div 2 ^ 32 + (if (8 * n + 8 * len) mod 2 ^ 32 < 8 * len mod 2 ^ 32 then 1 else 0)"
    by (rule div_add_carry) simp
  moreover have "8 * len div 2 ^ 32 = len div 2 ^ 29" by simp
  moreover have "count_lo n + t < t \<longleftrightarrow> (8 * n + 8 * len) mod 2 ^ 32 < 8 * len mod 2 ^ 32"
    using word_carry[of "8 * n" "8 * len"] unfolding lo by (simp only: count_lo_def t_def distrib_left)
  ultimately show "count_hi (n + len) = count_hi n + of_nat (len div 2 ^ 29) + (if count_lo n + t < t then 1 else 0)"
    by (simp add: count_hi_def distrib_left)
qed

text \<open>MD5 tests the carry against the old count, SHA-1 against the added length.\<close>

lemma carry_sym: "(x :: u32) + y < x \<longleftrightarrow> x + y < y"
  using no_plus_overflow_uint_size[of x y] no_plus_overflow_uint_size[of y x]
  by (simp add: add.commute word_size flip: not_le)

lemma count_lo_index: "unat (drop_bit 3 (count_lo n) AND 63) = n mod 64"
proof -
  have "(63 :: u32) = mask 6" by (simp add: mask_eq_decr_exp)
  then have "unat (drop_bit 3 (count_lo n) AND 63) = unat (take_bit 6 (drop_bit 3 (count_lo n)))"
    by (simp only: take_bit_eq_mask)
  also have "\<dots> = unat (count_lo n) div 8 mod 64"
    by (simp only: unsigned_take_bit_eq unsigned_drop_bit_eq take_bit_eq_mod drop_bit_eq_div)
      (simp add: unat_div unat_mod)
  also have "unat (count_lo n) = 8 * n mod 2 ^ 32"
    unfolding count_lo_def unat_of_nat by (simp add: take_bit_eq_mod)
  also have "8 * n mod 2 ^ 32 = 8 * (n mod 2 ^ 29)"
    using mult_mod_right[of 8 n "2 ^ 29"] by simp
  also have "8 * (n mod 2 ^ 29) div 8 mod 64 = n mod 64"
    by (simp add: mod_mod_cancel)
  finally show ?thesis .
qed

lemma count_lo_residue: "unat (count_lo n) div 8 mod 64 = n mod 64"
proof -
  have "unat (drop_bit 3 (count_lo n) AND 63) = unat (count_lo n) div 8 mod 64"
  proof -
    have "(63 :: u32) = mask 6" by (simp add: mask_eq_decr_exp)
    then have "unat (drop_bit 3 (count_lo n) AND 63) = unat (take_bit 6 (drop_bit 3 (count_lo n)))"
      by (simp only: take_bit_eq_mask)
    also have "\<dots> = unat (count_lo n) div 8 mod 64"
      by (simp only: unsigned_take_bit_eq unsigned_drop_bit_eq take_bit_eq_mod drop_bit_eq_div)
        (simp add: unat_div unat_mod)
    finally show ?thesis .
  qed
  then show ?thesis by (simp add: count_lo_index)
qed

lemma be_bytes_8_split:
  "be_bytes 8 (v :: u64) = be_bytes 4 (ucast (drop_bit 32 v) :: u32) @ be_bytes 4 (ucast v :: u32)"
  unfolding be_bytes_8 be_bytes_4 by (auto intro!: bit_word_eqI simp: bit_simps)

lemma count_be_bytes: "be_bytes 4 (count_hi n) @ be_bytes 4 (count_lo n) = be_bytes 8 (of_nat (8 * n) :: u64)"
proof -
  have "(ucast (drop_bit 32 (of_nat k :: u64)) :: u32) = of_nat (k div 2 ^ 32)" for k
  proof (rule bit_word_eqI)
    fix i assume "i < LENGTH(32)"
    have d: "k div 2 ^ 32 = drop_bit 32 k" by (simp only: drop_bit_eq_div)
    show "bit (ucast (drop_bit 32 (of_nat k :: u64)) :: u32) i = bit (of_nat (k div 2 ^ 32) :: u32) i"
      using \<open>i < LENGTH(32)\<close> unfolding d by (simp add: bit_simps)
  qed
  moreover have "(ucast (of_nat k :: u64) :: u32) = of_nat k" for k
    by (rule bit_word_eqI) (simp add: bit_simps)
  ultimately show ?thesis by (simp only: be_bytes_8_split count_hi_def count_lo_def)
qed

section \<open>Padding\<close>

text \<open>The number of zero bytes that take a length to 56 modulo 64, where the bit count goes.\<close>

definition zeros_to_56 :: "nat \<Rightarrow> nat" where
  "zeros_to_56 n = (120 - n mod 64) mod 64"

lemma zeros_step: "n mod 64 \<noteq> 56 \<Longrightarrow> zeros_to_56 n = Suc (zeros_to_56 (Suc n))"
proof -
  define t where "t = n mod 64"
  assume "n mod 64 \<noteq> 56"
  then consider "t < 56" | "56 < t" "t < 63" | "t = 63" unfolding t_def by fastforce
  then have "(120 - t) mod 64 = Suc ((120 - Suc t mod 64) mod 64)"
    using le_mod_geq[of 64 "120 - t"] le_mod_geq[of 64 "120 - Suc t"] by cases simp_all
  then show ?thesis by (simp add: zeros_to_56_def t_def mod_Suc_eq)
qed

lemma zeros_stop: "n mod 64 = 56 \<Longrightarrow> zeros_to_56 n = 0"
  by (simp add: zeros_to_56_def)

lemma zeros_after_mark:
  "zeros_to_56 (Suc n) = (if n mod 64 < 56 then 55 - n mod 64 else 119 - n mod 64)"
proof -
  define t where "t = n mod 64"
  have "t < 64" by (simp add: t_def)
  then consider "t < 56" | "56 \<le> t" "t < 63" | "t = 63" by linarith
  then have "(120 - Suc t mod 64) mod 64 = (if t < 56 then 55 - t else 119 - t)"
    using le_mod_geq[of 64 "120 - Suc t"] by cases simp_all
  then show ?thesis by (simp add: zeros_to_56_def t_def mod_Suc_eq)
qed

section \<open>The contract of a digest object\<close>

locale digest_law =
  fixes rep :: "'c \<Rightarrow> u8 list \<Rightarrow> bool"
    and init :: 'c
    and update :: "'c \<Rightarrow> u8 list \<Rightarrow> 'c"
    and finish :: "'c \<Rightarrow> u8 list \<times> 'c"
    and hash :: "u8 list \<Rightarrow> u8 list"
    and sz :: nat
  assumes rep_init: "rep init []"
    and rep_update: "rep c d \<Longrightarrow> rep (update c x) (d @ x)"
    and finish_hash: "rep c d \<Longrightarrow> fst (finish c) = hash d"
    and finish_rep: "rep c d \<Longrightarrow> rep (snd (finish c)) []"
    and hash_length: "length (hash d) = sz"
begin

lemma rep_foldl: "rep c d \<Longrightarrow> rep (foldl update c xs) (d @ concat xs)"
proof (induction xs arbitrary: c d)
  case (Cons x xs)
  from Cons.IH[OF rep_update[OF Cons.prems, of x]] show ?case by simp
qed simp

text \<open>The digest of a message given in pieces does not depend on the pieces.\<close>

lemma chunks_irrelevant: "fst (finish (foldl update init xs)) = hash (concat xs)"
  using rep_foldl[OF rep_init, of xs] by (simp add: finish_hash)

lemma reuse:
  assumes "rep c d"
  shows "fst (finish (update (snd (finish c)) x)) = hash x"
  using rep_update[OF finish_rep[OF assms], of x] by (simp add: finish_hash)

end

end
