(* ===== verification/Sha1.thy ===== *)
theory Sha1
  imports BlockHash
begin

text \<open>
  \<^verbatim>\<open>talk/base/sha1.cc\<close> and \<^verbatim>\<open>sha1digest.h\<close>: the SHA-1 used by
  \<^verbatim>\<open>Sha1Digest\<close> (the project's README sets no OpenSSL macro, so
  \<^verbatim>\<open>MessageDigestFactory\<close> creates this class). The 64-byte workspace is 16 words
  loaded in host order; the macros \<^verbatim>\<open>R0\<close> to \<^verbatim>\<open>R4\<close> are functions on the
  working variables in the order of their macro arguments, and each returns them in the order of
  the next macro call, where the roles have rotated by one.

  The theory ends with the functional specification \<open>sha1_hash\<close> (padding and block
  iteration over the whole message) and the proof that Init, any number of Updates and Final
  compute it.
\<close>

type_synonym sha_state = "u32 \<times> u32 \<times> u32 \<times> u32 \<times> u32"

section \<open>The compression function\<close>

definition rol :: "u32 \<Rightarrow> nat \<Rightarrow> u32" where
  "rol v bits = push_bit bits v OR drop_bit (32 - bits) v"

definition blk0 :: "u32 list \<Rightarrow> nat \<Rightarrow> u32 list" where
  "blk0 l i = l[i := (rol (l ! i) 24 AND 0xFF00FF00) OR (rol (l ! i) 8 AND 0x00FF00FF)]"

definition blk :: "u32 list \<Rightarrow> nat \<Rightarrow> u32 list" where
  "blk l i = l[i mod 16 :=
     rol (l ! ((i + 13) mod 16) XOR l ! ((i + 8) mod 16) XOR l ! ((i + 2) mod 16) XOR l ! (i mod 16)) 1]"

definition R0 :: "nat \<Rightarrow> sha_state \<times> u32 list \<Rightarrow> sha_state \<times> u32 list" where
  "R0 i s = (case s of ((v, w, x, y, z), l) \<Rightarrow>
     let l = blk0 l i; z = z + (((w AND (x XOR y)) XOR y) + l ! i + 0x5A827999 + rol v 5); w = rol w 30
     in ((z, v, w, x, y), l))"

definition R1 :: "nat \<Rightarrow> sha_state \<times> u32 list \<Rightarrow> sha_state \<times> u32 list" where
  "R1 i s = (case s of ((v, w, x, y, z), l) \<Rightarrow>
     let l = blk l i; z = z + (((w AND (x XOR y)) XOR y) + l ! (i mod 16) + 0x5A827999 + rol v 5); w = rol w 30
     in ((z, v, w, x, y), l))"

definition R2 :: "nat \<Rightarrow> sha_state \<times> u32 list \<Rightarrow> sha_state \<times> u32 list" where
  "R2 i s = (case s of ((v, w, x, y, z), l) \<Rightarrow>
     let l = blk l i; z = z + ((w XOR x XOR y) + l ! (i mod 16) + 0x6ED9EBA1 + rol v 5); w = rol w 30
     in ((z, v, w, x, y), l))"

definition R3 :: "nat \<Rightarrow> sha_state \<times> u32 list \<Rightarrow> sha_state \<times> u32 list" where
  "R3 i s = (case s of ((v, w, x, y, z), l) \<Rightarrow>
     let l = blk l i; z = z + ((((w OR x) AND y) OR (w AND x)) + l ! (i mod 16) + 0x8F1BBCDC + rol v 5); w = rol w 30
     in ((z, v, w, x, y), l))"

definition R4 :: "nat \<Rightarrow> sha_state \<times> u32 list \<Rightarrow> sha_state \<times> u32 list" where
  "R4 i s = (case s of ((v, w, x, y, z), l) \<Rightarrow>
     let l = blk l i; z = z + ((w XOR x XOR y) + l ! (i mod 16) + 0xCA62C1D6 + rol v 5); w = rol w 30
     in ((z, v, w, x, y), l))"

definition words_of_block :: "u8 list \<Rightarrow> u32 list" where
  "words_of_block buffer = map (\<lambda>i. load_host (chunk (4 * i) 4 buffer)) [0..<16]"

text \<open>The 80 unrolled calls: \<^verbatim>\<open>R0\<close> for 0 to 15, \<^verbatim>\<open>R1\<close> to 19, and so on.\<close>

definition SHA1Rounds :: "sha_state \<times> u32 list \<Rightarrow> sha_state \<times> u32 list" where
  "SHA1Rounds s =
     fold R4 [60..<80] (fold R3 [40..<60] (fold R2 [20..<40] (fold R1 [16..<20] (fold R0 [0..<16] s))))"

definition SHA1Transform :: "sha_state \<Rightarrow> u8 list \<Rightarrow> sha_state" where
  "SHA1Transform state buffer =
     (case fst (SHA1Rounds (state, words_of_block buffer)) of (a, b, c, d, e) \<Rightarrow>
      case state of (s0, s1, s2, s3, s4) \<Rightarrow> (s0 + a, s1 + b, s2 + c, s3 + d, s4 + e))"

section \<open>The streaming interface\<close>

record SHA1_CTX =
  sha_state :: sha_state
  sha_count0 :: u32
  sha_count1 :: u32
  sha_buffer :: "u8 list"

text \<open>\<^verbatim>\<open>SHA1Init\<close> sets the chaining value and the counts; the buffer is left as it is.\<close>

definition sha1_iv :: sha_state where
  "sha1_iv = (0x67452301, 0xEFCDAB89, 0x98BADCFE, 0x10325476, 0xC3D2E1F0)"

definition SHA1Init :: "SHA1_CTX \<Rightarrow> SHA1_CTX" where
  "SHA1Init ctx = ctx\<lparr>sha_state := sha1_iv, sha_count0 := 0, sha_count1 := 0\<rparr>"

text \<open>The loop of \<^verbatim>\<open>SHA1Update\<close> over the full blocks of the input.\<close>

function SHA1Update_blocks :: "sha_state \<Rightarrow> u8 list \<Rightarrow> nat \<Rightarrow> sha_state \<times> nat" where
  "SHA1Update_blocks state data i =
     (if i + 63 < length data then SHA1Update_blocks (SHA1Transform state (chunk i 64 data)) data (i + 64)
      else (state, i))"
  by pat_completeness auto
termination by (relation "measure (\<lambda>(state, data, i). length data - i)") auto

declare SHA1Update_blocks.simps [simp del]

definition SHA1Update :: "SHA1_CTX \<Rightarrow> u8 list \<Rightarrow> SHA1_CTX" where
  "SHA1Update context data =
     (let input_len = length data;
          index = unat (drop_bit 3 (sha_count0 context) AND 63);
          count0 = sha_count0 context + of_nat (8 * input_len);
          count1 = (if count0 < of_nat (8 * input_len) then sha_count1 context + 1 else sha_count1 context);
          count1 = count1 + of_nat (input_len div 2 ^ 29);
          context = context\<lparr>sha_count0 := count0, sha_count1 := count1\<rparr>
      in if index + input_len > 63 then
           let i = 64 - index;
               buffer = blit (sha_buffer context) index (chunk 0 i data);
               state = SHA1Transform (sha_state context) buffer;
               (state, i) = SHA1Update_blocks state data i
           in context\<lparr>sha_state := state, sha_buffer := blit buffer 0 (chunk i (input_len - i) data)\<rparr>
         else context\<lparr>sha_buffer := blit (sha_buffer context) index data\<rparr>)"

lemma SHA1Update_count0: "sha_count0 (SHA1Update c d) = sha_count0 c + of_nat (8 * length d)"
  by (simp add: SHA1Update_def Let_def split: prod.splits)

lemma and_504: "unat ((x :: u32) AND 504) = 8 * (unat x div 8 mod 64)"
proof -
  have e: "(504 :: u32) = push_bit 3 (mask 6)" by (simp add: mask_eq_decr_exp)
  have "x AND 504 = push_bit 3 (take_bit 6 (drop_bit 3 x))"
    unfolding e by (auto intro!: bit_word_eqI simp: bit_simps)
  then have "unat (x AND 504) = 8 * unat (take_bit 6 (drop_bit 3 x)) mod 2 ^ 32"
    by (simp add: unsigned_push_bit_eq take_bit_eq_mod push_bit_eq_mult mult.commute unat_word_ariths)
  moreover have "unat (take_bit 6 (drop_bit 3 x)) = unat x div 8 mod 64"
    by (simp only: unsigned_take_bit_eq unsigned_drop_bit_eq take_bit_eq_mod drop_bit_eq_div)
      (simp add: unat_div unat_mod)
  ultimately show ?thesis by simp
qed

definition pad_left :: "u32 \<Rightarrow> nat" where
  "pad_left c0 = (120 - unat c0 div 8 mod 64) mod 64"

lemma pad_left_arith:
  fixes t :: nat
  assumes "t < 64" "t \<noteq> 56"
  shows "(120 - (t + 1) mod 64) mod 64 < (120 - t) mod 64"
proof -
  consider "t < 56" | "56 < t" "t < 63" | "t = 63" using assms by linarith
  then show ?thesis
    using le_mod_geq[of 64 "120 - t"] le_mod_geq[of 64 "120 - (t + 1)"] by cases simp_all
qed

lemma pad_left_less:
  assumes "c0 AND 504 \<noteq> (448 :: u32)"
  shows "pad_left (c0 + 8) < pad_left c0"
proof -
  let ?t = "unat c0 div 8 mod 64"
  have ne: "?t \<noteq> 56"
  proof
    assume "?t = 56"
    then have "unat (c0 AND 504) = unat (448 :: u32)" by (simp add: and_504)
    with assms show False by (metis word_unat_eq_iff)
  qed
  have m: "a mod 2 ^ 32 div 8 mod 64 = a div 8 mod 64" for a :: nat
    using mod_mult2_eq[of a 8 "2 ^ 29"] by (simp add: mod_mod_cancel)
  have "unat (c0 + 8) div 8 mod 64 = (unat c0 + 8) div 8 mod 64"
    using m[of "unat c0 + 8"] by (simp add: unat_word_ariths)
  also have "\<dots> = (?t + 1) mod 64"
    by (metis div_add_self2 mod_add_left_eq numeral_eq_iff zero_neq_numeral)
  finally have t': "unat (c0 + 8) div 8 mod 64 = (?t + 1) mod 64" .
  have "?t < 64" by simp
  then have "(120 - (?t + 1) mod 64) mod 64 < (120 - ?t) mod 64" using ne by (rule pad_left_arith)
  then show ?thesis unfolding pad_left_def t' .
qed

text \<open>The padding loop of \<^verbatim>\<open>SHA1Final\<close>, one zero byte at a time.\<close>

function SHA1Final_pad :: "SHA1_CTX \<Rightarrow> SHA1_CTX" where
  "SHA1Final_pad context =
     (if sha_count0 context AND 504 \<noteq> 448 then SHA1Final_pad (SHA1Update context [0]) else context)"
  by pat_completeness auto
termination
  by (relation "measure (\<lambda>c. pad_left (sha_count0 c))") (auto simp: SHA1Update_count0 intro: pad_left_less)

declare SHA1Final_pad.simps [simp del]

fun sha_words :: "sha_state \<Rightarrow> u32 list" where
  "sha_words (a, b, c, d, e) = [a, b, c, d, e]"

text \<open>The digest and the wiped context (the last transform runs over the wiped fields).\<close>

definition SHA1Final :: "SHA1_CTX \<Rightarrow> u8 list \<times> SHA1_CTX" where
  "SHA1Final context =
     (let finalcount = map (\<lambda>i. ucast (drop_bit ((3 - i mod 4) * 8)
            (if i \<ge> 4 then sha_count0 context else sha_count1 context) AND 255)) [0..<8];
          context = SHA1Update context [0x80];
          context = SHA1Final_pad context;
          context = SHA1Update context finalcount;
          digest = map (\<lambda>i. ucast (drop_bit ((3 - i mod 4) * 8) (sha_words (sha_state context) ! (i div 4)) AND 255)) [0..<20];
          buffer = replicate 64 0
      in (digest, context\<lparr>sha_buffer := buffer, sha_state := SHA1Transform (0, 0, 0, 0, 0) buffer,
                           sha_count0 := 0, sha_count1 := 0\<rparr>))"

section \<open>The digest object\<close>

definition Sha1Digest_kSize :: nat where
  "Sha1Digest_kSize = 20"

text \<open>A new object; the constructor leaves the buffer uninitialised, here zeros.\<close>

definition Sha1Digest_new :: SHA1_CTX where
  "Sha1Digest_new = SHA1Init \<lparr>sha_state = (0, 0, 0, 0, 0), sha_count0 = 0, sha_count1 = 0, sha_buffer = replicate 64 0\<rparr>"

definition Sha1Digest_Update :: "SHA1_CTX \<Rightarrow> u8 list \<Rightarrow> SHA1_CTX" where
  "Sha1Digest_Update ctx buf = SHA1Update ctx buf"

text \<open>\<^verbatim>\<open>Finish(buf, len)\<close>: nothing is written when the output is too short.\<close>

definition Sha1Digest_Finish :: "SHA1_CTX \<Rightarrow> nat \<Rightarrow> u8 list \<times> SHA1_CTX" where
  "Sha1Digest_Finish ctx len =
     (if len < Sha1Digest_kSize then ([], ctx)
      else case SHA1Final ctx of (digest, ctx) \<Rightarrow> (digest, SHA1Init ctx))"

section \<open>Specification\<close>

definition sha1_pad :: "nat \<Rightarrow> u8 list" where
  "sha1_pad n = 0x80 # replicate (zeros_to_56 (n + 1)) 0 @ be_bytes 8 (of_nat (8 * n) :: u64)"

definition sha1_hash :: "u8 list \<Rightarrow> u8 list" where
  "sha1_hash m = concat (map (be_bytes 4) (sha_words (absorb SHA1Transform sha1_iv (m @ sha1_pad (length m)))))"

definition sha_rep :: "SHA1_CTX \<Rightarrow> u8 list \<Rightarrow> bool" where
  "sha_rep ctx d \<longleftrightarrow>
     sha_state ctx = absorb SHA1Transform sha1_iv d \<and>
     sha_count0 ctx = count_lo (length d) \<and> sha_count1 ctx = count_hi (length d) \<and>
     length (sha_buffer ctx) = 64 \<and> take (length d mod 64) (sha_buffer ctx) = leftover d"

lemma SHA1Update_blocks_absorb:
  assumes "i \<le> length data"
  shows "SHA1Update_blocks st data i =
    (absorb SHA1Transform st (drop i data), length data - length (leftover (drop i data)))"
  using assms
proof (induction st data i rule: SHA1Update_blocks.induct)
  case (1 st data i)
  show ?case
  proof (cases "i + 63 < length data")
    case True
    then have l: "64 \<le> length (drop i data)" by simp
    from "1.IH"[OF True] True show ?thesis
      by (subst SHA1Update_blocks.simps) (simp add: absorb_step[OF l] leftover_step[OF l] chunk_def add.commute)
  next
    case False
    then have "length (drop i data) < 64" by simp
    then show ?thesis using False "1.prems"
      by (subst SHA1Update_blocks.simps) (simp add: absorb_short)
  qed
qed

lemma sha_rep_Update:
  assumes "sha_rep ctx d"
  shows "sha_rep (SHA1Update ctx x) (d @ x)"
proof -
  let ?L = "leftover d" and ?T = SHA1Transform
  define index where "index = length d mod 64"
  have r: "sha_state ctx = absorb ?T sha1_iv d" "sha_count0 ctx = count_lo (length d)"
    "sha_count1 ctx = count_hi (length d)" "length (sha_buffer ctx) = 64"
    "take index (sha_buffer ctx) = ?L" "length ?L = index" "index < 64"
    using assms by (simp_all add: sha_rep_def index_def length_leftover)
  have idx: "unat (drop_bit 3 (sha_count0 ctx) AND 63) = index"
    by (simp add: r(2) count_lo_index index_def)
  have c: "sha_count0 (SHA1Update ctx x) = count_lo (length (d @ x))"
    "sha_count1 (SHA1Update ctx x) = count_hi (length (d @ x))"
    using count_carry[of "length d" "length x"] by (simp_all add: SHA1Update_def Let_def r split: prod.splits)
  show ?thesis
  proof (cases "index + length x > 63")
    case False
    have u: "sha_state (SHA1Update ctx x) = sha_state ctx" "sha_buffer (SHA1Update ctx x) = blit (sha_buffer ctx) index x"
      using False by (simp_all add: SHA1Update_def Let_def idx)
    have a: "absorb ?T sha1_iv (d @ x) = absorb ?T sha1_iv d" "leftover (d @ x) = ?L @ x"
      using False r(6) by (simp_all add: absorb_append[of _ _ d] absorb_short leftover_append[of d])
    have "length (d @ x) mod 64 = index + length x"
      using arg_cong[OF a(2), of length] r(6) by (simp add: length_leftover)
    then show ?thesis
      using u a c r False blit_at_end[of index "sha_buffer ctx" x] by (simp add: sha_rep_def)
  next
    case True
    define i where "i = 64 - index"
    define b where "b = blit (sha_buffer ctx) index (chunk 0 i x)"
    have i: "i \<le> length x" "index + i = 64" using True r(7) by (auto simp: i_def)
    have b: "b = ?L @ take i x" using r i by (simp add: b_def blit_def chunk_def)
    have lb: "length b = 64" using b r(6) i by simp
    let ?y = "drop i x"
    have "64 * ((length x - i) div 64) \<le> length x - i" by simp
    then have "64 * ((length x - i) div 64) + i \<le> length x" using i(1) by linarith
    then have lo: "length x - (length x - (64 * ((length x - i) div 64) + i)) = 64 * ((length x - i) div 64) + i"
      by simp
    have u: "sha_state (SHA1Update ctx x) = absorb ?T (?T (sha_state ctx) b) ?y"
      "sha_buffer (SHA1Update ctx x) = blit b 0 (leftover ?y)"
      using True SHA1Update_blocks_absorb[OF i(1)]
      by (simp_all add: SHA1Update_def Let_def idx b_def[symmetric] i_def[symmetric])
        (simp add: chunk_def leftover_def lo)
    have e: "?L @ x = b @ ?y" using b by simp
    have a: "absorb ?T sha1_iv (d @ x) = absorb ?T (?T (sha_state ctx) b) ?y" "leftover (d @ x) = leftover ?y"
      using lb unfolding absorb_append[of _ _ d] leftover_append[of d] e
      by (simp_all add: absorb_block r(1) leftover_step)
    have "length (leftover ?y) = length (d @ x) mod 64"
      using a(2) length_leftover[of "d @ x"] by simp
    moreover have "length (leftover ?y) \<le> 64" by (simp add: length_leftover less_imp_le)
    ultimately show ?thesis
      using u a c lb blit_at_end[of 0 b "leftover ?y"] by (simp add: sha_rep_def)
  qed
qed

lemma pad_guard: "count_lo n AND 504 = 448 \<longleftrightarrow> n mod 64 = 56"
proof -
  have "count_lo n AND 504 = 448 \<longleftrightarrow> unat (count_lo n AND 504) = 448"
    by (simp add: word_unat_eq_iff)
  then show ?thesis by (simp add: and_504 count_lo_residue)
qed

lemma sha_rep_pad:
  assumes "sha_rep ctx d"
  shows "sha_rep (SHA1Final_pad ctx) (d @ replicate (zeros_to_56 (length d)) 0)"
  using assms
proof (induction ctx arbitrary: d rule: SHA1Final_pad.induct)
  case (1 ctx)
  have c: "sha_count0 ctx = count_lo (length d)" using "1.prems" by (simp add: sha_rep_def)
  show ?case
  proof (cases "length d mod 64 = 56")
    case True
    then show ?thesis using "1.prems"
      by (subst SHA1Final_pad.simps) (simp add: c pad_guard zeros_stop)
  next
    case False
    then have g: "sha_count0 ctx AND 504 \<noteq> 448" by (simp add: c pad_guard)
    have "sha_rep (SHA1Final_pad (SHA1Update ctx [0])) ((d @ [0]) @ replicate (zeros_to_56 (length (d @ [0]))) 0)"
      using "1.IH"[OF g sha_rep_Update[OF "1.prems"]] .
    then show ?thesis using g False
      by (subst SHA1Final_pad.simps) (simp add: zeros_step)
  qed
qed

lemma four_bytes: "be_bytes 4 (v :: u32) = map (\<lambda>i. ucast (drop_bit ((3 - i mod 4) * 8) v AND 255)) [0..<4]"
proof -
  have e: "(255 :: u32) = mask 8" by (simp add: mask_eq_decr_exp)
  have "(ucast (v AND 255) :: u8) = ucast v" for v :: u32
    unfolding e by (auto intro!: bit_word_eqI simp: bit_simps)
  then show ?thesis by (simp add: be_bytes_4 upt_rec)
qed

lemma sha1_state_bytes:
  "map (\<lambda>i. ucast (drop_bit ((3 - i mod 4) * 8) (sha_words st ! (i div 4)) AND 255)) [0..<20] =
   concat (map (be_bytes 4) (sha_words st))"
  by (cases st) (simp add: four_bytes upt_rec)

lemma SHA1Final_hash:
  assumes "sha_rep ctx d"
  shows "fst (SHA1Final ctx) = sha1_hash d"
proof -
  define fc :: "u8 list" where "fc = map (\<lambda>i. ucast (drop_bit ((3 - i mod 4) * 8)
            (if i \<ge> 4 then sha_count0 ctx else sha_count1 ctx) AND 255)) [0..<8]"
  have "fc = be_bytes 4 (sha_count1 ctx) @ be_bytes 4 (sha_count0 ctx)"
    by (simp add: fc_def four_bytes upt_rec)
  then have fc: "fc = be_bytes 8 (of_nat (8 * length d) :: u64)"
    using assms by (simp add: sha_rep_def count_be_bytes del: of_nat_mult)
  have "sha_rep (SHA1Update (SHA1Final_pad (SHA1Update ctx [0x80])) fc) (d @ sha1_pad (length d))"
    using sha_rep_Update[OF sha_rep_pad[OF sha_rep_Update[OF assms, of "[0x80]"]], of fc]
    by (simp add: sha1_pad_def fc)
  then show ?thesis
    by (simp add: SHA1Final_def Let_def fc_def[symmetric] sha1_state_bytes sha1_hash_def)
      (simp add: sha_rep_def)
qed

lemma length_sha1_hash: "length (sha1_hash d) = 20"
  unfolding sha1_hash_def by (cases "absorb SHA1Transform sha1_iv (d @ sha1_pad (length d))") simp

lemma sha_rep_Init: "length (sha_buffer ctx) = 64 \<Longrightarrow> sha_rep (SHA1Init ctx) []"
  by (simp add: sha_rep_def SHA1Init_def absorb_short count_lo_def count_hi_def)

lemma SHA1Final_buffer: "length (sha_buffer (snd (SHA1Final ctx))) = 64"
  by (simp add: SHA1Final_def Let_def)

interpretation sha1: digest_law sha_rep Sha1Digest_new Sha1Digest_Update
  "\<lambda>c. Sha1Digest_Finish c Sha1Digest_kSize" sha1_hash Sha1Digest_kSize
proof unfold_locales
  show "sha_rep Sha1Digest_new []" by (simp add: Sha1Digest_new_def sha_rep_Init)
  fix c d x
  show "sha_rep c d \<Longrightarrow> sha_rep (Sha1Digest_Update c x) (d @ x)"
    by (simp add: Sha1Digest_Update_def sha_rep_Update)
  show "sha_rep c d \<Longrightarrow> fst (Sha1Digest_Finish c Sha1Digest_kSize) = sha1_hash d"
    using SHA1Final_hash[of c d] by (cases "SHA1Final c") (simp add: Sha1Digest_Finish_def)
  show "sha_rep c d \<Longrightarrow> sha_rep (snd (Sha1Digest_Finish c Sha1Digest_kSize)) []"
    using SHA1Final_buffer[of c] by (cases "SHA1Final c") (simp add: Sha1Digest_Finish_def sha_rep_Init)
  show "length (sha1_hash d) = Sha1Digest_kSize"
    by (simp add: length_sha1_hash Sha1Digest_kSize_def)
qed

section \<open>Properties\<close>

text \<open>C24: However a message is cut into pieces, updating a fresh SHA-1 object with the pieces and
  finishing gives the padded block hash of the whole message.\<close>
theorem sha1_streaming:
  "fst (Sha1Digest_Finish (foldl Sha1Digest_Update Sha1Digest_new pieces) Sha1Digest_kSize) = sha1_hash (concat pieces)"
  by (rule sha1.chunks_irrelevant)

end
