(* ===== verification/Md5.thy ===== *)
theory Md5
  imports BlockHash
begin

text \<open>
  \<^verbatim>\<open>talk/base/md5.cc\<close> and \<^verbatim>\<open>md5digest.h\<close>. The context keeps the chaining
  value \<^verbatim>\<open>buf\<close>, the bit count \<^verbatim>\<open>bits\<close> and the 64-byte block
  \<^verbatim>\<open>in\<close>, which the code accesses both as bytes and as sixteen 32-bit words; here it
  is the bytes, and \<open>in_words\<close> reads them as host words (\<^verbatim>\<open>ByteReverse\<close> is empty
  on the little-endian host modelled).

  The theory ends with the functional specification \<open>md5_hash\<close> and the proof that Init,
  any number of Updates and Final compute it.
\<close>

type_synonym md5_state = "u32 \<times> u32 \<times> u32 \<times> u32"

section \<open>The compression function\<close>

definition F1 :: "u32 \<Rightarrow> u32 \<Rightarrow> u32 \<Rightarrow> u32" where
  "F1 x y z = z XOR (x AND (y XOR z))"

definition F2 :: "u32 \<Rightarrow> u32 \<Rightarrow> u32 \<Rightarrow> u32" where
  "F2 x y z = F1 z x y"

definition F3 :: "u32 \<Rightarrow> u32 \<Rightarrow> u32 \<Rightarrow> u32" where
  "F3 x y z = x XOR y XOR z"

definition F4 :: "u32 \<Rightarrow> u32 \<Rightarrow> u32 \<Rightarrow> u32" where
  "F4 x y z = y XOR (x OR NOT z)"

text \<open>
  One \<^verbatim>\<open>MD5STEP\<close>: the working variables come in the order of the macro arguments
  \<^verbatim>\<open>w, x, y, z\<close> and leave in the order of the next step's arguments.
\<close>

definition MD5STEP ::
  "(u32 \<Rightarrow> u32 \<Rightarrow> u32 \<Rightarrow> u32) \<Rightarrow> u32 list \<Rightarrow> nat \<times> u32 \<times> nat \<Rightarrow> md5_state \<Rightarrow> md5_state" where
  "MD5STEP f inw step s =
     (case s of (w, x, y, z) \<Rightarrow> case step of (i, k, sh) \<Rightarrow>
        let w = w + (f x y z + (inw ! i + k));
            w = push_bit sh w OR drop_bit (32 - sh) w;
            w = w + x
        in (z, w, x, y))"

definition MD5_round1 :: "(nat \<times> u32 \<times> nat) list" where
  "MD5_round1 =
    [( 0, 0xd76aa478, 7), ( 1, 0xe8c7b756, 12), ( 2, 0x242070db, 17), ( 3, 0xc1bdceee, 22),
     ( 4, 0xf57c0faf, 7), ( 5, 0x4787c62a, 12), ( 6, 0xa8304613, 17), ( 7, 0xfd469501, 22),
     ( 8, 0x698098d8, 7), ( 9, 0x8b44f7af, 12), (10, 0xffff5bb1, 17), (11, 0x895cd7be, 22),
     (12, 0x6b901122, 7), (13, 0xfd987193, 12), (14, 0xa679438e, 17), (15, 0x49b40821, 22)]"

definition MD5_round2 :: "(nat \<times> u32 \<times> nat) list" where
  "MD5_round2 =
    [( 1, 0xf61e2562, 5), ( 6, 0xc040b340, 9), (11, 0x265e5a51, 14), ( 0, 0xe9b6c7aa, 20),
     ( 5, 0xd62f105d, 5), (10, 0x02441453, 9), (15, 0xd8a1e681, 14), ( 4, 0xe7d3fbc8, 20),
     ( 9, 0x21e1cde6, 5), (14, 0xc33707d6, 9), ( 3, 0xf4d50d87, 14), ( 8, 0x455a14ed, 20),
     (13, 0xa9e3e905, 5), ( 2, 0xfcefa3f8, 9), ( 7, 0x676f02d9, 14), (12, 0x8d2a4c8a, 20)]"

definition MD5_round3 :: "(nat \<times> u32 \<times> nat) list" where
  "MD5_round3 =
    [( 5, 0xfffa3942, 4), ( 8, 0x8771f681, 11), (11, 0x6d9d6122, 16), (14, 0xfde5380c, 23),
     ( 1, 0xa4beea44, 4), ( 4, 0x4bdecfa9, 11), ( 7, 0xf6bb4b60, 16), (10, 0xbebfbc70, 23),
     (13, 0x289b7ec6, 4), ( 0, 0xeaa127fa, 11), ( 3, 0xd4ef3085, 16), ( 6, 0x04881d05, 23),
     ( 9, 0xd9d4d039, 4), (12, 0xe6db99e5, 11), (15, 0x1fa27cf8, 16), ( 2, 0xc4ac5665, 23)]"

definition MD5_round4 :: "(nat \<times> u32 \<times> nat) list" where
  "MD5_round4 =
    [( 0, 0xf4292244, 6), ( 7, 0x432aff97, 10), (14, 0xab9423a7, 15), ( 5, 0xfc93a039, 21),
     (12, 0x655b59c3, 6), ( 3, 0x8f0ccc92, 10), (10, 0xffeff47d, 15), ( 1, 0x85845dd1, 21),
     ( 8, 0x6fa87e4f, 6), (15, 0xfe2ce6e0, 10), ( 6, 0xa3014314, 15), (13, 0x4e0811a1, 21),
     ( 4, 0xf7537e82, 6), (11, 0xbd3af235, 10), ( 2, 0x2ad7d2bb, 15), ( 9, 0xeb86d391, 21)]"

definition MD5Transform :: "md5_state \<Rightarrow> u32 list \<Rightarrow> md5_state" where
  "MD5Transform buf inw =
     (case fold (MD5STEP F4 inw) MD5_round4 (fold (MD5STEP F3 inw) MD5_round3
        (fold (MD5STEP F2 inw) MD5_round2 (fold (MD5STEP F1 inw) MD5_round1 buf))) of (a, b, c, d) \<Rightarrow>
      case buf of (b0, b1, b2, b3) \<Rightarrow> (b0 + a, b1 + b, b2 + c, b3 + d))"

definition in_words :: "u8 list \<Rightarrow> u32 list" where
  "in_words bs = map (\<lambda>i. load_host (chunk (4 * i) 4 bs)) [0..<length bs div 4]"

text \<open>\<^verbatim>\<open>ByteReverse(ctx->in, 16); MD5Transform(ctx->buf, ctx->in)\<close>.\<close>

definition MD5Transform_in :: "md5_state \<Rightarrow> u8 list \<Rightarrow> md5_state" where
  "MD5Transform_in buf block = MD5Transform buf (in_words block)"

section \<open>The streaming interface\<close>

record MD5_CTX =
  md5_buf :: md5_state
  md5_bits0 :: u32
  md5_bits1 :: u32
  md5_in :: "u8 list"

definition md5_iv :: md5_state where
  "md5_iv = (0x67452301, 0xefcdab89, 0x98badcfe, 0x10325476)"

definition MD5Init :: "MD5_CTX \<Rightarrow> MD5_CTX" where
  "MD5Init ctx = ctx\<lparr>md5_buf := md5_iv, md5_bits0 := 0, md5_bits1 := 0\<rparr>"

text \<open>
  The loop over the 64-byte chunks and the final \<^verbatim>\<open>memcpy\<close> of \<^verbatim>\<open>MD5Update\<close>;
  the result is the chaining value and \<^verbatim>\<open>in\<close>.
\<close>

function MD5Update_blocks :: "md5_state \<Rightarrow> u8 list \<Rightarrow> u8 list \<Rightarrow> md5_state \<times> u8 list" where
  "MD5Update_blocks st blk data =
     (if 64 \<le> length data then
        let blk = blit blk 0 (take 64 data)
        in MD5Update_blocks (MD5Transform_in st blk) blk (drop 64 data)
      else (st, blit blk 0 data))"
  by pat_completeness auto
termination by (relation "measure (\<lambda>(st, blk, data). length data)") auto

declare MD5Update_blocks.simps [simp del]

definition MD5Update :: "MD5_CTX \<Rightarrow> u8 list \<Rightarrow> MD5_CTX" where
  "MD5Update ctx buf =
     (let len = length buf;
          t = md5_bits0 ctx;
          bits0 = t + push_bit 3 (of_nat len);
          bits1 = (if bits0 < t then md5_bits1 ctx + 1 else md5_bits1 ctx);
          bits1 = bits1 + of_nat (len div 2 ^ 29);
          ctx = ctx\<lparr>md5_bits0 := bits0, md5_bits1 := bits1\<rparr>;
          t = unat (drop_bit 3 t AND 0x3f)
      in if t \<noteq> 0 \<and> len < 64 - t then ctx\<lparr>md5_in := blit (md5_in ctx) t buf\<rparr>
         else
           let (st, blk, buf) =
                 (if t \<noteq> 0 then
                    let blk = blit (md5_in ctx) t (take (64 - t) buf)
                    in (MD5Transform_in (md5_buf ctx) blk, blk, drop (64 - t) buf)
                  else (md5_buf ctx, md5_in ctx, buf));
               (st, blk) = MD5Update_blocks st blk buf
           in ctx\<lparr>md5_buf := st, md5_in := blk\<rparr>)"

fun md5_words :: "md5_state \<Rightarrow> u32 list" where
  "md5_words (a, b, c, d) = [a, b, c, d]"

text \<open>
  \<^verbatim>\<open>MD5Final\<close>: the last transform reads fourteen words of the block and the bit count
  in host order; the digest is the chaining value in little-endian bytes; the context is wiped.
\<close>

definition MD5Final :: "MD5_CTX \<Rightarrow> u8 list \<times> MD5_CTX" where
  "MD5Final ctx =
     (let count = unat (drop_bit 3 (md5_bits0 ctx) AND 0x3F);
          blk = (md5_in ctx)[count := 0x80];
          p = count + 1;
          count = 64 - 1 - count;
          (st, blk) =
            (if count < 8 then
               let blk = blit blk p (replicate count 0);
                   st = MD5Transform_in (md5_buf ctx) blk
               in (st, blit blk 0 (replicate 56 0))
             else (md5_buf ctx, blit blk p (replicate (count - 8) 0)));
          st = MD5Transform st (in_words (take 56 blk) @ [md5_bits0 ctx, md5_bits1 ctx])
      in (concat (map (store_host 4) (md5_words st)),
          \<lparr>md5_buf = (0, 0, 0, 0), md5_bits0 = 0, md5_bits1 = 0, md5_in = replicate 64 0\<rparr>))"

section \<open>The digest object\<close>

definition Md5Digest_kSize :: nat where
  "Md5Digest_kSize = 16"

text \<open>A new object; the constructor leaves the block uninitialised, here zeros.\<close>

definition Md5Digest_new :: MD5_CTX where
  "Md5Digest_new = MD5Init \<lparr>md5_buf = (0, 0, 0, 0), md5_bits0 = 0, md5_bits1 = 0, md5_in = replicate 64 0\<rparr>"

definition Md5Digest_Update :: "MD5_CTX \<Rightarrow> u8 list \<Rightarrow> MD5_CTX" where
  "Md5Digest_Update ctx buf = MD5Update ctx buf"

definition Md5Digest_Finish :: "MD5_CTX \<Rightarrow> nat \<Rightarrow> u8 list \<times> MD5_CTX" where
  "Md5Digest_Finish ctx len =
     (if len < Md5Digest_kSize then ([], ctx)
      else case MD5Final ctx of (digest, ctx) \<Rightarrow> (digest, MD5Init ctx))"

section \<open>Specification\<close>

definition md5_pad :: "nat \<Rightarrow> u8 list" where
  "md5_pad n = 0x80 # replicate (zeros_to_56 (n + 1)) 0 @ store_host 8 (of_nat (8 * n) :: u64)"

definition md5_hash :: "u8 list \<Rightarrow> u8 list" where
  "md5_hash m = concat (map (store_host 4) (md5_words (absorb MD5Transform_in md5_iv (m @ md5_pad (length m)))))"

definition md5_rep :: "MD5_CTX \<Rightarrow> u8 list \<Rightarrow> bool" where
  "md5_rep ctx d \<longleftrightarrow>
     md5_buf ctx = absorb MD5Transform_in md5_iv d \<and>
     md5_bits0 ctx = count_lo (length d) \<and> md5_bits1 ctx = count_hi (length d) \<and>
     length (md5_in ctx) = 64 \<and> take (length d mod 64) (md5_in ctx) = leftover d"

lemma MD5Update_blocks_absorb:
  assumes "length blk = 64"
  shows "\<exists>b. MD5Update_blocks st blk data = (absorb MD5Transform_in st data, b) \<and> length b = 64 \<and>
    take (length data mod 64) b = leftover data"
  using assms
proof (induction st blk data rule: MD5Update_blocks.induct)
  case (1 st blk data)
  show ?case
  proof (cases "64 \<le> length data")
    case True
    then have b: "blit blk 0 (take 64 data) = take 64 data" using "1.prems" by (simp add: blit_def)
    have m: "length (drop 64 data) mod 64 = length data mod 64" using True by (simp add: le_mod_geq)
    have l: "length (blit blk 0 (take 64 data)) = 64" unfolding b using True by simp
    show ?thesis using "1.IH"[OF True refl l] True
      unfolding b m by (subst MD5Update_blocks.simps) (simp add: Let_def b absorb_step leftover_step)
  next
    case False
    then show ?thesis using "1.prems" blit_at_end[of 0 blk data]
      by (subst MD5Update_blocks.simps) (simp add: absorb_short)
  qed
qed

lemma md5_rep_Update:
  assumes "md5_rep ctx d"
  shows "md5_rep (MD5Update ctx x) (d @ x)"
proof -
  let ?L = "leftover d" and ?T = MD5Transform_in
  define t where "t = length d mod 64"
  have r: "md5_buf ctx = absorb ?T md5_iv d" "md5_bits0 ctx = count_lo (length d)"
    "md5_bits1 ctx = count_hi (length d)" "length (md5_in ctx) = 64"
    "take t (md5_in ctx) = ?L" "length ?L = t" "t < 64"
    using assms by (simp_all add: md5_rep_def t_def length_leftover)
  have idx: "unat (drop_bit 3 (md5_bits0 ctx) AND 63) = t"
    by (simp add: r(2) count_lo_index t_def)
  have sh: "push_bit 3 (of_nat (length x) :: u32) = of_nat (8 * length x)"
    by (simp add: push_bit_eq_mult)
  have c: "md5_bits0 (MD5Update ctx x) = count_lo (length (d @ x))"
    "md5_bits1 (MD5Update ctx x) = count_hi (length (d @ x))"
    using count_carry[of "length d" "length x"] carry_sym[of "count_lo (length d)" "of_nat (8 * length x)"]
    by (simp_all add: MD5Update_def Let_def r sh split: prod.splits)
  show ?thesis
  proof (cases "t \<noteq> 0 \<and> length x < 64 - t")
    case True
    have u: "md5_buf (MD5Update ctx x) = md5_buf ctx" "md5_in (MD5Update ctx x) = blit (md5_in ctx) t x"
      using True by (simp_all add: MD5Update_def Let_def idx)
    have "length (?L @ x) < 64" using True r(6) by simp linarith
    then have a: "absorb ?T md5_iv (d @ x) = absorb ?T md5_iv d" "leftover (d @ x) = ?L @ x"
      using True r(6) by (simp_all add: absorb_append[of _ _ d] absorb_short leftover_append[of d])
    have "length (d @ x) mod 64 = t + length x"
      using arg_cong[OF a(2), of length] r(6) by (simp add: length_leftover)
    then show ?thesis
      using u a c r True blit_at_end[of t "md5_in ctx" x] by (simp add: md5_rep_def)
  next
    case False
    define i where "i = (if t = 0 then 0 else 64 - t)"
    define b where "b = (if t = 0 then md5_in ctx else blit (md5_in ctx) t (take i x))"
    define st where "st = (if t = 0 then md5_buf ctx else ?T (md5_buf ctx) b)"
    have i: "i \<le> length x" using False by (auto simp: i_def)
    have lb: "length b = 64" using r i by (auto simp: b_def i_def)
    have bb: "t \<noteq> 0 \<Longrightarrow> b = ?L @ take i x" using r i by (simp add: b_def blit_def i_def)
    obtain b' where b': "MD5Update_blocks st b (drop i x) = (absorb ?T st (drop i x), b')" "length b' = 64"
        "take (length (drop i x) mod 64) b' = leftover (drop i x)"
      using MD5Update_blocks_absorb[OF lb, of st "drop i x"] by blast
    have u: "md5_buf (MD5Update ctx x) = absorb ?T st (drop i x)" "md5_in (MD5Update ctx x) = b'"
      using b' False by (auto simp: MD5Update_def Let_def idx b_def st_def i_def split: prod.splits if_splits)
    have a: "absorb ?T md5_iv (d @ x) = absorb ?T st (drop i x) \<and> leftover (d @ x) = leftover (drop i x)"
    proof (cases "t = 0")
      case True
      then show ?thesis using r(6)
        by (simp add: i_def st_def r(1) absorb_append[of _ _ d] leftover_append[of d])
    next
      case False
      have e: "?L @ x = b @ drop i x" using bb[OF False] by simp
      show ?thesis
        using lb False unfolding absorb_append[of _ _ d] leftover_append[of d] e
        by (simp add: absorb_block st_def r(1) leftover_step)
    qed
    have "length (drop i x) mod 64 = length (d @ x) mod 64"
      using a length_leftover[of "d @ x"] length_leftover[of "drop i x"] by simp
    then show ?thesis using u a c b' by (simp add: md5_rep_def)
  qed
qed

lemma in_words_count:
  assumes "length a = 56"
  shows "in_words (a @ store_host 4 (lo :: u32) @ store_host 4 (hi :: u32)) = in_words a @ [lo, hi]"
proof -
  have u: "[0..<16] = [0..<14] @ [14, 15 :: nat]" by (simp add: upt_rec)
  have c: "i < 14 \<Longrightarrow> chunk (4 * i) 4 (a @ b) = chunk (4 * i) 4 a" for i and b :: "u8 list"
    using assms by (simp add: chunk_def)
  have l: "length (store_host 4 (v :: u32)) = 4" for v by (simp add: store_host_def)
  show ?thesis
    using assms by (simp add: in_words_def l u c cong: map_cong) (simp add: chunk_def l load_store_host)
qed

lemma store_count: "store_host 4 (count_lo n) @ store_host 4 (count_hi n) = store_host 8 (of_nat (8 * n) :: u64)"
  using arg_cong[OF count_be_bytes[of n], of rev] by (simp add: store_host_def del: of_nat_mult)

text \<open>The block before the bit count goes in, in both padding cases.\<close>

lemma MD5Final_hash:
  assumes "md5_rep ctx d"
  shows "fst (MD5Final ctx) = md5_hash d"
proof -
  let ?L = "leftover d" and ?T = MD5Transform_in
  define c where "c = length d mod 64"
  define blk where "blk = (md5_in ctx)[c := 0x80]"
  have r: "md5_buf ctx = absorb ?T md5_iv d" "md5_bits0 ctx = count_lo (length d)"
    "md5_bits1 ctx = count_hi (length d)" "length (md5_in ctx) = 64"
    "take c (md5_in ctx) = ?L" "length ?L = c" "c < 64"
    using assms by (simp_all add: md5_rep_def c_def length_leftover)
  have idx: "unat (drop_bit 3 (count_lo (length d)) AND 63) = c"
    by (simp add: count_lo_index c_def)
  have t: "take (Suc c) blk = ?L @ [0x80]" "length blk = 64"
    using r by (simp_all add: blk_def take_Suc_conv_app_nth)
  let ?cnt = "store_host 4 (count_lo (length d)) @ store_host 4 (count_hi (length d))"
  have final: "MD5Transform st (in_words w @ [count_lo (length d), count_hi (length d)]) = ?T st (w @ ?cnt)"
    if "length w = 56" for st w
    using in_words_count[OF that] by (simp add: MD5Transform_in_def)
  have fl: "absorb ?T st (w @ ?cnt) = ?T st (w @ ?cnt)" if "length w = 56" for st w
    using that absorb_block[of "w @ ?cnt" ?T st "[]"] by (simp add: store_host_def absorb_short)
  have pad: "absorb ?T md5_iv (d @ md5_pad (length d)) =
      absorb ?T (md5_buf ctx) (?L @ [0x80] @ replicate (zeros_to_56 (Suc (length d))) 0 @ ?cnt)"
    by (simp add: md5_pad_def store_count absorb_append[of _ _ d] r(1) del: of_nat_mult)
  define P where "P = (if 63 - c < 8 then
      (?T (md5_buf ctx) (blit blk (Suc c) (replicate (63 - c) 0)),
       blit (blit blk (Suc c) (replicate (63 - c) 0)) 0 (replicate 56 0))
    else (md5_buf ctx, blit blk (Suc c) (replicate (55 - c) 0)))"
  have "MD5Transform (fst P) (in_words (take 56 (snd P)) @ [count_lo (length d), count_hi (length d)]) =
    absorb ?T md5_iv (d @ md5_pad (length d))"
  proof (cases "c < 56")
    case True
    then have "take 56 (blit blk (Suc c) (replicate (55 - c) 0)) = ?L @ [0x80] @ replicate (55 - c) 0"
      using t r blit_at_end[of "Suc c" blk "replicate (55 - c) 0"] by simp
    moreover have "\<not> 63 - c < 8" using True by linarith
    ultimately show ?thesis unfolding pad
      using True r(6) fl[of "?L @ [0x80] @ replicate (55 - c) 0"]
      by (simp add: P_def final zeros_after_mark c_def[symmetric])
  next
    case False
    then have b: "blit blk (Suc c) (replicate (63 - c) 0) = ?L @ [0x80] @ replicate (63 - c) 0"
      using t r by (simp add: blit_def)
    have "63 - c < 8" using False by linarith
    have "119 - c = (63 - c) + 56" using r(7) False by simp
    then have e: "?L @ [0x80] @ replicate (119 - c) 0 @ ?cnt =
        (?L @ [0x80] @ replicate (63 - c) 0) @ (replicate 56 0 @ ?cnt)"
      by (simp only: replicate_add append_assoc)
    have z: "zeros_to_56 (Suc (length d)) = 119 - c"
      using False by (simp add: zeros_after_mark c_def[symmetric])
    have "length (?L @ [0x80] @ replicate (63 - c) 0) = 64" using r(6,7) by simp
    then have "absorb ?T (md5_buf ctx) (?L @ [0x80] @ replicate (119 - c) 0 @ ?cnt) =
        ?T (?T (md5_buf ctx) (?L @ [0x80] @ replicate (63 - c) 0)) (replicate 56 0 @ ?cnt)"
      unfolding e by (simp only: absorb_block fl length_replicate)
    moreover have "take 56 (blit w 0 (replicate 56 0)) = replicate 56 0" for w :: "u8 list"
      by (simp add: blit_def)
    ultimately show ?thesis unfolding pad z
      using b \<open>63 - c < 8\<close> by (simp add: P_def final)
  qed
  then show ?thesis
    by (cases "63 - c < 8")
      (simp_all add: MD5Final_def md5_hash_def r(2,3) idx blk_def P_def Let_def split_def)
qed

lemma length_md5_hash: "length (md5_hash d) = 16"
  unfolding md5_hash_def
  by (cases "absorb MD5Transform_in md5_iv (d @ md5_pad (length d))") (simp add: store_host_def)

lemma md5_rep_Init: "length (md5_in ctx) = 64 \<Longrightarrow> md5_rep (MD5Init ctx) []"
  by (simp add: md5_rep_def MD5Init_def absorb_short count_lo_def count_hi_def)

lemma MD5Final_buffer: "length (md5_in (snd (MD5Final ctx))) = 64"
  by (simp add: MD5Final_def Let_def split: prod.splits)

interpretation md5: digest_law md5_rep Md5Digest_new Md5Digest_Update
  "\<lambda>c. Md5Digest_Finish c Md5Digest_kSize" md5_hash Md5Digest_kSize
proof unfold_locales
  show "md5_rep Md5Digest_new []" by (simp add: Md5Digest_new_def md5_rep_Init)
  fix c d x
  show "md5_rep c d \<Longrightarrow> md5_rep (Md5Digest_Update c x) (d @ x)"
    by (simp add: Md5Digest_Update_def md5_rep_Update)
  show "md5_rep c d \<Longrightarrow> fst (Md5Digest_Finish c Md5Digest_kSize) = md5_hash d"
    using MD5Final_hash[of c d] by (cases "MD5Final c") (simp add: Md5Digest_Finish_def)
  show "md5_rep c d \<Longrightarrow> md5_rep (snd (Md5Digest_Finish c Md5Digest_kSize)) []"
    using MD5Final_buffer[of c] by (cases "MD5Final c") (simp add: Md5Digest_Finish_def md5_rep_Init)
  show "length (md5_hash d) = Md5Digest_kSize"
    by (simp add: length_md5_hash Md5Digest_kSize_def)
qed

section \<open>Properties\<close>

text \<open>C25: However a message is cut into pieces, updating a fresh MD5 object with the pieces and
  finishing gives the padded block hash of the whole message.\<close>
theorem md5_streaming:
  "fst (Md5Digest_Finish (foldl Md5Digest_Update Md5Digest_new pieces) Md5Digest_kSize) = md5_hash (concat pieces)"
  by (rule md5.chunks_irrelevant)

end
