(* ===== verification/StringEncode.thy ===== *)
theory StringEncode
  imports Prelude
begin

text \<open>
  The hexadecimal codec of \<^verbatim>\<open>talk/base/stringencode.cc\<close>. Characters
  are bytes; a function that fills a caller's buffer of \<open>buflen\<close> bytes returns the bytes
  its return value counts, so that the return value 0 of an error is the empty list.
\<close>

section \<open>Hexadecimal\<close>

definition HEX :: "u8 list" where
  "HEX = [0x30, 0x31, 0x32, 0x33, 0x34, 0x35, 0x36, 0x37, 0x38, 0x39, 0x61, 0x62, 0x63, 0x64, 0x65, 0x66]"

definition hex_encode_digit :: "u8 \<Rightarrow> u8" where
  "hex_encode_digit val = (if val < 16 then HEX ! unat val else 0x21)"

definition hex_decode_digit :: "u8 \<Rightarrow> u8 option" where
  "hex_decode_digit ch =
     (if ch \<ge> 0x30 \<and> ch \<le> 0x39 then Some (ch - 0x30)
      else if ch \<ge> 0x41 \<and> ch \<le> 0x5A then Some ((ch - 0x41) + 10)
      else if ch \<ge> 0x61 \<and> ch \<le> 0x7A then Some ((ch - 0x61) + 10)
      else None)"

fun hex_encode_loop :: "u8 \<Rightarrow> u8 list \<Rightarrow> u8 list" where
  "hex_encode_loop delimiter [] = []"
| "hex_encode_loop delimiter (ch # src) =
     [hex_encode_digit (drop_bit 4 ch AND 0xF), hex_encode_digit (ch AND 0xF)] @
     (if delimiter \<noteq> 0 \<and> src \<noteq> [] then [delimiter] else []) @ hex_encode_loop delimiter src"

definition hex_encode_with_delimiter_buf :: "nat \<Rightarrow> u8 list \<Rightarrow> u8 \<Rightarrow> u8 list" where
  "hex_encode_with_delimiter_buf buflen src delimiter =
     (if buflen = 0 then []
      else let needed = (if delimiter \<noteq> 0 then length src * 3 else length src * 2 + 1)
           in if buflen < needed then [] else hex_encode_loop delimiter src)"

definition hex_encode_with_delimiter :: "u8 list \<Rightarrow> u8 \<Rightarrow> u8 list" where
  "hex_encode_with_delimiter src delimiter = hex_encode_with_delimiter_buf (length src * 3) src delimiter"

definition hex_encode :: "u8 list \<Rightarrow> u8 list" where
  "hex_encode src = hex_encode_with_delimiter src 0"

text \<open>The decoding loop; \<open>None\<close> is its early \<^verbatim>\<open>return 0\<close>.\<close>

fun hex_decode_loop :: "u8 \<Rightarrow> u8 list \<Rightarrow> u8 list option" where
  "hex_decode_loop delimiter [] = Some []"
| "hex_decode_loop delimiter [_] = None"
| "hex_decode_loop delimiter (a # b # src) =
     (case (hex_decode_digit a, hex_decode_digit b) of
        (Some h1, Some h2) \<Rightarrow>
          if delimiter \<noteq> 0 \<and> length src > 1 then
            (if hd src \<noteq> delimiter then None
             else map_option (Cons (push_bit 4 h1 OR h2)) (hex_decode_loop delimiter (tl src)))
          else map_option (Cons (push_bit 4 h1 OR h2)) (hex_decode_loop delimiter src)
      | _ \<Rightarrow> None)"

definition hex_decode_with_delimiter :: "nat \<Rightarrow> u8 list \<Rightarrow> u8 \<Rightarrow> u8 list" where
  "hex_decode_with_delimiter buflen src delimiter =
     (if buflen = 0 then []
      else let needed = (if delimiter \<noteq> 0 then (length src + 1) div 3 else length src div 2)
           in if buflen < needed then []
              else case hex_decode_loop delimiter src of None \<Rightarrow> [] | Some out \<Rightarrow> out)"

definition hex_decode :: "nat \<Rightarrow> u8 list \<Rightarrow> u8 list" where
  "hex_decode buflen src = hex_decode_with_delimiter buflen src 0"

section \<open>Hexadecimal round trip\<close>

lemma hex_digit: "n < 16 \<Longrightarrow> hex_decode_digit (hex_encode_digit n) = Some n"
proof -
  assume "n < 16"
  then have "unat n < 16" by (simp add: word_less_nat_alt)
  then have "unat n \<in> set [0..<16]" by simp
  moreover have "n = of_nat (unat n)" by simp
  ultimately have "n \<in> set (map of_nat [0..<16])" unfolding set_map by (rule rev_image_eqI)
  then show ?thesis
    by (simp add: upt_rec) (auto simp: hex_decode_digit_def hex_encode_digit_def HEX_def)
qed

lemma nibble_less: "(ch :: u8) AND 0xF < 16"
  using word_and_le1[of ch "0xF"] by (rule le_less_trans) simp

lemma nibbles: "(push_bit 4 (drop_bit 4 ch) AND 0xF0) OR (ch AND 0xF) = (ch :: u8)"
proof -
  have m: "(0xF :: u8) = mask 4" "(0xF0 :: u8) = push_bit 4 (mask 4)" by (simp_all add: mask_eq_decr_exp)
  show ?thesis unfolding m by (rule bit_word_eqI) (auto simp: bit_simps)
qed

lemma length_hex_encode_loop: "src \<noteq> [] \<Longrightarrow> length (hex_encode_loop d src) \<ge> 2"
  by (cases src) auto

lemma hex_loop: "hex_decode_loop d (hex_encode_loop d src) = Some src"
proof (induction src)
  case (Cons ch src)
  have "length (hex_encode_loop d src) \<ge> 2" if "src \<noteq> []" using that by (rule length_hex_encode_loop)
  then show ?case using Cons
    by (cases "src = []"; cases "d = 0") (auto simp: hex_digit nibble_less nibbles)
qed simp

lemma length_hex: "length (hex_encode_loop d src) = (if d \<noteq> 0 then 3 * length src - 1 else 2 * length src)"
  by (induction src) (auto simp: Suc_diff_le length_greater_0_conv[symmetric] simp del: length_greater_0_conv)


section \<open>Properties\<close>

text \<open>Decoding the hexadecimal form of a byte string, with or without a delimiter, gives the
  byte string back whenever the output buffer can hold it.\<close>
theorem hex_roundtrip:
  assumes "length src \<le> buflen" "0 < buflen"
  shows "hex_decode_with_delimiter buflen (hex_encode_with_delimiter src delimiter) delimiter = src"
proof (cases "src = []")
  case True
  then show ?thesis
    by (simp add: hex_decode_with_delimiter_def hex_encode_with_delimiter_def hex_encode_with_delimiter_buf_def)
next
  case False
  then have "hex_encode_with_delimiter src delimiter = hex_encode_loop delimiter src"
    by (cases src) (simp_all add: hex_encode_with_delimiter_def hex_encode_with_delimiter_buf_def)
  moreover have "(if delimiter \<noteq> 0 then (length (hex_encode_loop delimiter src) + 1) div 3
      else length (hex_encode_loop delimiter src) div 2) = length src"
    using False by (cases src) (simp_all add: length_hex)
  ultimately show ?thesis
    using assms by (simp add: hex_decode_with_delimiter_def hex_loop)
qed

lemma hex_roundtrip_witness:
  "hex_decode_with_delimiter 4 (hex_encode_with_delimiter [0xDE, 0xAD, 0, 0x5F] 0x3A) 0x3A = [0xDE, 0xAD, 0, 0x5F]"
  by (rule hex_roundtrip) simp_all

end
