(* ===== verification/MsgDigest.thy ===== *)
theory MsgDigest
  imports Sha1 Md5 StringEncode
begin

text \<open>
  \<^verbatim>\<open>talk/base/messagedigest.cc\<close>: the digest factory, the digest functions and HMAC.
  \<open>MessageDigest\<close> is an object of one of the two classes the build has (without
  \<^verbatim>\<open>SSL_USE_OPENSSL\<close>); the virtual calls are \<open>md_Size\<close>, \<open>md_Update\<close>
  and \<open>md_Finish\<close>. A function with an output buffer returns the bytes it wrote there, so
  the return value 0 is the empty list, and the object it leaves.

  The lemmas give the functions in terms of the hash functions of the two digest theories;
  HMAC is RFC 2104's nested hash.
\<close>

section \<open>Digest objects\<close>

datatype MessageDigest = Md5Digest MD5_CTX | Sha1Digest SHA1_CTX

fun md_Size :: "MessageDigest \<Rightarrow> nat" where
  "md_Size (Md5Digest c) = Md5Digest_kSize"
| "md_Size (Sha1Digest c) = Sha1Digest_kSize"

fun md_Update :: "MessageDigest \<Rightarrow> u8 list \<Rightarrow> MessageDigest" where
  "md_Update (Md5Digest c) buf = Md5Digest (Md5Digest_Update c buf)"
| "md_Update (Sha1Digest c) buf = Sha1Digest (Sha1Digest_Update c buf)"

fun md_Finish :: "MessageDigest \<Rightarrow> nat \<Rightarrow> u8 list \<times> MessageDigest" where
  "md_Finish (Md5Digest c) len = (case Md5Digest_Finish c len of (d, c) \<Rightarrow> (d, Md5Digest c))"
| "md_Finish (Sha1Digest c) len = (case Sha1Digest_Finish c len of (d, c) \<Rightarrow> (d, Sha1Digest c))"

definition DIGEST_MD5 :: string where "DIGEST_MD5 = ''md5''"
definition DIGEST_SHA_1 :: string where "DIGEST_SHA_1 = ''sha-1''"

definition kBlockSize :: nat where "kBlockSize = 64"

definition MessageDigestFactory_Create :: "string \<Rightarrow> MessageDigest option" where
  "MessageDigestFactory_Create alg =
     (if alg = DIGEST_MD5 then Some (Md5Digest Md5Digest_new)
      else if alg = DIGEST_SHA_1 then Some (Sha1Digest Sha1Digest_new)
      else None)"

section \<open>Digests\<close>

definition ComputeDigest :: "MessageDigest \<Rightarrow> u8 list \<Rightarrow> nat \<Rightarrow> u8 list \<times> MessageDigest" where
  "ComputeDigest digest input out_len = md_Finish (md_Update digest input) out_len"

definition ComputeDigest_alg :: "string \<Rightarrow> u8 list \<Rightarrow> nat \<Rightarrow> u8 list" where
  "ComputeDigest_alg alg input out_len =
     (case MessageDigestFactory_Create alg of
        Some digest \<Rightarrow> fst (ComputeDigest digest input out_len)
      | None \<Rightarrow> [])"

definition ComputeDigest_hex :: "MessageDigest \<Rightarrow> u8 list \<Rightarrow> u8 list" where
  "ComputeDigest_hex digest input = hex_encode (fst (ComputeDigest digest input (md_Size digest)))"

definition ComputeDigest_hex_ok :: "string \<Rightarrow> u8 list \<Rightarrow> u8 list option" where
  "ComputeDigest_hex_ok alg input =
     (case MessageDigestFactory_Create alg of
        None \<Rightarrow> None
      | Some digest \<Rightarrow> Some (ComputeDigest_hex digest input))"

definition ComputeDigest_hex_alg :: "string \<Rightarrow> u8 list \<Rightarrow> u8 list" where
  "ComputeDigest_hex_alg alg input = (case ComputeDigest_hex_ok alg input of None \<Rightarrow> [] | Some s \<Rightarrow> s)"

definition MD5 :: "u8 list \<Rightarrow> u8 list" where
  "MD5 input = ComputeDigest_hex_alg DIGEST_MD5 input"

section \<open>HMAC\<close>

definition ComputeHmac :: "MessageDigest \<Rightarrow> u8 list \<Rightarrow> u8 list \<Rightarrow> nat \<Rightarrow> u8 list \<times> MessageDigest" where
  "ComputeHmac digest key input out_len =
     (let block_len = kBlockSize in
      if md_Size digest > 32 then ([], digest)
      else
        let new_key = replicate block_len 0;
            (new_key, digest) =
              (if length key > block_len then
                 (case ComputeDigest digest key block_len of
                    (k, digest) \<Rightarrow>
                      (blit (blit new_key 0 k) (md_Size digest) (replicate (block_len - md_Size digest) 0), digest))
               else (blit (blit new_key 0 key) (length key) (replicate (block_len - length key) 0), digest));
            o_pad = map (\<lambda>i. 0x5c XOR new_key ! i) [0..<block_len];
            i_pad = map (\<lambda>i. 0x36 XOR new_key ! i) [0..<block_len];
            digest = md_Update digest i_pad;
            digest = md_Update digest input;
            (inner, digest) = md_Finish digest (md_Size digest);
            digest = md_Update digest o_pad;
            digest = md_Update digest inner
        in md_Finish digest out_len)"

definition ComputeHmac_alg :: "string \<Rightarrow> u8 list \<Rightarrow> u8 list \<Rightarrow> nat \<Rightarrow> u8 list" where
  "ComputeHmac_alg alg key input out_len =
     (case MessageDigestFactory_Create alg of
        None \<Rightarrow> []
      | Some digest \<Rightarrow> fst (ComputeHmac digest key input out_len))"

definition ComputeHmac_hex :: "MessageDigest \<Rightarrow> u8 list \<Rightarrow> u8 list \<Rightarrow> u8 list" where
  "ComputeHmac_hex digest key input = hex_encode (fst (ComputeHmac digest key input (md_Size digest)))"

definition ComputeHmac_hex_ok :: "string \<Rightarrow> u8 list \<Rightarrow> u8 list \<Rightarrow> u8 list option" where
  "ComputeHmac_hex_ok alg key input =
     (case MessageDigestFactory_Create alg of
        None \<Rightarrow> None
      | Some digest \<Rightarrow> Some (ComputeHmac_hex digest key input))"

definition ComputeHmac_hex_alg :: "string \<Rightarrow> u8 list \<Rightarrow> u8 list \<Rightarrow> u8 list" where
  "ComputeHmac_hex_alg alg key input = (case ComputeHmac_hex_ok alg key input of None \<Rightarrow> [] | Some s \<Rightarrow> s)"

section \<open>Specification\<close>

text \<open>What a digest object of either class computes, and the bytes it represents.\<close>

fun md_hash :: "MessageDigest \<Rightarrow> u8 list \<Rightarrow> u8 list" where
  "md_hash (Md5Digest c) = md5_hash"
| "md_hash (Sha1Digest c) = sha1_hash"

fun md_rep :: "MessageDigest \<Rightarrow> u8 list \<Rightarrow> bool" where
  "md_rep (Md5Digest c) d = md5_rep c d"
| "md_rep (Sha1Digest c) d = sha_rep c d"

definition hmac_key :: "(u8 list \<Rightarrow> u8 list) \<Rightarrow> u8 list \<Rightarrow> u8 list" where
  "hmac_key H key = (let k = if length key > 64 then H key else key in k @ replicate (64 - length k) 0)"

definition hmac :: "(u8 list \<Rightarrow> u8 list) \<Rightarrow> u8 list \<Rightarrow> u8 list \<Rightarrow> u8 list" where
  "hmac H key m =
     H (map ((XOR) 0x5c) (hmac_key H key) @ H (map ((XOR) 0x36) (hmac_key H key) @ m))"

lemma md_Update_simps [simp]:
  "md_Size (md_Update c x) = md_Size c" "md_hash (md_Update c x) = md_hash c"
  by (cases c; simp)+

lemma md_rep_Update: "md_rep c d \<Longrightarrow> md_rep (md_Update c x) (d @ x)"
  by (cases c) (simp_all add: md5.rep_update sha1.rep_update)

lemma length_md_hash [simp]: "length (md_hash c d) = md_Size c"
  by (cases c) (simp_all add: md5.hash_length sha1.hash_length)

lemma md_Size_le: "0 < md_Size c" "md_Size c \<le> 20"
  by (cases c; simp add: Md5Digest_kSize_def Sha1Digest_kSize_def)+

lemma Md5Digest_Finish_len:
  "Md5Digest_Finish c len = (if len < Md5Digest_kSize then ([], c) else Md5Digest_Finish c Md5Digest_kSize)"
  by (simp add: Md5Digest_Finish_def)

lemma Sha1Digest_Finish_len:
  "Sha1Digest_Finish c len = (if len < Sha1Digest_kSize then ([], c) else Sha1Digest_Finish c Sha1Digest_kSize)"
  by (simp add: Sha1Digest_Finish_def)

text \<open>\<^verbatim>\<open>Finish\<close> on an object that represents \<open>d\<close>.\<close>

lemma md_Finish_rep:
  assumes "md_rep c d" "md_Size c \<le> len"
  obtains c' where "md_Finish c len = (md_hash c d, c')" "md_rep c' []" "md_Size c' = md_Size c" "md_hash c' = md_hash c"
proof (cases c)
  case (Md5Digest x)
  with assms have r: "md5_rep x d" "\<not> len < Md5Digest_kSize" by auto
  have "md_Finish c len = (md5_hash d, Md5Digest (snd (Md5Digest_Finish x Md5Digest_kSize)))"
    using md5.finish_hash[OF r(1)] r(2) Md5Digest_Finish_len[of x len] Md5Digest
    by (cases "Md5Digest_Finish x Md5Digest_kSize") simp
  then show ?thesis using that md5.finish_rep[OF r(1)] Md5Digest by simp
next
  case (Sha1Digest x)
  with assms have r: "sha_rep x d" "\<not> len < Sha1Digest_kSize" by auto
  have "md_Finish c len = (sha1_hash d, Sha1Digest (snd (Sha1Digest_Finish x Sha1Digest_kSize)))"
    using sha1.finish_hash[OF r(1)] r(2) Sha1Digest_Finish_len[of x len] Sha1Digest
    by (cases "Sha1Digest_Finish x Sha1Digest_kSize") simp
  then show ?thesis using that sha1.finish_rep[OF r(1)] Sha1Digest by simp
qed

lemma md_Finish_short: "len < md_Size c \<Longrightarrow> md_Finish c len = ([], c)"
  by (cases c) (simp_all add: Md5Digest_Finish_def Sha1Digest_Finish_def)

lemma ComputeDigest_rep:
  assumes "md_rep c []" "md_Size c \<le> len"
  obtains c' where "ComputeDigest c x len = (md_hash c x, c')" "md_rep c' []" "md_Size c' = md_Size c" "md_hash c' = md_hash c"
  using md_Finish_rep[of "md_Update c x" x len] md_rep_Update[OF assms(1), of x] assms(2)
  by (auto simp: ComputeDigest_def)

lemma map_xor_nth: "length k = 64 \<Longrightarrow> map (\<lambda>i. p XOR k ! i) [0..<64] = map ((XOR) p) (k :: u8 list)"
  by (rule nth_equalityI) simp_all

lemma ComputeHmac_rep:
  assumes c: "md_rep c []"
  shows "\<exists>c'. ComputeHmac c key m len = (if len < md_Size c then [] else hmac (md_hash c) key m, c') \<and>
    (md_Size c \<le> len \<longrightarrow> md_rep c' []) \<and> md_Size c' = md_Size c \<and> md_hash c' = md_hash c"
proof -
  define K where "K = hmac_key (md_hash c) key"
  note sz = md_Size_le[of c]
  obtain c0 where c0: "md_rep c0 []" "md_Size c0 = md_Size c" "md_hash c0 = md_hash c"
    and key: "(if length key > kBlockSize then
                 (case ComputeDigest c key kBlockSize of
                    (k, d) \<Rightarrow> (blit (blit (replicate kBlockSize 0) 0 k) (md_Size d) (replicate (kBlockSize - md_Size d) 0), d))
               else (blit (blit (replicate kBlockSize 0) 0 key) (length key) (replicate (kBlockSize - length key) 0), c)) = (K, c0)"
  proof (cases "length key > 64")
    case True
    obtain d where d: "ComputeDigest c key 64 = (md_hash c key, d)" "md_rep d []" "md_Size d = md_Size c" "md_hash d = md_hash c"
      by (rule ComputeDigest_rep[OF c, of 64 key]) (use sz in auto)
    show ?thesis using that[of d] d True sz by (simp add: K_def hmac_key_def blit_def kBlockSize_def)
  next
    case False
    then show ?thesis using that[of c] c by (simp add: K_def hmac_key_def blit_def kBlockSize_def)
  qed
  have lK: "length K = 64" using sz by (simp add: K_def hmac_key_def)
  let ?i = "map ((XOR) 0x36) K" and ?o = "map ((XOR) 0x5c) K"
  have "md_rep (md_Update (md_Update c0 ?i) m) (?i @ m)"
    using md_rep_Update[OF md_rep_Update[OF c0(1), of ?i], of m] by simp
  then obtain c1 where c1: "md_Finish (md_Update (md_Update c0 ?i) m) (md_Size c) = (md_hash c (?i @ m), c1)"
      "md_rep c1 []" "md_Size c1 = md_Size c" "md_hash c1 = md_hash c"
    by (rule md_Finish_rep) (use c0 in auto)
  let ?c2 = "md_Update (md_Update c1 ?o) (md_hash c (?i @ m))"
  have r2: "md_rep ?c2 (?o @ md_hash c (?i @ m))"
    using md_rep_Update[OF md_rep_Update[OF c1(2), of ?o], of "md_hash c (?i @ m)"] by simp
  have e: "ComputeHmac c key m len = md_Finish ?c2 len"
    using sz key c0 c1 lK unfolding ComputeHmac_def
    by (simp add: Let_def) (simp add: kBlockSize_def map_xor_nth)
  show ?thesis
  proof (cases "len < md_Size c")
    case True
    then show ?thesis using e c1 by (simp add: md_Finish_short)
  next
    case False
    then show ?thesis using md_Finish_rep[OF r2, of len] e c1 by (auto simp: hmac_def K_def)
  qed
qed

lemma Create_rep: "MessageDigestFactory_Create alg = Some c \<Longrightarrow> md_rep c []"
  using md5.rep_init sha1.rep_init by (auto simp: MessageDigestFactory_Create_def split: if_splits)

lemma ComputeHmac_alg_spec:
  "ComputeHmac_alg alg key m len =
     (if alg = ''md5'' \<and> 16 \<le> len then hmac md5_hash key m
      else if alg = ''sha-1'' \<and> 20 \<le> len then hmac sha1_hash key m
      else [])"
  using ComputeHmac_rep[OF Create_rep[of alg], of _ key m len]
  by (force simp: ComputeHmac_alg_def MessageDigestFactory_Create_def DIGEST_MD5_def DIGEST_SHA_1_def
      Md5Digest_kSize_def Sha1Digest_kSize_def split: if_splits)

lemma ComputeHmac_sha1:
  "ComputeHmac_alg DIGEST_SHA_1 key m 20 = hmac sha1_hash key m" "length (hmac sha1_hash key m) = 20"
  by (simp_all add: ComputeHmac_alg_spec DIGEST_SHA_1_def hmac_def length_sha1_hash)

section \<open>Properties\<close>

text \<open>\<^verbatim>\<open>ComputeHmac\<close> by algorithm name is RFC 2104's HMAC over the named hash when
  the output buffer is large enough, and writes nothing for a short buffer or an unknown name.\<close>
theorem ComputeHmac_rfc2104:
  "ComputeHmac_alg alg key m len =
     (if alg = ''md5'' \<and> 16 \<le> len then hmac md5_hash key m
      else if alg = ''sha-1'' \<and> 20 \<le> len then hmac sha1_hash key m
      else [])"
  by (rule ComputeHmac_alg_spec)

text \<open>A digest object is ready for the next message after a digest or an HMAC: the second
  result does not depend on the first message.\<close>
theorem digest_reusable:
  assumes "MessageDigestFactory_Create alg = Some c" "ComputeHmac c key m 20 = (mac, c')"
  shows "fst (ComputeHmac c' key2 m2 20) = ComputeHmac_alg alg key2 m2 20 \<and>
    fst (ComputeDigest c' m2 20) = ComputeDigest_alg alg m2 20"
proof -
  have c: "md_rep c []" using assms(1) by (rule Create_rep)
  note sz = md_Size_le[of c]
  obtain c1 where "ComputeHmac c key m 20 = (hmac (md_hash c) key m, c1)" "md_rep c1 []"
      "md_Size c1 = md_Size c" "md_hash c1 = md_hash c"
    using ComputeHmac_rep[OF c, of key m 20] sz by auto
  then have c': "md_rep c' []" "md_Size c' = md_Size c" "md_hash c' = md_hash c" using assms(2) by auto
  have "fst (ComputeHmac c' key2 m2 20) = ComputeHmac_alg alg key2 m2 20"
    using ComputeHmac_rep[OF c, of key2 m2 20] ComputeHmac_rep[OF c'(1), of key2 m2 20] c' assms(1)
    by (auto simp: ComputeHmac_alg_def)
  moreover obtain d d' where "ComputeDigest c m2 20 = (md_hash c m2, d)" "ComputeDigest c' m2 20 = (md_hash c' m2, d')"
    using ComputeDigest_rep[OF c, of 20 m2] ComputeDigest_rep[OF c'(1), of 20 m2] sz c' by metis
  then have "fst (ComputeDigest c' m2 20) = ComputeDigest_alg alg m2 20"
    using c' assms(1) by (simp add: ComputeDigest_alg_def)
  ultimately show ?thesis ..
qed

lemma digest_reusable_witness:
  "\<exists>mac c'. ComputeHmac (Sha1Digest Sha1Digest_new) [1] [2] 20 = (mac, c') \<and>
    fst (ComputeHmac c' [4] [3] 20) = ComputeHmac_alg ''sha-1'' [4] [3] 20 \<and>
    fst (ComputeDigest c' [3] 20) = ComputeDigest_alg ''sha-1'' [3] 20"
proof -
  obtain mac c' where r: "ComputeHmac (Sha1Digest Sha1Digest_new) [1] [2] 20 = (mac, c')"
    by (cases "ComputeHmac (Sha1Digest Sha1Digest_new) [1] [2] 20")
  have "MessageDigestFactory_Create ''sha-1'' = Some (Sha1Digest Sha1Digest_new)"
    by (simp add: MessageDigestFactory_Create_def DIGEST_MD5_def DIGEST_SHA_1_def)
  from digest_reusable[OF this r, of "[4]" "[3]"] r show ?thesis by blast
qed

end
