(* ===== verification/Base64.thy ===== *)
theory Base64
  imports Prelude
begin

text \<open>
  \<^verbatim>\<open>Base64\<close> of \<^verbatim>\<open>talk/base/base64.h\<close> and
  \<^verbatim>\<open>base64.cc\<close>: the encoder, and the decoder with its three choices of what to parse,
  how to treat padding and where the text may end. Characters are bytes. The encoder's round trip
  is proved for the strict decoder, which the SRTP key parameters use.
\<close>

section \<open>Tables\<close>

definition kPad :: u8 where "kPad = 61"
definition pd :: u8 where "pd = 0xFD"
definition sp :: u8 where "sp = 0xFE"
definition il :: u8 where "il = 0xFF"

definition Base64Table :: "u8 list" where
  "Base64Table =
   [65, 66, 67, 68, 69, 70, 71, 72, 73, 74, 75, 76, 77, 78, 79, 80,
    81, 82, 83, 84, 85, 86, 87, 88, 89, 90, 97, 98, 99, 100, 101, 102,
    103, 104, 105, 106, 107, 108, 109, 110, 111, 112, 113, 114, 115, 116, 117, 118,
    119, 120, 121, 122, 48, 49, 50, 51, 52, 53, 54, 55, 56, 57, 43, 47]"

definition DecodeTable :: "u8 list" where
  "DecodeTable =
   [il, il, il, il, il, il, il, il, il, sp, sp, sp, sp, sp, il, il,
    il, il, il, il, il, il, il, il, il, il, il, il, il, il, il, il,
    sp, il, il, il, il, il, il, il, il, il, il, 62, il, il, il, 63,
    52, 53, 54, 55, 56, 57, 58, 59, 60, 61, il, il, il, pd, il, il,
    il, 0, 1, 2, 3, 4, 5, 6, 7, 8, 9, 10, 11, 12, 13, 14,
    15, 16, 17, 18, 19, 20, 21, 22, 23, 24, 25, il, il, il, il, il,
    il, 26, 27, 28, 29, 30, 31, 32, 33, 34, 35, 36, 37, 38, 39, 40,
    41, 42, 43, 44, 45, 46, 47, 48, 49, 50, 51, il, il, il, il, il,
    il, il, il, il, il, il, il, il, il, il, il, il, il, il, il, il,
    il, il, il, il, il, il, il, il, il, il, il, il, il, il, il, il,
    il, il, il, il, il, il, il, il, il, il, il, il, il, il, il, il,
    il, il, il, il, il, il, il, il, il, il, il, il, il, il, il, il,
    il, il, il, il, il, il, il, il, il, il, il, il, il, il, il, il,
    il, il, il, il, il, il, il, il, il, il, il, il, il, il, il, il,
    il, il, il, il, il, il, il, il, il, il, il, il, il, il, il, il,
    il, il, il, il, il, il, il, il, il, il, il, il, il, il, il, il]"

definition DO_PARSE_STRICT :: int where "DO_PARSE_STRICT = 1"
definition DO_PARSE_WHITE :: int where "DO_PARSE_WHITE = 2"
definition DO_PARSE_ANY :: int where "DO_PARSE_ANY = 3"
definition DO_PARSE_MASK :: int where "DO_PARSE_MASK = 3"
definition DO_PAD_YES :: int where "DO_PAD_YES = 4"
definition DO_PAD_ANY :: int where "DO_PAD_ANY = 8"
definition DO_PAD_NO :: int where "DO_PAD_NO = 12"
definition DO_PAD_MASK :: int where "DO_PAD_MASK = 12"
definition DO_TERM_BUFFER :: int where "DO_TERM_BUFFER = 16"
definition DO_TERM_CHAR :: int where "DO_TERM_CHAR = 32"
definition DO_TERM_ANY :: int where "DO_TERM_ANY = 48"
definition DO_TERM_MASK :: int where "DO_TERM_MASK = 48"
definition DO_STRICT :: int where "DO_STRICT = (DO_PARSE_STRICT OR DO_PAD_YES OR DO_TERM_BUFFER)"
definition DO_LAX :: int where "DO_LAX = (DO_PARSE_ANY OR DO_PAD_ANY OR DO_TERM_CHAR)"

lemmas base64_flags = DO_PARSE_STRICT_def DO_PARSE_WHITE_def DO_PARSE_ANY_def DO_PARSE_MASK_def DO_PAD_YES_def DO_PAD_ANY_def
  DO_PAD_NO_def DO_PAD_MASK_def DO_TERM_BUFFER_def DO_TERM_CHAR_def DO_TERM_ANY_def DO_TERM_MASK_def DO_STRICT_def DO_LAX_def

section \<open>Characters\<close>

definition IsBase64Char :: "u8 \<Rightarrow> bool" where
  "IsBase64Char ch \<longleftrightarrow> 65 \<le> ch \<and> ch \<le> 90 \<or> 97 \<le> ch \<and> ch \<le> 122 \<or> 48 \<le> ch \<and> ch \<le> 57 \<or> ch = 43 \<or> ch = 47"

text \<open>
  The character after \<open>ch\<close>, \<open>Some None\<close> when there is none. \<^verbatim>\<open>strchr\<close> finds the
  terminator of the table for a zero byte, and the code reads behind it: \<open>None\<close>.
\<close>

definition GetNextBase64Char :: "u8 \<Rightarrow> u8 option option" where
  "GetNextBase64Char ch =
     (if ch = 0 then None
      else
        let p = length (takeWhile (\<lambda>c. c \<noteq> ch) Base64Table)
        in Some (if p = length Base64Table then None
             else Some (if p + 1 < length Base64Table then Base64Table ! (p + 1) else Base64Table ! 0)))"

definition IsBase64Encoded :: "u8 list \<Rightarrow> bool" where
  "IsBase64Encoded str \<longleftrightarrow> (\<forall>c\<in>set str. IsBase64Char c)"

section \<open>Encoding\<close>

text \<open>One round of the loop takes up to three bytes and appends four characters.\<close>

fun EncodeFromArray :: "u8 list \<Rightarrow> u8 list" where
  "EncodeFromArray [] = []"
| "EncodeFromArray [a] =
     [Base64Table ! unat (drop_bit 2 a AND 0x3F), Base64Table ! unat (push_bit 4 a AND 0x3F), kPad, kPad]"
| "EncodeFromArray [a, b] =
     [Base64Table ! unat (drop_bit 2 a AND 0x3F), Base64Table ! unat ((push_bit 4 a AND 0x3F) OR (drop_bit 4 b AND 0x0F)),
      Base64Table ! unat (push_bit 2 b AND 0x3F), kPad]"
| "EncodeFromArray (a # b # c # rest) =
     [Base64Table ! unat (drop_bit 2 a AND 0x3F), Base64Table ! unat ((push_bit 4 a AND 0x3F) OR (drop_bit 4 b AND 0x0F)),
      Base64Table ! unat ((push_bit 2 b AND 0x3F) OR (drop_bit 6 c AND 0x03)), Base64Table ! unat (c AND 0x3F)] @
     EncodeFromArray rest"

section \<open>Decoding\<close>

text \<open>
  The loop of \<^verbatim>\<open>GetNextQuantum\<close>: the characters before \<open>dpos\<close> are dealt with,
  \<open>qbuf\<close> holds the values found, \<open>pad_len\<close> and \<open>pad_start\<close> the padding.
\<close>

function quantum_loop :: "int \<Rightarrow> bool \<Rightarrow> u8 list \<Rightarrow> nat \<Rightarrow> u8 list \<Rightarrow> nat \<Rightarrow> nat \<Rightarrow> nat \<times> u8 list \<times> nat \<times> nat" where
  "quantum_loop parse_flags illegal_pads data dpos qbuf pad_len pad_start =
     (if length qbuf < 4 \<and> dpos < length data then
        let q = DecodeTable ! unat (data ! dpos) in
        if q = il \<or> illegal_pads \<and> q = pd then
          (if parse_flags \<noteq> DO_PARSE_ANY then (dpos, qbuf, pad_len, pad_start)
           else quantum_loop parse_flags illegal_pads data (dpos + 1) qbuf pad_len pad_start)
        else if q = sp then
          (if parse_flags = DO_PARSE_STRICT then (dpos, qbuf, pad_len, pad_start)
           else quantum_loop parse_flags illegal_pads data (dpos + 1) qbuf pad_len pad_start)
        else if q = pd then
          (if length qbuf < 2 then
             (if parse_flags \<noteq> DO_PARSE_ANY then (dpos, qbuf, pad_len, pad_start)
              else quantum_loop parse_flags illegal_pads data (dpos + 1) qbuf pad_len pad_start)
           else if length qbuf + pad_len \<ge> 4 then
             (if parse_flags \<noteq> DO_PARSE_ANY then (dpos, qbuf, pad_len, pad_start)
              else quantum_loop parse_flags illegal_pads data (dpos + 1) qbuf pad_len pad_start)
           else quantum_loop parse_flags illegal_pads data (dpos + 1) qbuf (pad_len + 1) (if pad_len = 0 then dpos else pad_start))
        else if pad_len > 0 \<and> parse_flags \<noteq> DO_PARSE_ANY then (dpos, qbuf, pad_len, pad_start)
        else quantum_loop parse_flags illegal_pads data (dpos + 1) (qbuf @ [q]) 0 pad_start
      else (dpos, qbuf, pad_len, pad_start))"
  by pat_completeness auto
termination by (relation "measure (\<lambda>(_, _, data, dpos, _). length data - dpos)") auto

declare quantum_loop.simps [simp del]

text \<open>The number of values, the four values, whether the quantum is padded, and the new position.\<close>

definition GetNextQuantum :: "int \<Rightarrow> bool \<Rightarrow> u8 list \<Rightarrow> nat \<Rightarrow> nat \<times> u8 list \<times> bool \<times> nat" where
  "GetNextQuantum parse_flags illegal_pads data dpos =
     (case quantum_loop parse_flags illegal_pads data dpos [] 0 0 of
        (dpos, qbuf, pad_len, pad_start) \<Rightarrow>
          (length qbuf, qbuf @ replicate (4 - length qbuf) 0, length qbuf + pad_len = 4,
           if length qbuf + pad_len \<noteq> 4 \<and> pad_len \<noteq> 0 then pad_start else dpos))"

lemma quantum_loop_progress:
  "quantum_loop pf ip data dpos qbuf pl ps = (dpos', qbuf', pl', ps') \<Longrightarrow> length qbuf + pl \<le> 4 \<Longrightarrow>
   dpos + length qbuf' \<le> dpos' + length qbuf \<and> (dpos \<le> length data \<longrightarrow> dpos' \<le> length data) \<and> length qbuf' + pl' \<le> 4"
proof (induction pf ip data dpos qbuf pl ps rule: quantum_loop.induct)
  case (1 pf ip data dpos qbuf pl ps)
  show ?case
    using 1(7,8) 1(1-6)[OF _ refl] by (subst (asm) quantum_loop.simps) (auto simp: Let_def split: if_split_asm)
qed


lemma GetNextQuantum_progress:
  assumes "(qlen, qbuf, padded, dpos') = GetNextQuantum pf ip data dpos" "\<not> qlen < 4" "dpos < length data"
  shows "length data - dpos' < length data - dpos"
proof -
  obtain d qb pl ps where q: "quantum_loop pf ip data dpos [] 0 0 = (d, qb, pl, ps)"
    by (metis prod_cases4)
  show ?thesis
    using assms quantum_loop_progress[OF q] q by (auto simp: GetNextQuantum_def)
qed

text \<open>
  The loop of \<^verbatim>\<open>DecodeFromArrayTemplate\<close>. Of a quantum of \<open>qlen\<close> values
  the first \<open>qlen - 1\<close> bytes are whole; \<open>c\<close> is the byte that is left over.
\<close>

definition quantum_bytes :: "u8 list \<Rightarrow> u8 list" where
  "quantum_bytes qbuf =
     [push_bit 2 (qbuf ! 0) OR (drop_bit 4 (qbuf ! 1) AND 0x3),
      (push_bit 4 (qbuf ! 1) AND 0xf0) OR (drop_bit 2 (qbuf ! 2) AND 0xf),
      (push_bit 6 (qbuf ! 2) AND 0xc0) OR qbuf ! 3]"

function decode_loop :: "int \<Rightarrow> int \<Rightarrow> int \<Rightarrow> u8 list \<Rightarrow> nat \<Rightarrow> u8 list \<Rightarrow> bool \<times> u8 list \<times> nat" where
  "decode_loop parse_flags pad_flags term_flags data dpos result =
     (if dpos < length data then
        (case GetNextQuantum parse_flags (pad_flags = DO_PAD_NO) data dpos of
           (qlen, qbuf, padded, dpos) \<Rightarrow>
             let bytes = quantum_bytes qbuf;
                 result = result @ take (qlen - 1) bytes
             in if qlen < 4 then
                  (let c = bytes ! (qlen - 1)
                   in (\<not> (term_flags \<noteq> DO_TERM_ANY \<and> c \<noteq> 0) \<and> \<not> (pad_flags = DO_PAD_YES \<and> \<not> padded), result, dpos))
                else decode_loop parse_flags pad_flags term_flags data dpos result)
      else (True, result, dpos))"
  by pat_completeness auto
termination
  by (relation "measure (\<lambda>(_, _, _, data, dpos, _). length data - dpos)") (auto dest!: GetNextQuantum_progress)

declare decode_loop.simps [simp del]

definition DecodeFromArray :: "u8 list \<Rightarrow> int \<Rightarrow> bool \<times> u8 list \<times> nat" where
  "DecodeFromArray data flags =
     (let term_flags = (flags AND DO_TERM_MASK)
      in case decode_loop (flags AND DO_PARSE_MASK) (flags AND DO_PAD_MASK) term_flags data 0 [] of
           (success, result, dpos) \<Rightarrow>
             (success \<and> \<not> (term_flags = DO_TERM_BUFFER \<and> dpos \<noteq> length data), result, dpos))"

definition Base64_Encode :: "u8 list \<Rightarrow> u8 list" where
  "Base64_Encode data = EncodeFromArray data"

text \<open>The short form gives the bytes found before an error, and not whether there was one.\<close>

definition Base64_Decode :: "u8 list \<Rightarrow> int \<Rightarrow> u8 list" where
  "Base64_Decode data flags = fst (snd (DecodeFromArray data flags))"

section \<open>The strict decoder inverts the encoder\<close>

lemma table_inverse_all:
  "list_all (\<lambda>i. DecodeTable ! unat (Base64Table ! i) = of_nat i) [0..<64]"
  by code_simp

lemma table_inverse: "i < 64 \<Longrightarrow> DecodeTable ! unat (Base64Table ! i) = of_nat i"
  using table_inverse_all by (simp add: list_all_iff)

lemma table_pad: "DecodeTable ! unat kPad = pd"
  by code_simp

lemma sextet_ok: "i < 64 \<Longrightarrow> (of_nat i :: u8) \<noteq> il \<and> (of_nat i :: u8) \<noteq> pd \<and> (of_nat i :: u8) \<noteq> sp"
  by (auto simp: il_def pd_def sp_def word_unat_eq_iff unat_of_nat)

lemma quantum_value:
  assumes "data ! dpos = Base64Table ! i" "i < 64" "length qbuf < 4" "dpos < length data"
  shows "quantum_loop DO_PARSE_STRICT ip data dpos qbuf 0 ps = quantum_loop DO_PARSE_STRICT ip data (dpos + 1) (qbuf @ [of_nat i]) 0 ps"
  using assms sextet_ok[of i] table_inverse[of i] by (subst quantum_loop.simps) (simp add: Let_def)

lemma quantum_pad:
  assumes "data ! dpos = kPad" "length qbuf < 4" "2 \<le> length qbuf" "length qbuf + pl < 4" "dpos < length data"
  shows "quantum_loop DO_PARSE_STRICT False data dpos qbuf pl ps =
         quantum_loop DO_PARSE_STRICT False data (dpos + 1) qbuf (pl + 1) (if pl = 0 then dpos else ps)"
  using assms table_pad by (subst quantum_loop.simps) (simp add: Let_def il_def pd_def sp_def)

lemma quantum_full: "\<not> (length qbuf < 4 \<and> dpos < length data) \<Longrightarrow> quantum_loop pf ip data dpos qbuf pl ps = (dpos, qbuf, pl, ps)"
  by (subst quantum_loop.simps) auto

definition sextet :: "u8 \<Rightarrow> u8" where
  "sextet w = Base64Table ! unat w"

lemma quantum_4:
  assumes "data = pre @ [sextet a, sextet b, sextet c, sextet d] @ rest" "a < 64" "b < 64" "c < 64" "d < 64"
  shows "GetNextQuantum DO_PARSE_STRICT False data (length pre) = (4, [a, b, c, d], True, length pre + 4)"
  using assms unfolding GetNextQuantum_def
  by (simp add: quantum_value[where i = "unat a"] quantum_value[where i = "unat b"] quantum_value[where i = "unat c"]
        quantum_value[where i = "unat d"] sextet_def nth_append word_less_nat_alt quantum_full)

lemma quantum_3:
  assumes "data = pre @ [sextet a, sextet b, sextet c, kPad]" "a < 64" "b < 64" "c < 64"
  shows "GetNextQuantum DO_PARSE_STRICT False data (length pre) = (3, [a, b, c, 0], True, length pre + 4)"
  using assms unfolding GetNextQuantum_def
  by (simp add: quantum_value[where i = "unat a"] quantum_value[where i = "unat b"] quantum_value[where i = "unat c"]
        quantum_pad sextet_def nth_append word_less_nat_alt quantum_full)

lemma replicate_2: "replicate 2 x = [x, x]"
  by (simp add: numeral_2_eq_2)

lemma quantum_2:
  assumes "data = pre @ [sextet a, sextet b, kPad, kPad]" "a < 64" "b < 64"
  shows "GetNextQuantum DO_PARSE_STRICT False data (length pre) = (2, [a, b, 0, 0], True, length pre + 4)"
  using assms unfolding GetNextQuantum_def
  by (simp add: quantum_value[where i = "unat a"] quantum_value[where i = "unat b"]
        quantum_pad sextet_def nth_append word_less_nat_alt quantum_full replicate_2)

lemma u8_eqI:
  fixes a b :: u8
  assumes "bit a 0 = bit b 0" "bit a 1 = bit b 1" "bit a 2 = bit b 2" "bit a 3 = bit b 3"
    "bit a 4 = bit b 4" "bit a 5 = bit b 5" "bit a 6 = bit b 6" "bit a 7 = bit b 7"
  shows "a = b"
proof (rule bit_word_eqI)
  fix n assume "n < LENGTH(8)"
  then have "n = 0 \<or> n = 1 \<or> n = 2 \<or> n = 3 \<or> n = 4 \<or> n = 5 \<or> n = 6 \<or> n = 7" by auto
  with assms show "bit a n = bit b n" by metis
qed

lemma and_63: "(w :: u8) AND 0x3F = take_bit 6 w"
  by (simp add: take_bit_eq_mask mask_eq_exp_minus_1)

lemma and_15: "(w :: u8) AND 0xF = take_bit 4 w"
  by (simp add: take_bit_eq_mask mask_eq_exp_minus_1)

lemma and_3: "(w :: u8) AND 3 = take_bit 2 w"
  by (simp add: take_bit_eq_mask mask_eq_exp_minus_1)

lemma and_f0: "(w :: u8) AND 0xF0 = push_bit 4 (drop_bit 4 w)"
proof -
  have e: "(0xF0 :: u8) = push_bit 4 (mask 4)" by (simp add: mask_eq_exp_minus_1 push_bit_eq_mult)
  show ?thesis unfolding e by (rule bit_word_eqI) (auto simp: bit_simps)
qed

lemma and_c0: "(w :: u8) AND 0xC0 = push_bit 6 (drop_bit 6 w)"
proof -
  have e: "(0xC0 :: u8) = push_bit 6 (mask 2)" by (simp add: mask_eq_exp_minus_1 push_bit_eq_mult)
  show ?thesis unfolding e by (rule bit_word_eqI) (auto simp: bit_simps)
qed

lemmas sextet_masks = and_63 and_15 and_3 and_f0 and_c0

lemma sextet_bytes:
  fixes a b c :: u8
  shows "push_bit 2 (drop_bit 2 a AND 0x3F) OR (drop_bit 4 ((push_bit 4 a AND 0x3F) OR (drop_bit 4 b AND 0xF)) AND 3) = a"
    and "push_bit 2 (drop_bit 2 a AND 0x3F) OR (drop_bit 4 (push_bit 4 a AND 0x3F) AND 3) = a"
    and "(push_bit 4 ((push_bit 4 a AND 0x3F) OR (drop_bit 4 b AND 0xF)) AND 0xF0) OR
         (drop_bit 2 ((push_bit 2 b AND 0x3F) OR (drop_bit 6 c AND 3)) AND 0xF) = b"
    and "(push_bit 4 ((push_bit 4 a AND 0x3F) OR (drop_bit 4 b AND 0xF)) AND 0xF0) OR
         (drop_bit 2 (push_bit 2 b AND 0x3F) AND 0xF) = b"
    and "(push_bit 6 ((push_bit 2 b AND 0x3F) OR (drop_bit 6 c AND 3)) AND 0xC0) OR (c AND 0x3F) = c"
    and "(push_bit 4 (push_bit 4 a AND 0x3F) AND 0xF0) OR (drop_bit 2 0 AND 0xF) = 0"
    and "(push_bit 6 (push_bit 2 b AND 0x3F) AND 0xC0) OR 0 = 0"
  unfolding sextet_masks by (rule u8_eqI; simp add: bit_simps)+

lemma word_less_64: "(0x3F :: u8) < 64"
  by simp

lemma less_exp_take: "take_bit 6 v = v \<Longrightarrow> v < 64" for v :: u8
  by (metis and_63 word_and_le1 order.strict_trans1 word_less_64)

lemma sextet_bounds:
  fixes w x y :: u8
  shows "w AND 0x3F < 64" "(w AND 0x3F) OR (x AND 0xF) < 64" "(w AND 0x3F) OR (x AND 3) < 64"
proof -
  have *: "v < 64" if "take_bit 6 v = v" for v :: u8
    using that by (metis less_exp_take)
  show "w AND 0x3F < 64" "(w AND 0x3F) OR (x AND 0xF) < 64" "(w AND 0x3F) OR (x AND 3) < 64"
    unfolding sextet_masks by (rule *, rule u8_eqI; simp add: bit_simps)+
qed

lemma decode_last:
  assumes "GetNextQuantum pf (pad = DO_PAD_NO) data dpos = (qlen, qbuf, padded, dpos')" "dpos < length data" "qlen < 4"
    "quantum_bytes qbuf ! (qlen - 1) = 0" "padded"
  shows "decode_loop pf pad tf data dpos res = (True, res @ take (qlen - 1) (quantum_bytes qbuf), dpos')"
  using assms by (subst decode_loop.simps) (simp add: Let_def)

lemma decode_more:
  assumes "GetNextQuantum pf (pad = DO_PAD_NO) data dpos = (4, qbuf, padded, dpos')" "dpos < length data"
  shows "decode_loop pf pad tf data dpos res = decode_loop pf pad tf data dpos' (res @ take 3 (quantum_bytes qbuf))"
  using assms by (subst decode_loop.simps) (simp add: Let_def)

lemma strict_pads: "(DO_PAD_YES = DO_PAD_NO) = False"
  by (simp add: DO_PAD_YES_def DO_PAD_NO_def)

lemma decode_loop_encode:
  "decode_loop DO_PARSE_STRICT DO_PAD_YES DO_TERM_BUFFER (pre @ EncodeFromArray xs) (length pre) res =
   (True, res @ xs, length pre + length (EncodeFromArray xs))"
proof (induction xs arbitrary: pre res rule: EncodeFromArray.induct)
  case 1
  then show ?case by (simp add: decode_loop.simps)
next
  case (2 a)
  have q: "GetNextQuantum DO_PARSE_STRICT False (pre @ EncodeFromArray [a]) (length pre) =
     (2, [drop_bit 2 a AND 0x3F, push_bit 4 a AND 0x3F, 0, 0], True, length pre + 4)"
    by (rule quantum_2) (simp_all add: sextet_def sextet_bounds)
  show ?case
    using sextet_bytes by (subst decode_last[OF q[folded strict_pads]]) (simp_all add: quantum_bytes_def)
next
  case (3 a b)
  have q: "GetNextQuantum DO_PARSE_STRICT False (pre @ EncodeFromArray [a, b]) (length pre) =
     (3, [drop_bit 2 a AND 0x3F, (push_bit 4 a AND 0x3F) OR (drop_bit 4 b AND 0x0F), push_bit 2 b AND 0x3F, 0], True, length pre + 4)"
    by (rule quantum_3) (simp_all add: sextet_def sextet_bounds)
  show ?case
    using sextet_bytes by (subst decode_last[OF q[folded strict_pads]]) (simp_all add: quantum_bytes_def)
next
  case (4 a b c rest)
  define group where "group = take 4 (EncodeFromArray (a # b # c # rest))"
  have g: "EncodeFromArray (a # b # c # rest) = group @ EncodeFromArray rest" and l: "length group = 4"
    by (simp_all add: group_def)
  have bytes: "take 3 (quantum_bytes [drop_bit 2 a AND 0x3F, (push_bit 4 a AND 0x3F) OR (drop_bit 4 b AND 0x0F),
          (push_bit 2 b AND 0x3F) OR (drop_bit 6 c AND 0x03), c AND 0x3F]) = [a, b, c]"
    by (simp only: quantum_bytes_def sextet_bytes nth_Cons_0 nth_Cons_numeral nth_Cons_Suc One_nat_def) (use sextet_bytes in simp)
  have q: "GetNextQuantum DO_PARSE_STRICT False (pre @ EncodeFromArray (a # b # c # rest)) (length pre) =
     (4, [drop_bit 2 a AND 0x3F, (push_bit 4 a AND 0x3F) OR (drop_bit 4 b AND 0x0F),
          (push_bit 2 b AND 0x3F) OR (drop_bit 6 c AND 0x03), c AND 0x3F], True, length pre + 4)"
    by (rule quantum_4) (simp_all add: sextet_def sextet_bounds)
  show ?case
    using "4.IH"[of "pre @ group" "res @ [a, b, c]"]
    by (subst decode_more[OF q[folded strict_pads]]) (simp_all only: bytes, simp_all add: g l del: EncodeFromArray.simps)
qed

lemma strict_flags:
  "DO_STRICT AND DO_PARSE_MASK = DO_PARSE_STRICT" "DO_STRICT AND DO_PAD_MASK = DO_PAD_YES" "DO_STRICT AND DO_TERM_MASK = DO_TERM_BUFFER"
  by (simp_all add: base64_flags)

lemma strict_decode_encode:
  "DecodeFromArray (Base64_Encode data) DO_STRICT = (True, data, length (Base64_Encode data))"
  using decode_loop_encode[of "[]" data "[]"]
  by (simp add: DecodeFromArray_def Base64_Encode_def strict_flags)

text \<open>The strict decoder accepts every text the encoder writes, uses all of it and gives the
  encoded bytes back.\<close>
theorem base64_roundtrip:
  "DecodeFromArray (Base64_Encode data) DO_STRICT = (True, data, length (Base64_Encode data))"
  by (rule strict_decode_encode)

end
