(* ===== verification/IpAddr.thy ===== *)
theory IpAddr
  imports ByteOrder
begin

text \<open>
  \<^verbatim>\<open>talk/base/ipaddress.h\<close> and \<^verbatim>\<open>ipaddress.cc\<close>: the address class
  over IPv4 and IPv6. The record keeps the family and the 16 bytes of the union, which several
  predicates read whatever the family is; an IPv4 address occupies the first four bytes.
  \<^verbatim>\<open>inet_ntop\<close> and \<^verbatim>\<open>inet_pton\<close> belong to the platform, so the
  functions that call them take them as arguments.

  The lemmas show the order of addresses, the prefix semantics of \<^verbatim>\<open>TruncateIP\<close>
  and the mapped-address round trip.
\<close>

section \<open>State\<close>

datatype Family = AF_UNSPEC | AF_INET | AF_INET6

text \<open>Unspecified before IPv4 before IPv6, as \<^verbatim>\<open>operator<\<close> ranks the families.\<close>

instantiation Family :: linorder
begin

fun family_rank :: "Family \<Rightarrow> nat" where
  "family_rank AF_UNSPEC = 0"
| "family_rank AF_INET = 1"
| "family_rank AF_INET6 = 2"

definition less_eq_Family :: "Family \<Rightarrow> Family \<Rightarrow> bool" where
  "less_eq_Family a b \<longleftrightarrow> family_rank a \<le> family_rank b"

definition less_Family :: "Family \<Rightarrow> Family \<Rightarrow> bool" where
  "less_Family a b \<longleftrightarrow> family_rank a < family_rank b"

instance
proof
  fix a b :: Family
  assume "a \<le> b" "b \<le> a"
  then show "a = b" by (cases a; cases b) (simp_all add: less_eq_Family_def)
qed (auto simp: less_eq_Family_def less_Family_def)

end

record IPAddress =
  ip_family :: Family
  ip_u :: "u8 list"

definition IPAddress_unspec :: IPAddress where
  "IPAddress_unspec = \<lparr>ip_family = AF_UNSPEC, ip_u = replicate 16 0\<rparr>"

definition IPAddress_v4 :: "u8 list \<Rightarrow> IPAddress" where
  "IPAddress_v4 ip4 = \<lparr>ip_family = AF_INET, ip_u = blit (replicate 16 0) 0 ip4\<rparr>"

definition IPAddress_v6 :: "u8 list \<Rightarrow> IPAddress" where
  "IPAddress_v6 ip6 = \<lparr>ip_family = AF_INET6, ip_u = ip6\<rparr>"

definition IPAddress_host :: "u32 \<Rightarrow> IPAddress" where
  "IPAddress_host ip_in_host_byte_order = IPAddress_v4 (store_host 4 (HostToNetwork32 ip_in_host_byte_order))"

definition ipv4_address :: "IPAddress \<Rightarrow> u8 list" where
  "ipv4_address ip = take 4 (ip_u ip)"

definition ipv6_address :: "IPAddress \<Rightarrow> u8 list" where
  "ipv6_address ip = ip_u ip"

definition s_addr :: "u8 list \<Rightarrow> u32" where
  "s_addr in_addr = load_host in_addr"

definition INADDR_ANY :: u32 where "INADDR_ANY = 0"
definition INADDR_LOOPBACK :: u32 where "INADDR_LOOPBACK = 0x7f000001"
definition in6addr_any :: "u8 list" where "in6addr_any = replicate 16 0"
definition in6addr_loopback :: "u8 list" where "in6addr_loopback = replicate 15 0 @ [1]"

definition kULAPrefix :: "u8 list" where "kULAPrefix = [0xfc, 0] @ replicate 14 0"
definition kV4MappedPrefix :: "u8 list" where "kV4MappedPrefix = replicate 10 0 @ [0xFF, 0xFF, 0, 0, 0, 0]"
definition k6To4Prefix :: "u8 list" where "k6To4Prefix = [0x20, 0x02] @ replicate 14 0"
definition kTeredoPrefix :: "u8 list" where "kTeredoPrefix = [0x20, 0x01, 0x00, 0x00] @ replicate 12 0"
definition kV4CompatibilityPrefix :: "u8 list" where "kV4CompatibilityPrefix = replicate 16 0"
definition k6BonePrefix :: "u8 list" where "k6BonePrefix = [0x3f, 0xfe] @ replicate 14 0"

section \<open>Comparison and conversion\<close>

definition v4AddressAsHostOrderInteger :: "IPAddress \<Rightarrow> u32" where
  "v4AddressAsHostOrderInteger ip =
     (if ip_family ip = AF_INET then NetworkToHost32 (s_addr (ipv4_address ip)) else 0)"

definition IPAddress_Size :: "IPAddress \<Rightarrow> nat" where
  "IPAddress_Size ip = (case ip_family ip of AF_INET \<Rightarrow> 4 | AF_INET6 \<Rightarrow> 16 | AF_UNSPEC \<Rightarrow> 0)"

definition ip_eq :: "IPAddress \<Rightarrow> IPAddress \<Rightarrow> bool" where
  "ip_eq ip other \<longleftrightarrow>
     (if ip_family ip \<noteq> ip_family other then False
      else if ip_family ip = AF_INET then take 4 (ip_u ip) = take 4 (ip_u other)
      else if ip_family ip = AF_INET6 then take 16 (ip_u ip) = take 16 (ip_u other)
      else ip_family ip = AF_UNSPEC)"

text \<open>\<^verbatim>\<open>memcmp(a, b, n) < 0\<close> on equally long byte strings.\<close>

fun memcmp_less :: "u8 list \<Rightarrow> u8 list \<Rightarrow> bool" where
  "memcmp_less (a # as) (b # bs) = (if a = b then memcmp_less as bs else a < b)"
| "memcmp_less _ _ = False"

definition ip_less :: "IPAddress \<Rightarrow> IPAddress \<Rightarrow> bool" where
  "ip_less ip other \<longleftrightarrow>
     (if ip_family ip \<noteq> ip_family other then
        (if ip_family ip = AF_UNSPEC then True
         else if ip_family ip = AF_INET \<and> ip_family other = AF_INET6 then True
         else False)
      else case ip_family ip of
        AF_INET \<Rightarrow> NetworkToHost32 (s_addr (ipv4_address ip)) < NetworkToHost32 (s_addr (ipv4_address other))
      | AF_INET6 \<Rightarrow> memcmp_less (take 16 (ip_u ip)) (take 16 (ip_u other))
      | AF_UNSPEC \<Rightarrow> False)"

definition ip_greater :: "IPAddress \<Rightarrow> IPAddress \<Rightarrow> bool" where
  "ip_greater ip other \<longleftrightarrow> \<not> ip_eq ip other \<and> \<not> ip_less ip other"

definition IPIsHelper :: "IPAddress \<Rightarrow> u8 list \<Rightarrow> nat \<Rightarrow> bool" where
  "IPIsHelper ip tomatch len \<longleftrightarrow> take (len div 8) (ipv6_address ip) = take (len div 8) tomatch"

definition IPIsV4Mapped :: "IPAddress \<Rightarrow> bool" where
  "IPIsV4Mapped ip = IPIsHelper ip kV4MappedPrefix 96"

definition ExtractMappedAddress :: "u8 list \<Rightarrow> u8 list" where
  "ExtractMappedAddress in6 = chunk 12 4 in6"

definition Normalized :: "IPAddress \<Rightarrow> IPAddress" where
  "Normalized ip =
     (if ip_family ip \<noteq> AF_INET6 then ip
      else if \<not> IPIsV4Mapped ip then ip
      else IPAddress_v4 (ExtractMappedAddress (ip_u ip)))"

definition AsIPv6Address :: "IPAddress \<Rightarrow> IPAddress" where
  "AsIPv6Address ip =
     (if ip_family ip \<noteq> AF_INET then ip
      else IPAddress_v6 (blit kV4MappedPrefix 12 (take 4 (ip_u ip))))"

section \<open>Classification\<close>

definition IsPrivateV4 :: "u32 \<Rightarrow> bool" where
  "IsPrivateV4 ip \<longleftrightarrow>
     drop_bit 24 ip = 127 \<or> drop_bit 24 ip = 10 \<or> drop_bit 20 ip = (push_bit 4 172 OR 1) \<or>
     drop_bit 16 ip = (push_bit 8 192 OR 168) \<or> drop_bit 16 ip = (push_bit 8 169 OR 254)"

definition IPIsAny :: "IPAddress \<Rightarrow> bool" where
  "IPIsAny ip = (case ip_family ip of
       AF_INET \<Rightarrow> ip_eq ip (IPAddress_host INADDR_ANY)
     | AF_INET6 \<Rightarrow> ip_eq ip (IPAddress_v6 in6addr_any)
     | AF_UNSPEC \<Rightarrow> False)"

definition IPIsLoopback :: "IPAddress \<Rightarrow> bool" where
  "IPIsLoopback ip = (case ip_family ip of
       AF_INET \<Rightarrow> ip_eq ip (IPAddress_host INADDR_LOOPBACK)
     | AF_INET6 \<Rightarrow> ip_eq ip (IPAddress_v6 in6addr_loopback)
     | AF_UNSPEC \<Rightarrow> False)"

definition IPIsPrivate :: "IPAddress \<Rightarrow> bool" where
  "IPIsPrivate ip = (case ip_family ip of
       AF_INET \<Rightarrow> IsPrivateV4 (v4AddressAsHostOrderInteger ip)
     | AF_INET6 \<Rightarrow> (ipv6_address ip ! 0 = 0xFE \<and> ipv6_address ip ! 1 = 0x80) \<or> IPIsLoopback ip
     | AF_UNSPEC \<Rightarrow> False)"

definition IPIsUnspec :: "IPAddress \<Rightarrow> bool" where
  "IPIsUnspec ip \<longleftrightarrow> ip_family ip = AF_UNSPEC"

definition v6_as_ints :: "u8 list \<Rightarrow> u32 list" where
  "v6_as_ints v6addr = map (\<lambda>i. load_host (chunk (4 * i) 4 v6addr)) [0..<4]"

definition HashIP :: "IPAddress \<Rightarrow> u32" where
  "HashIP ip = (case ip_family ip of
       AF_INET \<Rightarrow> s_addr (ipv4_address ip)
     | AF_INET6 \<Rightarrow> (let v = v6_as_ints (ipv6_address ip) in v ! 0 XOR v ! 1 XOR v ! 2 XOR v ! 3)
     | AF_UNSPEC \<Rightarrow> 0)"

definition IPIs6Bone :: "IPAddress \<Rightarrow> bool" where "IPIs6Bone ip = IPIsHelper ip k6BonePrefix 16"
definition IPIs6To4 :: "IPAddress \<Rightarrow> bool" where "IPIs6To4 ip = IPIsHelper ip k6To4Prefix 16"
definition IPIsTeredo :: "IPAddress \<Rightarrow> bool" where "IPIsTeredo ip = IPIsHelper ip kTeredoPrefix 32"

definition IPIsV4Compatibility :: "IPAddress \<Rightarrow> bool" where
  "IPIsV4Compatibility ip = IPIsHelper ip kV4CompatibilityPrefix 96"

definition IPIsSiteLocal :: "IPAddress \<Rightarrow> bool" where
  "IPIsSiteLocal ip \<longleftrightarrow> ipv6_address ip ! 0 = 0xFE \<and> ipv6_address ip ! 1 AND 0xC0 = 0xC0"

definition IPIsULA :: "IPAddress \<Rightarrow> bool" where
  "IPIsULA ip \<longleftrightarrow> ipv6_address ip ! 0 AND 0xFE = 0xFC"

definition IPAddressPrecedence :: "IPAddress \<Rightarrow> int" where
  "IPAddressPrecedence ip =
     (if ip_family ip = AF_INET then 30
      else if ip_family ip = AF_INET6 then
        (if IPIsLoopback ip then 60
         else if IPIsULA ip then 50
         else if IPIsV4Mapped ip then 30
         else if IPIs6To4 ip then 20
         else if IPIsTeredo ip then 10
         else if IPIsV4Compatibility ip \<or> IPIsSiteLocal ip \<or> IPIs6Bone ip then 1
         else 40)
      else 0)"

section \<open>Prefixes\<close>

definition TruncateIP :: "IPAddress \<Rightarrow> int \<Rightarrow> IPAddress" where
  "TruncateIP ip len =
     (if len < 0 then IPAddress_unspec
      else if ip_family ip = AF_INET then
        (if len > 31 then ip
         else if len = 0 then IPAddress_host INADDR_ANY
         else
           let imask = push_bit (nat (32 - len)) 0xFFFFFFFF;
               host_order_ip = NetworkToHost32 (s_addr (ipv4_address ip))
           in IPAddress_v4 (store_host 4 (HostToNetwork32 (host_order_ip AND imask))))
      else if ip_family ip = AF_INET6 then
        (if len > 127 then ip
         else if len = 0 then IPAddress_v6 in6addr_any
         else
           let position = nat (len div 32);
               inner_length = nat (32 - (len - int position * 32));
               inner_mask = ucast (push_bit inner_length (0xFFFFFFFF :: u64)) :: u32;
               v = v6_as_ints (ipv6_address ip);
               v = map (\<lambda>i. if i = position then HostToNetwork32 (NetworkToHost32 (v ! i) AND inner_mask)
                           else if i > position then 0 else v ! i) [0..<4]
           in IPAddress_v6 (concat (map (store_host 4) v)))
      else IPAddress_unspec)"

text \<open>The trailing zeros of a word, by the masks of the code.\<close>

definition trailing_zeroes :: "u32 \<Rightarrow> nat" where
  "trailing_zeroes w =
     (let w = w AND - w;
          zeroes = 32;
          zeroes = (if w \<noteq> 0 then zeroes - 1 else zeroes);
          zeroes = (if w AND 0x0000FFFF \<noteq> 0 then zeroes - 16 else zeroes);
          zeroes = (if w AND 0x00FF00FF \<noteq> 0 then zeroes - 8 else zeroes);
          zeroes = (if w AND 0x0F0F0F0F \<noteq> 0 then zeroes - 4 else zeroes);
          zeroes = (if w AND 0x33333333 \<noteq> 0 then zeroes - 2 else zeroes);
          zeroes = (if w AND 0x55555555 \<noteq> 0 then zeroes - 1 else zeroes)
      in zeroes)"

text \<open>The loop over the leading all-ones words of an IPv6 mask.\<close>

fun leading_ones :: "u32 list \<Rightarrow> nat" where
  "leading_ones (v # vs) = (if v \<noteq> 0xFFFFFFFF then 0 else Suc (leading_ones vs))"
| "leading_ones [] = 0"

definition CountIPMaskBits :: "IPAddress \<Rightarrow> int" where
  "CountIPMaskBits m =
     (if ip_family m = AF_UNSPEC then 0
      else
        let (word_to_count, bits) =
          (if ip_family m = AF_INET then (NetworkToHost32 (s_addr (ipv4_address m)), 0)
           else
             let v = v6_as_ints (ipv6_address m); i = leading_ones v
             in (if i < 4 then NetworkToHost32 (v ! i) else 0, i * 32))
        in if word_to_count = 0 then int bits
           else int bits + (32 - int (trailing_zeroes word_to_count)))"

section \<open>Text\<close>

text \<open>The platform's conversions are arguments: \<open>ntop\<close> fails with \<open>None\<close>.\<close>

definition IPAddress_ToString :: "(Family \<Rightarrow> u8 list \<Rightarrow> u8 list option) \<Rightarrow> IPAddress \<Rightarrow> u8 list" where
  "IPAddress_ToString ntop ip =
     (if ip_family ip \<noteq> AF_INET \<and> ip_family ip \<noteq> AF_INET6 then []
      else case ntop (ip_family ip) (if ip_family ip = AF_INET6 then ip_u ip else take 4 (ip_u ip)) of
        None \<Rightarrow> [] | Some s \<Rightarrow> s)"

definition IPFromString :: "(Family \<Rightarrow> u8 list \<Rightarrow> u8 list option) \<Rightarrow> u8 list \<Rightarrow> bool \<times> IPAddress" where
  "IPFromString pton str =
     (case pton AF_INET str of
        None \<Rightarrow> (case pton AF_INET6 str of
            None \<Rightarrow> (False, IPAddress_unspec)
          | Some addr6 \<Rightarrow> (True, IPAddress_v6 addr6))
      | Some addr \<Rightarrow> (True, IPAddress_v4 addr))"

section \<open>Well-formed addresses\<close>

text \<open>What the constructors establish.\<close>

definition ip_wf :: "IPAddress \<Rightarrow> bool" where
  "ip_wf ip \<longleftrightarrow> length (ip_u ip) = 16 \<and>
     (ip_family ip = AF_INET \<longrightarrow> drop 4 (ip_u ip) = replicate 12 0) \<and>
     (ip_family ip = AF_UNSPEC \<longrightarrow> ip_u ip = replicate 16 0)"

lemma ip_wf_constructors:
  "ip_wf IPAddress_unspec" "length a = 4 \<Longrightarrow> ip_wf (IPAddress_v4 a)"
  "length b = 16 \<Longrightarrow> ip_wf (IPAddress_v6 b)" "ip_wf (IPAddress_host h)"
  by (simp_all add: ip_wf_def IPAddress_unspec_def IPAddress_v4_def IPAddress_v6_def IPAddress_host_def blit_def)

lemma ip_v4_conv: "ip_wf ip \<Longrightarrow> ip_family ip = AF_INET \<Longrightarrow> IPAddress_v4 (take 4 (ip_u ip)) = ip"
proof -
  assume w: "ip_wf ip" "ip_family ip = AF_INET"
  then have "take 4 (ip_u ip) @ replicate 12 0 = ip_u ip"
    using append_take_drop_id[of 4 "ip_u ip"] by (simp add: ip_wf_def)
  then show ?thesis using w by (cases ip) (simp add: ip_wf_def IPAddress_v4_def blit_def)
qed

lemma ip_v6_conv: "ip_family ip = AF_INET6 \<Longrightarrow> IPAddress_v6 (ip_u ip) = ip"
  by (cases ip) (simp add: IPAddress_v6_def)

lemma ip_eq_wf:
  assumes "ip_wf a" "ip_wf b"
  shows "ip_eq a b \<longleftrightarrow> a = b"
proof (cases "ip_family a = AF_INET \<and> ip_family b = AF_INET")
  case True
  then have "ip_eq a b \<longleftrightarrow> take 4 (ip_u a) = take 4 (ip_u b)" by (simp add: ip_eq_def)
  also have "\<dots> \<longleftrightarrow> a = b" using True assms ip_v4_conv by metis
  finally show ?thesis .
next
  case False
  then show ?thesis using assms
    by (cases a; cases b; cases "ip_family a") (auto simp: ip_eq_def ip_wf_def)
qed

text \<open>The key by which \<^verbatim>\<open>operator<\<close> orders: the family, then the bytes.\<close>

lemma memcmp_less_irrefl: "\<not> memcmp_less a a"
  by (induction a) auto

lemma memcmp_less_trans: "memcmp_less a b \<Longrightarrow> memcmp_less b c \<Longrightarrow> memcmp_less a c"
proof (induction a arbitrary: b c)
  case (Cons x a)
  then obtain y b' where b: "b = y # b'" by (cases b) auto
  then obtain z c' where c: "c = z # c'" using Cons.prems by (cases c) auto
  show ?case
  proof (cases "x = y \<and> y = z")
    case True
    then show ?thesis using Cons b c by auto
  next
    case False
    then have "x < z" using Cons.prems b c by (auto split: if_splits)
    then show ?thesis using c by auto
  qed
qed simp

lemma memcmp_less_total: "length a = length b \<Longrightarrow> memcmp_less a b \<or> a = b \<or> memcmp_less b a"
  by (induction a b rule: memcmp_less.induct) auto

lemma ip_less_v4:
  assumes "ip_wf a" "ip_wf b" "ip_family a = AF_INET" "ip_family b = AF_INET"
  shows "ip_less a b \<longleftrightarrow> (be_word (take 4 (ip_u a)) :: u32) < be_word (take 4 (ip_u b))"
    "(be_word (take 4 (ip_u a)) :: u32) = be_word (take 4 (ip_u b)) \<longleftrightarrow> a = b"
proof -
  have l: "length (take 4 (ip_u a)) = 4" "length (take 4 (ip_u b)) = 4" using assms by (simp_all add: ip_wf_def)
  show "ip_less a b \<longleftrightarrow> (be_word (take 4 (ip_u a)) :: u32) < be_word (take 4 (ip_u b))"
    using assms l by (simp add: ip_less_def s_addr_def ipv4_address_def NetworkToHost_load)
  have "take 4 (ip_u a) = take 4 (ip_u b)" if "(be_word (take 4 (ip_u a)) :: u32) = be_word (take 4 (ip_u b))"
    using be_bytes_be_word[of "take 4 (ip_u a)", where 'a = 32] be_bytes_be_word[of "take 4 (ip_u b)", where 'a = 32] l that
    by simp
  then show "(be_word (take 4 (ip_u a)) :: u32) = be_word (take 4 (ip_u b)) \<longleftrightarrow> a = b"
    using assms ip_v4_conv by metis
qed

lemma ip_less_irrefl: "\<not> ip_less a a"
  by (cases "ip_family a") (simp_all add: ip_less_def memcmp_less_irrefl)

lemma ip_less_family: "ip_family a \<noteq> ip_family b \<Longrightarrow> ip_less a b \<longleftrightarrow> ip_family a < ip_family b"
  by (cases "ip_family a"; cases "ip_family b") (simp_all add: ip_less_def less_Family_def)

lemma ip_less_family_le: "ip_less a b \<Longrightarrow> ip_family a \<le> ip_family b"
  using ip_less_family[of a b] by (cases "ip_family a = ip_family b") auto

lemma ip_less_trans:
  assumes "ip_less a b" "ip_less b c"
  shows "ip_less a c"
proof (cases "ip_family a = ip_family c")
  case False
  then have "ip_family a < ip_family c"
    using ip_less_family_le[OF assms(1)] ip_less_family_le[OF assms(2)] by auto
  then show ?thesis using False by (simp add: ip_less_family)
next
  case True
  then have "ip_family b = ip_family a"
    using ip_less_family_le[OF assms(1)] ip_less_family_le[OF assms(2)] by auto
  then show ?thesis using assms True
    by (cases "ip_family a") (auto simp: ip_less_def intro: memcmp_less_trans)
qed

lemma ip_less_total:
  assumes "ip_wf a" "ip_wf b"
  shows "ip_less a b \<or> a = b \<or> ip_less b a"
proof (cases "ip_family a = ip_family b")
  case False
  then show ?thesis by (auto simp: ip_less_family)
next
  case True
  show ?thesis
  proof (cases "ip_family a")
    case AF_UNSPEC
    then show ?thesis using True assms by (cases a; cases b) (simp add: ip_wf_def)
  next
    case AF_INET
    then show ?thesis using True assms ip_less_v4[of a b] ip_less_v4[of b a] by auto
  next
    case AF_INET6
    then have "ip_u a = ip_u b \<Longrightarrow> a = b" using True by (cases a; cases b) simp
    moreover have "ip_less a b \<longleftrightarrow> memcmp_less (ip_u a) (ip_u b)" "ip_less b a \<longleftrightarrow> memcmp_less (ip_u b) (ip_u a)"
      using AF_INET6 True assms by (simp_all add: ip_less_def ip_wf_def)
    moreover have "length (ip_u a) = length (ip_u b)" using assms by (simp add: ip_wf_def)
    ultimately show ?thesis using memcmp_less_total by metis
  qed
qed

section \<open>Prefix semantics\<close>

text \<open>Bit \<open>k\<close> of an address, counted from the most significant bit of its first byte.\<close>

definition ip_bit :: "IPAddress \<Rightarrow> nat \<Rightarrow> bool" where
  "ip_bit ip k = bit (ip_u ip ! (k div 8)) (7 - k mod 8)"

text \<open>Bit \<open>k\<close> of a four-byte word in memory is bit \<open>31 - k\<close> of its host value.\<close>

lemma be_bytes_bit:
  fixes w :: u32
  assumes "k < 32"
  shows "bit (be_bytes 4 w ! (k div 8)) (7 - k mod 8) = bit w (31 - k)"
proof -
  have d: "k div 8 = 0 \<or> k div 8 = 1 \<or> k div 8 = 2 \<or> k div 8 = 3" using assms by auto
  have "31 - k = 8 * (3 - k div 8) + (7 - k mod 8)" using assms by presburger
  then show ?thesis
    using d by (auto simp: be_bytes_4 bit_simps add.commute)
qed

lemma masked_word_bytes:
  fixes w :: u32
  assumes "length m = 4" "k < 32" "len \<le> 32"
  shows "bit (be_bytes 4 (be_word m AND push_bit (32 - len) 0xFFFFFFFF :: u32) ! (k div 8)) (7 - k mod 8) \<longleftrightarrow>
    k < len \<and> bit (m ! (k div 8)) (7 - k mod 8)"
proof -
  have f: "(0xFFFFFFFF :: u32) = mask 32" by (simp add: mask_eq_decr_exp)
  have "bit (be_word m :: u32) (31 - k) = bit (m ! (k div 8)) (7 - k mod 8)"
    using be_bytes_bit[OF assms(2), of "be_word m"] be_bytes_be_word[of m, where 'a = 32] assms(1) by simp
  moreover have "bit (push_bit (32 - len) 0xFFFFFFFF :: u32) (31 - k) \<longleftrightarrow> k < len"
    using assms unfolding f by (auto simp: bit_simps)
  ultimately show ?thesis unfolding be_bytes_bit[OF assms(2)] by (auto simp: bit_and_iff)
qed

lemma concat_store_nth:
  "j < 4 * length v \<Longrightarrow> concat (map (store_host 4) (v :: u32 list)) ! j = store_host 4 (v ! (j div 4)) ! (j mod 4)"
proof (induction v arbitrary: j)
  case (Cons w v)
  show ?case
  proof (cases "j < 4")
    case False
    then have "j div 4 = Suc ((j - 4) div 4)" "j mod 4 = (j - 4) mod 4"
      by (simp_all add: le_div_geq le_mod_geq)
    then show ?thesis using False Cons.prems Cons.IH[of "j - 4"] by (simp add: nth_append)
  qed (simp add: nth_append)
qed simp

text \<open>Where bit \<open>k\<close> sits: byte \<open>k mod 32 div 8\<close> of word \<open>k div 32\<close>.\<close>

lemma bit_index:
  fixes k :: nat
  assumes "k < 128"
  shows "4 * (k div 32) + k mod 32 div 8 = k div 8" "k div 32 < 4" "k div 8 < 16" "k mod 32 div 8 < 4"
    "k div 8 div 4 = k div 32" "k div 8 mod 4 = k mod 32 div 8" "k mod 32 mod 8 = k mod 8"
proof -
  have "k div 8 = (8 * (4 * (k div 32)) + k mod 32) div 8" using mult_div_mod_eq[of 32 k] by simp
  also have "\<dots> = 4 * (k div 32) + k mod 32 div 8" by (rule div_mult_self4) simp
  finally show 1: "4 * (k div 32) + k mod 32 div 8 = k div 8" ..
  have r: "k mod 32 < 32" by simp
  then show 2: "k mod 32 div 8 < 4" by (simp add: div_less_iff_less_mult)
  show "k div 32 < 4" "k div 8 < 16" using assms by (simp_all add: div_less_iff_less_mult)
  show "k div 8 div 4 = k div 32" by (simp add: div_mult2_eq[symmetric])
  show "k div 8 mod 4 = k mod 32 div 8" unfolding 1[symmetric] using 2 by simp
  show "k mod 32 mod 8 = k mod 8" by (simp add: mod_mod_cancel)
qed

lemma ip_bit_chunk:
  assumes "length u = 16" "k < 128"
  shows "chunk (4 * (k div 32)) 4 u ! (k mod 32 div 8) = u ! (k div 8)"
  using assms bit_index[OF assms(2)] by (simp add: chunk_def)

lemma inner_mask_eq: "(ucast (push_bit n (0xFFFFFFFF :: u64)) :: u32) = push_bit n 0xFFFFFFFF"
proof -
  have m: "(0xFFFFFFFF :: u64) = mask 32" "(0xFFFFFFFF :: u32) = mask 32" by (simp_all add: mask_eq_decr_exp)
  show ?thesis unfolding m by (rule bit_word_eqI) (auto simp: bit_simps)
qed

lemma zero_word_byte: "j < 4 \<Longrightarrow> be_bytes 4 (0 :: u32) ! j = 0"
  by (simp add: be_bytes_4 nth_Cons')

lemma TruncateIP_v6_bit:
  assumes w: "ip_wf ip" "ip_family ip = AF_INET6" and len: "0 < len" "len < 128" and k: "k < 128"
  shows "ip_bit (TruncateIP ip (int len)) k \<longleftrightarrow> k < len \<and> ip_bit ip k"
proof -
  let ?u = "ip_u ip" and ?i = "k div 32" and ?pos = "len div 32" and ?r = "k mod 32"
  let ?m = "push_bit (32 - (len - ?pos * 32)) 0xFFFFFFFF :: u32"
  let ?f = "\<lambda>i. if i = ?pos then HostToNetwork32 (NetworkToHost32 (v6_as_ints ?u ! i) AND ?m)
                 else if i > ?pos then 0 else v6_as_ints ?u ! i"
  have u: "length ?u = 16" using w(1) by (simp add: ip_wf_def)
  have pos: "nat (int len div 32) = ?pos" by (metis nat_int of_nat_numeral zdiv_int)
  have k32: "k = 32 * ?i + ?r" "?r < 32" and l32: "len = 32 * ?pos + len mod 32" "len mod 32 < 32" by simp_all
  have inner: "nat (32 - (int len - int ?pos * 32)) = 32 - (len - ?pos * 32)"
    using l32 by linarith
  have t: "TruncateIP ip (int len) = IPAddress_v6 (concat (map (store_host 4) (map ?f [0..<4])))"
    using w len unfolding TruncateIP_def Let_def pos inner inner_mask_eq ipv6_address_def by simp
  have i: "?i < 4" "k div 8 < 16" "(k div 8) div 4 = ?i" "(k div 8) mod 4 = ?r div 8" "?r mod 8 = k mod 8" "?r < 32"
    using bit_index[OF k] by (simp_all only: mod_less_divisor zero_less_numeral)
  have b: "ip_bit (TruncateIP ip (int len)) k = bit (store_host 4 (?f ?i) ! (?r div 8)) (7 - ?r mod 8)"
    unfolding t ip_bit_def IPAddress_v6_def IPAddress.simps i(5)
    using i(1-4) concat_store_nth[of "k div 8" "map ?f [0..<4]"] by (simp del: map_map)
  have orig: "ip_bit ip k = bit (chunk (4 * ?i) 4 ?u ! (?r div 8)) (7 - ?r mod 8)"
    unfolding ip_bit_chunk[OF u k] ip_bit_def i(5) ..
  have lc: "length (chunk (4 * ?i) 4 ?u) = 4" using u i(1) by (simp add: chunk_def)
  have v: "v6_as_ints ?u ! ?i = load_host (chunk (4 * ?i) 4 ?u)" using i(1) by (simp add: v6_as_ints_def)
  consider "?i = ?pos" | "?pos < ?i" | "?i < ?pos" by linarith
  then show ?thesis
  proof cases
    case 1
    have "store_host 4 (?f ?i) = be_bytes 4 (be_word (chunk (4 * ?i) 4 ?u) AND ?m)"
      using 1 lc v by (simp add: store_HostToNetwork NetworkToHost_load)
    moreover have "k < len \<longleftrightarrow> ?r < len - ?pos * 32" using 1 k32 l32 by linarith
    moreover have "len - ?pos * 32 \<le> 32" using l32 by linarith
    ultimately show ?thesis using b orig masked_word_bytes[OF lc i(6), of "len - ?pos * 32"] by simp
  next
    case 2
    then have "\<not> k < len" using k32 l32 by linarith
    moreover have "store_host 4 (0 :: u32) ! (?r div 8) = 0"
      using zero_word_byte[of "3 - ?r div 8"] bit_index(4)[OF k] by (simp add: store_host_def rev_nth)
    ultimately show ?thesis using b 2 by simp
  next
    case 3
    then have "k < len" using k32 l32 by linarith
    moreover have "store_host 4 (v6_as_ints ?u ! ?i) = chunk (4 * ?i) 4 ?u"
      using store_load_host[of "chunk (4 * ?i) 4 ?u", where 'a = 32] lc by (simp add: v)
    ultimately show ?thesis using b orig 3 by simp
  qed
qed

lemma TruncateIP_v4_bit:
  assumes w: "ip_wf ip" "ip_family ip = AF_INET" and len: "0 < len" "len < 32" and k: "k < 32"
  shows "ip_bit (TruncateIP ip (int len)) k \<longleftrightarrow> k < len \<and> ip_bit ip k"
proof -
  let ?u = "take 4 (ip_u ip)"
  have l: "length ?u = 4" using w by (simp add: ip_wf_def)
  have "nat (32 - int len) = 32 - len" by simp
  then have "TruncateIP ip (int len) = IPAddress_v4 (be_bytes 4 (be_word ?u AND push_bit (32 - len) 0xFFFFFFFF :: u32))"
    using w len l unfolding TruncateIP_def
    by (simp add: ipv4_address_def s_addr_def NetworkToHost_load store_HostToNetwork)
  moreover have "k div 8 < 4" using k by simp
  ultimately show ?thesis
    using masked_word_bytes[OF l k, of len] len l
    by (simp add: ip_bit_def IPAddress_v4_def blit_def nth_append)
qed

lemma ip_bit_zero:
  "k < 128 \<Longrightarrow> \<not> ip_bit (IPAddress_v6 in6addr_any) k" "k < 32 \<Longrightarrow> \<not> ip_bit (IPAddress_host INADDR_ANY) k"
proof -
  show "\<not> ip_bit (IPAddress_v6 in6addr_any) k" if "k < 128"
    using bit_index(3)[OF that] by (simp add: ip_bit_def IPAddress_v6_def in6addr_any_def)
  have "k div 8 < 4" if "k < 32" using that by (simp add: div_less_iff_less_mult)
  then show "\<not> ip_bit (IPAddress_host INADDR_ANY) k" if "k < 32"
    using that by (simp add: ip_bit_def IPAddress_host_def INADDR_ANY_def store_HostToNetwork IPAddress_v4_def blit_def nth_append zero_word_byte)
qed

section \<open>Prefix masks\<close>

lemma trailing_zeroes_mask:
  assumes "0 < n" "n \<le> 32"
  shows "trailing_zeroes (push_bit (32 - n) 0xFFFFFFFF) = 32 - n" "push_bit (32 - n) 0xFFFFFFFF \<noteq> (0 :: u32)"
proof -
  have "\<forall>i\<in>set [0..<32]. trailing_zeroes (push_bit i 0xFFFFFFFF) = i"
    by (simp add: trailing_zeroes_def Let_def upt_rec)
  moreover have "32 - n \<in> set [0..<32]" using assms unfolding set_upt by simp
  ultimately show "trailing_zeroes (push_bit (32 - n) 0xFFFFFFFF) = 32 - n" by (rule bspec)
  have "bit (push_bit (32 - n) (mask 32) :: u32) 31" using assms by (auto simp: bit_simps)
  then show "push_bit (32 - n) 0xFFFFFFFF \<noteq> (0 :: u32)" by (auto simp: mask_eq_decr_exp)
qed

lemma ones_and [simp]: "0xFFFFFFFF AND w = (w :: u32)"
proof -
  have x: "(0xFFFFFFFF :: u32) = mask 32" by (simp add: mask_eq_decr_exp)
  show ?thesis unfolding x by (rule bit_word_eqI) (simp add: bit_simps)
qed

lemma Count_v4: "CountIPMaskBits (IPAddress_v4 (be_bytes 4 w)) =
    (if w = 0 then 0 else 32 - int (trailing_zeroes w))"
  by (simp add: CountIPMaskBits_def IPAddress_v4_def ipv4_address_def s_addr_def blit_def
      NetworkToHost_load be_word_be_bytes)

lemma mask_v4:
  assumes "n \<le> 32"
  shows "CountIPMaskBits (TruncateIP (IPAddress_host 0xFFFFFFFF) (int n)) = int n"
proof -
  have "nat (32 - int n) = 32 - n" by simp
  then have "TruncateIP (IPAddress_host 0xFFFFFFFF) (int n) =
      IPAddress_v4 (be_bytes 4 (if n = 0 then 0 else push_bit (32 - n) 0xFFFFFFFF :: u32))"
    using assms by (simp add: TruncateIP_def IPAddress_host_def store_HostToNetwork INADDR_ANY_def
        ipv4_address_def s_addr_def NetworkToHost_load be_word_be_bytes IPAddress_v4_def blit_def)
  then show ?thesis using assms trailing_zeroes_mask[of n] by (simp add: Count_v4)
qed

lemma v6_as_ints_store:
  assumes "length v = 4"
  shows "v6_as_ints (concat (map (store_host 4) v)) = v"
proof -
  obtain a b c d where v: "v = [a, b, c, d]" using split_at_4[of v] assms by auto
  show ?thesis by (simp add: v v6_as_ints_def upt_rec chunk_def load_store_host)
qed

lemma all_ones_ints: "v6_as_ints (replicate 16 0xFF) = [0xFFFFFFFF, 0xFFFFFFFF, 0xFFFFFFFF, 0xFFFFFFFF]"
  by code_simp

lemma ones_net: "NetworkToHost32 0xFFFFFFFF = 0xFFFFFFFF" "HostToNetwork32 w = 0xFFFFFFFF \<longleftrightarrow> w = 0xFFFFFFFF"
proof -
  show n: "NetworkToHost32 0xFFFFFFFF = 0xFFFFFFFF" by code_simp
  have "HostToNetwork32 0xFFFFFFFF = 0xFFFFFFFF" by code_simp
  then show "HostToNetwork32 w = 0xFFFFFFFF \<longleftrightarrow> w = 0xFFFFFFFF"
    using n NetworkToHost_HostToNetwork(2)[of w] by metis
qed

lemma less_4_cases: "(i :: nat) < 4 \<Longrightarrow> i = 0 \<or> i = 1 \<or> i = 2 \<or> i = 3"
  by auto

lemma Count_v6:
  assumes "pos < 4" "w \<noteq> 0xFFFFFFFF"
  shows "CountIPMaskBits (IPAddress_v6 (concat (map (store_host 4)
      (map (\<lambda>i. if i = pos then HostToNetwork32 w else if i > pos then 0 else 0xFFFFFFFF) [0..<4])))) =
    32 * int pos + (if w = 0 then 0 else 32 - int (trailing_zeroes w))"
proof -
  let ?v = "map (\<lambda>i. if i = pos then HostToNetwork32 w else if i > pos then 0 else 0xFFFFFFFF) [0..<4]"
  have "leading_ones ?v = pos" "?v ! pos = HostToNetwork32 w"
    using assms by (auto simp: upt_rec ones_net dest!: less_4_cases)
  then show ?thesis
    using assms(1) v6_as_ints_store[of ?v]
    by (simp add: CountIPMaskBits_def IPAddress_v6_def ipv6_address_def Let_def del: map_map)
qed

lemma mask_v6:
  assumes "n \<le> 128"
  shows "CountIPMaskBits (TruncateIP (IPAddress_v6 (replicate 16 0xFF)) (int n)) = int n"
proof -
  let ?pos = "n div 32" and ?r = "n mod 32"
  let ?w = "push_bit (32 - ?r) 0xFFFFFFFF :: u32"
  consider "n = 0" | "n = 128" | "0 < n" "n < 128" using assms by linarith
  then show ?thesis
  proof cases
    case 1
    then show ?thesis by (simp add: TruncateIP_def IPAddress_v6_def) code_simp
  next
    case 2
    then show ?thesis
      by (simp add: TruncateIP_def CountIPMaskBits_def IPAddress_v6_def ipv6_address_def all_ones_ints Let_def)
  next
    case 3
    have nr: "n = 32 * ?pos + ?r" "?r < 32" by simp_all
    have pos: "nat (int n div 32) = ?pos" "?pos < 4"
      using 3 by (metis nat_int of_nat_numeral zdiv_int) (simp add: 3 div_less_iff_less_mult)
    have inner: "nat (32 - (int n - int ?pos * 32)) = 32 - ?r" using nr by linarith
    have x: "(0xFFFFFFFF :: u32) = mask 32" by (simp add: mask_eq_decr_exp)
    have ones: "NetworkToHost32 0xFFFFFFFF AND ?w = ?w" by (simp add: ones_net)
    have "\<not> bit ?w 0" using nr(2) by (simp add: bit_simps)
    moreover have "bit (0xFFFFFFFF :: u32) 0" by simp
    ultimately have w: "?w \<noteq> 0xFFFFFFFF" by metis
    have w0: "?r = 0 \<Longrightarrow> ?w = 0" unfolding x by (auto intro!: bit_word_eqI simp: bit_simps)
    let ?ones = "[0xFFFFFFFF, 0xFFFFFFFF, 0xFFFFFFFF, 0xFFFFFFFF] :: u32 list"
    have "?ones ! i = 0xFFFFFFFF" if "i < 4" for i using less_4_cases[OF that] by auto
    then have "map (\<lambda>i. if i = ?pos then HostToNetwork32 (NetworkToHost32 (?ones ! i) AND ?w)
        else if i > ?pos then 0 else ?ones ! i) [0..<4] =
      map (\<lambda>i. if i = ?pos then HostToNetwork32 ?w else if i > ?pos then 0 else 0xFFFFFFFF) [0..<4]"
      using ones by (intro map_cong) auto
    moreover have v: "v6_as_ints (ipv6_address (IPAddress_v6 (replicate 16 0xFF))) = ?ones"
      by (simp add: IPAddress_v6_def ipv6_address_def all_ones_ints)
    ultimately have "TruncateIP (IPAddress_v6 (replicate 16 0xFF)) (int n) = IPAddress_v6 (concat (map (store_host 4)
      (map (\<lambda>i. if i = ?pos then HostToNetwork32 ?w else if i > ?pos then 0 else 0xFFFFFFFF) [0..<4])))"
      using 3 unfolding TruncateIP_def Let_def pos inner inner_mask_eq v
      by (simp only:) (simp add: IPAddress_v6_def)
    then have "CountIPMaskBits (TruncateIP (IPAddress_v6 (replicate 16 0xFF)) (int n)) =
        32 * int ?pos + (if ?w = 0 then 0 else 32 - int (trailing_zeroes ?w))"
      by (simp only: Count_v6[OF pos(2) w])
    also have "(if ?w = 0 then 0 else 32 - int (trailing_zeroes ?w)) = int ?r"
    proof (cases "?r = 0")
      case False
      then have "trailing_zeroes ?w = 32 - ?r" "?w \<noteq> 0" using trailing_zeroes_mask[of ?r] nr(2) by simp_all
      then show ?thesis using nr(2) by (simp only: if_False)
    next
      case True
      then show ?thesis using w0[OF True] by simp
    qed
    also have "32 * int ?pos + int ?r = int n" using nr(1) by linarith
    finally show ?thesis .
  qed
qed

section \<open>Properties\<close>

text \<open>On addresses built by the constructors, \<^verbatim>\<open>operator<\<close> is a strict total
  order whose equality is \<^verbatim>\<open>operator==\<close>, and \<^verbatim>\<open>operator>\<close> is its converse.\<close>
theorem ip_order:
  assumes "ip_wf a" "ip_wf b" "ip_wf c"
  shows "\<not> ip_less a a \<and> (ip_less a b \<longrightarrow> ip_less b c \<longrightarrow> ip_less a c) \<and>
    (ip_less a b \<or> ip_eq a b \<or> ip_less b a) \<and> (ip_eq a b \<longrightarrow> \<not> ip_less a b) \<and> (ip_greater a b \<longleftrightarrow> ip_less b a)"
  using assms ip_less_total[of a b] ip_less_trans[of a b c] ip_less_trans[of a b a] ip_less_irrefl
  by (auto simp: ip_eq_wf ip_greater_def)

lemma ip_order_witness:
  "ip_greater (IPAddress_v6 in6addr_any) (IPAddress_host 0x01020304) \<longleftrightarrow>
   ip_less (IPAddress_host 0x01020304) (IPAddress_v6 in6addr_any)"
  using ip_order[of "IPAddress_v6 in6addr_any" "IPAddress_host 0x01020304" IPAddress_unspec]
  by (simp add: ip_wf_constructors in6addr_any_def)

text \<open>\<^verbatim>\<open>TruncateIP(ip, n)\<close> keeps exactly the first \<open>n\<close> bits of an address of
  either family and clears the others, for every \<open>n\<close> from 0 to the width.\<close>
theorem TruncateIP_prefix:
  assumes "ip_wf ip" "len \<le> 8 * IPAddress_Size ip" "k < 8 * IPAddress_Size ip"
  shows "ip_bit (TruncateIP ip (int len)) k \<longleftrightarrow> k < len \<and> ip_bit ip k"
proof -
  have "len = 0 \<or> len = 8 * IPAddress_Size ip \<or> 0 < len \<and> len < 8 * IPAddress_Size ip" using assms(2) by linarith
  then show ?thesis
    using assms TruncateIP_v4_bit[of ip len k] TruncateIP_v6_bit[of ip len k] ip_bit_zero[of k]
    by (cases "ip_family ip") (auto simp: IPAddress_Size_def TruncateIP_def)
qed

lemma TruncateIP_prefix_witness:
  "ip_bit (TruncateIP (IPAddress_host 0xC0A80105) (int 24)) 29 \<longleftrightarrow> 29 < (24 :: nat) \<and> ip_bit (IPAddress_host 0xC0A80105) 29"
proof (rule TruncateIP_prefix)
  show "ip_wf (IPAddress_host 0xC0A80105)" by (rule ip_wf_constructors)
qed (simp_all add: IPAddress_Size_def IPAddress_host_def IPAddress_v4_def)

text \<open>Mapping an IPv4 address into IPv6 and normalizing gives it back, and the mapped
  address has the precedence of IPv4.\<close>
theorem mapped_roundtrip:
  assumes "ip_wf ip" "ip_family ip = AF_INET"
  shows "Normalized (AsIPv6Address ip) = ip \<and> IPAddressPrecedence (AsIPv6Address ip) = IPAddressPrecedence ip"
proof -
  let ?a = "take 4 (ip_u ip)"
  have l: "length ?a = 4" using assms by (simp add: ip_wf_def)
  have u: "blit kV4MappedPrefix 12 ?a = take 12 kV4MappedPrefix @ ?a"
    using l by (simp add: blit_def kV4MappedPrefix_def)
  then have m: "IPIsV4Mapped (AsIPv6Address ip)"
    using assms by (simp add: IPIsV4Mapped_def IPIsHelper_def AsIPv6Address_def IPAddress_v6_def ipv6_address_def kV4MappedPrefix_def)
  have x: "ExtractMappedAddress (ip_u (AsIPv6Address ip)) = ?a"
    using assms u l by (simp add: ExtractMappedAddress_def AsIPv6Address_def IPAddress_v6_def chunk_def kV4MappedPrefix_def)
  have b: "ip_u (AsIPv6Address ip) ! 0 = 0" "ip_u (AsIPv6Address ip) ! 10 = 0xFF"
    using assms u by (simp_all add: AsIPv6Address_def IPAddress_v6_def kV4MappedPrefix_def nth_append)
  have f: "ip_family (AsIPv6Address ip) = AF_INET6"
    using assms(2) by (simp add: AsIPv6Address_def IPAddress_v6_def)
  have "take 16 (ip_u (AsIPv6Address ip)) ! 10 \<noteq> take 16 in6addr_loopback ! 10"
    using b(2) by (simp add: in6addr_loopback_def nth_append)
  then have "take 16 (ip_u (AsIPv6Address ip)) \<noteq> take 16 in6addr_loopback" by (rule contrapos_nn) simp
  then have "\<not> IPIsLoopback (AsIPv6Address ip)"
    by (simp add: IPIsLoopback_def f ip_eq_def IPAddress_v6_def)
  moreover have "\<not> IPIsULA (AsIPv6Address ip)" using b(1) by (simp add: IPIsULA_def ipv6_address_def)
  ultimately have "IPAddressPrecedence (AsIPv6Address ip) = 30"
    using m by (simp add: IPAddressPrecedence_def f)
  moreover have "Normalized (AsIPv6Address ip) = ip"
    using m by (simp add: Normalized_def f x ip_v4_conv[OF assms])
  ultimately show ?thesis using assms(2) by (simp add: IPAddressPrecedence_def)
qed

lemma mapped_roundtrip_witness:
  "Normalized (AsIPv6Address (IPAddress_host 0x0A000001)) = IPAddress_host 0x0A000001"
  using mapped_roundtrip[of "IPAddress_host 0x0A000001"]
  by (simp add: ip_wf_constructors) (simp add: IPAddress_host_def IPAddress_v4_def)

text \<open>The mask of every prefix length is counted back: truncating the all-ones address of a
  family to \<open>n\<close> bits and counting its mask bits gives \<open>n\<close>.\<close>
theorem CountIPMaskBits_TruncateIP:
  "(n \<le> 32 \<longrightarrow> CountIPMaskBits (TruncateIP (IPAddress_host 0xFFFFFFFF) (int n)) = int n) \<and>
   (n \<le> 128 \<longrightarrow> CountIPMaskBits (TruncateIP (IPAddress_v6 (replicate 16 0xFF)) (int n)) = int n)"
  using mask_v4[of n] mask_v6[of n] by blast

lemma CountIPMaskBits_TruncateIP_witness:
  "CountIPMaskBits (TruncateIP (IPAddress_v6 (replicate 16 0xFF)) (int 77)) = 77"
  using CountIPMaskBits_TruncateIP[of 77] by simp

text \<open>The count is taken from the trailing zeros, so bits after the first zero do count: the
  mask 255.0.255.0 gives 24, where the header promises 8.\<close>
theorem CountIPMaskBits_holes:
  "CountIPMaskBits (IPAddress_host 0xFF00FF00) = 24"
  by code_simp

end
