(* ===== verification/SockAddr.thy ===== *)
theory SockAddr
  imports IpAddr
begin

text \<open>
  \<^verbatim>\<open>talk/base/socketaddress.h\<close> and \<^verbatim>\<open>socketaddress.cc\<close>: a host
  name or address with a port. Host names are byte strings. \<^verbatim>\<open>sockaddr_in\<close>,
  \<^verbatim>\<open>sockaddr_in6\<close> and \<^verbatim>\<open>sockaddr_storage\<close> are one record
  \<open>sockaddr\<close>, whose port is kept in network order as the operating system wants it.

  The properties show that the order, the equality and the hash of addresses fit together, and
  that the conversion to the system's representation loses nothing.
\<close>

section \<open>State\<close>

record SocketAddress =
  sa_hostname :: "u8 list"
  sa_ip :: IPAddress
  sa_port :: u16
  sa_literal :: bool
  sa_scope_id :: int

definition SocketAddress_nil :: SocketAddress where
  "SocketAddress_nil = \<lparr>sa_hostname = [], sa_ip = IPAddress_unspec, sa_port = 0, sa_literal = False, sa_scope_id = 0\<rparr>"

definition sa_Clear :: "SocketAddress \<Rightarrow> SocketAddress" where
  "sa_Clear a = a\<lparr>sa_hostname := [], sa_literal := False, sa_ip := IPAddress_unspec, sa_port := 0, sa_scope_id := 0\<rparr>"

definition SetIP :: "SocketAddress \<Rightarrow> IPAddress \<Rightarrow> SocketAddress" where
  "SetIP a ip = a\<lparr>sa_hostname := [], sa_literal := False, sa_ip := ip, sa_scope_id := 0\<rparr>"

definition SetIP_host :: "SocketAddress \<Rightarrow> u32 \<Rightarrow> SocketAddress" where
  "SetIP_host a ip_as_host_order_integer =
     a\<lparr>sa_hostname := [], sa_literal := False, sa_ip := IPAddress_host ip_as_host_order_integer, sa_scope_id := 0\<rparr>"

text \<open>Setting a host name: a literal address is parsed by the platform's \<open>pton\<close>.\<close>

definition SetIP_name :: "(Family \<Rightarrow> u8 list \<Rightarrow> u8 list option) \<Rightarrow> SocketAddress \<Rightarrow> u8 list \<Rightarrow> SocketAddress" where
  "SetIP_name pton a hostname =
     (let (literal, ip) = IPFromString pton hostname;
          a = a\<lparr>sa_hostname := hostname, sa_literal := literal, sa_ip := ip\<rparr>;
          a = (if \<not> literal then a\<lparr>sa_ip := IPAddress_unspec\<rparr> else a)
      in a\<lparr>sa_scope_id := 0\<rparr>)"

definition SetResolvedIP :: "SocketAddress \<Rightarrow> IPAddress \<Rightarrow> SocketAddress" where
  "SetResolvedIP a ip = a\<lparr>sa_ip := ip, sa_scope_id := 0\<rparr>"

definition SetPort :: "SocketAddress \<Rightarrow> int \<Rightarrow> SocketAddress" where
  "SetPort a port = a\<lparr>sa_port := word_of_int port\<rparr>"

definition SetScopeID :: "SocketAddress \<Rightarrow> int \<Rightarrow> SocketAddress" where
  "SetScopeID a scope = a\<lparr>sa_scope_id := scope\<rparr>"

definition SocketAddress_of :: "IPAddress \<Rightarrow> int \<Rightarrow> SocketAddress" where
  "SocketAddress_of ip port = SetPort (SetIP SocketAddress_nil ip) port"

definition SocketAddress_name :: "(Family \<Rightarrow> u8 list \<Rightarrow> u8 list option) \<Rightarrow> u8 list \<Rightarrow> int \<Rightarrow> SocketAddress" where
  "SocketAddress_name pton hostname port = SetPort (SetIP_name pton SocketAddress_nil hostname) port"

section \<open>Predicates and comparison\<close>

definition IsNil :: "SocketAddress \<Rightarrow> bool" where
  "IsNil a \<longleftrightarrow> sa_hostname a = [] \<and> IPIsUnspec (sa_ip a) \<and> 0 = sa_port a"

definition IsComplete :: "SocketAddress \<Rightarrow> bool" where
  "IsComplete a \<longleftrightarrow> \<not> IPIsAny (sa_ip a) \<and> 0 \<noteq> sa_port a"

definition IsAnyIP :: "SocketAddress \<Rightarrow> bool" where
  "IsAnyIP a = IPIsAny (sa_ip a)"

text \<open>The bytes of \<^verbatim>\<open>localhost\<close>.\<close>

definition localhost :: "u8 list" where
  "localhost = [0x6C, 0x6F, 0x63, 0x61, 0x6C, 0x68, 0x6F, 0x73, 0x74]"

definition IsLoopbackIP :: "SocketAddress \<Rightarrow> bool" where
  "IsLoopbackIP a \<longleftrightarrow> IPIsLoopback (sa_ip a) \<or> (IPIsAny (sa_ip a) \<and> takeWhile (\<lambda>c. c \<noteq> 0) (sa_hostname a) = localhost)"

definition IsPrivateIP :: "SocketAddress \<Rightarrow> bool" where
  "IsPrivateIP a = IPIsPrivate (sa_ip a)"

definition IsUnresolvedIP :: "SocketAddress \<Rightarrow> bool" where
  "IsUnresolvedIP a \<longleftrightarrow> IPIsUnspec (sa_ip a) \<and> \<not> sa_literal a \<and> sa_hostname a \<noteq> []"

definition EqualIPs :: "SocketAddress \<Rightarrow> SocketAddress \<Rightarrow> bool" where
  "EqualIPs a addr \<longleftrightarrow>
     ip_eq (sa_ip a) (sa_ip addr) \<and> (\<not> IPIsAny (sa_ip a) \<or> sa_hostname a = sa_hostname addr)"

definition EqualPorts :: "SocketAddress \<Rightarrow> SocketAddress \<Rightarrow> bool" where
  "EqualPorts a addr \<longleftrightarrow> sa_port a = sa_port addr"

definition sa_eq :: "SocketAddress \<Rightarrow> SocketAddress \<Rightarrow> bool" where
  "sa_eq a addr \<longleftrightarrow> EqualIPs a addr \<and> EqualPorts a addr"

text \<open>\<^verbatim>\<open>std::string::operator<\<close>.\<close>

fun str_less :: "u8 list \<Rightarrow> u8 list \<Rightarrow> bool" where
  "str_less [] (b # bs) = True"
| "str_less (a # as) (b # bs) = (if a = b then str_less as bs else a < b)"
| "str_less _ [] = False"

definition sa_less :: "SocketAddress \<Rightarrow> SocketAddress \<Rightarrow> bool" where
  "sa_less a addr \<longleftrightarrow>
     (if ip_less (sa_ip a) (sa_ip addr) then True
      else if ip_less (sa_ip addr) (sa_ip a) then False
      else if IsAnyIP addr \<and> str_less (sa_hostname a) (sa_hostname addr) then True
      else if IsAnyIP addr \<and> str_less (sa_hostname addr) (sa_hostname a) then False
      else sa_port a < sa_port addr)"

definition sa_Hash :: "SocketAddress \<Rightarrow> u32" where
  "sa_Hash a = (0 XOR HashIP (sa_ip a)) XOR (ucast (sa_port a) OR push_bit 16 (ucast (sa_port a)))"

section \<open>The system's representation\<close>

record sockaddr =
  ss_family :: Family
  ss_addr :: "u8 list"
  ss_port :: u16
  ss_scope :: int

definition sockaddr_zero :: sockaddr where
  "sockaddr_zero = \<lparr>ss_family = AF_UNSPEC, ss_addr = [], ss_port = 0, ss_scope = 0\<rparr>"

definition ToSockAddr :: "SocketAddress \<Rightarrow> sockaddr" where
  "ToSockAddr a =
     (if ip_family (sa_ip a) \<noteq> AF_INET then sockaddr_zero\<lparr>ss_family := AF_UNSPEC\<rparr>
      else sockaddr_zero\<lparr>ss_family := AF_INET, ss_port := HostToNetwork16 (sa_port a),
             ss_addr := (if IPIsAny (sa_ip a) then store_host 4 INADDR_ANY else ipv4_address (sa_ip a))\<rparr>)"

definition FromSockAddr :: "SocketAddress \<Rightarrow> sockaddr \<Rightarrow> bool \<times> SocketAddress" where
  "FromSockAddr a saddr =
     (if ss_family saddr \<noteq> AF_INET then (False, a)
      else
        let a = SetIP_host a (NetworkToHost32 (s_addr (ss_addr saddr)));
            a = SetPort a (uint (NetworkToHost16 (ss_port saddr)))
        in (True, a\<lparr>sa_literal := False\<rparr>))"

definition ToSockAddrStorageHelper :: "IPAddress \<Rightarrow> u16 \<Rightarrow> int \<Rightarrow> sockaddr \<times> nat" where
  "ToSockAddrStorageHelper ip port scope_id =
     (let addr = sockaddr_zero\<lparr>ss_family := ip_family ip\<rparr>
      in if ss_family addr = AF_INET6 then
           (addr\<lparr>ss_addr := ipv6_address ip, ss_port := HostToNetwork16 port, ss_scope := scope_id\<rparr>, 28)
         else if ss_family addr = AF_INET then
           (addr\<lparr>ss_addr := ipv4_address ip, ss_port := HostToNetwork16 port\<rparr>, 16)
         else (addr, 0))"

definition ToDualStackSockAddrStorage :: "SocketAddress \<Rightarrow> sockaddr \<times> nat" where
  "ToDualStackSockAddrStorage a = ToSockAddrStorageHelper (AsIPv6Address (sa_ip a)) (sa_port a) (sa_scope_id a)"

definition ToSockAddrStorage :: "SocketAddress \<Rightarrow> sockaddr \<times> nat" where
  "ToSockAddrStorage a = ToSockAddrStorageHelper (sa_ip a) (sa_port a) (sa_scope_id a)"

definition SocketAddressFromSockAddrStorage :: "sockaddr \<Rightarrow> SocketAddress option" where
  "SocketAddressFromSockAddrStorage addr =
     (if ss_family addr = AF_INET then
        Some (SocketAddress_of (IPAddress_v4 (ss_addr addr)) (uint (NetworkToHost16 (ss_port addr))))
      else if ss_family addr = AF_INET6 then
        (let out = SocketAddress_of (IPAddress_v6 (ss_addr addr)) (uint (NetworkToHost16 (ss_port addr)))
         in Some (SetScopeID out (ss_scope addr)))
      else None)"

definition EmptySocketAddressWithFamily :: "Family \<Rightarrow> SocketAddress" where
  "EmptySocketAddressWithFamily family =
     (if family = AF_INET then SocketAddress_of (IPAddress_host INADDR_ANY) 0
      else if family = AF_INET6 then SocketAddress_of (IPAddress_v6 in6addr_any) 0
      else SocketAddress_nil)"

section \<open>Properties\<close>

lemma str_less_irrefl: "\<not> str_less a a"
  by (induction a) auto

lemma str_less_total: "str_less a b \<or> a = b \<or> str_less b a"
proof (induction a b rule: str_less.induct)
  case (3 a)
  then show ?case by (cases a) auto
qed auto

lemma str_less_trans: "str_less a b \<Longrightarrow> str_less b c \<Longrightarrow> str_less a c"
proof (induction a arbitrary: b c)
  case Nil
  then show ?case by (cases b; cases c) auto
next
  case (Cons x a)
  then obtain y b' where b: "b = y # b'" by (cases b) auto
  then obtain z c' where c: "c = z # c'" using Cons.prems by (cases c) auto
  show ?case
  proof (cases "x = y \<and> y = z")
    case True
    then show ?thesis using Cons b c by auto
  next
    case False
    then have "x < z" using Cons.prems b c by (auto split: if_splits)
    then show ?thesis using c by auto
  qed
qed

lemma str_less_asym: "str_less a b \<Longrightarrow> \<not> str_less b a"
  using str_less_trans[of a b a] str_less_irrefl[of a] by blast

definition sa_wf :: "SocketAddress \<Rightarrow> bool" where
  "sa_wf a \<longleftrightarrow> ip_wf (sa_ip a)"

lemma sa_eq_wf: "sa_wf a \<Longrightarrow> sa_wf b \<Longrightarrow> sa_eq a b \<longleftrightarrow>
    sa_ip a = sa_ip b \<and> (IPIsAny (sa_ip a) \<longrightarrow> sa_hostname a = sa_hostname b) \<and> sa_port a = sa_port b"
  by (auto simp: sa_eq_def EqualIPs_def EqualPorts_def sa_wf_def ip_eq_wf)

lemma ip_less_asym: "ip_less a b \<Longrightarrow> \<not> ip_less b a"
  using ip_less_trans[of a b a] ip_less_irrefl[of a] by blast

text \<open>The order as a lexicographic one.\<close>

lemma sa_less_wf:
  assumes "sa_wf a" "sa_wf b"
  shows "sa_less a b \<longleftrightarrow> ip_less (sa_ip a) (sa_ip b) \<or> sa_ip a = sa_ip b \<and>
    (IPIsAny (sa_ip a) \<and> str_less (sa_hostname a) (sa_hostname b) \<or>
     (IPIsAny (sa_ip a) \<longrightarrow> sa_hostname a = sa_hostname b) \<and> sa_port a < sa_port b)"
proof (cases "sa_ip a = sa_ip b")
  case True
  then show ?thesis
    using str_less_total[of "sa_hostname a" "sa_hostname b"] str_less_asym[of "sa_hostname a" "sa_hostname b"]
    by (auto simp: sa_less_def ip_less_irrefl IsAnyIP_def str_less_irrefl)
next
  case False
  then show ?thesis
    using assms ip_less_total[of "sa_ip a" "sa_ip b"] by (auto simp: sa_less_def sa_wf_def dest: ip_less_asym)
qed

text \<open>\<^verbatim>\<open>operator<\<close> on socket addresses is a strict total order whose
  equality is \<^verbatim>\<open>operator==\<close>, although it compares host names only for the any
  address.\<close>
theorem SocketAddress_order:
  assumes "sa_wf a" "sa_wf b" "sa_wf c"
  shows "\<not> sa_less a a \<and> (sa_less a b \<longrightarrow> sa_less b c \<longrightarrow> sa_less a c) \<and>
    (sa_less a b \<or> sa_eq a b \<or> sa_less b a) \<and> (sa_eq a b \<longrightarrow> \<not> sa_less a b)"
proof (intro conjI impI)
  show "\<not> sa_less a a"
    using assms(1) str_less_irrefl[of "sa_hostname a"] by (simp add: sa_less_wf ip_less_irrefl)
  show "sa_less a c" if "sa_less a b" "sa_less b c"
    using that assms ip_less_trans[of "sa_ip a" "sa_ip b" "sa_ip c"]
      str_less_trans[of "sa_hostname a" "sa_hostname b" "sa_hostname c"]
    by (auto simp: sa_less_wf)
  show "sa_less a b \<or> sa_eq a b \<or> sa_less b a"
    using assms ip_less_total[of "sa_ip a" "sa_ip b"] str_less_total[of "sa_hostname a" "sa_hostname b"]
    by (auto simp: sa_less_wf sa_eq_wf) (auto simp: sa_wf_def)
  show "\<not> sa_less a b" if "sa_eq a b"
    using that assms by (auto simp: sa_less_wf sa_eq_wf ip_less_irrefl str_less_irrefl)
qed

lemma SocketAddress_order_witness:
  "sa_less (SocketAddress_of (IPAddress_host 1) 80) (SocketAddress_of (IPAddress_host 2) 7) \<or>
   sa_eq (SocketAddress_of (IPAddress_host 1) 80) (SocketAddress_of (IPAddress_host 2) 7) \<or>
   sa_less (SocketAddress_of (IPAddress_host 2) 7) (SocketAddress_of (IPAddress_host 1) 80)"
  using SocketAddress_order[of "SocketAddress_of (IPAddress_host 1) 80" "SocketAddress_of (IPAddress_host 2) 7"
      "SocketAddress_of (IPAddress_host 2) 7"]
  by (simp add: sa_wf_def SocketAddress_of_def SetPort_def SetIP_def ip_wf_constructors)

text \<open>Equal socket addresses have equal hashes.\<close>
theorem SocketAddress_hash:
  assumes "sa_wf a" "sa_wf b" "sa_eq a b"
  shows "sa_Hash a = sa_Hash b"
  using assms by (simp add: sa_eq_wf sa_Hash_def)

lemma SocketAddress_hash_witness:
  "sa_Hash ((SocketAddress_of (IPAddress_host 5) 80)\<lparr>sa_hostname := [0x61]\<rparr>) = sa_Hash (SocketAddress_of (IPAddress_host 5) 80)"
proof (rule SocketAddress_hash)
  show "sa_eq ((SocketAddress_of (IPAddress_host 5) 80)\<lparr>sa_hostname := [0x61]\<rparr>) (SocketAddress_of (IPAddress_host 5) 80)"
    by code_simp
qed (simp_all add: sa_wf_def SocketAddress_of_def SetPort_def SetIP_def ip_wf_constructors)

text \<open>An address with a family survives the conversion to the system's representation and
  back: address, port and, for IPv6, scope are kept, and so is the mapped form through the
  dual-stack conversion.\<close>
theorem SocketAddress_storage_roundtrip:
  assumes "sa_wf a" "ip_family (sa_ip a) \<noteq> AF_UNSPEC"
  shows "\<exists>b d. SocketAddressFromSockAddrStorage (fst (ToSockAddrStorage a)) = Some b \<and>
    sa_ip b = sa_ip a \<and> sa_port b = sa_port a \<and> (ip_family (sa_ip a) = AF_INET6 \<longrightarrow> sa_scope_id b = sa_scope_id a) \<and>
    SocketAddressFromSockAddrStorage (fst (ToDualStackSockAddrStorage a)) = Some d \<and>
    sa_ip d = AsIPv6Address (sa_ip a) \<and> sa_port d = sa_port a"
  using assms ip_v4_conv[of "sa_ip a"] ip_v6_conv[of "sa_ip a"]
  by (cases "ip_family (sa_ip a)")
    (simp_all add: ToSockAddrStorage_def ToDualStackSockAddrStorage_def ToSockAddrStorageHelper_def Let_def
      SocketAddressFromSockAddrStorage_def SocketAddress_of_def SetPort_def SetIP_def SetScopeID_def
      ipv4_address_def ipv6_address_def sa_wf_def AsIPv6Address_def IPAddress_v6_def sockaddr_zero_def)

lemma SocketAddress_storage_roundtrip_witness:
  "\<exists>b. SocketAddressFromSockAddrStorage (fst (ToSockAddrStorage (SocketAddress_of (IPAddress_host 0x7F000001) 8080))) = Some b \<and>
    sa_port b = 8080"
proof -
  let ?a = "SocketAddress_of (IPAddress_host 0x7F000001) 8080"
  have "sa_wf ?a" "ip_family (sa_ip ?a) \<noteq> AF_UNSPEC" "sa_port ?a = 8080"
    by (simp_all add: sa_wf_def SocketAddress_of_def SetPort_def SetIP_def ip_wf_constructors)
      (simp add: IPAddress_host_def IPAddress_v4_def)
  from SocketAddress_storage_roundtrip[OF this(1,2)] this(3) show ?thesis by metis
qed

end
