(* ===== verification/StunAttr.thy ===== *)
theory StunAttr
  imports ByteBuf SockAddr "HOL-Library.Signed_Division"
begin

text \<open>
  The attribute classes of \<^verbatim>\<open>talk/p2p/base/stun.h\<close> and \<^verbatim>\<open>stun.cc\<close>.
  \<open>StunAttribute\<close> has the members of the base class and one constructor of
  \<open>AttrValue\<close> per derived class; the virtual functions are the functions that distinguish
  them. A null \<^verbatim>\<open>bytes_\<close> is the empty byte string. The owner of an attribute is the
  message that holds it; only its transaction id is ever read, so it is an argument
  (\<open>None\<close> is the null pointer). \<^verbatim>\<open>Read\<close> and \<^verbatim>\<open>Write\<close>
  give \<open>None\<close> where the code returns false.

  \<open>attr_body\<close> is the wire format; the lemmas show that \<^verbatim>\<open>Write\<close> appends it
  and that \<^verbatim>\<open>Read\<close> takes it off again.
\<close>

section \<open>Attributes\<close>

datatype StunAttributeValueType =
    STUN_VALUE_UNKNOWN | STUN_VALUE_ADDRESS | STUN_VALUE_XOR_ADDRESS | STUN_VALUE_UINT32
  | STUN_VALUE_UINT64 | STUN_VALUE_BYTE_STRING | STUN_VALUE_ERROR_CODE | STUN_VALUE_UINT16_LIST

datatype AttrValue =
    AddressValue SocketAddress
  | XorAddressValue SocketAddress
  | UInt32Value u32
  | UInt64Value u64
  | ByteStringValue "u8 list"
  | ErrorCodeValue u8 u8 "u8 list"
  | UInt16ListValue "u16 list"

record StunAttribute =
  a_type :: u16
  a_length :: u16
  a_value :: AttrValue

fun value_type_of :: "AttrValue \<Rightarrow> StunAttributeValueType" where
  "value_type_of (AddressValue _) = STUN_VALUE_ADDRESS"
| "value_type_of (XorAddressValue _) = STUN_VALUE_XOR_ADDRESS"
| "value_type_of (UInt32Value _) = STUN_VALUE_UINT32"
| "value_type_of (UInt64Value _) = STUN_VALUE_UINT64"
| "value_type_of (ByteStringValue _) = STUN_VALUE_BYTE_STRING"
| "value_type_of (ErrorCodeValue _ _ _) = STUN_VALUE_ERROR_CODE"
| "value_type_of (UInt16ListValue _) = STUN_VALUE_UINT16_LIST"

definition value_type :: "StunAttribute \<Rightarrow> StunAttributeValueType" where
  "value_type a = value_type_of (a_value a)"

definition kStunMagicCookie :: u32 where "kStunMagicCookie = 0x2112A442"
definition kStunTransactionIdLength :: nat where "kStunTransactionIdLength = 12"
definition kStunLegacyTransactionIdLength :: nat where "kStunLegacyTransactionIdLength = 16"

definition SIZE_UNDEF :: u16 where "SIZE_UNDEF = 0"
definition SIZE_IP4 :: u16 where "SIZE_IP4 = 8"
definition SIZE_IP6 :: u16 where "SIZE_IP6 = 20"
definition UInt32_SIZE :: u16 where "UInt32_SIZE = 4"
definition UInt64_SIZE :: u16 where "UInt64_SIZE = 8"
definition ErrorCode_MIN_SIZE :: u16 where "ErrorCode_MIN_SIZE = 4"

text \<open>\<^verbatim>\<open>STUN_ADDRESS_UNDEF\<close>, \<^verbatim>\<open>STUN_ADDRESS_IPV4\<close> and \<^verbatim>\<open>STUN_ADDRESS_IPV6\<close>.\<close>

definition stun_family :: "SocketAddress \<Rightarrow> u8" where
  "stun_family sa = (case ip_family (sa_ip sa) of AF_INET \<Rightarrow> 1 | AF_INET6 \<Rightarrow> 2 | AF_UNSPEC \<Rightarrow> 0)"

text \<open>\<^verbatim>\<open>EnsureAddressLength\<close>, as the length it sets.\<close>

definition EnsureAddressLength :: "SocketAddress \<Rightarrow> u16" where
  "EnsureAddressLength sa =
     (if stun_family sa = 1 then SIZE_IP4 else if stun_family sa = 2 then SIZE_IP6 else SIZE_UNDEF)"

section \<open>Construction and setters\<close>

definition StunAttribute_Create ::
  "StunAttributeValueType \<Rightarrow> u16 \<Rightarrow> u16 \<Rightarrow> StunAttribute option" where
  "StunAttribute_Create vt type len =
     (case vt of
        STUN_VALUE_ADDRESS \<Rightarrow> Some \<lparr>a_type = type, a_length = len, a_value = AddressValue SocketAddress_nil\<rparr>
      | STUN_VALUE_XOR_ADDRESS \<Rightarrow> Some \<lparr>a_type = type, a_length = len, a_value = XorAddressValue SocketAddress_nil\<rparr>
      | STUN_VALUE_UINT32 \<Rightarrow> Some \<lparr>a_type = type, a_length = UInt32_SIZE, a_value = UInt32Value 0\<rparr>
      | STUN_VALUE_UINT64 \<Rightarrow> Some \<lparr>a_type = type, a_length = UInt64_SIZE, a_value = UInt64Value 0\<rparr>
      | STUN_VALUE_BYTE_STRING \<Rightarrow> Some \<lparr>a_type = type, a_length = len, a_value = ByteStringValue []\<rparr>
      | STUN_VALUE_ERROR_CODE \<Rightarrow> Some \<lparr>a_type = type, a_length = len, a_value = ErrorCodeValue 0 0 []\<rparr>
      | STUN_VALUE_UINT16_LIST \<Rightarrow> Some \<lparr>a_type = type, a_length = len, a_value = UInt16ListValue []\<rparr>
      | STUN_VALUE_UNKNOWN \<Rightarrow> None)"

definition StunAddressAttribute :: "u16 \<Rightarrow> SocketAddress \<Rightarrow> StunAttribute" where
  "StunAddressAttribute type addr = \<lparr>a_type = type, a_length = EnsureAddressLength addr, a_value = AddressValue addr\<rparr>"

definition StunXorAddressAttribute :: "u16 \<Rightarrow> SocketAddress \<Rightarrow> StunAttribute" where
  "StunXorAddressAttribute type addr = \<lparr>a_type = type, a_length = EnsureAddressLength addr, a_value = XorAddressValue addr\<rparr>"

definition StunUInt32Attribute :: "u16 \<Rightarrow> u32 \<Rightarrow> StunAttribute" where
  "StunUInt32Attribute type v = \<lparr>a_type = type, a_length = UInt32_SIZE, a_value = UInt32Value v\<rparr>"

definition StunUInt64Attribute :: "u16 \<Rightarrow> u64 \<Rightarrow> StunAttribute" where
  "StunUInt64Attribute type v = \<lparr>a_type = type, a_length = UInt64_SIZE, a_value = UInt64Value v\<rparr>"

text \<open>\<^verbatim>\<open>CopyBytes\<close>: the length is cut to 16 bits.\<close>

definition CopyBytes :: "StunAttribute \<Rightarrow> u8 list \<Rightarrow> StunAttribute" where
  "CopyBytes a bytes = a\<lparr>a_value := ByteStringValue bytes, a_length := of_nat (length bytes)\<rparr>"

definition StunByteStringAttribute :: "u16 \<Rightarrow> u8 list \<Rightarrow> StunAttribute" where
  "StunByteStringAttribute type bytes =
     CopyBytes \<lparr>a_type = type, a_length = 0, a_value = ByteStringValue []\<rparr> bytes"

definition SetValue :: "StunAttribute \<Rightarrow> u32 \<Rightarrow> StunAttribute" where
  "SetValue a bits = a\<lparr>a_value := UInt32Value bits\<rparr>"

definition GetBit :: "u32 \<Rightarrow> nat \<Rightarrow> bool" where
  "GetBit bits index \<longleftrightarrow> drop_bit index bits AND 1 \<noteq> 0"

definition SetBit :: "u32 \<Rightarrow> nat \<Rightarrow> bool \<Rightarrow> u32" where
  "SetBit bits index v =
     (let bits = bits AND NOT (push_bit index 1) in bits OR (if v then push_bit index 1 else 0))"

text \<open>The error code as class and number; the division truncates as in C++.\<close>

definition SetCode :: "int \<Rightarrow> u8 \<times> u8" where
  "SetCode code = (word_of_int (code sdiv 100), word_of_int (code smod 100))"

definition error_code :: "u8 \<Rightarrow> u8 \<Rightarrow> int" where
  "error_code eclass number = uint eclass * 100 + uint number"

definition StunErrorCodeAttribute :: "u16 \<Rightarrow> int \<Rightarrow> u8 list \<Rightarrow> StunAttribute" where
  "StunErrorCodeAttribute type code reason =
     (case SetCode code of (c, n) \<Rightarrow>
        \<lparr>a_type = type, a_length = ErrorCode_MIN_SIZE + of_nat (length reason), a_value = ErrorCodeValue c n reason\<rparr>)"

definition AddType :: "StunAttribute \<Rightarrow> u16 list \<Rightarrow> u16 \<Rightarrow> StunAttribute" where
  "AddType a types v = a\<lparr>a_value := UInt16ListValue (types @ [v]), a_length := of_nat (length (types @ [v]) * 2)\<rparr>"

section \<open>Padding\<close>

definition ConsumePadding :: "StunAttribute \<Rightarrow> ByteBuffer \<Rightarrow> ByteBuffer" where
  "ConsumePadding a buf =
     (let remainder = unat (a_length a) mod 4
      in if remainder > 0 then (case Consume buf (4 - remainder) of None \<Rightarrow> buf | Some buf' \<Rightarrow> buf') else buf)"

definition WritePadding :: "StunAttribute \<Rightarrow> ByteBuffer \<Rightarrow> ByteBuffer" where
  "WritePadding a buf =
     (let remainder = unat (a_length a) mod 4
      in if remainder > 0 then WriteBytes buf (take (4 - remainder) [0, 0, 0, 0]) else buf)"

section \<open>XOR of addresses\<close>

definition GetXoredIP :: "u8 list option \<Rightarrow> IPAddress \<Rightarrow> IPAddress" where
  "GetXoredIP owner ip =
     (case owner of
        None \<Rightarrow> IPAddress_unspec
      | Some transaction_id \<Rightarrow>
          (case ip_family ip of
             AF_INET \<Rightarrow>
               IPAddress_v4 (store_host 4 (s_addr (ipv4_address ip) XOR HostToNetwork32 kStunMagicCookie))
           | AF_INET6 \<Rightarrow>
               (if length transaction_id = kStunTransactionIdLength then
                  let t = map (\<lambda>i. load_host (chunk (4 * i) 4 transaction_id)) [0..<3] :: u32 list;
                      p = v6_as_ints (ipv6_address ip)
                  in IPAddress_v6 (concat (map (store_host 4)
                       [p ! 0 XOR HostToNetwork32 kStunMagicCookie, p ! 1 XOR t ! 0, p ! 2 XOR t ! 1, p ! 3 XOR t ! 2]))
                else IPAddress_unspec)
           | AF_UNSPEC \<Rightarrow> IPAddress_unspec))"

definition xor_port :: "u16 \<Rightarrow> u16" where
  "xor_port port = port XOR ucast (drop_bit 16 kStunMagicCookie)"

section \<open>Reading\<close>

definition Address_Read :: "u16 \<Rightarrow> ByteBuffer \<Rightarrow> (SocketAddress \<times> ByteBuffer) option" where
  "Address_Read len buf =
     (case ReadUInt8 buf of None \<Rightarrow> None | Some (dummy, buf) \<Rightarrow>
      case ReadUInt8 buf of None \<Rightarrow> None | Some (fam, buf) \<Rightarrow>
      case ReadUInt16 buf of None \<Rightarrow> None | Some (port, buf) \<Rightarrow>
        (if fam = 1 then
           (if len \<noteq> SIZE_IP4 then None
            else case ReadBytes buf 4 of None \<Rightarrow> None
                 | Some (v4addr, buf) \<Rightarrow> Some (SocketAddress_of (IPAddress_v4 v4addr) (uint port), buf))
         else if fam = 2 then
           (if len \<noteq> SIZE_IP6 then None
            else case ReadBytes buf 16 of None \<Rightarrow> None
                 | Some (v6addr, buf) \<Rightarrow> Some (SocketAddress_of (IPAddress_v6 v6addr) (uint port), buf))
         else None))"

definition XorAddress_Read :: "u8 list option \<Rightarrow> u16 \<Rightarrow> ByteBuffer \<Rightarrow> (SocketAddress \<times> ByteBuffer) option" where
  "XorAddress_Read owner len buf =
     (case Address_Read len buf of None \<Rightarrow> None | Some (sa, buf) \<Rightarrow>
        Some (SocketAddress_of (GetXoredIP owner (sa_ip sa)) (uint (xor_port (sa_port sa))), buf))"

fun ReadUInt16s :: "nat \<Rightarrow> u16 list \<Rightarrow> ByteBuffer \<Rightarrow> (u16 list \<times> ByteBuffer) option" where
  "ReadUInt16s 0 types buf = Some (types, buf)"
| "ReadUInt16s (Suc n) types buf =
     (case ReadUInt16 buf of None \<Rightarrow> None | Some (v, buf) \<Rightarrow> ReadUInt16s n (types @ [v]) buf)"

text \<open>The readers of the other classes: the attribute with its new value.\<close>

definition UInt32_Read :: "StunAttribute \<Rightarrow> ByteBuffer \<Rightarrow> (StunAttribute \<times> ByteBuffer) option" where
  "UInt32_Read a buf =
     (if a_length a \<noteq> UInt32_SIZE then None
      else case ReadUInt32 buf of None \<Rightarrow> None | Some (v, buf) \<Rightarrow> Some (a\<lparr>a_value := UInt32Value v\<rparr>, buf))"

definition UInt64_Read :: "StunAttribute \<Rightarrow> ByteBuffer \<Rightarrow> (StunAttribute \<times> ByteBuffer) option" where
  "UInt64_Read a buf =
     (if a_length a \<noteq> UInt64_SIZE then None
      else case ReadUInt64 buf of None \<Rightarrow> None | Some (v, buf) \<Rightarrow> Some (a\<lparr>a_value := UInt64Value v\<rparr>, buf))"

definition ByteString_Read :: "StunAttribute \<Rightarrow> ByteBuffer \<Rightarrow> (StunAttribute \<times> ByteBuffer) option" where
  "ByteString_Read a buf =
     (case ReadBytes buf (unat (a_length a)) of None \<Rightarrow> None
      | Some (bytes, buf) \<Rightarrow> Some (a\<lparr>a_value := ByteStringValue bytes\<rparr>, ConsumePadding a buf))"

definition ErrorCode_Read :: "u8 list \<Rightarrow> StunAttribute \<Rightarrow> ByteBuffer \<Rightarrow> (StunAttribute \<times> ByteBuffer) option" where
  "ErrorCode_Read reason a buf =
     (if a_length a < ErrorCode_MIN_SIZE then None
      else case ReadUInt32 buf of None \<Rightarrow> None | Some (v, buf) \<Rightarrow>
        let eclass = ucast (drop_bit 8 v AND 0x7); number = ucast (v AND 0xff)
        in case ReadString buf reason (unat (a_length a) - 4) of None \<Rightarrow> None
           | Some (reason, buf) \<Rightarrow> Some (a\<lparr>a_value := ErrorCodeValue eclass number reason\<rparr>, ConsumePadding a buf))"

definition UInt16List_Read :: "u16 list \<Rightarrow> StunAttribute \<Rightarrow> ByteBuffer \<Rightarrow> (StunAttribute \<times> ByteBuffer) option" where
  "UInt16List_Read types a buf =
     (if unat (a_length a) mod 2 \<noteq> 0 then None
      else case ReadUInt16s (unat (a_length a) div 2) types buf of None \<Rightarrow> None
           | Some (types, buf) \<Rightarrow> Some (a\<lparr>a_value := UInt16ListValue types\<rparr>, ConsumePadding a buf))"

text \<open>The virtual \<^verbatim>\<open>Read\<close>, dispatched on the class of the attribute.\<close>

definition attr_Read :: "u8 list option \<Rightarrow> StunAttribute \<Rightarrow> ByteBuffer \<Rightarrow> (StunAttribute \<times> ByteBuffer) option" where
  "attr_Read owner a buf =
     (case a_value a of
        AddressValue _ \<Rightarrow>
          (case Address_Read (a_length a) buf of None \<Rightarrow> None | Some (sa, buf) \<Rightarrow>
             Some (a\<lparr>a_value := AddressValue sa, a_length := EnsureAddressLength sa\<rparr>, buf))
      | XorAddressValue _ \<Rightarrow>
          (case XorAddress_Read owner (a_length a) buf of None \<Rightarrow> None | Some (sa, buf) \<Rightarrow>
             Some (a\<lparr>a_value := XorAddressValue sa, a_length := EnsureAddressLength sa\<rparr>, buf))
      | UInt32Value _ \<Rightarrow> UInt32_Read a buf
      | UInt64Value _ \<Rightarrow> UInt64_Read a buf
      | ByteStringValue _ \<Rightarrow> ByteString_Read a buf
      | ErrorCodeValue _ _ reason \<Rightarrow> ErrorCode_Read reason a buf
      | UInt16ListValue types \<Rightarrow> UInt16List_Read types a buf)"

lemmas attr_Read_defs = attr_Read_def UInt32_Read_def UInt64_Read_def ByteString_Read_def ErrorCode_Read_def UInt16List_Read_def

section \<open>Writing\<close>

definition Address_Write :: "SocketAddress \<Rightarrow> ByteBuffer \<Rightarrow> ByteBuffer option" where
  "Address_Write sa buf =
     (let address_family = stun_family sa in
      if address_family = 0 then None
      else
        let buf = WriteUInt8 buf 0;
            buf = WriteUInt8 buf address_family;
            buf = WriteUInt16 buf (sa_port sa)
        in Some (case ip_family (sa_ip sa) of
               AF_INET \<Rightarrow> WriteBytes buf (ipv4_address (sa_ip sa))
             | AF_INET6 \<Rightarrow> WriteBytes buf (ipv6_address (sa_ip sa))
             | AF_UNSPEC \<Rightarrow> buf))"

definition XorAddress_Write :: "u8 list option \<Rightarrow> SocketAddress \<Rightarrow> ByteBuffer \<Rightarrow> ByteBuffer option" where
  "XorAddress_Write owner sa buf =
     (let address_family = stun_family sa in
      if address_family = 0 then None
      else
        let xored_ip = GetXoredIP owner (sa_ip sa) in
        if ip_family xored_ip = AF_UNSPEC then None
        else
          let buf = WriteUInt8 buf 0;
              buf = WriteUInt8 buf address_family;
              buf = WriteUInt16 buf (xor_port (sa_port sa))
          in Some (case ip_family xored_ip of
               AF_INET \<Rightarrow> WriteBytes buf (ipv4_address xored_ip)
             | AF_INET6 \<Rightarrow> WriteBytes buf (ipv6_address xored_ip)
             | AF_UNSPEC \<Rightarrow> buf))"

definition UInt32_Write :: "u32 \<Rightarrow> ByteBuffer \<Rightarrow> ByteBuffer" where
  "UInt32_Write v buf = WriteUInt32 buf v"

definition UInt64_Write :: "u64 \<Rightarrow> ByteBuffer \<Rightarrow> ByteBuffer" where
  "UInt64_Write v buf = WriteUInt64 buf v"

definition ByteString_Write :: "u8 list \<Rightarrow> StunAttribute \<Rightarrow> ByteBuffer \<Rightarrow> ByteBuffer" where
  "ByteString_Write bytes a buf = WritePadding a (WriteBytes buf (take (unat (a_length a)) bytes))"

definition ErrorCode_Write :: "u8 \<Rightarrow> u8 \<Rightarrow> u8 list \<Rightarrow> StunAttribute \<Rightarrow> ByteBuffer \<Rightarrow> ByteBuffer" where
  "ErrorCode_Write eclass number reason a buf =
     (let buf = WriteUInt32 buf (push_bit 8 (ucast eclass) OR ucast number);
          buf = WriteString buf reason
      in WritePadding a buf)"

definition UInt16List_Write :: "u16 list \<Rightarrow> StunAttribute \<Rightarrow> ByteBuffer \<Rightarrow> ByteBuffer" where
  "UInt16List_Write types a buf = WritePadding a (foldl WriteUInt16 buf types)"

text \<open>The virtual \<^verbatim>\<open>Write\<close>.\<close>

definition attr_Write :: "u8 list option \<Rightarrow> StunAttribute \<Rightarrow> ByteBuffer \<Rightarrow> ByteBuffer option" where
  "attr_Write owner a buf =
     (case a_value a of
        AddressValue sa \<Rightarrow> Address_Write sa buf
      | XorAddressValue sa \<Rightarrow> XorAddress_Write owner sa buf
      | UInt32Value v \<Rightarrow> Some (UInt32_Write v buf)
      | UInt64Value v \<Rightarrow> Some (UInt64_Write v buf)
      | ByteStringValue bytes \<Rightarrow> Some (ByteString_Write bytes a buf)
      | ErrorCodeValue eclass number reason \<Rightarrow> Some (ErrorCode_Write eclass number reason a buf)
      | UInt16ListValue types \<Rightarrow> Some (UInt16List_Write types a buf))"

lemmas attr_Write_defs = attr_Write_def UInt32_Write_def UInt64_Write_def ByteString_Write_def ErrorCode_Write_def
  UInt16List_Write_def Let_def

section \<open>The wire format\<close>

definition pad4 :: "nat \<Rightarrow> nat" where
  "pad4 n = (4 - n mod 4) mod 4"

definition sa_body :: "u16 \<Rightarrow> IPAddress \<Rightarrow> u8 list" where
  "sa_body port ip =
     [0, if ip_family ip = AF_INET then 1 else 2] @ be_bytes 2 port @ take (IPAddress_Size ip) (ip_u ip)"

definition attr_body :: "u8 list option \<Rightarrow> StunAttribute \<Rightarrow> u8 list" where
  "attr_body owner a =
     (case a_value a of
        AddressValue sa \<Rightarrow> sa_body (sa_port sa) (sa_ip sa)
      | XorAddressValue sa \<Rightarrow> sa_body (xor_port (sa_port sa)) (GetXoredIP owner (sa_ip sa))
      | UInt32Value v \<Rightarrow> be_bytes 4 v
      | UInt64Value v \<Rightarrow> be_bytes 8 v
      | ByteStringValue bytes \<Rightarrow> bytes @ replicate (pad4 (length bytes)) 0
      | ErrorCodeValue c n reason \<Rightarrow> [0, 0, c, n] @ reason @ replicate (pad4 (length reason)) 0
      | UInt16ListValue types \<Rightarrow> concat (map (be_bytes 2) types) @ replicate (pad4 (2 * length types)) 0)"

text \<open>
  A well-formed attribute: its length is that of its value, and an address has a family (and, if
  it is XORed with the transaction id, a transaction id to be XORed with).
\<close>

definition sa_ok :: "SocketAddress \<Rightarrow> bool" where
  "sa_ok sa \<longleftrightarrow> sa = SocketAddress_of (sa_ip sa) (uint (sa_port sa)) \<and> ip_wf (sa_ip sa) \<and> ip_family (sa_ip sa) \<noteq> AF_UNSPEC"

definition attr_ok :: "u8 list option \<Rightarrow> StunAttribute \<Rightarrow> bool" where
  "attr_ok owner a \<longleftrightarrow>
     (case a_value a of
        AddressValue sa \<Rightarrow> sa_ok sa \<and> a_length a = EnsureAddressLength sa
      | XorAddressValue sa \<Rightarrow> sa_ok sa \<and> a_length a = EnsureAddressLength sa \<and>
          (case owner of None \<Rightarrow> False | Some tid \<Rightarrow> ip_family (sa_ip sa) = AF_INET \<or> length tid = kStunTransactionIdLength)
      | UInt32Value v \<Rightarrow> a_length a = 4
      | UInt64Value v \<Rightarrow> a_length a = 8
      | ByteStringValue bytes \<Rightarrow> unat (a_length a) = length bytes
      | ErrorCodeValue c n reason \<Rightarrow> c < 8 \<and> unat (a_length a) = 4 + length reason
      | UInt16ListValue types \<Rightarrow> unat (a_length a) = 2 * length types)"

lemma pad4_mod: "n mod 4 = 0 \<Longrightarrow> pad4 n = 0" "n mod 4 \<noteq> 0 \<Longrightarrow> pad4 n = 4 - n mod 4" "pad4 (4 + n) = pad4 n"
  by (simp_all add: pad4_def)

lemma take_zeros: "n \<le> 4 \<Longrightarrow> take n [0, 0, 0, 0 :: u8] = replicate n 0"
proof -
  have "[0, 0, 0, 0 :: u8] = replicate 4 0" by (simp add: numeral_eq_Suc)
  then show "n \<le> 4 \<Longrightarrow> take n [0, 0, 0, 0 :: u8] = replicate n 0" by simp
qed

lemma WritePadding_at:
  "bb_at b xs \<Longrightarrow> pad4 (unat (a_length a)) = n \<Longrightarrow> bb_at (WritePadding a b) (xs @ replicate n 0)"
  by (cases "unat (a_length a) mod 4 = 0")
    (auto simp: WritePadding_def Let_def pad4_mod take_zeros intro: bb_at_write)

lemma ConsumePadding_at:
  assumes "bb_at b (replicate n 0 @ r)" "pad4 (unat (a_length a)) = n"
  shows "bb_at (ConsumePadding a b) r"
  using assms bb_at_bytes(3)[OF assms(1), of n]
  by (cases "unat (a_length a) mod 4 = 0") (auto simp: ConsumePadding_def Let_def pad4_mod)

section \<open>XORed addresses\<close>

lemma xor_cancel_twice: "(x XOR y) XOR y = (x :: 'a::len word)"
  by (simp add: xor.assoc)

lemma xor_port_xor_port [simp]: "xor_port (xor_port p) = p"
  by (simp add: xor_port_def xor.assoc)

lemma GetXoredIP_family:
  assumes "ip_wf ip" "ip_family ip \<noteq> AF_UNSPEC" "owner = Some tid"
    "ip_family ip = AF_INET \<or> length tid = kStunTransactionIdLength"
  shows "ip_family (GetXoredIP owner ip) = ip_family ip \<and> ip_wf (GetXoredIP owner ip)"
proof
  show "ip_wf (GetXoredIP owner ip)"
    using assms by (cases "ip_family ip") (auto simp: GetXoredIP_def Let_def ip_wf_constructors)
  show "ip_family (GetXoredIP owner ip) = ip_family ip"
    using assms by (cases "ip_family ip")
      (auto simp: GetXoredIP_def Let_def IPAddress_v4_def IPAddress_v6_def)
qed

lemma length_v6_as_ints [simp]: "length (v6_as_ints u) = 4"
  by (simp add: v6_as_ints_def)

lemma store_v6_as_ints:
  assumes "length u = 16"
  shows "concat (map (store_host 4) (v6_as_ints u)) = u"
proof -
  have s: "store_host 4 (load_host (chunk n 4 u) :: u32) = chunk n 4 u" if "n \<le> 12" for n
    using store_load_host[of "chunk n 4 u", where 'a = 32] that assms by simp
  have "concat (map (store_host 4) (v6_as_ints u)) = chunk 0 4 u @ chunk 4 4 u @ chunk 8 4 u @ chunk 12 4 u"
    by (simp add: v6_as_ints_def upt_rec s)
  also have "\<dots> = chunk 0 16 u"
    using chunk_add[of 0 4 12 u] chunk_add[of 4 4 8 u] chunk_add[of 8 4 4 u] by simp
  also have "\<dots> = u" using assms by (simp add: chunk_def)
  finally show ?thesis .
qed

lemma v6_four: "v6_as_ints u = [v6_as_ints u ! 0, v6_as_ints u ! 1, v6_as_ints u ! 2, v6_as_ints u ! 3]"
  by (simp add: v6_as_ints_def upt_rec)

definition tid_ints :: "u8 list \<Rightarrow> u32 list" where
  "tid_ints tid = map (\<lambda>i. load_host (chunk (4 * i) 4 tid)) [0..<3]"

lemma GetXoredIP_v4:
  "GetXoredIP (Some tid) (IPAddress_v4 (store_host 4 w)) = IPAddress_v4 (store_host 4 (w XOR HostToNetwork32 kStunMagicCookie))"
  by (simp add: GetXoredIP_def IPAddress_v4_def s_addr_def ipv4_address_def blit_def load_store_host)

lemma GetXoredIP_v6:
  assumes "length tid = kStunTransactionIdLength"
  shows "GetXoredIP (Some tid) (IPAddress_v6 (concat (map (store_host 4) [a, b, c, d]))) =
    IPAddress_v6 (concat (map (store_host 4) [a XOR HostToNetwork32 kStunMagicCookie,
      b XOR tid_ints tid ! 0, c XOR tid_ints tid ! 1, d XOR tid_ints tid ! 2]))"
  using assms v6_as_ints_store[of "[a, b, c, d]"]
  by (simp add: GetXoredIP_def IPAddress_v6_def ipv6_address_def tid_ints_def Let_def)

text \<open>XORing twice gives the address back.\<close>

lemma GetXoredIP_twice:
  assumes "ip_wf ip" "ip_family ip \<noteq> AF_UNSPEC" "owner = Some tid"
    "ip_family ip = AF_INET \<or> length tid = kStunTransactionIdLength"
  shows "GetXoredIP owner (GetXoredIP owner ip) = ip"
proof (cases "ip_family ip")
  case AF_INET
  have l: "length (take 4 (ip_u ip)) = 4" using assms(1) by (simp add: ip_wf_def)
  define w :: u32 where "w = load_host (take 4 (ip_u ip))"
  then have w: "take 4 (ip_u ip) = store_host 4 w"
    using store_load_host[of "take 4 (ip_u ip)", where 'a = 32] l by simp
  show ?thesis
    using ip_v4_conv[OF assms(1) AF_INET] unfolding w assms(3) by (metis GetXoredIP_v4 xor_cancel_twice)
next
  case AF_INET6
  have u: "length (ip_u ip) = 16" using assms(1) by (simp add: ip_wf_def)
  obtain a b c d where i: "v6_as_ints (ip_u ip) = [a, b, c, d]" using v6_four by metis
  then have "ip = IPAddress_v6 (concat (map (store_host 4) [a, b, c, d]))"
    using store_v6_as_ints[OF u] ip_v6_conv[OF AF_INET6] by simp
  moreover have "length tid = kStunTransactionIdLength" using assms(4) AF_INET6 by simp
  ultimately show ?thesis
    by (simp only: assms(3) GetXoredIP_v6 xor_cancel_twice)
qed (use assms in simp)

section \<open>Attribute round trip\<close>

lemma sa_ok_family: "sa_ok sa \<Longrightarrow> stun_family sa = (if ip_family (sa_ip sa) = AF_INET then 1 else 2)"
  by (cases "ip_family (sa_ip sa)") (auto simp: sa_ok_def stun_family_def)

lemma be_bytes_1_byte: "be_bytes (Suc 0) (b :: u8) = [b]"
  by (simp add: be_bytes_1)

lemma sa_body_alt: "sa_body port ip = be_bytes 1 (0 :: u8) @ be_bytes 1 (if ip_family ip = AF_INET then 1 else 2 :: u8) @
    be_bytes 2 port @ take (IPAddress_Size ip) (ip_u ip)"
  by (simp add: sa_body_def be_bytes_1_byte)

lemma Address_Write_at:
  assumes "bb_at b xs" "sa_ok sa"
  shows "\<exists>b'. Address_Write sa b = Some b' \<and> bb_at b' (xs @ sa_body (sa_port sa) (sa_ip sa))"
proof -
  let ?b = "WriteUInt16 (WriteUInt8 (WriteUInt8 b 0) (stun_family sa)) (sa_port sa)"
  have at: "bb_at ?b (((xs @ be_bytes 1 (0 :: u8)) @ be_bytes 1 (stun_family sa)) @ be_bytes 2 (sa_port sa))"
    using assms(1) by (intro bb_at_write)
  show ?thesis
    using bb_at_write(1)[OF at, of "take 4 (ip_u (sa_ip sa))"] bb_at_write(1)[OF at, of "ip_u (sa_ip sa)"] assms(2)
    by (cases "ip_family (sa_ip sa)")
      (auto simp: Address_Write_def Let_def sa_ok_family sa_body_alt IPAddress_Size_def ipv4_address_def ipv6_address_def
        sa_ok_def ip_wf_def)
qed

lemma XorAddress_Write_at:
  assumes "bb_at b xs" "sa_ok sa" "owner = Some tid"
    "ip_family (sa_ip sa) = AF_INET \<or> length tid = kStunTransactionIdLength"
  shows "\<exists>b'. XorAddress_Write owner sa b = Some b' \<and>
    bb_at b' (xs @ sa_body (xor_port (sa_port sa)) (GetXoredIP owner (sa_ip sa)))"
proof -
  let ?x = "GetXoredIP owner (sa_ip sa)"
  let ?b = "WriteUInt16 (WriteUInt8 (WriteUInt8 b 0) (stun_family sa)) (xor_port (sa_port sa))"
  have x: "ip_family ?x = ip_family (sa_ip sa)" "ip_wf ?x"
    using GetXoredIP_family[of "sa_ip sa" owner tid] assms by (auto simp: sa_ok_def)
  have at: "bb_at ?b (((xs @ be_bytes 1 (0 :: u8)) @ be_bytes 1 (stun_family sa)) @ be_bytes 2 (xor_port (sa_port sa)))"
    using assms(1) by (intro bb_at_write)
  show ?thesis
    using bb_at_write(1)[OF at, of "take 4 (ip_u ?x)"] bb_at_write(1)[OF at, of "ip_u ?x"] assms(2) x
    by (cases "ip_family (sa_ip sa)")
      (auto simp: XorAddress_Write_def Let_def sa_ok_family sa_body_alt IPAddress_Size_def ipv4_address_def ipv6_address_def
        sa_ok_def ip_wf_def)
qed

lemma Address_Read_at:
  assumes "bb_at b (sa_body port ip @ r)" "ip_wf ip" "ip_family ip \<noteq> AF_UNSPEC"
    "len = (if ip_family ip = AF_INET then 8 else 20)"
  shows "\<exists>b'. Address_Read len b = Some (SocketAddress_of ip (uint port), b') \<and> bb_at b' r"
proof -
  let ?f = "if ip_family ip = AF_INET then 1 else 2 :: u8" and ?u = "take (IPAddress_Size ip) (ip_u ip)"
  obtain b1 where b1: "ReadUInt8 b = Some (0, b1)" "bb_at b1 (be_bytes 1 ?f @ be_bytes 2 port @ ?u @ r)"
    using bb_at_read(1)[of b 0] assms(1) by (auto simp: sa_body_alt)
  obtain b2 where b2: "ReadUInt8 b1 = Some (?f, b2)" "bb_at b2 (be_bytes 2 port @ ?u @ r)"
    using bb_at_read(1)[OF b1(2)] by auto
  obtain b3 where b3: "ReadUInt16 b2 = Some (port, b3)" "bb_at b3 (?u @ r)"
    using bb_at_read(2)[OF b2(2)] by auto
  have l: "IPAddress_Size ip = length ?u" using assms(2) by (cases "ip_family ip") (simp_all add: IPAddress_Size_def ip_wf_def)
  obtain b4 where b4: "ReadBytes b3 (IPAddress_Size ip) = Some (?u, b4)" "bb_at b4 r"
    using bb_at_bytes(1)[OF b3(2) l] by auto
  show ?thesis
    using b1(1) b2(1) b3(1) b4 assms(2-4) ip_v4_conv[of ip] ip_v6_conv[of ip]
    by (cases "ip_family ip") (auto simp: Address_Read_def IPAddress_Size_def SIZE_IP4_def SIZE_IP6_def ip_wf_def)
qed

lemma ReadUInt16s_at:
  "bb_at b (concat (map (be_bytes 2) ts) @ r) \<Longrightarrow>
   \<exists>b'. ReadUInt16s (length ts) acc b = Some (acc @ ts, b') \<and> bb_at b' r"
proof (induction ts arbitrary: b acc)
  case (Cons t ts)
  obtain b1 where b1: "ReadUInt16 b = Some (t, b1)" "bb_at b1 (concat (map (be_bytes 2) ts) @ r)"
    using bb_at_read(2)[of b t] Cons.prems by auto
  then show ?case using Cons.IH[OF b1(2), of "acc @ [t]"] by auto
qed auto

lemma WriteUInt16s_at:
  "bb_at b xs \<Longrightarrow> bb_at (foldl WriteUInt16 b ts) (xs @ concat (map (be_bytes 2) ts))"
proof (induction ts arbitrary: b xs)
  case (Cons t ts)
  from Cons.IH[OF bb_at_write(4)[OF Cons.prems, of t]] show ?case by simp
qed simp

lemma error_word:
  assumes "c < 8"
  shows "be_bytes 4 (push_bit 8 (ucast c) OR ucast n :: u32) = [0, 0, c, n]"
    "(ucast (drop_bit 8 (push_bit 8 (ucast c) OR ucast n :: u32) AND 0x7) :: u8) = c"
    "(ucast ((push_bit 8 (ucast c) OR ucast n :: u32) AND 0xff) :: u8) = n"
proof -
  have hi: "\<not> bit w (8 + i)" "\<not> bit w (16 + i)" "\<not> bit w (24 + i)" for w :: u8 and i
    using bit_imp_le_length[of w "8 + i"] bit_imp_le_length[of w "16 + i"] bit_imp_le_length[of w "24 + i"] by auto
  have m: "(0x7 :: u32) = mask 3" "(0xff :: u32) = mask 8" by (simp_all add: mask_eq_decr_exp)
  have c: "bit c i \<Longrightarrow> i < 3" for i
  proof -
    have "c AND mask 3 = c" using less_mask_eq[of c 3] assms by simp
    then show "bit c i \<Longrightarrow> i < 3" by (metis bit_and_iff bit_mask_iff)
  qed
  show "(ucast (drop_bit 8 (push_bit 8 (ucast c) OR ucast n :: u32) AND 0x7) :: u8) = c"
    unfolding m by (rule bit_word_eqI) (auto simp: bit_simps dest: c bit_imp_le_length)
  show "(ucast ((push_bit 8 (ucast c) OR ucast n :: u32) AND 0xff) :: u8) = n"
    unfolding m by (rule bit_word_eqI) (auto simp: bit_simps dest: bit_imp_le_length)
  show "be_bytes 4 (push_bit 8 (ucast c) OR ucast n :: u32) = [0, 0, c, n]"
    unfolding be_bytes_4 by (auto intro!: bit_word_eqI simp: bit_simps hi)
qed

lemma attr_Write_at:
  assumes "bb_at b xs" "attr_ok owner a"
  shows "\<exists>b'. attr_Write owner a b = Some b' \<and> bb_at b' (xs @ attr_body owner a)"
proof (cases "a_value a")
  case (AddressValue sa)
  then show ?thesis using assms Address_Write_at[OF assms(1), of sa]
    by (simp add: attr_Write_defs attr_body_def attr_ok_def)
next
  case (XorAddressValue sa)
  then obtain tid where "owner = Some tid" using assms(2) by (auto simp: attr_ok_def split: option.splits)
  then show ?thesis using assms XorAddressValue XorAddress_Write_at[OF assms(1), of sa owner tid]
    by (simp add: attr_Write_defs attr_body_def attr_ok_def)
next
  case (ByteStringValue s)
  then show ?thesis using assms WritePadding_at[OF bb_at_write(1)[OF assms(1), of s], of a]
    by (simp add: attr_Write_defs attr_body_def attr_ok_def)
next
  case (ErrorCodeValue c n s)
  then have "c < 8" "unat (a_length a) = 4 + length s" using assms(2) by (simp_all add: attr_ok_def)
  then show ?thesis using ErrorCodeValue
      WritePadding_at[OF bb_at_write(2)[OF bb_at_write(5)[OF assms(1), of "push_bit 8 (ucast c) OR ucast n"], of s], of a]
    by (simp add: attr_Write_defs attr_body_def error_word pad4_mod)
next
  case (UInt16ListValue ts)
  then show ?thesis using assms WritePadding_at[OF WriteUInt16s_at[OF assms(1), of ts], of a]
    by (simp add: attr_Write_defs attr_body_def attr_ok_def)
qed (use bb_at_write[OF assms(1)] in \<open>simp_all add: attr_Write_defs attr_body_def\<close>)

lemma attr_body_Read_at:
  assumes "bb_at b (attr_body owner a @ r)" "attr_ok owner a"
    and new: "StunAttribute_Create (value_type a) (a_type a) (a_length a) = Some a0"
  shows "\<exists>b'. attr_Read owner a0 b = Some (a, b') \<and> bb_at b' r"
proof (cases "a_value a")
  case (AddressValue sa)
  then have ok: "sa_ok sa" "a_length a = EnsureAddressLength sa" using assms(2) by (simp_all add: attr_ok_def)
  have l: "EnsureAddressLength sa = (if ip_family (sa_ip sa) = AF_INET then 8 else 20)"
    using sa_ok_family[OF ok(1)] by (simp add: EnsureAddressLength_def SIZE_IP4_def SIZE_IP6_def)
  obtain b' where "Address_Read (EnsureAddressLength sa) b = Some (sa, b')" "bb_at b' r"
    using Address_Read_at[of b "sa_port sa" "sa_ip sa" r "EnsureAddressLength sa"] assms(1) AddressValue ok l
    by (auto simp: attr_body_def sa_ok_def)
  then show ?thesis using AddressValue new ok
    by (cases a) (auto simp: attr_Read_defs StunAttribute_Create_def value_type_def)
next
  case (XorAddressValue sa)
  then obtain tid where ok: "sa_ok sa" "a_length a = EnsureAddressLength sa" "owner = Some tid"
      "ip_family (sa_ip sa) = AF_INET \<or> length tid = kStunTransactionIdLength"
    using assms(2) by (auto simp: attr_ok_def split: option.splits)
  let ?x = "GetXoredIP owner (sa_ip sa)"
  have x: "ip_family ?x = ip_family (sa_ip sa)" "ip_wf ?x" "GetXoredIP owner ?x = sa_ip sa" "ip_family (sa_ip sa) \<noteq> AF_UNSPEC"
    using GetXoredIP_family[of "sa_ip sa" owner tid] GetXoredIP_twice[of "sa_ip sa" owner tid] ok by (auto simp: sa_ok_def)
  have l: "EnsureAddressLength sa = (if ip_family ?x = AF_INET then 8 else 20)"
    using sa_ok_family[OF ok(1)] x(1) by (simp add: EnsureAddressLength_def SIZE_IP4_def SIZE_IP6_def)
  obtain b' where b': "Address_Read (EnsureAddressLength sa) b = Some (SocketAddress_of ?x (uint (xor_port (sa_port sa))), b')" "bb_at b' r"
    using Address_Read_at[of b "xor_port (sa_port sa)" ?x r "EnsureAddressLength sa"] assms(1) XorAddressValue x l
    by (auto simp: attr_body_def)
  have "sa_ip (SocketAddress_of i p) = i \<and> sa_port (SocketAddress_of i p) = word_of_int p" for i p
    by (simp add: SocketAddress_of_def SetPort_def SetIP_def)
  then have "XorAddress_Read owner (EnsureAddressLength sa) b = Some (sa, b')"
    using b'(1) x(3) ok(1) by (simp add: XorAddress_Read_def sa_ok_def)
  then show ?thesis using XorAddressValue new ok b'(2)
    by (cases a) (auto simp: attr_Read_defs StunAttribute_Create_def value_type_def)
next
  case (UInt32Value v)
  then show ?thesis using bb_at_read(3)[of b v r] assms
    by (cases a) (auto simp: attr_Read_defs attr_body_def attr_ok_def StunAttribute_Create_def value_type_def UInt32_SIZE_def)
next
  case (UInt64Value v)
  then show ?thesis using bb_at_read(4)[of b v r] assms
    by (cases a) (auto simp: attr_Read_defs attr_body_def attr_ok_def StunAttribute_Create_def value_type_def UInt64_SIZE_def)
next
  case (ByteStringValue s)
  then have l: "unat (a_length a) = length s" using assms(2) by (simp add: attr_ok_def)
  obtain b1 where b1: "ReadBytes b (length s) = Some (s, b1)" "bb_at b1 (replicate (pad4 (length s)) 0 @ r)"
    using bb_at_bytes(1)[of b s _ "length s"] assms(1) ByteStringValue by (auto simp: attr_body_def)
  have a0: "a0 = a\<lparr>a_value := ByteStringValue []\<rparr>"
    using new ByteStringValue by (cases a) (auto simp: StunAttribute_Create_def value_type_def)
  have "bb_at (ConsumePadding a0 b1) r" using ConsumePadding_at[OF b1(2), of a0] l a0 by simp
  then show ?thesis using b1(1) l a0 ByteStringValue by (simp add: attr_Read_defs)
next
  case (ErrorCodeValue c n s)
  then have l: "c < 8" "unat (a_length a) = 4 + length s" using assms(2) by (simp_all add: attr_ok_def)
  let ?v = "push_bit 8 (ucast c) OR ucast n :: u32"
  obtain b1 where b1: "ReadUInt32 b = Some (?v, b1)" "bb_at b1 (s @ replicate (pad4 (length s)) 0 @ r)"
    using bb_at_read(3)[of b ?v "s @ replicate (pad4 (length s)) 0 @ r"] assms(1) ErrorCodeValue
    unfolding error_word(1)[OF l(1)] by (auto simp: attr_body_def)
  obtain b2 where b2: "ReadString b1 [] (length s) = Some (s, b2)" "bb_at b2 (replicate (pad4 (length s)) 0 @ r)"
    using bb_at_bytes(2)[OF b1(2), of "length s" "[]"] by auto
  have a0: "a0 = a\<lparr>a_value := ErrorCodeValue 0 0 []\<rparr>"
    using new ErrorCodeValue by (cases a) (auto simp: StunAttribute_Create_def value_type_def)
  have "\<not> a_length a < 4" using l(2) by (simp add: word_less_nat_alt)
  moreover have "bb_at (ConsumePadding a0 b2) r" using ConsumePadding_at[OF b2(2), of a0] l a0 by (simp add: pad4_mod)
  ultimately show ?thesis using b1(1) b2(1) l a0 ErrorCodeValue error_word[OF l(1)]
    by (simp add: attr_Read_defs Let_def ErrorCode_MIN_SIZE_def)
next
  case (UInt16ListValue ts)
  then have l: "unat (a_length a) = 2 * length ts" using assms(2) by (simp add: attr_ok_def)
  obtain b1 where b1: "ReadUInt16s (length ts) [] b = Some (ts, b1)" "bb_at b1 (replicate (pad4 (2 * length ts)) 0 @ r)"
    using ReadUInt16s_at[of b ts _ "[]"] assms(1) UInt16ListValue by (auto simp: attr_body_def)
  have a0: "a0 = a\<lparr>a_value := UInt16ListValue []\<rparr>"
    using new UInt16ListValue by (cases a) (auto simp: StunAttribute_Create_def value_type_def)
  have "bb_at (ConsumePadding a0 b1) r" using ConsumePadding_at[OF b1(2), of a0] l a0 by simp
  then show ?thesis using b1(1) l a0 UInt16ListValue by (simp add: attr_Read_defs)
qed

text \<open>The body fills the declared length up to the next multiple of four.\<close>

lemma length_attr_body:
  assumes "attr_ok owner a"
  shows "length (attr_body owner a) = unat (a_length a) + pad4 (unat (a_length a))"
proof (cases "a_value a")
  case (AddressValue sa)
  then show ?thesis using assms sa_ok_family[of sa]
    by (cases "ip_family (sa_ip sa)")
      (simp_all add: attr_body_def attr_ok_def sa_body_def IPAddress_Size_def sa_ok_def ip_wf_def
        EnsureAddressLength_def SIZE_IP4_def SIZE_IP6_def pad4_def)
next
  case (XorAddressValue sa)
  then obtain tid where ok: "sa_ok sa" "a_length a = EnsureAddressLength sa" "owner = Some tid"
      "ip_family (sa_ip sa) = AF_INET \<or> length tid = kStunTransactionIdLength"
    using assms by (auto simp: attr_ok_def split: option.splits)
  then show ?thesis using XorAddressValue sa_ok_family[of sa] GetXoredIP_family[of "sa_ip sa" owner tid]
    by (cases "ip_family (sa_ip sa)")
      (auto simp: attr_body_def sa_body_def IPAddress_Size_def sa_ok_def ip_wf_def
        EnsureAddressLength_def SIZE_IP4_def SIZE_IP6_def pad4_def)
next
  case (UInt16ListValue ts)
  have "length (concat (map (be_bytes 2) ts)) = 2 * length ts" by (induction ts) auto
  then show ?thesis using assms UInt16ListValue by (simp add: attr_body_def attr_ok_def)
next
  case (ErrorCodeValue c n s)
  then show ?thesis using assms by (simp add: attr_body_def attr_ok_def pad4_mod)
qed (use assms in \<open>simp_all add: attr_body_def attr_ok_def pad4_def\<close>)

text \<open>Reading never lengthens the buffer, whatever it finds.\<close>

lemma ReadUInt16s_Length: "ReadUInt16s n ts b = Some (ts', b') \<Longrightarrow> Length b' \<le> Length b"
proof (induction n ts b rule: ReadUInt16s.induct)
  case (2 n types buf)
  then obtain v b1 where "ReadUInt16 buf = Some (v, b1)" "ReadUInt16s n (types @ [v]) b1 = Some (ts', b')"
    by (auto split: option.splits)
  then show ?case using "2.IH" ReadUInt_Length(2)[of buf v b1] by fastforce
qed simp

lemma ConsumePadding_Length: "Length (ConsumePadding a b) \<le> Length b"
  by (auto simp: ConsumePadding_def Let_def split: option.splits dest: Read_Length(3))

lemma Address_Read_Length: "Address_Read n b = Some (sa, b') \<Longrightarrow> Length b' \<le> Length b"
  by (auto simp: Address_Read_def split: option.splits if_splits prod.splits
      dest!: ReadUInt_Length(1,2) Read_Length(1))

lemma attr_Read_Length: "attr_Read owner a b = Some (a', b') \<Longrightarrow> Length b' \<le> Length b"
  by (cases "a_value a")
    (auto simp: attr_Read_defs XorAddress_Read_def Let_def split: option.splits if_splits prod.splits
      dest!: ReadUInt_Length(3,4) Read_Length(1,2) Address_Read_Length ReadUInt16s_Length
      intro: le_trans[OF ConsumePadding_Length])

end
