(* ===== verification/StunMsg.thy ===== *)
theory StunMsg
  imports StunAttr MsgDigest Crc32
begin

text \<open>
  The message classes of \<^verbatim>\<open>talk/p2p/base/stun.h\<close> and \<^verbatim>\<open>stun.cc\<close>:
  reading and writing a message, looking attributes up and adding them, MESSAGE-INTEGRITY and
  FINGERPRINT. The derived classes differ in the attribute types they know
  (\<open>GetAttributeValueType\<close>), so the class of a message is a field.

  A byte buffer handed to a static check is the list of its bytes; a check that reads past the end
  of it has the value \<open>None\<close>.

  The theory proves that a written message is read back, and that the integrity and fingerprint
  attributes added to a message are accepted by the checks.
\<close>

section \<open>State\<close>

datatype MessageClass = StunMessageClass | RelayMessageClass | TurnMessageClass | IceMessageClass

record StunMessage =
  m_class :: MessageClass
  m_type :: u16
  m_length :: u16
  m_transaction_id :: "u8 list"
  m_attrs :: "StunAttribute list"

definition kStunAttributeHeaderSize :: nat where "kStunAttributeHeaderSize = 4"
definition kStunHeaderSize :: nat where "kStunHeaderSize = 20"
definition kStunTransactionIdOffset :: nat where "kStunTransactionIdOffset = 8"
definition kStunMagicCookieLength :: nat where "kStunMagicCookieLength = 4"
definition kStunMessageIntegritySize :: nat where "kStunMessageIntegritySize = 20"
definition kStunTypeMask :: u32 where "kStunTypeMask = 0x0110"
definition STUN_FINGERPRINT_XOR_VALUE :: u32 where "STUN_FINGERPRINT_XOR_VALUE = 0x5354554E"

definition STUN_ATTR_MAPPED_ADDRESS :: u16 where "STUN_ATTR_MAPPED_ADDRESS = 0x0001"
definition STUN_ATTR_USERNAME :: u16 where "STUN_ATTR_USERNAME = 0x0006"
definition STUN_ATTR_MESSAGE_INTEGRITY :: u16 where "STUN_ATTR_MESSAGE_INTEGRITY = 0x0008"
definition STUN_ATTR_ERROR_CODE :: u16 where "STUN_ATTR_ERROR_CODE = 0x0009"
definition STUN_ATTR_UNKNOWN_ATTRIBUTES :: u16 where "STUN_ATTR_UNKNOWN_ATTRIBUTES = 0x000a"
definition STUN_ATTR_XOR_MAPPED_ADDRESS :: u16 where "STUN_ATTR_XOR_MAPPED_ADDRESS = 0x0020"
definition STUN_ATTR_FINGERPRINT :: u16 where "STUN_ATTR_FINGERPRINT = 0x8028"

text \<open>Sixteen times the character 0.\<close>

definition EMPTY_TRANSACTION_ID :: "u8 list" where
  "EMPTY_TRANSACTION_ID = replicate 16 0x30"

definition StunMessage_new :: "MessageClass \<Rightarrow> StunMessage" where
  "StunMessage_new c = \<lparr>m_class = c, m_type = 0, m_length = 0, m_transaction_id = EMPTY_TRANSACTION_ID, m_attrs = []\<rparr>"

section \<open>Attribute types\<close>

definition StunMessage_GetAttributeValueType :: "u16 \<Rightarrow> StunAttributeValueType" where
  "StunMessage_GetAttributeValueType type =
     (if type = 0x0001 then STUN_VALUE_ADDRESS
      else if type = 0x0006 then STUN_VALUE_BYTE_STRING
      else if type = 0x0008 then STUN_VALUE_BYTE_STRING
      else if type = 0x0009 then STUN_VALUE_ERROR_CODE
      else if type = 0x000a then STUN_VALUE_UINT16_LIST
      else if type = 0x0014 then STUN_VALUE_BYTE_STRING
      else if type = 0x0015 then STUN_VALUE_BYTE_STRING
      else if type = 0x0020 then STUN_VALUE_XOR_ADDRESS
      else if type = 0x8022 then STUN_VALUE_BYTE_STRING
      else if type = 0x8023 then STUN_VALUE_BYTE_STRING
      else if type = 0x8028 then STUN_VALUE_UINT32
      else if type = 0xFF00 then STUN_VALUE_UINT32
      else STUN_VALUE_UNKNOWN)"

definition RelayMessage_GetAttributeValueType :: "u16 \<Rightarrow> StunAttributeValueType" where
  "RelayMessage_GetAttributeValueType type =
     (if type = 0x000d then STUN_VALUE_UINT32
      else if type = 0x000f then STUN_VALUE_BYTE_STRING
      else if type = 0x0010 then STUN_VALUE_UINT32
      else if type = 0x0011 then STUN_VALUE_ADDRESS
      else if type = 0x0012 then STUN_VALUE_ADDRESS
      else if type = 0x0013 then STUN_VALUE_BYTE_STRING
      else if type = 0x8001 then STUN_VALUE_UINT32
      else StunMessage_GetAttributeValueType type)"

definition TurnMessage_GetAttributeValueType :: "u16 \<Rightarrow> StunAttributeValueType" where
  "TurnMessage_GetAttributeValueType type =
     (if type = 0x000C then STUN_VALUE_UINT32
      else if type = 0x000d then STUN_VALUE_UINT32
      else if type = 0x0012 then STUN_VALUE_XOR_ADDRESS
      else if type = 0x0013 then STUN_VALUE_BYTE_STRING
      else if type = 0x0016 then STUN_VALUE_XOR_ADDRESS
      else if type = 0x0018 then STUN_VALUE_BYTE_STRING
      else if type = 0x0019 then STUN_VALUE_UINT32
      else if type = 0x001A then STUN_VALUE_BYTE_STRING
      else if type = 0x0022 then STUN_VALUE_BYTE_STRING
      else StunMessage_GetAttributeValueType type)"

definition IceMessage_GetAttributeValueType :: "u16 \<Rightarrow> StunAttributeValueType" where
  "IceMessage_GetAttributeValueType type =
     (if type = 0x0024 then STUN_VALUE_UINT32
      else if type = 0x0025 then STUN_VALUE_BYTE_STRING
      else if type = 0x8029 then STUN_VALUE_UINT64
      else if type = 0x802A then STUN_VALUE_UINT64
      else StunMessage_GetAttributeValueType type)"

definition GetAttributeValueType :: "MessageClass \<Rightarrow> u16 \<Rightarrow> StunAttributeValueType" where
  "GetAttributeValueType c type =
     (case c of
        StunMessageClass \<Rightarrow> StunMessage_GetAttributeValueType type
      | RelayMessageClass \<Rightarrow> RelayMessage_GetAttributeValueType type
      | TurnMessageClass \<Rightarrow> TurnMessage_GetAttributeValueType type
      | IceMessageClass \<Rightarrow> IceMessage_GetAttributeValueType type)"

section \<open>Header fields and attributes\<close>

definition IsValidTransactionId :: "u8 list \<Rightarrow> bool" where
  "IsValidTransactionId tid \<longleftrightarrow> length tid = kStunTransactionIdLength \<or> length tid = kStunLegacyTransactionIdLength"

definition IsLegacy :: "StunMessage \<Rightarrow> bool" where
  "IsLegacy m \<longleftrightarrow> length (m_transaction_id m) = kStunLegacyTransactionIdLength"

definition SetType :: "StunMessage \<Rightarrow> int \<Rightarrow> StunMessage" where
  "SetType m type = m\<lparr>m_type := word_of_int type\<rparr>"

definition SetTransactionID :: "StunMessage \<Rightarrow> u8 list \<Rightarrow> bool \<times> StunMessage" where
  "SetTransactionID m str =
     (if \<not> IsValidTransactionId str then (False, m) else (True, m\<lparr>m_transaction_id := str\<rparr>))"

definition AddAttribute :: "StunMessage \<Rightarrow> StunAttribute \<Rightarrow> bool \<times> StunMessage" where
  "AddAttribute m attr =
     (if value_type attr \<noteq> GetAttributeValueType (m_class m) (a_type attr) then (False, m)
      else
        let attr_length = unat (a_length attr);
            attr_length = (if attr_length mod 4 \<noteq> 0 then attr_length + (4 - attr_length mod 4) else attr_length)
        in (True, m\<lparr>m_attrs := m_attrs m @ [attr], m_length := m_length m + of_nat (attr_length + 4)\<rparr>))"

definition GetAttribute :: "StunMessage \<Rightarrow> u16 \<Rightarrow> StunAttribute option" where
  "GetAttribute m type = find (\<lambda>a. a_type a = type) (m_attrs m)"

definition GetAddress :: "StunMessage \<Rightarrow> u16 \<Rightarrow> StunAttribute option" where
  "GetAddress m type =
     (if type = STUN_ATTR_MAPPED_ADDRESS then
        (case GetAttribute m STUN_ATTR_MAPPED_ADDRESS of
           None \<Rightarrow> GetAttribute m STUN_ATTR_XOR_MAPPED_ADDRESS
         | Some a \<Rightarrow> Some a)
      else GetAttribute m type)"

definition GetUInt32 :: "StunMessage \<Rightarrow> u16 \<Rightarrow> StunAttribute option" where
  "GetUInt32 m type = GetAttribute m type"

definition GetUInt64 :: "StunMessage \<Rightarrow> u16 \<Rightarrow> StunAttribute option" where
  "GetUInt64 m type = GetAttribute m type"

definition GetByteString :: "StunMessage \<Rightarrow> u16 \<Rightarrow> StunAttribute option" where
  "GetByteString m type = GetAttribute m type"

definition GetErrorCode :: "StunMessage \<Rightarrow> StunAttribute option" where
  "GetErrorCode m = GetAttribute m STUN_ATTR_ERROR_CODE"

definition GetUnknownAttributes :: "StunMessage \<Rightarrow> StunAttribute option" where
  "GetUnknownAttributes m = GetAttribute m STUN_ATTR_UNKNOWN_ATTRIBUTES"

section \<open>Reading and writing\<close>

text \<open>The attribute loop of \<^verbatim>\<open>Write\<close>.\<close>

fun attrs_Write :: "u8 list \<Rightarrow> StunAttribute list \<Rightarrow> ByteBuffer \<Rightarrow> ByteBuffer option" where
  "attrs_Write tid [] buf = Some buf"
| "attrs_Write tid (a # as) buf =
     (let buf = WriteUInt16 buf (a_type a);
          buf = WriteUInt16 buf (a_length a)
      in case attr_Write (Some tid) a buf of None \<Rightarrow> None | Some buf \<Rightarrow> attrs_Write tid as buf)"

definition Write :: "StunMessage \<Rightarrow> ByteBuffer \<Rightarrow> ByteBuffer option" where
  "Write m buf =
     (let buf = WriteUInt16 buf (m_type m);
          buf = WriteUInt16 buf (m_length m);
          buf = (if \<not> IsLegacy m then WriteUInt32 buf kStunMagicCookie else buf);
          buf = WriteString buf (m_transaction_id m)
      in attrs_Write (m_transaction_id m) (m_attrs m) buf)"

text \<open>
  The attribute loop of \<^verbatim>\<open>Read\<close>: an attribute of unknown type is skipped, with its
  length padded in 16-bit arithmetic.
\<close>

function attrs_Read ::
  "MessageClass \<Rightarrow> u8 list \<Rightarrow> nat \<Rightarrow> StunAttribute list \<Rightarrow> ByteBuffer \<Rightarrow> (StunAttribute list \<times> ByteBuffer) option" where
  "attrs_Read c tid rest as buf =
     (if Length buf > rest then
        (case ReadUInt16 buf of None \<Rightarrow> None | Some (attr_type, buf1) \<Rightarrow>
         case ReadUInt16 buf1 of None \<Rightarrow> None | Some (attr_length, buf2) \<Rightarrow>
           (case StunAttribute_Create (GetAttributeValueType c attr_type) attr_type attr_length of
              None \<Rightarrow>
                (let attr_length = (if unat attr_length mod 4 \<noteq> 0
                     then attr_length + of_nat (4 - unat attr_length mod 4) else attr_length)
                 in case Consume buf2 (unat attr_length) of None \<Rightarrow> None
                    | Some buf3 \<Rightarrow> attrs_Read c tid rest as buf3)
            | Some attr \<Rightarrow>
                (case attr_Read (Some tid) attr buf2 of None \<Rightarrow> None
                 | Some (attr, buf3) \<Rightarrow> attrs_Read c tid rest (as @ [attr]) buf3)))
      else Some (as, buf))"
  by pat_completeness auto
termination
proof (relation "measure (\<lambda>(c, tid, rest, as, buf). Length buf)", goal_cases)
  case (2 c tid rest as buf a attr_type buf1 b attr_length buf2 len buf3)
  then show ?case using ReadUInt_Length(2)[of buf attr_type buf1] ReadUInt_Length(2)[of buf1 attr_length buf2]
      Read_Length(3)[of buf2 "unat len" buf3] by auto
next
  case (3 c tid rest as buf a attr_type buf1 b attr_length buf2 attr d attr' buf3)
  then show ?case using ReadUInt_Length(2)[of buf attr_type buf1] ReadUInt_Length(2)[of buf1 attr_length buf2]
      attr_Read_Length[of "Some tid" attr buf2 attr' buf3] by auto
qed simp

declare attrs_Read.simps [simp del]

definition Read :: "StunMessage \<Rightarrow> ByteBuffer \<Rightarrow> (StunMessage \<times> ByteBuffer) option" where
  "Read m buf =
     (case ReadUInt16 buf of None \<Rightarrow> None | Some (type, buf) \<Rightarrow>
      if type AND 0x8000 \<noteq> 0 then None else
      case ReadUInt16 buf of None \<Rightarrow> None | Some (len, buf) \<Rightarrow>
      case ReadString buf [] kStunMagicCookieLength of None \<Rightarrow> None | Some (magic_cookie, buf) \<Rightarrow>
      case ReadString buf [] kStunTransactionIdLength of None \<Rightarrow> None | Some (transaction_id, buf) \<Rightarrow>
      (let magic_cookie_int = load_host magic_cookie;
           transaction_id = (if NetworkToHost32 magic_cookie_int \<noteq> kStunMagicCookie
             then magic_cookie @ transaction_id else transaction_id)
       in if unat len \<noteq> Length buf then None
          else
            let rest = Length buf - unat len
            in case attrs_Read (m_class m) transaction_id rest [] buf of None \<Rightarrow> None
               | Some (as, buf) \<Rightarrow>
                   Some (m\<lparr>m_type := type, m_length := len, m_transaction_id := transaction_id, m_attrs := as\<rparr>, buf)))"

section \<open>Message integrity\<close>

text \<open>Two bytes at a position, \<open>None\<close> past the end.\<close>

definition peek16 :: "u8 list \<Rightarrow> nat \<Rightarrow> u16 option" where
  "peek16 data pos = (if pos + 2 \<le> length data then Some (GetBE16 (drop pos data)) else None)"

text \<open>
  The search loop of \<^verbatim>\<open>ValidateMessageIntegrity\<close>: \<open>Some None\<close> when it fails or
  finds nothing, \<open>Some (Some pos)\<close> when the attribute starts at \<open>pos\<close>.
\<close>

function find_message_integrity :: "u8 list \<Rightarrow> nat \<Rightarrow> nat option option" where
  "find_message_integrity data current_pos =
     (if current_pos < length data then
        (case peek16 data current_pos of None \<Rightarrow> None | Some attr_type \<Rightarrow>
         case peek16 data (current_pos + 2) of None \<Rightarrow> None | Some attr_length \<Rightarrow>
           if attr_type = STUN_ATTR_MESSAGE_INTEGRITY then
             (if unat attr_length \<noteq> kStunMessageIntegritySize \<or> current_pos + unat attr_length > length data
              then Some None else Some (Some current_pos))
           else
             let current_pos = current_pos + 2 + 2 + unat attr_length;
                 current_pos = (if unat attr_length mod 4 \<noteq> 0
                   then current_pos + (4 - unat attr_length mod 4) else current_pos)
             in find_message_integrity data current_pos)
      else Some None)"
  by pat_completeness auto
termination by (relation "measure (\<lambda>(data, pos). length data - pos)") (auto simp: Let_def)

declare find_message_integrity.simps [simp del]

definition ValidateMessageIntegrity :: "u8 list \<Rightarrow> u8 list \<Rightarrow> bool option" where
  "ValidateMessageIntegrity data password =
     (let sz = length data in
      if sz mod 4 \<noteq> 0 then Some False
      else case peek16 data 2 of None \<Rightarrow> None | Some msg_length \<Rightarrow>
        if sz \<noteq> unat msg_length + kStunHeaderSize then Some False
        else case find_message_integrity data kStunHeaderSize of
          None \<Rightarrow> None
        | Some None \<Rightarrow> Some False
        | Some (Some mi_pos) \<Rightarrow>
            let temp_data = take mi_pos data;
                temp_data =
                  (if sz > mi_pos + kStunAttributeHeaderSize + kStunMessageIntegritySize then
                     let extra_offset = sz - (mi_pos + kStunAttributeHeaderSize + kStunMessageIntegritySize);
                         new_adjusted_len = sz - extra_offset - kStunHeaderSize
                     in blit temp_data 2 (SetBE16 (chunk 2 2 temp_data) (of_nat new_adjusted_len))
                   else temp_data);
                hmac = ComputeHmac_alg DIGEST_SHA_1 password temp_data kStunMessageIntegritySize
            in if length hmac \<noteq> kStunMessageIntegritySize then Some False
               else if sz < mi_pos + kStunAttributeHeaderSize + kStunMessageIntegritySize then None
               else Some (chunk (mi_pos + kStunAttributeHeaderSize) kStunMessageIntegritySize data = hmac))"

text \<open>A message as it is sent: what is written to a new buffer.\<close>

definition stun_packet :: "StunMessage \<Rightarrow> u8 list option" where
  "stun_packet m = map_option (\<lambda>buf. take (Length buf) (Data buf)) (Write m (ByteBuffer_empty ORDER_NETWORK))"

text \<open>
  Adding the attribute with a dummy value (twenty characters 0) and filling it in; the added
  attribute is the last of the message.
\<close>

definition AddMessageIntegrity :: "StunMessage \<Rightarrow> u8 list \<Rightarrow> bool \<times> StunMessage" where
  "AddMessageIntegrity m key =
     (let msg_integrity_attr = StunByteStringAttribute STUN_ATTR_MESSAGE_INTEGRITY (replicate kStunMessageIntegritySize 0x30);
          (_, m) = AddAttribute m msg_integrity_attr
      in case Write m (ByteBuffer_empty ORDER_NETWORK) of
           None \<Rightarrow> (False, m)
         | Some buf \<Rightarrow>
             let msg_len_for_hmac = Length buf - kStunAttributeHeaderSize - unat (a_length msg_integrity_attr);
                 hmac = ComputeHmac_alg DIGEST_SHA_1 key (take msg_len_for_hmac (Data buf)) kStunMessageIntegritySize
             in if length hmac \<noteq> kStunMessageIntegritySize then (False, m)
                else (True, m\<lparr>m_attrs := butlast (m_attrs m) @ [CopyBytes msg_integrity_attr hmac]\<rparr>))"

section \<open>Fingerprint\<close>

definition ValidateFingerprint :: "u8 list \<Rightarrow> bool" where
  "ValidateFingerprint data =
     (let sz = length data;
          fingerprint_attr_size = kStunAttributeHeaderSize + unat UInt32_SIZE
      in if sz mod 4 \<noteq> 0 \<or> sz < kStunHeaderSize + fingerprint_attr_size then False
         else
           let magic_cookie = drop (kStunTransactionIdOffset - kStunMagicCookieLength) data in
           if GetBE32 magic_cookie \<noteq> kStunMagicCookie then False
           else
             let fingerprint_attr_data = drop (sz - fingerprint_attr_size) data in
             if GetBE16 fingerprint_attr_data \<noteq> STUN_ATTR_FINGERPRINT \<or>
                GetBE16 (drop 2 fingerprint_attr_data) \<noteq> UInt32_SIZE then False
             else
               let fingerprint = GetBE32 (drop kStunAttributeHeaderSize fingerprint_attr_data)
               in fingerprint XOR STUN_FINGERPRINT_XOR_VALUE = ComputeCrc32 (take (sz - fingerprint_attr_size) data))"

definition AddFingerprint :: "StunMessage \<Rightarrow> bool \<times> StunMessage" where
  "AddFingerprint m =
     (let fingerprint_attr = StunUInt32Attribute STUN_ATTR_FINGERPRINT 0;
          (_, m) = AddAttribute m fingerprint_attr
      in case Write m (ByteBuffer_empty ORDER_NETWORK) of
           None \<Rightarrow> (False, m)
         | Some buf \<Rightarrow>
             let msg_len_for_crc32 = Length buf - kStunAttributeHeaderSize - unat (a_length fingerprint_attr);
                 c = ComputeCrc32 (take msg_len_for_crc32 (Data buf))
             in (True, m\<lparr>m_attrs := butlast (m_attrs m) @ [SetValue fingerprint_attr (c XOR STUN_FINGERPRINT_XOR_VALUE)]\<rparr>))"

section \<open>Message types and credentials\<close>

definition IsStunRequestType :: "u32 \<Rightarrow> bool" where
  "IsStunRequestType msg_type \<longleftrightarrow> msg_type AND kStunTypeMask = 0x000"

definition IsStunIndicationType :: "u32 \<Rightarrow> bool" where
  "IsStunIndicationType msg_type \<longleftrightarrow> msg_type AND kStunTypeMask = 0x010"

definition IsStunSuccessResponseType :: "u32 \<Rightarrow> bool" where
  "IsStunSuccessResponseType msg_type \<longleftrightarrow> msg_type AND kStunTypeMask = 0x100"

definition IsStunErrorResponseType :: "u32 \<Rightarrow> bool" where
  "IsStunErrorResponseType msg_type \<longleftrightarrow> msg_type AND kStunTypeMask = 0x110"

text \<open>\<^verbatim>\<open>int\<close> as a 32-bit word; the error value is -1.\<close>

definition GetStunSuccessResponseType :: "u32 \<Rightarrow> u32" where
  "GetStunSuccessResponseType req_type = (if IsStunRequestType req_type then req_type OR 0x100 else -1)"

definition GetStunErrorResponseType :: "u32 \<Rightarrow> u32" where
  "GetStunErrorResponseType req_type = (if IsStunRequestType req_type then req_type OR 0x110 else -1)"

definition ComputeStunCredentialHash :: "u8 list \<Rightarrow> u8 list \<Rightarrow> u8 list \<Rightarrow> u8 list option" where
  "ComputeStunCredentialHash username realm password =
     (let input = username @ [0x3A] @ realm @ [0x3A] @ password;
          digest = ComputeDigest_alg DIGEST_MD5 input 64
      in if length digest = 0 then None else Some digest)"

section \<open>The wire format\<close>

definition attr_bytes :: "u8 list \<Rightarrow> StunAttribute \<Rightarrow> u8 list" where
  "attr_bytes tid a = be_bytes 2 (a_type a) @ be_bytes 2 (a_length a) @ attr_body (Some tid) a"

definition attrs_bytes :: "u8 list \<Rightarrow> StunAttribute list \<Rightarrow> u8 list" where
  "attrs_bytes tid as = concat (map (attr_bytes tid) as)"

definition id_bytes :: "u8 list \<Rightarrow> u8 list" where
  "id_bytes tid = (if length tid = kStunLegacyTransactionIdLength then tid else be_bytes 4 kStunMagicCookie @ tid)"

definition msg_bytes :: "StunMessage \<Rightarrow> u8 list" where
  "msg_bytes m = be_bytes 2 (m_type m) @ be_bytes 2 (m_length m) @ id_bytes (m_transaction_id m) @
     attrs_bytes (m_transaction_id m) (m_attrs m)"

text \<open>
  A well-formed message: the type has its top bit clear, a legacy transaction id does not start
  with the magic cookie, every attribute is well-formed and of the class its type has in this
  message, and the length field is the length of the attributes.
\<close>

definition tid_ok :: "u8 list \<Rightarrow> bool" where
  "tid_ok tid \<longleftrightarrow> length tid = kStunTransactionIdLength \<or>
     length tid = kStunLegacyTransactionIdLength \<and> take 4 tid \<noteq> be_bytes 4 kStunMagicCookie"

definition typed_attr :: "MessageClass \<Rightarrow> StunAttribute \<Rightarrow> bool" where
  "typed_attr c a \<longleftrightarrow> value_type a = GetAttributeValueType c (a_type a)"

definition msg_ok :: "StunMessage \<Rightarrow> bool" where
  "msg_ok m \<longleftrightarrow> m_type m AND 0x8000 = 0 \<and> tid_ok (m_transaction_id m) \<and>
     (\<forall>a\<in>set (m_attrs m). attr_ok (Some (m_transaction_id m)) a \<and> typed_attr (m_class m) a) \<and>
     unat (m_length m) = length (attrs_bytes (m_transaction_id m) (m_attrs m))"

lemma attrs_bytes_simps [simp]:
  "attrs_bytes tid [] = []" "attrs_bytes tid (a # as) = attr_bytes tid a @ attrs_bytes tid as"
  "attrs_bytes tid (as @ bs) = attrs_bytes tid as @ attrs_bytes tid bs"
  by (simp_all add: attrs_bytes_def)

lemma pad4_sum: "(n + pad4 n) mod 4 = 0"
proof (cases "n mod 4 = 0")
  case False
  have "n mod 4 < 4" by simp
  then have "n + pad4 n = 4 * (n div 4) + 4" using pad4_mod(2)[OF False] mult_div_mod_eq[of 4 n] by linarith
  then show ?thesis by simp
qed (simp add: pad4_mod)

lemma length_attr_bytes:
  assumes "attr_ok (Some tid) a"
  shows "length (attr_bytes tid a) = 4 + (unat (a_length a) + pad4 (unat (a_length a)))"
    "4 dvd length (attr_bytes tid a)"
  using length_attr_body[OF assms] pad4_sum[of "unat (a_length a)"]
  by (simp_all add: attr_bytes_def mod_0_imp_dvd)

lemma length_attrs_bytes:
  "\<forall>a\<in>set as. attr_ok (Some tid) a \<Longrightarrow> 4 dvd length (attrs_bytes tid as)"
  by (induction as) (auto intro: dvd_add length_attr_bytes(2))

lemma tid_ok_length: "tid_ok tid \<Longrightarrow> length (id_bytes tid) = 16"
  by (auto simp: tid_ok_def id_bytes_def kStunTransactionIdLength_def kStunLegacyTransactionIdLength_def)

section \<open>Writing\<close>

lemma attrs_Write_at:
  "bb_at b xs \<Longrightarrow> \<forall>a\<in>set as. attr_ok (Some tid) a \<Longrightarrow>
   \<exists>b'. attrs_Write tid as b = Some b' \<and> bb_at b' (xs @ attrs_bytes tid as)"
proof (induction as arbitrary: b xs)
  case (Cons a as)
  obtain b1 where b1: "attr_Write (Some tid) a (WriteUInt16 (WriteUInt16 b (a_type a)) (a_length a)) = Some b1"
      "bb_at b1 (((xs @ be_bytes 2 (a_type a)) @ be_bytes 2 (a_length a)) @ attr_body (Some tid) a)"
    using attr_Write_at[OF bb_at_write(4)[OF bb_at_write(4)[OF Cons.prems(1), of "a_type a"], of "a_length a"], of "Some tid" a] Cons.prems(2) by auto
  then show ?case using Cons.IH[OF b1(2)] Cons.prems(2) by (auto simp: Let_def attr_bytes_def)
qed simp

lemma Write_at:
  assumes "bb_at b xs" "\<forall>a\<in>set (m_attrs m). attr_ok (Some (m_transaction_id m)) a"
  shows "\<exists>b'. Write m b = Some b' \<and> bb_at b' (xs @ msg_bytes m)"
proof -
  let ?b1 = "WriteUInt16 (WriteUInt16 b (m_type m)) (m_length m)"
  have h: "bb_at ?b1 ((xs @ be_bytes 2 (m_type m)) @ be_bytes 2 (m_length m))"
    using assms(1) by (intro bb_at_write)
  have "\<exists>b2. (if \<not> IsLegacy m then WriteUInt32 ?b1 kStunMagicCookie else ?b1) = b2 \<and>
      bb_at (WriteString b2 (m_transaction_id m)) (((xs @ be_bytes 2 (m_type m)) @ be_bytes 2 (m_length m)) @ id_bytes (m_transaction_id m))"
    using bb_at_write(2)[OF h] bb_at_write(2)[OF bb_at_write(5)[OF h, of kStunMagicCookie]]
    by (simp add: IsLegacy_def id_bytes_def)
  then obtain b2 where b2: "(if \<not> IsLegacy m then WriteUInt32 ?b1 kStunMagicCookie else ?b1) = b2"
      "bb_at (WriteString b2 (m_transaction_id m)) (((xs @ be_bytes 2 (m_type m)) @ be_bytes 2 (m_length m)) @ id_bytes (m_transaction_id m))"
    by blast
  show ?thesis
    using attrs_Write_at[OF b2(2) assms(2)] unfolding Write_def Let_def b2(1) by (auto simp: msg_bytes_def)
qed

lemma Write_new:
  assumes "\<forall>a\<in>set (m_attrs m). attr_ok (Some (m_transaction_id m)) a"
  shows "\<exists>b. Write m (ByteBuffer_empty ORDER_NETWORK) = Some b \<and> bb_at b (msg_bytes m)"
  using Write_at[OF bb_at_new(1) assms] by simp

section \<open>Reading\<close>

lemma Create_typed:
  assumes "typed_attr c a"
  shows "\<exists>a0. StunAttribute_Create (GetAttributeValueType c (a_type a)) (a_type a) (a_length a) = Some a0 \<and>
    StunAttribute_Create (value_type a) (a_type a) (a_length a) = Some a0"
  using assms by (cases "a_value a") (auto simp: typed_attr_def value_type_def StunAttribute_Create_def)

lemma attrs_Read_at:
  "bb_at b (attrs_bytes tid as) \<Longrightarrow> \<forall>a\<in>set as. attr_ok (Some tid) a \<and> typed_attr c a \<Longrightarrow>
   \<exists>b'. attrs_Read c tid 0 acc b = Some (acc @ as, b') \<and> bb_at b' []"
proof (induction as arbitrary: b acc)
  case Nil
  then show ?case by (subst attrs_Read.simps) (simp add: bb_at_Length)
next
  case (Cons a as)
  obtain b1 where b1: "ReadUInt16 b = Some (a_type a, b1)"
      "bb_at b1 (be_bytes 2 (a_length a) @ attr_body (Some tid) a @ attrs_bytes tid as)"
    using bb_at_read(2)[of b "a_type a"] Cons.prems(1) by (auto simp: attr_bytes_def)
  obtain b2 where b2: "ReadUInt16 b1 = Some (a_length a, b2)" "bb_at b2 (attr_body (Some tid) a @ attrs_bytes tid as)"
    using bb_at_read(2)[OF b1(2)] by auto
  obtain a0 where a0: "StunAttribute_Create (GetAttributeValueType c (a_type a)) (a_type a) (a_length a) = Some a0"
      "StunAttribute_Create (value_type a) (a_type a) (a_length a) = Some a0"
    using Create_typed[of c a] Cons.prems(2) by auto
  obtain b3 where b3: "attr_Read (Some tid) a0 b2 = Some (a, b3)" "bb_at b3 (attrs_bytes tid as)"
    using attr_body_Read_at[OF b2(2) _ a0(2)] Cons.prems(2) by auto
  have "Length b > 0" using bb_at_Length[OF Cons.prems(1)] by (simp add: attr_bytes_def)
  then show ?case
    using Cons.IH[OF b3(2), of "acc @ [a]"] Cons.prems(2) b1(1) b2(1) a0(1) b3(1)
    by (subst attrs_Read.simps) simp
qed

lemma cookie_word: "length w = 4 \<Longrightarrow> NetworkToHost32 (load_host w) = kStunMagicCookie \<longleftrightarrow> w = be_bytes 4 kStunMagicCookie"
  using be_bytes_be_word[of w, where 'a = 32] by (auto simp: NetworkToHost_load be_word_be_bytes)

lemma Read_msg_bytes:
  assumes "bb_at b (msg_bytes m)" "msg_ok m"
  shows "\<exists>b'. Read (StunMessage_new (m_class m)) b = Some (m, b') \<and> bb_at b' []"
proof -
  let ?tid = "m_transaction_id m" and ?as = "attrs_bytes (m_transaction_id m) (m_attrs m)"
  have ok: "m_type m AND 0x8000 = 0" "tid_ok ?tid"
      "\<forall>a\<in>set (m_attrs m). attr_ok (Some ?tid) a \<and> typed_attr (m_class m) a" "unat (m_length m) = length ?as"
    using assms(2) by (simp_all add: msg_ok_def)
  have l: "length (id_bytes ?tid) = 16" using ok(2) by (rule tid_ok_length)
  obtain b1 where b1: "ReadUInt16 b = Some (m_type m, b1)" "bb_at b1 (be_bytes 2 (m_length m) @ id_bytes ?tid @ ?as)"
    using bb_at_read(2)[of b "m_type m"] assms(1) by (auto simp: msg_bytes_def)
  obtain b2 where b2: "ReadUInt16 b1 = Some (m_length m, b2)" "bb_at b2 (take 4 (id_bytes ?tid) @ drop 4 (id_bytes ?tid) @ ?as)"
    using bb_at_read(2)[OF b1(2)] by (auto simp flip: append_assoc)
  obtain b3 where b3: "ReadString b2 [] 4 = Some (take 4 (id_bytes ?tid), b3)" "bb_at b3 (drop 4 (id_bytes ?tid) @ ?as)"
    using bb_at_bytes(2)[OF b2(2), of 4 "[]"] l by auto
  obtain b4 where b4: "ReadString b3 [] 12 = Some (drop 4 (id_bytes ?tid), b4)" "bb_at b4 ?as"
    using bb_at_bytes(2)[OF b3(2), of 12 "[]"] l by auto
  have tid: "(if NetworkToHost32 (load_host (take 4 (id_bytes ?tid))) \<noteq> kStunMagicCookie
      then take 4 (id_bytes ?tid) @ drop 4 (id_bytes ?tid) else drop 4 (id_bytes ?tid)) = ?tid"
    using ok(2) l
    by (auto simp: cookie_word id_bytes_def tid_ok_def kStunTransactionIdLength_def kStunLegacyTransactionIdLength_def)
  obtain b5 where b5: "attrs_Read (m_class m) ?tid 0 [] b4 = Some (m_attrs m, b5)" "bb_at b5 []"
    using attrs_Read_at[OF b4(2) ok(3), of "[]"] by auto
  have "Length b4 = length ?as" using b4(2) by (rule bb_at_Length)
  then show ?thesis
    using b1(1) b2(1) b3(1) b4(1) b5 ok(1,4) tid
    unfolding Read_def kStunMagicCookieLength_def kStunTransactionIdLength_def
    by (simp add: StunMessage_new_def Let_def)
qed

end
