(* ===== verification/StunProps.thy ===== *)
theory StunProps
  imports StunMsg
begin

text \<open>
  The properties of the STUN messages: the wire round trip, what the integrity check accepts and
  why, and that a message completed by \<^verbatim>\<open>AddMessageIntegrity\<close> and
  \<^verbatim>\<open>AddFingerprint\<close> passes both checks.
\<close>

section \<open>Round trip\<close>

text \<open>C10: a well-formed message that is written to a fresh buffer is read back from it, attribute
  by attribute, and the buffer is empty afterwards.\<close>
theorem stun_roundtrip:
  assumes "msg_ok m"
  shows "\<exists>b. Write m (ByteBuffer_empty ORDER_NETWORK) = Some b \<and>
    (\<exists>b'. Read (StunMessage_new (m_class m)) b = Some (m, b') \<and> Length b' = 0)"
proof -
  have "\<forall>a\<in>set (m_attrs m). attr_ok (Some (m_transaction_id m)) a" using assms by (simp add: msg_ok_def)
  then obtain b where b: "Write m (ByteBuffer_empty ORDER_NETWORK) = Some b" "bb_at b (msg_bytes m)"
    using Write_new by blast
  then obtain b' where "Read (StunMessage_new (m_class m)) b = Some (m, b')" "bb_at b' []"
    using Read_msg_bytes[OF b(2) assms] by blast
  then show ?thesis using b(1) bb_at_Length[of b' "[]"] by auto
qed

section \<open>The scan for the integrity attribute\<close>

lemma peek16_at: "length pre = n \<Longrightarrow> peek16 (pre @ be_bytes 2 w @ r) n = Some w"
  by (simp add: peek16_def GetBE16_eq be_word_be_bytes)

lemma peek16_at2: "length pre = n \<Longrightarrow> peek16 (pre @ be_bytes 2 v @ be_bytes 2 w @ r) (Suc (Suc n)) = Some w"
  using peek16_at[of "pre @ be_bytes 2 v" "n + 2" w r] by simp

lemma find_mi_here:
  assumes "length pre = n" "length mac = 20"
  shows "find_message_integrity (pre @ be_bytes 2 STUN_ATTR_MESSAGE_INTEGRITY @ be_bytes 2 (20 :: u16) @ mac @ rest) n = Some (Some n)"
  using assms
  by (subst find_message_integrity.simps) (simp add: peek16_at peek16_at2 kStunMessageIntegritySize_def)

lemma find_mi_skip:
  assumes "length pre = n" "attr_ok (Some tid) a" "a_type a \<noteq> STUN_ATTR_MESSAGE_INTEGRITY"
  shows "find_message_integrity (pre @ attr_bytes tid a @ r) n =
    find_message_integrity (pre @ attr_bytes tid a @ r) (n + length (attr_bytes tid a))"
proof -
  let ?n = "unat (a_length a)" and ?d = "pre @ attr_bytes tid a @ r"
  have p: "(if ?n mod 4 \<noteq> 0 then n + 2 + 2 + ?n + (4 - ?n mod 4) else n + 2 + 2 + ?n) = n + (4 + (?n + pad4 ?n))"
    by (auto simp: pad4_mod)
  have pk: "peek16 ?d n = Some (a_type a)" "peek16 ?d (n + 2) = Some (a_length a)"
    using peek16_at[OF assms(1)] peek16_at2[OF assms(1)] by (simp_all add: attr_bytes_def)
  have "n < length ?d" using assms(1) by (simp add: attr_bytes_def)
  then show ?thesis
    unfolding length_attr_bytes(1)[OF assms(2)] find_message_integrity.simps[of ?d n] pk p[symmetric]
    using assms(3) by (simp only: Let_def option.case if_True if_False simp_thms)
qed

lemma find_mi_attrs:
  "length mac = 20 \<Longrightarrow> \<forall>a\<in>set as. attr_ok (Some tid) a \<and> a_type a \<noteq> STUN_ATTR_MESSAGE_INTEGRITY \<Longrightarrow> length pre = n \<Longrightarrow>
   find_message_integrity (pre @ attrs_bytes tid as @ be_bytes 2 STUN_ATTR_MESSAGE_INTEGRITY @ be_bytes 2 (20 :: u16) @ mac @ rest) n =
     Some (Some (n + length (attrs_bytes tid as)))"
proof (induction as arbitrary: pre n)
  case (Cons a as)
  then show ?case
    using find_mi_skip[of pre n tid a] Cons.IH[of "pre @ attr_bytes tid a" "n + length (attr_bytes tid a)"]
    by simp
qed (simp add: find_mi_here)

section \<open>Message integrity\<close>

lemma word_nat_inverse: "of_nat (unat w) = (w :: 'a::len word)"
  by simp

lemma split_4: "4 \<le> length d \<Longrightarrow> d = take 2 d @ chunk 2 2 d @ drop 4 d"
  using append_take_drop_id[of 2 "drop 2 d"] by (simp add: chunk_def)

lemma SetBE16_chunk2:
  assumes "4 \<le> length d"
  shows "blit d 2 (SetBE16 (chunk 2 2 d) v) = take 2 d @ be_bytes 2 v @ drop 4 d"
  using assms by (simp add: blit_def SetBE16_eq)

text \<open>The bytes the code is computed over when the attribute stands at \<open>pos\<close>: the message
  up to it, with the length field counting up to its end.\<close>

definition mac_input :: "u8 list \<Rightarrow> nat \<Rightarrow> u8 list" where
  "mac_input d pos = take 2 d @ be_bytes 2 (of_nat (pos + 4) :: u16) @ drop 4 (take pos d)"

lemma Validate_found:
  assumes m4: "length d mod 4 = 0" and pk: "peek16 d 2 = Some L" and L: "length d = unat L + 20"
    and fm: "find_message_integrity d 20 = Some (Some pos)" and pos: "20 \<le> pos" "pos + 24 \<le> length d"
  shows "ValidateMessageIntegrity d key = Some (chunk (pos + 4) 20 d = hmac sha1_hash key (mac_input d pos))"
proof -
  let ?t = "take pos d"
  have l4: "4 \<le> length ?t" using pos by simp
  have adj: "(if length d > pos + 4 + 20
      then blit ?t 2 (SetBE16 (chunk 2 2 ?t) (of_nat (length d - (length d - (pos + 4 + 20)) - 20))) else ?t) = mac_input d pos"
  proof (cases "length d > pos + 4 + 20")
    case True
    then have "length d - (length d - (pos + 4 + 20)) - 20 = pos + 4" by simp
    then show ?thesis using True pos l4 by (simp add: mac_input_def SetBE16_chunk2 min_def add.commute)
  next
    case False
    then have "unat L = pos + 4" using pos L by simp
    then have "L = of_nat (pos + 4)" by (metis word_nat_inverse)
    moreover have "chunk 2 2 ?t = be_bytes 2 L"
      using pk pos be_bytes_be_word[of "chunk 2 2 d", where 'a = 16]
      by (simp add: peek16_def GetBE16_eq chunk_def take_drop min_def)
    ultimately show ?thesis using False split_4[OF l4] pos by (simp add: mac_input_def min_def)
  qed
  show ?thesis
    unfolding ValidateMessageIntegrity_def Let_def kStunHeaderSize_def kStunAttributeHeaderSize_def kStunMessageIntegritySize_def
      pk option.case fm adj
    using m4 L pos by (simp add: ComputeHmac_sha1)
qed

text \<open>A message whose integrity attribute follows the well-formed attributes \<open>as\<close>.\<close>

lemma Validate_shape:
  assumes tid: "tid_ok tid" and mac: "length mac = 20"
    and as: "\<forall>a\<in>set as. attr_ok (Some tid) a \<and> a_type a \<noteq> STUN_ATTR_MESSAGE_INTEGRITY"
    and L: "unat (L :: u16) = length (attrs_bytes tid as) + 24 + length rest" and r: "4 dvd length rest"
  shows "ValidateMessageIntegrity (be_bytes 2 type @ be_bytes 2 L @ id_bytes tid @ attrs_bytes tid as @
      be_bytes 2 STUN_ATTR_MESSAGE_INTEGRITY @ be_bytes 2 (20 :: u16) @ mac @ rest) key =
    Some (mac = hmac sha1_hash key (be_bytes 2 type @ be_bytes 2 (of_nat (length (attrs_bytes tid as) + 24) :: u16) @
      id_bytes tid @ attrs_bytes tid as))"
proof -
  let ?A = "attrs_bytes tid as"
  let ?pre = "be_bytes 2 type @ be_bytes 2 L @ id_bytes tid"
  define d where "d = ?pre @ ?A @ be_bytes 2 STUN_ATTR_MESSAGE_INTEGRITY @ be_bytes 2 (20 :: u16) @ mac @ rest"
  have l: "length (id_bytes tid) = 16" using tid by (rule tid_ok_length)
  have dA: "4 dvd length ?A" using as by (auto intro!: length_attrs_bytes)
  have sz: "length d = unat L + 20" using l mac L by (simp add: d_def)
  have "4 dvd unat L + 20" using L dA r by presburger
  then have m4: "length d mod 4 = 0" unfolding sz by (rule dvd_imp_mod_0)
  have pk: "peek16 d 2 = Some L" using peek16_at[of "be_bytes 2 type" 2 L] by (simp add: d_def)
  have fm: "find_message_integrity d 20 = Some (Some (20 + length ?A))"
    using find_mi_attrs[OF mac as, of ?pre 20 rest] l by (simp add: d_def)
  have ck: "chunk (20 + length ?A + 4) 20 d = mac" using l mac by (simp add: chunk_def d_def)
  have mi: "mac_input d (20 + length ?A) = be_bytes 2 type @ be_bytes 2 (of_nat (length ?A + 24) :: u16) @ id_bytes tid @ ?A"
    using l by (simp add: d_def mac_input_def add.commute)
  have "ValidateMessageIntegrity d key = Some (mac = hmac sha1_hash key (mac_input d (20 + length ?A)))"
    using Validate_found[OF m4 pk sz fm] L sz ck by simp
  then show ?thesis unfolding mi by (simp add: d_def)
qed

section \<open>Adding attributes\<close>

definition mi_attr :: "u8 list \<Rightarrow> StunAttribute" where
  "mi_attr mac = StunByteStringAttribute STUN_ATTR_MESSAGE_INTEGRITY mac"

definition fp_attr :: "u32 \<Rightarrow> StunAttribute" where
  "fp_attr v = StunUInt32Attribute STUN_ATTR_FINGERPRINT v"

lemma mi_attr_simps:
  assumes "length mac = 20"
  shows "attr_ok (Some tid) (mi_attr mac)" "typed_attr c (mi_attr mac)" "a_type (mi_attr mac) = STUN_ATTR_MESSAGE_INTEGRITY"
    "a_length (mi_attr mac) = 20"
    "attr_bytes tid (mi_attr mac) = be_bytes 2 STUN_ATTR_MESSAGE_INTEGRITY @ be_bytes 2 (20 :: u16) @ mac"
  using assms
  by (auto simp: mi_attr_def StunByteStringAttribute_def CopyBytes_def attr_ok_def typed_attr_def value_type_def attr_bytes_def
      attr_body_def pad4_mod STUN_ATTR_MESSAGE_INTEGRITY_def GetAttributeValueType_def StunMessage_GetAttributeValueType_def
      RelayMessage_GetAttributeValueType_def TurnMessage_GetAttributeValueType_def IceMessage_GetAttributeValueType_def
      split: MessageClass.split)

lemma fp_attr_simps:
  "attr_ok (Some tid) (fp_attr v)" "typed_attr c (fp_attr v)" "a_type (fp_attr v) = STUN_ATTR_FINGERPRINT"
  "a_length (fp_attr v) = 4"
  "attr_bytes tid (fp_attr v) = be_bytes 2 STUN_ATTR_FINGERPRINT @ be_bytes 2 (4 :: u16) @ be_bytes 4 v"
  by (auto simp: fp_attr_def StunUInt32Attribute_def attr_ok_def typed_attr_def value_type_def attr_bytes_def
      attr_body_def STUN_ATTR_FINGERPRINT_def GetAttributeValueType_def StunMessage_GetAttributeValueType_def UInt32_SIZE_def
      RelayMessage_GetAttributeValueType_def TurnMessage_GetAttributeValueType_def IceMessage_GetAttributeValueType_def
      split: MessageClass.split)

text \<open>A message with one more attribute and the length it takes.\<close>

definition add_attr :: "StunMessage \<Rightarrow> StunAttribute \<Rightarrow> StunMessage" where
  "add_attr m a = m\<lparr>m_attrs := m_attrs m @ [a],
     m_length := m_length m + of_nat (4 + (unat (a_length a) + pad4 (unat (a_length a))))\<rparr>"

lemma AddAttribute_typed: "typed_attr (m_class m) a \<Longrightarrow> AddAttribute m a = (True, add_attr m a)"
  by (auto simp: AddAttribute_def typed_attr_def add_attr_def Let_def pad4_mod add.commute)

lemma add_attr_simps [simp]:
  "m_class (add_attr m a) = m_class m" "m_type (add_attr m a) = m_type m"
  "m_transaction_id (add_attr m a) = m_transaction_id m" "m_attrs (add_attr m a) = m_attrs m @ [a]"
  by (simp_all add: add_attr_def)

lemma add_attr_length:
  assumes "msg_ok m" "attr_ok (Some (m_transaction_id m)) a"
    "unat (m_length m) + length (attr_bytes (m_transaction_id m) a) < 65536"
  shows "unat (m_length (add_attr m a)) = unat (m_length m) + length (attr_bytes (m_transaction_id m) a)"
    "m_length (add_attr m a) = of_nat (length (attrs_bytes (m_transaction_id m) (m_attrs m)) + length (attr_bytes (m_transaction_id m) a))"
proof -
  have e: "m_length (add_attr m a) = m_length m + of_nat (length (attr_bytes (m_transaction_id m) a))"
    using length_attr_bytes(1)[OF assms(2)] by (simp add: add_attr_def)
  moreover have u: "unat (m_length m) = length (attrs_bytes (m_transaction_id m) (m_attrs m))"
    using assms(1) by (simp add: msg_ok_def)
  ultimately show k: "m_length (add_attr m a) = of_nat (length (attrs_bytes (m_transaction_id m) (m_attrs m)) + length (attr_bytes (m_transaction_id m) a))"
    by (metis of_nat_add word_nat_inverse)
  show "unat (m_length (add_attr m a)) = unat (m_length m) + length (attr_bytes (m_transaction_id m) a)"
    unfolding k using assms(3) u by (subst unat_of_nat_u16) simp_all
qed

lemma add_attr_ok:
  assumes "msg_ok m" "attr_ok (Some (m_transaction_id m)) a" "typed_attr (m_class m) a"
    "unat (m_length m) + length (attr_bytes (m_transaction_id m) a) < 65536"
  shows "msg_ok (add_attr m a)"
  using assms add_attr_length(1)[OF assms(1,2,4)] by (auto simp: msg_ok_def)

lemma add_attr_bytes:
  assumes "msg_ok m" "attr_ok (Some (m_transaction_id m)) a"
    "unat (m_length m) + length (attr_bytes (m_transaction_id m) a) < 65536"
  shows "msg_bytes (add_attr m a) = (be_bytes 2 (m_type m) @
    be_bytes 2 (of_nat (length (attrs_bytes (m_transaction_id m) (m_attrs m)) + length (attr_bytes (m_transaction_id m) a)) :: u16) @
    id_bytes (m_transaction_id m) @ attrs_bytes (m_transaction_id m) (m_attrs m)) @ attr_bytes (m_transaction_id m) a"
  using add_attr_length(2)[OF assms] by (simp add: msg_bytes_def)

text \<open>The bytes that \<^verbatim>\<open>AddMessageIntegrity\<close> and \<^verbatim>\<open>AddFingerprint\<close>
  compute their code over: all of the message with the attribute but the attribute.\<close>

lemma Write_prefix:
  assumes "msg_ok m" "attr_ok (Some (m_transaction_id m)) a" "typed_attr (m_class m) a"
    "unat (m_length m) + length (attr_bytes (m_transaction_id m) a) < 65536"
    "pad4 (unat (a_length a)) = 0"
  obtains b where "Write (add_attr m a) (ByteBuffer_empty ORDER_NETWORK) = Some b"
    "take (Length b - 4 - unat (a_length a)) (Data b) = be_bytes 2 (m_type m) @
      be_bytes 2 (of_nat (length (attrs_bytes (m_transaction_id m) (m_attrs m)) + length (attr_bytes (m_transaction_id m) a)) :: u16) @
      id_bytes (m_transaction_id m) @ attrs_bytes (m_transaction_id m) (m_attrs m)"
proof -
  have "\<forall>x\<in>set (m_attrs (add_attr m a)). attr_ok (Some (m_transaction_id (add_attr m a))) x"
    using assms(1,2) by (auto simp: msg_ok_def)
  then obtain b where b: "Write (add_attr m a) (ByteBuffer_empty ORDER_NETWORK) = Some b" "bb_at b (msg_bytes (add_attr m a))"
    using Write_new by blast
  have D: "take (Length b) (Data b) = msg_bytes (add_attr m a)"
    using b(2) Data_content[of b] by (simp add: bb_at_def)
  have L: "Length b = length (msg_bytes (add_attr m a))" using b(2) by (rule bb_at_Length)
  have "take (Length b - 4 - unat (a_length a)) (Data b) = take (Length b - 4 - unat (a_length a)) (msg_bytes (add_attr m a))"
    unfolding D[symmetric] by (simp add: min_def)
  then show thesis
    using that[OF b(1)] L length_attr_bytes(1)[OF assms(2)] assms(5) add_attr_bytes[OF assms(1,2,4)] by simp
qed

lemma AddMessageIntegrity_eq:
  assumes "msg_ok m" "unat (m_length m) + 24 < 65536"
  shows "AddMessageIntegrity m key = (True, add_attr m (mi_attr (hmac sha1_hash key
    (be_bytes 2 (m_type m) @ be_bytes 2 (of_nat (length (attrs_bytes (m_transaction_id m) (m_attrs m)) + 24) :: u16) @
     id_bytes (m_transaction_id m) @ attrs_bytes (m_transaction_id m) (m_attrs m)))))"
proof -
  let ?d = "mi_attr (replicate 20 0x30)"
  note d = mi_attr_simps[of "replicate 20 0x30", simplified]
  obtain b where b: "Write (add_attr m ?d) (ByteBuffer_empty ORDER_NETWORK) = Some b"
      "take (Length b - 4 - 20) (Data b) = be_bytes 2 (m_type m) @
        be_bytes 2 (of_nat (length (attrs_bytes (m_transaction_id m) (m_attrs m)) + 24) :: u16) @
        id_bytes (m_transaction_id m) @ attrs_bytes (m_transaction_id m) (m_attrs m)"
    using Write_prefix[OF assms(1) d(1) d(2), of thesis] assms(2) by (simp add: d pad4_mod)
  have c: "CopyBytes ?d mac = mi_attr mac" for mac
    by (simp add: mi_attr_def StunByteStringAttribute_def CopyBytes_def)
  have e: "(add_attr m ?d)\<lparr>m_attrs := butlast (m_attrs (add_attr m ?d)) @ [mi_attr mac]\<rparr> = add_attr m (mi_attr mac)"
    if "length mac = 20" for mac
    using mi_attr_simps(4)[OF that] d(4) by (simp add: add_attr_def)
  show ?thesis
    unfolding AddMessageIntegrity_def kStunMessageIntegritySize_def mi_attr_def[symmetric] AddAttribute_typed[OF d(2)] Let_def
      prod.case b(1) option.case d(4) kStunAttributeHeaderSize_def c
    using b(2) e[OF ComputeHmac_sha1(2)] by (simp add: ComputeHmac_sha1)
qed

lemma AddFingerprint_eq:
  assumes "msg_ok m" "unat (m_length m) + 8 < 65536"
  shows "AddFingerprint m = (True, add_attr m (fp_attr (ComputeCrc32
    (be_bytes 2 (m_type m) @ be_bytes 2 (of_nat (length (attrs_bytes (m_transaction_id m) (m_attrs m)) + 8) :: u16) @
     id_bytes (m_transaction_id m) @ attrs_bytes (m_transaction_id m) (m_attrs m)) XOR STUN_FINGERPRINT_XOR_VALUE)))"
proof -
  note d = fp_attr_simps
  obtain b where b: "Write (add_attr m (fp_attr 0)) (ByteBuffer_empty ORDER_NETWORK) = Some b"
      "take (Length b - 4 - 4) (Data b) = be_bytes 2 (m_type m) @
        be_bytes 2 (of_nat (length (attrs_bytes (m_transaction_id m) (m_attrs m)) + 8) :: u16) @
        id_bytes (m_transaction_id m) @ attrs_bytes (m_transaction_id m) (m_attrs m)"
    using Write_prefix[OF assms(1) d(1) d(2), of 0 thesis] assms(2) by (simp add: d pad4_mod)
  have c: "SetValue (fp_attr 0) v = fp_attr v" for v
    by (simp add: fp_attr_def StunUInt32Attribute_def SetValue_def)
  have e: "(add_attr m (fp_attr 0))\<lparr>m_attrs := butlast (m_attrs (add_attr m (fp_attr 0))) @ [fp_attr v]\<rparr> = add_attr m (fp_attr v)" for v
    by (simp add: add_attr_def d)
  show ?thesis
    unfolding AddFingerprint_def fp_attr_def[symmetric] AddAttribute_typed[OF d(2)] Let_def
      prod.case b(1) option.case d(4) kStunAttributeHeaderSize_def c
    using b(2) e by simp
qed

section \<open>Completed messages are accepted\<close>

lemma Write_content:
  assumes "msg_ok m"
  obtains b where "Write m (ByteBuffer_empty ORDER_NETWORK) = Some b" "take (Length b) (Data b) = msg_bytes m"
proof -
  obtain b where b: "Write m (ByteBuffer_empty ORDER_NETWORK) = Some b" "bb_at b (msg_bytes m)"
    using Write_new assms by (auto simp: msg_ok_def)
  then show thesis using that[OF b(1)] Data_content[of b] by (simp add: bb_at_def)
qed

lemma hmac_20: "length (hmac sha1_hash key x) = 20"
  by (rule ComputeHmac_sha1)

text \<open>A message with the integrity attribute and, after it, any attribute that fits.\<close>

lemma Validate_added:
  assumes m: "msg_ok m" "\<forall>a\<in>set (m_attrs m). a_type a \<noteq> STUN_ATTR_MESSAGE_INTEGRITY" "unat (m_length m) + 24 < 65536"
  shows "fst (AddMessageIntegrity m key)" "msg_ok (snd (AddMessageIntegrity m key))"
    "ValidateMessageIntegrity (msg_bytes (snd (AddMessageIntegrity m key))) key = Some True"
    "attr_ok (Some (m_transaction_id m)) a \<Longrightarrow>
     unat (m_length m) + 24 + length (attr_bytes (m_transaction_id m) a) < 65536 \<Longrightarrow>
     ValidateMessageIntegrity (msg_bytes (add_attr (snd (AddMessageIntegrity m key)) a)) key = Some True"
    "unat (m_length (snd (AddMessageIntegrity m key))) = unat (m_length m) + 24"
    "m_transaction_id (snd (AddMessageIntegrity m key)) = m_transaction_id m"
proof -
  let ?tid = "m_transaction_id m" and ?A = "attrs_bytes (m_transaction_id m) (m_attrs m)"
  let ?P = "\<lambda>n. be_bytes 2 (m_type m) @ be_bytes 2 (of_nat n :: u16) @ id_bytes ?tid @ ?A"
  define h where "h = hmac sha1_hash key (?P (length ?A + 24))"
  have lh: "length h = 20" unfolding h_def by (rule hmac_20)
  note d = mi_attr_simps[of h, OF lh]
  have e: "AddMessageIntegrity m key = (True, add_attr m (mi_attr h))"
    unfolding h_def by (rule AddMessageIntegrity_eq[OF m(1,3)])
  have ok: "tid_ok ?tid" "\<forall>a\<in>set (m_attrs m). attr_ok (Some ?tid) a \<and> a_type a \<noteq> STUN_ATTR_MESSAGE_INTEGRITY"
      "unat (m_length m) = length ?A"
    using m(1,2) by (auto simp: msg_ok_def)
  have bl: "length (attr_bytes ?tid (mi_attr h)) = 24" by (simp add: d(5) lh)
  have ok1: "msg_ok (add_attr m (mi_attr h))"
    using add_attr_ok[OF m(1) d(1,2)] m(3) bl by simp
  have l1: "unat (m_length (add_attr m (mi_attr h))) = unat (m_length m) + 24"
    using add_attr_length(1)[OF m(1) d(1)] m(3) bl by simp
  show "fst (AddMessageIntegrity m key)" "msg_ok (snd (AddMessageIntegrity m key))"
    "unat (m_length (snd (AddMessageIntegrity m key))) = unat (m_length m) + 24"
    "m_transaction_id (snd (AddMessageIntegrity m key)) = m_transaction_id m"
    using e ok1 l1 by simp_all
  have u: "unat (of_nat (length ?A + 24) :: u16) = length ?A + 24 + length ([] :: u8 list)"
    using m(3) ok(3) by (subst unat_of_nat_u16) simp_all
  have b1: "msg_bytes (add_attr m (mi_attr h)) = ?P (length ?A + 24) @ attr_bytes ?tid (mi_attr h)"
    using add_attr_bytes[OF m(1) d(1)] m(3) bl by simp
  show "ValidateMessageIntegrity (msg_bytes (snd (AddMessageIntegrity m key))) key = Some True"
    using Validate_shape[OF ok(1) lh ok(2) u, of "m_type m" key] e b1 d(5)
    unfolding h_def[symmetric] by simp
  assume a: "attr_ok (Some ?tid) a" "unat (m_length m) + 24 + length (attr_bytes ?tid a) < 65536"
  let ?n = "length ?A + 24 + length (attr_bytes ?tid a)"
  have u2: "unat (of_nat ?n :: u16) = ?n" using a(2) ok(3) by (subst unat_of_nat_u16) simp_all
  have b2: "msg_bytes (add_attr (add_attr m (mi_attr h)) a) = ?P ?n @ attr_bytes ?tid (mi_attr h) @ attr_bytes ?tid a"
    using add_attr_bytes[OF ok1, of a] a l1 bl by simp
  show "ValidateMessageIntegrity (msg_bytes (add_attr (snd (AddMessageIntegrity m key)) a)) key = Some True"
    using Validate_shape[OF ok(1) lh ok(2) u2 length_attr_bytes(2)[OF a(1)], of "m_type m" key] e b2 d(5)
    unfolding h_def[symmetric] by simp
qed

text \<open>A message without an integrity attribute that has room for one accepts it, stays
  well-formed, and its bytes pass the integrity check under the same key.\<close>
theorem stun_integrity:
  assumes "msg_ok m" "\<forall>a\<in>set (m_attrs m). a_type a \<noteq> STUN_ATTR_MESSAGE_INTEGRITY" "unat (m_length m) + 24 < 65536"
  shows "\<exists>m' b. AddMessageIntegrity m key = (True, m') \<and> msg_ok m' \<and>
    Write m' (ByteBuffer_empty ORDER_NETWORK) = Some b \<and>
    ValidateMessageIntegrity (take (Length b) (Data b)) key = Some True"
proof -
  obtain m' where m': "AddMessageIntegrity m key = (True, m')"
    using Validate_added(1)[OF assms, of key] by (cases "AddMessageIntegrity m key") auto
  have ok: "msg_ok m'" using Validate_added(2)[OF assms, of key] m' by simp
  obtain b where "Write m' (ByteBuffer_empty ORDER_NETWORK) = Some b" "take (Length b) (Data b) = msg_bytes m'"
    using Write_content[OF ok] .
  then show ?thesis using m' ok Validate_added(3)[OF assms, of key] by simp
qed

section \<open>Fingerprint\<close>

lemma ValidateFingerprint_shape:
  assumes "length P mod 4 = 0" "20 \<le> length P" "chunk 4 4 P = be_bytes 4 kStunMagicCookie"
  shows "ValidateFingerprint (P @ be_bytes 2 STUN_ATTR_FINGERPRINT @ be_bytes 2 (4 :: u16) @ be_bytes 4 v) \<longleftrightarrow>
    v XOR STUN_FINGERPRINT_XOR_VALUE = ComputeCrc32 P"
proof -
  let ?d = "P @ be_bytes 2 STUN_ATTR_FINGERPRINT @ be_bytes 2 (4 :: u16) @ be_bytes 4 v"
  have g: "GetBE16 (be_bytes 2 (w :: u16) @ r) = w" "GetBE32 (be_bytes 4 (x :: u32)) = x" for w x r
    by (simp_all add: GetBE16_eq GetBE32_eq be_word_be_bytes)
  have c: "GetBE32 (drop 4 ?d) = kStunMagicCookie"
    using assms(2,3) by (simp add: GetBE32_eq be_word_be_bytes chunk_def)
  have l: "length ?d = length P + 8" by simp
  have m: "(length P + 8) mod 4 = 0" using assms(1) by presburger
  have t: "drop (length P + 8 - 8) ?d = be_bytes 2 STUN_ATTR_FINGERPRINT @ be_bytes 2 (4 :: u16) @ be_bytes 4 v"
      "take (length P + 8 - 8) ?d = P" by simp_all
  show ?thesis
    unfolding ValidateFingerprint_def Let_def kStunHeaderSize_def kStunAttributeHeaderSize_def UInt32_SIZE_def
      kStunTransactionIdOffset_def kStunMagicCookieLength_def
    using c m t assms(2) by (simp add: g l)
qed

lemma ValidateFingerprint_added:
  assumes m: "msg_ok m" "length (m_transaction_id m) = kStunTransactionIdLength" "unat (m_length m) + 8 < 65536"
  shows "fst (AddFingerprint m)" "msg_ok (snd (AddFingerprint m))" "ValidateFingerprint (msg_bytes (snd (AddFingerprint m)))"
    "\<exists>v. snd (AddFingerprint m) = add_attr m (fp_attr v)"
proof -
  let ?tid = "m_transaction_id m" and ?A = "attrs_bytes (m_transaction_id m) (m_attrs m)"
  let ?P = "be_bytes 2 (m_type m) @ be_bytes 2 (of_nat (length ?A + 8) :: u16) @ id_bytes ?tid @ ?A"
  let ?v = "ComputeCrc32 ?P XOR STUN_FINGERPRINT_XOR_VALUE"
  have e: "AddFingerprint m = (True, add_attr m (fp_attr ?v))" using AddFingerprint_eq[OF m(1,3)] .
  have bl: "length (attr_bytes ?tid (fp_attr ?v)) = 8" by (simp add: fp_attr_simps(5))
  have dA: "4 dvd length ?A" using m(1) by (auto simp: msg_ok_def intro!: length_attrs_bytes)
  have id: "id_bytes ?tid = be_bytes 4 kStunMagicCookie @ ?tid" "length ?tid = 12"
    using m(2) by (simp_all add: id_bytes_def kStunTransactionIdLength_def kStunLegacyTransactionIdLength_def)
  have "length ?P = length ?A + 20" using id by simp
  then have P: "length ?P mod 4 = 0" "20 \<le> length ?P" using dA by (auto simp: mod_add_eq elim!: dvdE)
  have ck: "chunk 4 4 ?P = be_bytes 4 kStunMagicCookie" using id by (simp add: chunk_def)
  show "fst (AddFingerprint m)" "\<exists>v. snd (AddFingerprint m) = add_attr m (fp_attr v)" using e by auto
  show "msg_ok (snd (AddFingerprint m))"
    using e add_attr_ok[OF m(1) fp_attr_simps(1,2)] bl m(3) by simp
  have "msg_bytes (add_attr m (fp_attr ?v)) = ?P @ attr_bytes ?tid (fp_attr ?v)"
    using add_attr_bytes[OF m(1) fp_attr_simps(1)] bl m(3) by simp
  then show "ValidateFingerprint (msg_bytes (snd (AddFingerprint m)))"
    using e ValidateFingerprint_shape[OF P ck, of ?v] by (simp add: fp_attr_simps(5) xor.assoc)
qed

text \<open>A message completed by \<^verbatim>\<open>AddMessageIntegrity\<close> and then
  \<^verbatim>\<open>AddFingerprint\<close> passes the integrity check, although the fingerprint comes after the
  attribute it covers, and the fingerprint check, and is read back as it is.\<close>
theorem stun_integrity_fingerprint:
  assumes m: "msg_ok m" "\<forall>a\<in>set (m_attrs m). a_type a \<noteq> STUN_ATTR_MESSAGE_INTEGRITY" "unat (m_length m) + 32 < 65536"
    and tid: "length (m_transaction_id m) = kStunTransactionIdLength"
  shows "\<exists>m1 m2 b b'. AddMessageIntegrity m key = (True, m1) \<and> AddFingerprint m1 = (True, m2) \<and>
    Write m2 (ByteBuffer_empty ORDER_NETWORK) = Some b \<and>
    ValidateMessageIntegrity (take (Length b) (Data b)) key = Some True \<and>
    ValidateFingerprint (take (Length b) (Data b)) \<and>
    Read (StunMessage_new (m_class m2)) b = Some (m2, b')"
proof -
  have r: "unat (m_length m) + 24 < 65536" using m(3) by simp
  note v = Validate_added[OF m(1,2) r, where key = key]
  obtain m1 where m1: "AddMessageIntegrity m key = (True, m1)"
    using v(1) by (cases "AddMessageIntegrity m key") auto
  have ok1: "msg_ok m1" and t1: "length (m_transaction_id m1) = kStunTransactionIdLength" "unat (m_length m1) + 8 < 65536"
    using v(2,5,6) m1 tid m(3) by simp_all
  note f = ValidateFingerprint_added[OF ok1 t1]
  obtain m2 where m2: "AddFingerprint m1 = (True, m2)" using f(1) by (cases "AddFingerprint m1") auto
  obtain w where w: "m2 = add_attr m1 (fp_attr w)" using f(4) m2 by auto
  have "ValidateMessageIntegrity (msg_bytes m2) key = Some True"
    using v(4)[of "fp_attr w"] m1 w m(3) fp_attr_simps by simp
  moreover have ok2: "msg_ok m2" and "ValidateFingerprint (msg_bytes m2)" using f(2,3) m2 by simp_all
  moreover obtain b where b: "Write m2 (ByteBuffer_empty ORDER_NETWORK) = Some b" "bb_at b (msg_bytes m2)"
    using Write_new[of m2] ok2 by (auto simp: msg_ok_def)
  moreover have "take (Length b) (Data b) = msg_bytes m2" using b(2) Data_content[of b] by (simp add: bb_at_def)
  moreover obtain b' where "Read (StunMessage_new (m_class m2)) b = Some (m2, b')"
    using Read_msg_bytes[OF b(2) ok2] by blast
  ultimately show ?thesis using m1 m2 by auto
qed

section \<open>Instances\<close>

text \<open>A binding request with a user name of five characters.\<close>

definition example_request :: StunMessage where
  "example_request = \<lparr>m_class = StunMessageClass, m_type = 1, m_length = 12,
     m_transaction_id = [1, 2, 3, 4, 5, 6, 7, 8, 9, 10, 11, 12],
     m_attrs = [StunByteStringAttribute STUN_ATTR_USERNAME [0x61, 0x62, 0x63, 0x64, 0x65]]\<rparr>"

lemma example_request_ok:
  "msg_ok example_request" "\<forall>a\<in>set (m_attrs example_request). a_type a \<noteq> STUN_ATTR_MESSAGE_INTEGRITY"
  "unat (m_length example_request) + 32 < 65536" "length (m_transaction_id example_request) = kStunTransactionIdLength"
  by (simp_all add: example_request_def msg_ok_def tid_ok_def attr_ok_def typed_attr_def value_type_def attr_bytes_def
      StunByteStringAttribute_def CopyBytes_def attr_body_def pad4_def kStunTransactionIdLength_def STUN_ATTR_USERNAME_def
      STUN_ATTR_MESSAGE_INTEGRITY_def GetAttributeValueType_def StunMessage_GetAttributeValueType_def)

lemma stun_roundtrip_witness:
  "\<exists>b. Write example_request (ByteBuffer_empty ORDER_NETWORK) = Some b \<and>
    (\<exists>b'. Read (StunMessage_new (m_class example_request)) b = Some (example_request, b') \<and> Length b' = 0)"
  by (rule stun_roundtrip[OF example_request_ok(1)])

lemma stun_integrity_witness:
  "\<exists>m' b. AddMessageIntegrity example_request [1, 2, 3] = (True, m') \<and> msg_ok m' \<and>
    Write m' (ByteBuffer_empty ORDER_NETWORK) = Some b \<and>
    ValidateMessageIntegrity (take (Length b) (Data b)) [1, 2, 3] = Some True"
  by (rule stun_integrity[OF example_request_ok(1,2)]) (simp add: example_request_def)

lemma stun_integrity_fingerprint_witness:
  "\<exists>m1 m2 b b'. AddMessageIntegrity example_request [1, 2, 3] = (True, m1) \<and> AddFingerprint m1 = (True, m2) \<and>
    Write m2 (ByteBuffer_empty ORDER_NETWORK) = Some b \<and>
    ValidateMessageIntegrity (take (Length b) (Data b)) [1, 2, 3] = Some True \<and>
    ValidateFingerprint (take (Length b) (Data b)) \<and>
    Read (StunMessage_new (m_class m2)) b = Some (m2, b')"
  by (rule stun_integrity_fingerprint[OF example_request_ok])

end
