(* ===== verification/StunSafety.thy ===== *)
theory StunSafety
  imports StunProps
begin

text \<open>
  What holds of the STUN readers and checks on input of any shape: what
  \<^verbatim>\<open>StunMessage::Read\<close> guarantees of a message it accepts, what an accepted integrity
  attribute certifies, that the fingerprint notices any changed byte, and three inputs on which
  the code leaves its buffer or accepts a length it should refuse.
\<close>

section \<open>Reading any bytes\<close>

lemma Create_value_type: "StunAttribute_Create vt t n = Some a \<Longrightarrow> value_type a = vt \<and> a_type a = t"
  by (auto simp: StunAttribute_Create_def value_type_def split: StunAttributeValueType.splits)

lemma attr_Read_type: "attr_Read owner a b = Some (a', b') \<Longrightarrow> value_type a' = value_type a \<and> a_type a' = a_type a"
  by (cases "a_value a") (auto simp: attr_Read_defs value_type_def Let_def split: option.splits if_splits prod.splits)

lemma attrs_Read_sound:
  "attrs_Read c tid rest as b = Some (as', b') \<Longrightarrow> \<forall>a\<in>set as. typed_attr c a \<Longrightarrow>
   (\<forall>a\<in>set as'. typed_attr c a) \<and> Length b' \<le> rest"
proof (induction c tid rest as b rule: attrs_Read.induct)
  case (1 c tid rest as buf)
  show ?case
  proof (cases "Length buf > rest")
    case False
    then show ?thesis using 1(3,4) by (simp add: attrs_Read.simps[of c tid rest as buf])
  next
    case True
    then obtain t b1 n b2 where b: "ReadUInt16 buf = Some (t, b1)" "ReadUInt16 b1 = Some (n, b2)"
      using 1(3) by (auto simp: attrs_Read.simps[of c tid rest as buf] split: option.splits)
    show ?thesis
    proof (cases "StunAttribute_Create (GetAttributeValueType c t) t n")
      case None
      let ?n = "if unat n mod 4 \<noteq> 0 then n + of_nat (4 - unat n mod 4) else n"
      obtain b3 where "Consume b2 (unat ?n) = Some b3" "attrs_Read c tid rest as b3 = Some (as', b')"
        using 1(3) True b None by (auto simp: attrs_Read.simps[of c tid rest as buf] Let_def split: option.splits)
      then show ?thesis using 1(1)[OF True b(1) refl b(2) refl None refl] 1(4) by simp
    next
      case (Some a)
      then obtain a' b3 where a': "attr_Read (Some tid) a b2 = Some (a', b3)" "attrs_Read c tid rest (as @ [a']) b3 = Some (as', b')"
        using 1(3) True b by (auto simp: attrs_Read.simps[of c tid rest as buf] split: option.splits)
      have "typed_attr c a'" using Create_value_type[OF Some] attr_Read_type[OF a'(1)] by (simp add: typed_attr_def)
      then have "\<forall>a\<in>set (as @ [a']). typed_attr c a" using 1(4) by simp
      then show ?thesis by (rule 1(2)[OF True b(1) refl b(2) refl Some a'(1) refl a'(2)])
    qed
  qed
qed

lemma length_ReadString: "ReadString b [] n = Some (s, b') \<Longrightarrow> bb_inv b \<Longrightarrow> length s = n \<and> bb_inv b'"
  by (auto simp: ReadString_def bb_inv_def Length_def split: if_splits)

lemma ReadUInt16_inv: "ReadUInt16 b = Some (v, b') \<Longrightarrow> bb_inv b \<Longrightarrow> bb_inv b'"
  by (auto simp: ReadUInt16_def ReadBytes_def bb_inv_def Length_def Let_def split: if_splits option.splits)

text \<open>C27: whatever the bytes, a message that is read successfully has a type with a clear top bit,
  a transaction id of one of the two lengths, and only attributes of the class that their type has in
  this message, the later ones of a type it has several of included; what an accessor finds is one of them, of
  the type asked for, so that the casts of \<^verbatim>\<open>GetAddress\<close>, \<^verbatim>\<open>GetUInt32\<close> and
  the others are right; and the buffer has been used up.\<close>
theorem stun_read_typed:
  assumes "Read m b = Some (m', b')" "bb_inv b"
  shows "m_type m' AND 0x8000 = 0 \<and> IsValidTransactionId (m_transaction_id m') \<and>
    (\<forall>a\<in>set (m_attrs m'). value_type a = GetAttributeValueType (m_class m) (a_type a)) \<and>
    (\<forall>type a. GetAttribute m' type = Some a \<longrightarrow>
       a \<in> set (m_attrs m') \<and> a_type a = type \<and> value_type a = GetAttributeValueType (m_class m) type) \<and>
    Length b' = 0"
proof -
  obtain t b1 where r1: "ReadUInt16 b = Some (t, b1)"
    using assms(1) by (cases "ReadUInt16 b") (auto simp: Read_def)
  note R = assms(1)[unfolded Read_def r1 option.case prod.case kStunMagicCookieLength_def kStunTransactionIdLength_def]
  have t: "t AND 0x8000 = 0" using R by (rule contrapos_pp) (simp only: if_True option.simps not_False_eq_True)
  note R = R[unfolded t, simplified if_False simp_thms]
  obtain n b2 where r2: "ReadUInt16 b1 = Some (n, b2)" using R by (cases "ReadUInt16 b1") auto
  note R = R[unfolded r2 option.case prod.case]
  obtain ck b3 where r3: "ReadString b2 [] 4 = Some (ck, b3)" using R by (cases "ReadString b2 [] 4") auto
  note R = R[unfolded r3 option.case prod.case]
  obtain id b4 where r4: "ReadString b3 [] 12 = Some (id, b4)" using R by (cases "ReadString b3 [] 12") auto
  note R = R[unfolded r4 option.case prod.case]
  define tid where "tid = (if NetworkToHost32 (load_host ck) \<noteq> kStunMagicCookie then ck @ id else id)"
  note R = R[unfolded Let_def tid_def[symmetric]]
  have n: "unat n = Length b4" using R by (rule contrapos_pp) simp
  note R = R[unfolded n, simplified]
  obtain as where a: "attrs_Read (m_class m) tid 0 [] b4 = Some (as, b')" and m': "m' = m\<lparr>m_type := t, m_length := n, m_transaction_id := tid, m_attrs := as\<rparr>"
    using R by (cases "attrs_Read (m_class m) tid 0 [] b4") auto
  have inv: "bb_inv b2" using ReadUInt16_inv[OF r1 assms(2)] ReadUInt16_inv[OF r2] by simp
  have l: "length ck = 4" "length id = 12"
    using length_ReadString[OF r3 inv] length_ReadString[OF r4] by simp_all
  have s: "\<forall>a\<in>set as. typed_attr (m_class m) a" "Length b' = 0"
    using attrs_Read_sound[OF a] by simp_all
  have "IsValidTransactionId tid"
    using l by (simp add: tid_def IsValidTransactionId_def kStunTransactionIdLength_def kStunLegacyTransactionIdLength_def)
  moreover have "x \<in> set as \<and> a_type x = type \<and> value_type x = GetAttributeValueType (m_class m) type" if "GetAttribute m' type = Some x" for type x
  proof -
    have "find (\<lambda>a. a_type a = type) as = Some x" using that by (simp add: GetAttribute_def m')
    then obtain i where "i < length as" "a_type (as ! i) = type" "x = as ! i" by (auto simp: find_Some_iff)
    then show ?thesis using s(1) nth_mem[of i as] by (simp add: typed_attr_def)
  qed
  moreover have "\<forall>a\<in>set as. value_type a = GetAttributeValueType (m_class m) (a_type a)" using s(1) by (simp add: typed_attr_def)
  ultimately show ?thesis using t s(2) by (simp add: m')
qed

lemma stun_read_typed_witness:
  "\<exists>m' b'. Read (StunMessage_new StunMessageClass) (ByteBuffer_of (msg_bytes example_request)) = Some (m', b') \<and>
    m_type m' AND 0x8000 = 0 \<and> IsValidTransactionId (m_transaction_id m') \<and>
    (\<forall>type a. GetAttribute m' type = Some a \<longrightarrow> a_type a = type \<and> value_type a = GetAttributeValueType StunMessageClass type) \<and>
    Length b' = 0"
proof -
  let ?b = "ByteBuffer_of (msg_bytes example_request)"
  obtain b' where b': "Read (StunMessage_new StunMessageClass) ?b = Some (example_request, b')"
    using Read_msg_bytes[OF bb_at_new(2) example_request_ok(1)] by (auto simp: example_request_def)
  have "bb_inv ?b" using bb_at_new(2)[of "msg_bytes example_request"] by (simp add: bb_at_def bb_net_def)
  from stun_read_typed[OF b' this] show ?thesis using b' by (auto simp: StunMessage_new_def)
qed

section \<open>What an accepted integrity attribute certifies\<close>

lemma find_mi_sound:
  "find_message_integrity d p = Some (Some q) \<Longrightarrow>
   p \<le> q \<and> q + 20 \<le> length d \<and> peek16 d q = Some STUN_ATTR_MESSAGE_INTEGRITY \<and> peek16 d (q + 2) = Some 20"
proof (induction d p rule: find_message_integrity.induct)
  case (1 d p)
  show ?case
  proof (cases "p < length d \<and> (\<exists>t n. peek16 d p = Some t \<and> peek16 d (p + 2) = Some n)")
    case False
    then show ?thesis using 1(2)
      by (auto simp: find_message_integrity.simps[of d p] split: if_split_asm option.splits)
  next
    case True
    then obtain t n where k: "p < length d" "peek16 d p = Some t" "peek16 d (p + 2) = Some n" by blast
    show ?thesis
    proof (cases "t = STUN_ATTR_MESSAGE_INTEGRITY")
      case True
      then have e: "p = q" "unat n = 20" "p + 20 \<le> length d"
        using 1(2) k by (auto simp: find_message_integrity.simps[of d p] kStunMessageIntegritySize_def split: if_split_asm)
      then have "n = 20" using word_nat_inverse[of n] by simp
      then show ?thesis using True k e by simp
    next
      case False
      let ?p = "if unat n mod 4 \<noteq> 0 then p + 2 + 2 + unat n + (4 - unat n mod 4) else p + 2 + 2 + unat n"
      have f: "find_message_integrity d ?p = Some (Some q)"
        using 1(2) k False unfolding find_message_integrity.simps[of d p] Let_def by simp
      have "?p \<le> q \<and> q + 20 \<le> length d \<and> peek16 d q = Some STUN_ATTR_MESSAGE_INTEGRITY \<and> peek16 d (q + 2) = Some 20"
        by (rule 1(1)[OF k False refl refl f])
      moreover have "p \<le> ?p" by (split if_split) linarith
      ultimately show ?thesis by linarith
    qed
  qed
qed

lemma Validate_sound:
  assumes "ValidateMessageIntegrity d key = Some True"
  shows "length d mod 4 = 0 \<and> peek16 d 2 = Some (of_nat (length d - 20)) \<and>
    (\<exists>pos. 20 \<le> pos \<and> pos + 24 \<le> length d \<and>
      peek16 d pos = Some STUN_ATTR_MESSAGE_INTEGRITY \<and> peek16 d (pos + 2) = Some 20 \<and>
      chunk (pos + 4) 20 d = hmac sha1_hash key (mac_input d pos))"
proof -
  note R = assms[unfolded ValidateMessageIntegrity_def Let_def kStunHeaderSize_def kStunAttributeHeaderSize_def kStunMessageIntegritySize_def]
  have m4: "length d mod 4 = 0" using R by (rule contrapos_pp) simp
  note R = R[unfolded m4, simplified if_False simp_thms]
  obtain L where L: "peek16 d 2 = Some L" using R by (cases "peek16 d 2") auto
  note R = R[unfolded L option.case]
  have len: "length d = unat L + 20" using R by (rule contrapos_pp) simp
  obtain pos where fm: "find_message_integrity d 20 = Some (Some pos)"
    using R len by (cases "find_message_integrity d 20"; cases "the (find_message_integrity d 20)") auto
  note f = find_mi_sound[OF fm]
  have p24: "pos + 24 \<le> length d"
  proof (rule ccontr)
    assume "\<not> pos + 24 \<le> length d"
    then show False using R len fm by (simp add: ComputeHmac_sha1)
  qed
  have "chunk (pos + 4) 20 d = hmac sha1_hash key (mac_input d pos)"
    using assms Validate_found[OF m4 L len fm _ p24, of key] f by simp
  moreover have "L = of_nat (length d - 20)" using len word_nat_inverse[of L] by simp
  ultimately show ?thesis using m4 L f p24 by blast
qed

text \<open>C3: if the integrity check accepts a packet under a key, whatever the packet, then it is a
  whole number of words long, its length field is right, and at some attribute boundary stands an
  integrity attribute whose twenty bytes are the HMAC-SHA1 under that key of everything before it,
  with the length field counting up to its end.\<close>
theorem stun_integrity_sound:
  assumes "ValidateMessageIntegrity d key = Some True"
  shows "length d mod 4 = 0 \<and> peek16 d 2 = Some (of_nat (length d - 20)) \<and>
    (\<exists>pos. 20 \<le> pos \<and> pos + 24 \<le> length d \<and>
      peek16 d pos = Some STUN_ATTR_MESSAGE_INTEGRITY \<and> peek16 d (pos + 2) = Some 20 \<and>
      chunk (pos + 4) 20 d = hmac sha1_hash key (mac_input d pos))"
  using assms by (rule Validate_sound)

lemma stun_integrity_sound_witness:
  "let d = msg_bytes (snd (AddMessageIntegrity example_request [1, 2, 3])) in
    length d mod 4 = 0 \<and> peek16 d 2 = Some (of_nat (length d - 20)) \<and>
    (\<exists>pos. 20 \<le> pos \<and> pos + 24 \<le> length d \<and>
      peek16 d pos = Some STUN_ATTR_MESSAGE_INTEGRITY \<and> peek16 d (pos + 2) = Some 20 \<and>
      chunk (pos + 4) 20 d = hmac sha1_hash [1, 2, 3] (mac_input d pos))"
proof -
  have "unat (m_length example_request) + 24 < 65536" by (simp add: example_request_def)
  from stun_integrity_sound[OF Validate_added(3)[OF example_request_ok(1,2) this, of "[1, 2, 3]"]]
  show ?thesis by (simp only: Let_def)
qed

text \<open>C28: a packet that ends four bytes before its integrity attribute does is not refused: the
  check compares with the four bytes behind it. The test for the end of the packet leaves the
  attribute's own header out.\<close>
theorem stun_integrity_over_read:
  assumes "length mac = 16" "length tid = 16"
  shows "ValidateMessageIntegrity (be_bytes 2 type @ be_bytes 2 (20 :: u16) @ tid @
    be_bytes 2 STUN_ATTR_MESSAGE_INTEGRITY @ be_bytes 2 (20 :: u16) @ mac) key = None"
proof -
  let ?pre = "be_bytes 2 type @ be_bytes 2 (20 :: u16) @ tid"
  define d where "d = ?pre @ be_bytes 2 STUN_ATTR_MESSAGE_INTEGRITY @ be_bytes 2 (20 :: u16) @ mac"
  have l: "length d = 40" using assms by (simp add: d_def)
  have pk: "peek16 d 2 = Some 20" using peek16_at[of "be_bytes 2 type" 2 "20 :: u16"] by (simp add: d_def)
  have k: "peek16 d 20 = Some STUN_ATTR_MESSAGE_INTEGRITY" "peek16 d (20 + 2) = Some 20"
    using peek16_at[of ?pre 20] peek16_at2[of ?pre 20] assms(2) by (simp_all add: d_def)
  have fm: "find_message_integrity d 20 = Some (Some 20)"
    using l k by (subst find_message_integrity.simps) (simp add: kStunMessageIntegritySize_def)
  have "ValidateMessageIntegrity d key = None"
    unfolding ValidateMessageIntegrity_def Let_def kStunHeaderSize_def kStunAttributeHeaderSize_def kStunMessageIntegritySize_def
      pk option.case fm l
    by (simp add: ComputeHmac_sha1)
  then show ?thesis by (simp add: d_def)
qed

lemma stun_integrity_over_read_witness:
  "ValidateMessageIntegrity (be_bytes 2 (1 :: u16) @ be_bytes 2 (20 :: u16) @ replicate 16 0 @
    be_bytes 2 STUN_ATTR_MESSAGE_INTEGRITY @ be_bytes 2 (20 :: u16) @ replicate 16 7) [1, 2, 3] = None"
  by (rule stun_integrity_over_read) simp_all

section \<open>The fingerprint notices a changed byte\<close>

lemma crc_list_update:
  assumes "i < length xs" "v \<noteq> xs ! i"
  shows "ComputeCrc32 (xs[i := v]) \<noteq> ComputeCrc32 xs"
  using UpdateCrc32_change[of v "xs ! i" 0 "take i xs" "drop (Suc i) xs"] assms
  unfolding ComputeCrc32_def by (simp add: upd_conv_take_nth_drop Cons_nth_drop_Suc)

lemma GetBE_is:
  "2 \<le> length m \<Longrightarrow> GetBE16 m = w \<longleftrightarrow> take 2 m = be_bytes 2 w"
  "4 \<le> length m \<Longrightarrow> GetBE32 m = x \<longleftrightarrow> take 4 m = be_bytes 4 x"
  using be_bytes_be_word[of "take 2 m", where 'a = 16] be_bytes_be_word[of "take 4 m", where 'a = 32]
  by (auto simp: GetBE16_eq GetBE32_eq be_word_be_bytes)

lemma xor_swap: "x XOR k = c \<longleftrightarrow> x = c XOR k" for x k c :: "'a::len word"
  by (auto simp: xor.assoc)

lemma fields_8:
  assumes "length m = 8"
  shows "m = be_bytes 2 a @ be_bytes 2 b @ be_bytes 4 c \<longleftrightarrow>
    take 2 m = be_bytes 2 (a :: u16) \<and> take 2 (drop 2 m) = be_bytes 2 (b :: u16) \<and> take 4 (drop 4 m) = be_bytes 4 (c :: u32)"
proof
  assume "take 2 m = be_bytes 2 a \<and> take 2 (drop 2 m) = be_bytes 2 b \<and> take 4 (drop 4 m) = be_bytes 4 c"
  then show "m = be_bytes 2 a @ be_bytes 2 b @ be_bytes 4 c"
    using append_take_drop_id[of 2 m] append_take_drop_id[of 2 "drop 2 m"] assms by simp
qed (auto simp: assms)

lemma ValidateFingerprint_iff:
  "ValidateFingerprint d \<longleftrightarrow> length d mod 4 = 0 \<and> 28 \<le> length d \<and> chunk 4 4 d = be_bytes 4 kStunMagicCookie \<and>
     drop (length d - 8) d = be_bytes 2 STUN_ATTR_FINGERPRINT @ be_bytes 2 (4 :: u16) @
       be_bytes 4 (ComputeCrc32 (take (length d - 8) d) XOR STUN_FINGERPRINT_XOR_VALUE)"
proof (cases "length d mod 4 = 0 \<and> 28 \<le> length d")
  case True
  let ?m = "drop (length d - 8) d"
  have l: "length ?m = 8" using True by simp
  have g: "GetBE32 (drop 4 d) = kStunMagicCookie \<longleftrightarrow> chunk 4 4 d = be_bytes 4 kStunMagicCookie"
      "GetBE16 ?m = STUN_ATTR_FINGERPRINT \<longleftrightarrow> take 2 ?m = be_bytes 2 STUN_ATTR_FINGERPRINT"
      "GetBE16 (drop 2 ?m) = 4 \<longleftrightarrow> take 2 (drop 2 ?m) = be_bytes 2 (4 :: u16)"
      "GetBE32 (drop 4 ?m) XOR k = c \<longleftrightarrow> take 4 (drop 4 ?m) = be_bytes 4 (c XOR k)" for k c
    using True l by (simp_all only: xor_swap GetBE_is length_drop chunk_def)
  have c: "4 + unat (4 :: u16) = 8" "8 - 4 = (4 :: nat)" "(length d mod 4 \<noteq> 0 \<or> length d < 20 + 8) = False"
    using True by auto
  show ?thesis
    unfolding ValidateFingerprint_def Let_def kStunHeaderSize_def kStunAttributeHeaderSize_def UInt32_SIZE_def
      kStunTransactionIdOffset_def kStunMagicCookieLength_def c fields_8[OF l] g if_False
    using True by (auto split: if_split)
qed (auto simp: ValidateFingerprint_def Let_def kStunHeaderSize_def kStunAttributeHeaderSize_def UInt32_SIZE_def)

text \<open>Changing any one byte of a packet that passes the fingerprint check makes it fail.\<close>
theorem fingerprint_detects_byte:
  assumes "ValidateFingerprint d" "i < length d" "v \<noteq> d ! i"
  shows "\<not> ValidateFingerprint (d[i := v])"
proof
  assume f: "ValidateFingerprint (d[i := v])"
  let ?n = "length d - 8"
  have n: "28 \<le> length d" using assms(1) by (simp add: ValidateFingerprint_iff)
  show False
  proof (cases "i < ?n")
    case True
    have t: "drop ?n (d[i := v]) = drop ?n d" using True by simp
    have "be_bytes 4 (ComputeCrc32 (take ?n (d[i := v])) XOR STUN_FINGERPRINT_XOR_VALUE) =
        be_bytes 4 (ComputeCrc32 (take ?n d) XOR STUN_FINGERPRINT_XOR_VALUE)"
      using assms(1) f t unfolding ValidateFingerprint_iff by simp
    then have "ComputeCrc32 (take ?n (d[i := v])) = ComputeCrc32 (take ?n d)"
      using be_bytes_inj[of 4 "ComputeCrc32 (take ?n (d[i := v])) XOR STUN_FINGERPRINT_XOR_VALUE"
        "ComputeCrc32 (take ?n d) XOR STUN_FINGERPRINT_XOR_VALUE"]
      by (simp add: xor_cancel_right)
    moreover have "take ?n (d[i := v]) = (take ?n d)[i := v]" by (rule take_update_swap)
    ultimately show False using crc_list_update[of i "take ?n d" v] True assms(3) by simp
  next
    case False
    then have "take ?n (d[i := v]) = take ?n d" by simp
    then have "drop ?n (d[i := v]) = drop ?n d" using assms(1) f by (simp add: ValidateFingerprint_iff)
    then have "drop ?n (d[i := v]) ! (i - ?n) = drop ?n d ! (i - ?n)" by (rule arg_cong)
    then have "d[i := v] ! i = d ! i" using False assms(2) by simp
    then show False using assms(2,3) by simp
  qed
qed

text \<open>A header with the magic cookie and a fingerprint.\<close>

lemma example_fingerprint:
  "ValidateFingerprint (be_bytes 2 (1 :: u16) @ be_bytes 2 (8 :: u16) @ be_bytes 4 kStunMagicCookie @ replicate 12 0 @
     be_bytes 2 STUN_ATTR_FINGERPRINT @ be_bytes 2 (4 :: u16) @
     be_bytes 4 (ComputeCrc32 (be_bytes 2 (1 :: u16) @ be_bytes 2 (8 :: u16) @ be_bytes 4 kStunMagicCookie @ replicate 12 0) XOR
       STUN_FINGERPRINT_XOR_VALUE))"
proof -
  let ?P = "be_bytes 2 (1 :: u16) @ be_bytes 2 (8 :: u16) @ be_bytes 4 kStunMagicCookie @ replicate 12 0"
  have "ValidateFingerprint (?P @ be_bytes 2 STUN_ATTR_FINGERPRINT @ be_bytes 2 (4 :: u16) @
      be_bytes 4 (ComputeCrc32 ?P XOR STUN_FINGERPRINT_XOR_VALUE))"
    by (subst ValidateFingerprint_shape) (simp_all add: chunk_def xor_swap)
  then show ?thesis by simp
qed

lemma fingerprint_detects_byte_witness:
  "let d = be_bytes 2 (1 :: u16) @ be_bytes 2 (8 :: u16) @ be_bytes 4 kStunMagicCookie @ replicate 12 0 @
     be_bytes 2 STUN_ATTR_FINGERPRINT @ be_bytes 2 (4 :: u16) @
     be_bytes 4 (ComputeCrc32 (be_bytes 2 (1 :: u16) @ be_bytes 2 (8 :: u16) @ be_bytes 4 kStunMagicCookie @ replicate 12 0) XOR
       STUN_FINGERPRINT_XOR_VALUE)
   in \<not> ValidateFingerprint (d[12 := 7])"
  unfolding Let_def
  by (rule fingerprint_detects_byte[OF example_fingerprint])
    (simp_all add: nth_append kStunMagicCookie_def)

section \<open>A length that wraps\<close>

text \<open>An attribute of unknown type with length 65535 is accepted in a message that holds
  nothing but its header: the length is rounded up in 16 bits and becomes 0.\<close>
theorem stun_read_wrapped_length:
  assumes "type AND 0x8000 = 0" "length tid = 12" "GetAttributeValueType c attr_type = STUN_VALUE_UNKNOWN"
  shows "\<exists>b'. Read (StunMessage_new c) (ByteBuffer_of (be_bytes 2 type @ be_bytes 2 (4 :: u16) @ be_bytes 4 kStunMagicCookie @ tid @
      be_bytes 2 attr_type @ be_bytes 2 (0xFFFF :: u16))) =
    Some (\<lparr>m_class = c, m_type = type, m_length = 4, m_transaction_id = tid, m_attrs = []\<rparr>, b')"
proof -
  let ?b = "ByteBuffer_of (be_bytes 2 type @ be_bytes 2 (4 :: u16) @ be_bytes 4 kStunMagicCookie @ tid @
      be_bytes 2 attr_type @ be_bytes 2 (0xFFFF :: u16))"
  obtain b1 where b1: "ReadUInt16 ?b = Some (type, b1)" "bb_at b1 (be_bytes 2 (4 :: u16) @ be_bytes 4 kStunMagicCookie @ tid @
      be_bytes 2 attr_type @ be_bytes 2 (0xFFFF :: u16))"
    using bb_at_read(2)[OF bb_at_new(2)] by blast
  obtain b2 where b2: "ReadUInt16 b1 = Some (4, b2)" "bb_at b2 (be_bytes 4 kStunMagicCookie @ tid @ be_bytes 2 attr_type @ be_bytes 2 (0xFFFF :: u16))"
    using bb_at_read(2)[OF b1(2)] by blast
  obtain b3 where b3: "ReadString b2 [] 4 = Some (be_bytes 4 kStunMagicCookie, b3)" "bb_at b3 (tid @ be_bytes 2 attr_type @ be_bytes 2 (0xFFFF :: u16))"
    using bb_at_bytes(2)[OF b2(2), of 4 "[]"] by auto
  obtain b4 where b4: "ReadString b3 [] 12 = Some (tid, b4)" "bb_at b4 (be_bytes 2 attr_type @ be_bytes 2 (0xFFFF :: u16))"
    using bb_at_bytes(2)[OF b3(2), of 12 "[]"] assms(2) by auto
  obtain b5 where b5: "ReadUInt16 b4 = Some (attr_type, b5)" "bb_at b5 (be_bytes 2 (0xFFFF :: u16) @ [])"
    using bb_at_read(2)[OF b4(2)] by auto
  obtain b6 where b6: "ReadUInt16 b5 = Some (0xFFFF, b6)" "bb_at b6 []"
    using bb_at_read(2)[OF b5(2)] by blast
  obtain b7 where b7: "Consume b6 0 = Some b7" "bb_at b7 []"
    using bb_at_bytes(3)[of b6 "[]" "[]" 0] b6(2) by auto
  have L: "Length b4 = 4" using bb_at_Length[OF b4(2)] by simp
  have "attrs_Read c tid 0 [] b7 = Some ([], b7)"
    using bb_at_Length[OF b7(2)] by (subst attrs_Read.simps) simp
  then have a: "attrs_Read c tid 0 [] b4 = Some ([], b7)"
    using b5(1) b6(1) b7(1) assms(3) L
    by (subst attrs_Read.simps) (simp add: StunAttribute_Create_def)
  show ?thesis
    using b1(1) b2(1) b3(1) b4(1) L a assms(1) cookie_word[of "be_bytes 4 kStunMagicCookie"]
    unfolding Read_def kStunMagicCookieLength_def kStunTransactionIdLength_def
    by (simp add: StunMessage_new_def Let_def)
qed

lemma stun_read_wrapped_length_witness:
  "\<exists>b'. Read (StunMessage_new StunMessageClass) (ByteBuffer_of (be_bytes 2 (1 :: u16) @ be_bytes 2 (4 :: u16) @
      be_bytes 4 kStunMagicCookie @ replicate 12 0 @ be_bytes 2 (0x7777 :: u16) @ be_bytes 2 (0xFFFF :: u16))) =
    Some (\<lparr>m_class = StunMessageClass, m_type = 1, m_length = 4, m_transaction_id = replicate 12 0, m_attrs = []\<rparr>, b')"
  by (rule stun_read_wrapped_length) (simp_all add: GetAttributeValueType_def StunMessage_GetAttributeValueType_def)

end
