(* ===== verification/StunRequests.thy ===== *)
theory StunRequests
  imports StunMsg
begin

text \<open>
  The transactions of \<^verbatim>\<open>talk/p2p/base/stunrequest.h\<close> and
  \<^verbatim>\<open>stunrequest.cc\<close>: requests that are sent again until a response comes or their
  time is up, with the schedules of \<^verbatim>\<open>port.cc\<close> and \<^verbatim>\<open>relayport.cc\<close>.

  A request object is named by its transaction identifier. The thread is the list of the delayed
  messages it holds for the requests, by due time and, for equal times, in the order they were
  posted. What the owner is told is a log, newest first; a callback does nothing else here.
\<close>

section \<open>State\<close>

definition MAX_SENDS :: nat where "MAX_SENDS = 9"
definition DELAY_UNIT :: int where "DELAY_UNIT = 100"
definition DELAY_MAX_FACTOR :: int where "DELAY_MAX_FACTOR = 16"
definition CONNECTION_RESPONSE_TIMEOUT :: int where "CONNECTION_RESPONSE_TIMEOUT = 5 * 1000"

text \<open>The classes that choose their own delays.\<close>

datatype RequestKind = BaseRequest | ConnectionRequest | AllocateRequest

record StunRequest =
  rq_kind :: RequestKind
  rq_msg :: StunMessage
  rq_count :: nat
  rq_timeout :: bool
  rq_tstamp :: u32

text \<open>\<open>SendPacket\<close> has the bytes of the message, \<open>None\<close> when it could not be written whole.\<close>

datatype StunEvent =
    SendPacket int "u8 list" "u8 list option"
  | Response "u8 list" StunMessage
  | ErrorResponse "u8 list" StunMessage
  | Timeout int "u8 list"

fun event_id :: "StunEvent \<Rightarrow> u8 list" where
  "event_id (SendPacket t tid bytes) = tid"
| "event_id (Response tid m) = tid"
| "event_id (ErrorResponse tid m) = tid"
| "event_id (Timeout t tid) = tid"

fun is_outcome :: "StunEvent \<Rightarrow> bool" where
  "is_outcome (SendPacket t tid bytes) = False"
| "is_outcome e = True"

record RequestManager =
  requests :: "u8 list \<rightharpoonup> StunRequest"
  thread_queue :: "(int \<times> u8 list) list"
  thread_clock :: int
  rq_log :: "StunEvent list"

definition StunRequestManager_new :: "int \<Rightarrow> RequestManager" where
  "StunRequestManager_new now = \<lparr>requests = Map.empty, thread_queue = [], thread_clock = now, rq_log = []\<rparr>"

definition StunRequest_new :: "RequestKind \<Rightarrow> StunMessage \<Rightarrow> u8 list \<Rightarrow> StunRequest" where
  "StunRequest_new kind msg random_id =
     \<lparr>rq_kind = kind, rq_msg = snd (SetTransactionID msg random_id), rq_count = 0, rq_timeout = False, rq_tstamp = 0\<rparr>"

section \<open>Operations\<close>

text \<open>\<^verbatim>\<open>Thread::PostDelayed\<close> and \<^verbatim>\<open>Thread::Clear\<close>.\<close>

fun post :: "int \<times> 'a \<Rightarrow> (int \<times> 'a) list \<Rightarrow> (int \<times> 'a) list" where
  "post m [] = [m]"
| "post m (x # q) = (if fst m < fst x then m # x # q else x # post m q)"

definition PostDelayed :: "int \<Rightarrow> u8 list \<Rightarrow> RequestManager \<Rightarrow> RequestManager" where
  "PostDelayed delay tid m = m\<lparr>thread_queue := post (thread_clock m + delay, tid) (thread_queue m)\<rparr>"

definition Clear_messages :: "u8 list \<Rightarrow> RequestManager \<Rightarrow> RequestManager" where
  "Clear_messages tid m = m\<lparr>thread_queue := filter (\<lambda>x. snd x \<noteq> tid) (thread_queue m)\<rparr>"

definition rq_id :: "StunRequest \<Rightarrow> u8 list" where
  "rq_id r = m_transaction_id (rq_msg r)"

definition Construct_request :: "(StunMessage \<Rightarrow> StunMessage) \<Rightarrow> StunRequest \<Rightarrow> StunRequest" where
  "Construct_request Prepare r = (if m_type (rq_msg r) = 0 then r\<lparr>rq_msg := Prepare (rq_msg r)\<rparr> else r)"

definition SendDelayed :: "(StunMessage \<Rightarrow> StunMessage) \<Rightarrow> StunRequest \<Rightarrow> int \<Rightarrow> RequestManager \<Rightarrow> RequestManager" where
  "SendDelayed Prepare request delay m =
     (let request = Construct_request Prepare request;
          m = m\<lparr>requests := (requests m)(rq_id request \<mapsto> request)\<rparr>
      in PostDelayed delay (rq_id request) m)"

definition Send_request :: "(StunMessage \<Rightarrow> StunMessage) \<Rightarrow> StunRequest \<Rightarrow> RequestManager \<Rightarrow> RequestManager" where
  "Send_request Prepare request m = SendDelayed Prepare request 0 m"

definition Remove :: "u8 list \<Rightarrow> RequestManager \<Rightarrow> RequestManager" where
  "Remove tid m =
     (case requests m tid of
        None \<Rightarrow> m
      | Some _ \<Rightarrow> Clear_messages tid (m\<lparr>requests := (requests m)(tid := None)\<rparr>))"

text \<open>\<^verbatim>\<open>delete request\<close>\<close>

definition delete_request :: "u8 list \<Rightarrow> RequestManager \<Rightarrow> RequestManager" where
  "delete_request tid m = Clear_messages tid (Remove tid m)"

text \<open>Deleting every request takes its messages out of the thread too.\<close>

definition Clear_requests :: "RequestManager \<Rightarrow> RequestManager" where
  "Clear_requests m = m\<lparr>requests := Map.empty, thread_queue := filter (\<lambda>x. requests m (snd x) = None) (thread_queue m)\<rparr>"

definition CheckResponse :: "StunMessage \<Rightarrow> RequestManager \<Rightarrow> bool \<times> RequestManager" where
  "CheckResponse msg m =
     (case requests m (m_transaction_id msg) of
        None \<Rightarrow> (False, m)
      | Some request \<Rightarrow>
        let tid = rq_id request;
            type = ucast (m_type (rq_msg request)) :: u32
        in if ucast (m_type msg) = GetStunSuccessResponseType type
           then (True, delete_request tid (m\<lparr>rq_log := Response tid msg # rq_log m\<rparr>))
           else if ucast (m_type msg) = GetStunErrorResponseType type
           then (True, delete_request tid (m\<lparr>rq_log := ErrorResponse tid msg # rq_log m\<rparr>))
           else (False, m))"

definition CheckResponse_bytes :: "u8 list \<Rightarrow> RequestManager \<Rightarrow> bool \<times> RequestManager" where
  "CheckResponse_bytes data m =
     (if length data < 20 then (False, m)
      else
        let tid = take kStunTransactionIdLength (drop kStunTransactionIdOffset data)
        in case requests m tid of
             None \<Rightarrow> (False, m)
           | Some request \<Rightarrow>
             (case Read (StunMessage_new (m_class (rq_msg request))) (ByteBuffer_of data) of
                None \<Rightarrow> (False, m)
              | Some (response, _) \<Rightarrow> CheckResponse response m))"

definition GetNextDelay :: "StunRequest \<Rightarrow> int \<times> StunRequest" where
  "GetNextDelay r =
     (case rq_kind r of
        BaseRequest \<Rightarrow>
          let delay = DELAY_UNIT * min (2 ^ rq_count r) DELAY_MAX_FACTOR;
              r = r\<lparr>rq_count := rq_count r + 1\<rparr>
          in (delay, if rq_count r = MAX_SENDS then r\<lparr>rq_timeout := True\<rparr> else r)
      | ConnectionRequest \<Rightarrow> (CONNECTION_RESPONSE_TIMEOUT, r\<lparr>rq_timeout := True\<rparr>)
      | AllocateRequest \<Rightarrow>
          let delay = 100 * max (2 ^ rq_count r) 2;
              r = r\<lparr>rq_count := rq_count r + 1\<rparr>
          in (delay, if rq_count r = 5 then r\<lparr>rq_timeout := True\<rparr> else r))"

text \<open>The handler of a delayed message. \<open>None\<close>: the request it is for has been deleted.\<close>

definition OnMessage :: "u8 list \<Rightarrow> RequestManager \<Rightarrow> RequestManager option" where
  "OnMessage tid m =
     (case requests m tid of
        None \<Rightarrow> None
      | Some r \<Rightarrow>
        if rq_timeout r then Some (delete_request tid (m\<lparr>rq_log := Timeout (thread_clock m) tid # rq_log m\<rparr>))
        else
          let r = r\<lparr>rq_tstamp := word_of_int (thread_clock m)\<rparr>;
              buf = stun_packet (rq_msg r);
              m = m\<lparr>rq_log := SendPacket (thread_clock m) tid buf # rq_log m\<rparr>;
              (delay, r) = GetNextDelay r
          in Some (PostDelayed delay tid (m\<lparr>requests := (requests m)(tid \<mapsto> r)\<rparr>)))"

text \<open>The thread dispatches its first message, \<open>late\<close> milliseconds after it could.\<close>

definition Dispatch :: "nat \<Rightarrow> RequestManager \<Rightarrow> RequestManager option" where
  "Dispatch late m =
     (case thread_queue m of
        [] \<Rightarrow> Some m
      | (due, tid) # q \<Rightarrow> OnMessage tid (m\<lparr>thread_queue := q, thread_clock := max (thread_clock m) due + int late\<rparr>))"

definition Elapsed :: "u32 \<Rightarrow> StunRequest \<Rightarrow> u32" where
  "Elapsed now r = now - rq_tstamp r"

section \<open>Invariant\<close>

text \<open>
  Every request has one message in the thread and every message a request; nothing is logged for a
  request after its outcome, and a request with an outcome is gone.
\<close>

fun settled :: "StunEvent list \<Rightarrow> bool" where
  "settled [] \<longleftrightarrow> True"
| "settled (e # es) \<longleftrightarrow> settled es \<and> (\<forall>e'\<in>set es. is_outcome e' \<longrightarrow> event_id e' \<noteq> event_id e)"

definition count_limit :: "RequestKind \<Rightarrow> nat" where
  "count_limit k = (case k of BaseRequest \<Rightarrow> MAX_SENDS | ConnectionRequest \<Rightarrow> 1 | AllocateRequest \<Rightarrow> 5)"

definition request_ok :: "StunRequest \<Rightarrow> bool" where
  "request_ok r \<longleftrightarrow> (if rq_timeout r then True else rq_count r < count_limit (rq_kind r) \<and> (rq_kind r = ConnectionRequest \<longrightarrow> rq_count r = 0))"

text \<open>The messages the request still takes: one for each time it is sent, one for the timeout.\<close>

definition messages_left :: "StunRequest \<Rightarrow> nat" where
  "messages_left r = (if rq_timeout r then 1 else count_limit (rq_kind r) - rq_count r + 1)"

definition requests_inv :: "RequestManager \<Rightarrow> bool" where
  "requests_inv m \<longleftrightarrow>
     distinct (map snd (thread_queue m)) \<and> snd ` set (thread_queue m) = dom (requests m) \<and>
     (\<forall>tid r. requests m tid = Some r \<longrightarrow> rq_id r = tid \<and> request_ok r) \<and>
     settled (rq_log m) \<and> (\<forall>e\<in>set (rq_log m). is_outcome e \<longrightarrow> requests m (event_id e) = None)"

lemma post_set [simp]: "set (post x q) = insert x (set q)"
  by (induction q) auto

lemma post_distinct [simp]: "distinct (map snd (post x q)) \<longleftrightarrow> snd x \<notin> snd ` set q \<and> distinct (map snd q)"
  by (induction q) auto

lemma requests_inv_new: "requests_inv (StunRequestManager_new now)"
  by (simp add: requests_inv_def StunRequestManager_new_def)

lemma distinct_filter_snd: "distinct (map snd q) \<Longrightarrow> distinct (map snd (filter P q))"
  by (induction q) auto

lemma delete_request_eq:
  "delete_request tid m = m\<lparr>requests := (requests m)(tid := None), thread_queue := filter (\<lambda>x. snd x \<noteq> tid) (thread_queue m)\<rparr>"
  by (cases m) (auto simp: delete_request_def Clear_messages_def Remove_def fun_upd_idem split: option.split)

text \<open>A request ends with an outcome.\<close>

lemma delete_inv:
  assumes "requests_inv m" "requests m tid = Some r" "event_id e = tid"
  shows "requests_inv (delete_request tid (m\<lparr>rq_log := e # rq_log m\<rparr>))"
  using assms by (auto simp: requests_inv_def delete_request_eq distinct_filter_snd)

lemma Remove_inv: "requests_inv m \<Longrightarrow> requests_inv (delete_request tid m)"
  by (auto simp: requests_inv_def delete_request_eq distinct_filter_snd)

lemma queued_request: "requests_inv m \<Longrightarrow> x \<in> set (thread_queue m) \<Longrightarrow> \<exists>r. requests m (snd x) = Some r"
  by (metis requests_inv_def domD image_eqI)

lemma Clear_inv: "requests_inv m \<Longrightarrow> requests_inv (Clear_requests m)"
  using queued_request[of m] by (auto simp: requests_inv_def Clear_requests_def distinct_filter_snd)

text \<open>A request that is sent is new: its identifier is not in use and nothing is logged for it.\<close>

definition fresh_request :: "(StunMessage \<Rightarrow> StunMessage) \<Rightarrow> StunRequest \<Rightarrow> RequestManager \<Rightarrow> bool" where
  "fresh_request Prepare r m \<longleftrightarrow>
     rq_count r = 0 \<and> \<not> rq_timeout r \<and> requests m (rq_id (Construct_request Prepare r)) = None \<and>
     (\<forall>e\<in>set (rq_log m). event_id e \<noteq> rq_id (Construct_request Prepare r))"

lemma count_limit_pos [simp]: "0 < count_limit k"
  by (cases k) (simp_all add: count_limit_def MAX_SENDS_def)

lemma Send_inv:
  assumes "requests_inv m" "fresh_request Prepare r m"
  shows "requests_inv (SendDelayed Prepare r delay m)"
proof -
  define r' where "r' = Construct_request Prepare r"
  have "request_ok r'"
    using assms(2) by (auto simp: fresh_request_def r'_def request_ok_def Construct_request_def)
  then show ?thesis
    using assms by (auto simp: requests_inv_def fresh_request_def SendDelayed_def PostDelayed_def Let_def simp flip: r'_def)
qed

lemma CheckResponse_inv: "requests_inv m \<Longrightarrow> requests_inv (snd (CheckResponse msg m))"
  by (auto simp: CheckResponse_def Let_def requests_inv_def[of m] intro!: delete_inv split: option.splits)

lemma CheckResponse_bytes_inv: "requests_inv m \<Longrightarrow> requests_inv (snd (CheckResponse_bytes data m))"
  by (auto simp: CheckResponse_bytes_def Let_def CheckResponse_inv split: option.splits)

lemma GetNextDelay_ok:
  assumes "GetNextDelay r = (delay, r')" "request_ok r" "\<not> rq_timeout r"
  shows "request_ok r'" "rq_id r' = rq_id r" "messages_left r = Suc (messages_left r')"
  using assms
  by (cases "rq_kind r"; auto simp: GetNextDelay_def Let_def request_ok_def messages_left_def count_limit_def MAX_SENDS_def rq_id_def
      split: if_split_asm)+

lemma OnMessage_ok:
  assumes inv: "requests_inv m" and q: "thread_queue m = (due, tid) # q"
    and m0: "m0 = m\<lparr>thread_queue := q, thread_clock := t\<rparr>"
  shows "\<exists>r m'. requests m tid = Some r \<and> OnMessage tid m0 = Some m' \<and> requests_inv m' \<and>
    (if rq_timeout r then m' = m0\<lparr>requests := (requests m)(tid := None), rq_log := Timeout t tid # rq_log m\<rparr>
     else \<exists>delay r' bytes t'. GetNextDelay (r\<lparr>rq_tstamp := word_of_int t\<rparr>) = (delay, r') \<and>
       m' = m0\<lparr>requests := (requests m)(tid \<mapsto> r'), thread_queue := post (t', tid) q, rq_log := SendPacket t tid bytes # rq_log m\<rparr>)"
proof -
  obtain r where r: "requests m tid = Some r" using queued_request[OF inv, of "(due, tid)"] q by auto
  have ok: "request_ok r" "rq_id r = tid" using inv r by (auto simp: requests_inv_def)
  have notin: "tid \<notin> snd ` set q" "distinct (map snd q)" and dom: "insert tid (snd ` set q) = dom (requests m)"
    using inv q by (auto simp: requests_inv_def)
  have logs: "settled (rq_log m)" "\<forall>e\<in>set (rq_log m). is_outcome e \<longrightarrow> requests m (event_id e) = None"
    using inv by (auto simp: requests_inv_def)
  have none: "\<forall>e\<in>set (rq_log m). is_outcome e \<longrightarrow> event_id e \<noteq> tid"
    using logs(2) r by force
  show ?thesis
  proof (cases "rq_timeout r")
    case True
    have filt: "filter (\<lambda>x. snd x \<noteq> tid) q = q"
      using notin(1) by (auto simp: filter_id_conv)
    have "requests_inv (m0\<lparr>requests := (requests m)(tid := None), rq_log := Timeout t tid # rq_log m\<rparr>)"
      using inv m0 notin dom none logs by (auto simp: requests_inv_def)
    moreover have "OnMessage tid m0 = Some (m0\<lparr>requests := (requests m)(tid := None), rq_log := Timeout t tid # rq_log m\<rparr>)"
      using r True m0 filt by (cases m) (simp add: OnMessage_def delete_request_eq)
    ultimately show ?thesis
      using r True by (intro exI[of _ r]) simp
  next
    case False
    obtain delay r' where d: "GetNextDelay (r\<lparr>rq_tstamp := word_of_int t\<rparr>) = (delay, r')" by (metis surj_pair)
    have ok': "request_ok r'" "rq_id r' = tid"
      using GetNextDelay_ok[OF d] ok False by (auto simp: request_ok_def rq_id_def)
    define bytes where "bytes = stun_packet (rq_msg r)"
    define m' where "m' = m0\<lparr>requests := (requests m)(tid \<mapsto> r'), thread_queue := post (t + delay, tid) q, rq_log := SendPacket t tid bytes # rq_log m\<rparr>"
    have "requests_inv m'"
      using inv m0 notin dom none logs ok' by (auto simp: requests_inv_def m'_def)
    moreover have "OnMessage tid m0 = Some m'"
      using r False m0 d by (simp add: OnMessage_def Let_def m'_def bytes_def PostDelayed_def)
    ultimately show ?thesis
      using r False d unfolding m'_def by (intro exI[of _ r] exI conjI) auto
  qed
qed

lemma Dispatch_ok: "requests_inv m \<Longrightarrow> \<exists>m'. Dispatch late m = Some m' \<and> requests_inv m'"
proof (cases "thread_queue m")
  case (Cons x q)
  assume inv: "requests_inv m"
  obtain due tid where x: "x = (due, tid)" by (cases x)
  from OnMessage_ok[OF inv Cons[unfolded x] refl] show ?thesis
    using Cons x by (simp add: Dispatch_def) blast
qed (simp add: Dispatch_def)

section \<open>Every request has one outcome\<close>

datatype MgrOp =
    Send_op "StunMessage \<Rightarrow> StunMessage" StunRequest int
  | Remove_op "u8 list"
  | Clear_op
  | Packet_op "u8 list"
  | Response_op StunMessage
  | Dispatch_op nat

fun mgr_call :: "MgrOp \<Rightarrow> RequestManager \<Rightarrow> RequestManager option" where
  "mgr_call (Send_op Prepare r delay) m = Some (SendDelayed Prepare r delay m)"
| "mgr_call (Remove_op tid) m = Some (delete_request tid m)"
| "mgr_call Clear_op m = Some (Clear_requests m)"
| "mgr_call (Packet_op data) m = Some (snd (CheckResponse_bytes data m))"
| "mgr_call (Response_op msg) m = Some (snd (CheckResponse msg m))"
| "mgr_call (Dispatch_op late) m = Dispatch late m"

fun mgr_run :: "MgrOp list \<Rightarrow> RequestManager \<Rightarrow> RequestManager option" where
  "mgr_run [] m = Some m"
| "mgr_run (op # ops) m = (case mgr_call op m of None \<Rightarrow> None | Some m \<Rightarrow> mgr_run ops m)"

fun fresh_run :: "MgrOp list \<Rightarrow> RequestManager \<Rightarrow> bool" where
  "fresh_run [] m \<longleftrightarrow> True"
| "fresh_run (op # ops) m \<longleftrightarrow>
     (case op of Send_op Prepare r delay \<Rightarrow> fresh_request Prepare r m | _ \<Rightarrow> True) \<and>
     (case mgr_call op m of None \<Rightarrow> True | Some m \<Rightarrow> fresh_run ops m)"

lemma mgr_call_inv:
  assumes "requests_inv m" "case op of Send_op Prepare r delay \<Rightarrow> fresh_request Prepare r m | _ \<Rightarrow> True"
  shows "\<exists>m'. mgr_call op m = Some m' \<and> requests_inv m'"
  using assms Dispatch_ok[of m]
  by (cases op) (auto simp: Send_inv Remove_inv Clear_inv CheckResponse_inv CheckResponse_bytes_inv)

lemma mgr_run_inv: "requests_inv m \<Longrightarrow> fresh_run ops m \<Longrightarrow> \<exists>m'. mgr_run ops m = Some m' \<and> requests_inv m'"
proof (induction ops arbitrary: m)
  case (Cons op ops)
  then obtain m' where "mgr_call op m = Some m'" "requests_inv m'"
    using mgr_call_inv[of m op] by auto
  with Cons show ?case by simp
qed simp

text \<open>C16: Whatever is sent, received, removed and dispatched in whatever order, no message of the thread
  is for a deleted request, and once a request has had a response, an error or a timeout, it is gone
  and nothing more is sent or reported for it.\<close>
theorem stun_request_one_outcome:
  assumes "fresh_run ops (StunRequestManager_new now)"
  shows "\<exists>m. mgr_run ops (StunRequestManager_new now) = Some m \<and> settled (rq_log m) \<and>
    list_all (\<lambda>e. is_outcome e \<longrightarrow> requests m (event_id e) = None) (rq_log m)"
  using mgr_run_inv[OF requests_inv_new assms] by (auto simp: requests_inv_def list_all_iff)

section \<open>Every request ends\<close>

definition total_left :: "RequestManager \<Rightarrow> nat" where
  "total_left m = sum_list (map (\<lambda>x. case requests m (snd x) of None \<Rightarrow> 0 | Some r \<Rightarrow> messages_left r) (thread_queue m))"

fun dispatch_all :: "nat list \<Rightarrow> RequestManager \<Rightarrow> RequestManager option" where
  "dispatch_all [] m = Some m"
| "dispatch_all (late # lates) m = (case Dispatch late m of None \<Rightarrow> None | Some m \<Rightarrow> dispatch_all lates m)"

lemma sum_list_post: "sum_list (map f (post x q)) = f x + sum_list (map f q)" for f :: "_ \<Rightarrow> nat"
  by (induction q) auto

lemma sum_list_upd:
  "tid \<notin> snd ` set q \<Longrightarrow>
   sum_list (map (\<lambda>x. case (R(tid := v)) (snd x) of None \<Rightarrow> 0 | Some r \<Rightarrow> messages_left r) q) =
   sum_list (map (\<lambda>x. case R (snd x) of None \<Rightarrow> 0 | Some r \<Rightarrow> messages_left r) q)"
  by (intro arg_cong[where f = sum_list] map_cong) auto

definition timed_out :: "u8 list \<Rightarrow> RequestManager \<Rightarrow> bool" where
  "timed_out tid m \<longleftrightarrow> list_ex (\<lambda>e. case e of Timeout t i \<Rightarrow> i = tid | _ \<Rightarrow> False) (rq_log m)"

text \<open>A dispatch takes one message off the total, and a request leaves only with its timeout.\<close>

lemma Dispatch_progress:
  assumes inv: "requests_inv m" and d: "Dispatch late m = Some m'" and ne: "thread_queue m \<noteq> []"
  shows "total_left m = Suc (total_left m')"
    and "timed_out tid m \<Longrightarrow> timed_out tid m'"
    and "requests m tid \<noteq> None \<Longrightarrow> requests m' tid \<noteq> None \<or> timed_out tid m'"
proof -
  obtain due i q where q: "thread_queue m = (due, i) # q" using ne by (cases "thread_queue m") auto
  define t where "t = max (thread_clock m) due + int late"
  obtain r where r: "requests m i = Some r"
    and m': "(if rq_timeout r then m' = m\<lparr>thread_queue := q, thread_clock := t, requests := (requests m)(i := None), rq_log := Timeout t i # rq_log m\<rparr>
     else \<exists>delay r' bytes t'. GetNextDelay (r\<lparr>rq_tstamp := word_of_int t\<rparr>) = (delay, r') \<and>
       m' = m\<lparr>thread_queue := q, thread_clock := t, requests := (requests m)(i \<mapsto> r'), thread_queue := post (t', i) q, rq_log := SendPacket t i bytes # rq_log m\<rparr>)"
    using OnMessage_ok[OF inv q refl, of t] d q by (auto simp: Dispatch_def simp flip: t_def)
  have notin: "i \<notin> snd ` set q" using inv q by (auto simp: requests_inv_def)
  have ok: "request_ok r" using inv r by (auto simp: requests_inv_def)
  have left: "total_left m = messages_left r + sum_list (map (\<lambda>x. case requests m (snd x) of None \<Rightarrow> 0 | Some r \<Rightarrow> messages_left r) q)"
    using q r by (simp add: total_left_def)
  have *: "total_left m = Suc (total_left m') \<and> (timed_out tid m \<longrightarrow> timed_out tid m') \<and>
      (requests m tid \<noteq> None \<longrightarrow> requests m' tid \<noteq> None \<or> timed_out tid m')"
  proof (cases "rq_timeout r")
    case True
    then show ?thesis
      using m' left sum_list_upd[OF notin, of "requests m"] by (auto simp: messages_left_def total_left_def timed_out_def)
  next
    case False
    then obtain delay r' bytes t' where d: "GetNextDelay (r\<lparr>rq_tstamp := word_of_int t\<rparr>) = (delay, r')"
      and eq: "m' = m\<lparr>thread_queue := q, thread_clock := t, requests := (requests m)(i \<mapsto> r'), thread_queue := post (t', i) q, rq_log := SendPacket t i bytes # rq_log m\<rparr>"
      using m' by auto
    have "messages_left r = Suc (messages_left r')"
      using GetNextDelay_ok(3)[OF d] ok False by (auto simp: request_ok_def messages_left_def)
    then show ?thesis
      using eq left sum_list_upd[OF notin, of "requests m"] by (auto simp: total_left_def timed_out_def sum_list_post)
  qed
  then show "total_left m = Suc (total_left m')" "timed_out tid m \<Longrightarrow> timed_out tid m'"
    "requests m tid \<noteq> None \<Longrightarrow> requests m' tid \<noteq> None \<or> timed_out tid m'" by auto
qed

lemma dispatch_all_ends:
  assumes "requests_inv m" "total_left m \<le> length lates"
  shows "\<exists>m'. dispatch_all lates m = Some m' \<and> requests m' = Map.empty \<and> thread_queue m' = [] \<and>
    (\<forall>tid. requests m tid \<noteq> None \<or> timed_out tid m \<longrightarrow> timed_out tid m')"
  using assms
proof (induction lates arbitrary: m)
  case Nil
  have "thread_queue m = []"
  proof (rule ccontr)
    assume "thread_queue m \<noteq> []"
    then show False
      using Dispatch_ok[OF Nil(1), of 0] Dispatch_progress(1)[OF Nil(1), of 0] Nil(2) by auto
  qed
  then show ?case using Nil(1) by (auto simp: requests_inv_def)
next
  case (Cons late lates)
  obtain m1 where m1: "Dispatch late m = Some m1" "requests_inv m1" using Dispatch_ok[OF Cons(2)] by blast
  show ?case
  proof (cases "thread_queue m = []")
    case True
    then have "m1 = m" "total_left m = 0" using m1 by (simp_all add: Dispatch_def total_left_def)
    then show ?thesis using m1 Cons.IH[of m] by simp
  next
    case False
    note p = Dispatch_progress[OF Cons(2) m1(1) False]
    obtain m' where "dispatch_all lates m1 = Some m'" "requests m' = Map.empty" "thread_queue m' = []"
      "\<forall>tid. requests m1 tid \<noteq> None \<or> timed_out tid m1 \<longrightarrow> timed_out tid m'"
      using Cons.IH[OF m1(2)] p(1) Cons(3) by auto
    then show ?thesis using m1(1) p(2,3) by (metis dispatch_all.simps(2) option.simps(5))
  qed
qed

lemma sum_list_le: "(\<And>x. f x \<le> k) \<Longrightarrow> sum_list (map f q) \<le> k * length q" for f :: "_ \<Rightarrow> nat"
  by (induction q) (auto simp: add_mono)

lemma total_left_le: "total_left m \<le> 10 * length (thread_queue m)"
  unfolding total_left_def
  by (rule sum_list_le) (auto simp: messages_left_def count_limit_def MAX_SENDS_def split: option.split RequestKind.split)

text \<open>C36: If nothing answers, every pending request times out: after ten dispatches for each one, however
  late the thread is, no request and no message is left, and each has had its timeout.\<close>
theorem stun_requests_end:
  assumes "fresh_run ops (StunRequestManager_new now)" "mgr_run ops (StunRequestManager_new now) = Some m"
    "10 * length (thread_queue m) \<le> length lates"
  shows "\<exists>m'. dispatch_all lates m = Some m' \<and> requests m' = Map.empty \<and> thread_queue m' = [] \<and>
    (\<forall>tid. requests m tid \<noteq> None \<longrightarrow> timed_out tid m')"
  using mgr_run_inv[OF requests_inv_new assms(1)] assms(2,3) total_left_le[of m] dispatch_all_ends[of m lates] by auto

section \<open>The schedule\<close>

definition send_times :: "RequestManager \<Rightarrow> int list" where
  "send_times m = rev (concat (map (\<lambda>e. case e of SendPacket t tid bytes \<Rightarrow> [t] | _ \<Rightarrow> []) (rq_log m)))"

definition timeout_times :: "RequestManager \<Rightarrow> int list" where
  "timeout_times m = rev (concat (map (\<lambda>e. case e of Timeout t tid \<Rightarrow> [t] | _ \<Rightarrow> []) (rq_log m)))"

text \<open>A request alone on a thread that is on time, after \<open>n\<close> messages.\<close>

definition lone :: "StunRequest \<Rightarrow> int \<Rightarrow> int \<Rightarrow> StunEvent list \<Rightarrow> RequestManager" where
  "lone r clock due log = \<lparr>requests = [rq_id r \<mapsto> r], thread_queue = [(due, rq_id r)], thread_clock = clock, rq_log = log\<rparr>"

lemma lone_send:
  assumes "clock \<le> due" "\<not> rq_timeout r" "GetNextDelay (r\<lparr>rq_tstamp := word_of_int due\<rparr>) = (delay, r')"
  shows "\<exists>bytes. Dispatch 0 (lone r clock due log) = Some (lone r' due (due + delay) (SendPacket due (rq_id r) bytes # log))"
proof -
  have "rq_id r' = rq_id r"
    using assms(3) by (auto simp: GetNextDelay_def Let_def rq_id_def split: RequestKind.splits if_split_asm)
  then show ?thesis
    using assms by (simp add: lone_def Dispatch_def OnMessage_def PostDelayed_def Let_def)
qed

lemma lone_timeout:
  "clock \<le> due \<Longrightarrow> rq_timeout r \<Longrightarrow>
   Dispatch 0 (lone r clock due log) = Some \<lparr>requests = Map.empty, thread_queue = [], thread_clock = due, rq_log = Timeout due (rq_id r) # log\<rparr>"
  by (simp add: lone_def Dispatch_def OnMessage_def delete_request_eq)

fun scheduled :: "int \<Rightarrow> int list \<Rightarrow> int list \<times> int" where
  "scheduled t [] = ([], t)"
| "scheduled t (d # ds) = (t # fst (scheduled (t + d) ds), snd (scheduled (t + d) ds))"

lemma lone_run:
  assumes "rq_kind r = BaseRequest" "ds = map (\<lambda>k. 100 * min (2 ^ k) 16) [rq_count r..<9]" "rq_count r \<le> 9"
    "rq_timeout r \<longleftrightarrow> rq_count r = 9" "clock \<le> due"
  shows "\<exists>m'. dispatch_all (replicate (length ds + 1) 0) (lone r clock due log) = Some m' \<and> requests m' = Map.empty \<and> thread_queue m' = [] \<and>
    send_times m' = send_times (lone r clock due log) @ fst (scheduled due ds) \<and>
    timeout_times m' = timeout_times (lone r clock due log) @ [snd (scheduled due ds)]"
  using assms
proof (induction ds arbitrary: r clock due log)
  case Nil
  then have "rq_timeout r" by simp
  from lone_timeout[OF Nil(5) this, of log] show ?case
    by (simp add: send_times_def timeout_times_def lone_def)
next
  case (Cons d ds)
  have lt: "rq_count r < 9" and d: "d = 100 * min (2 ^ rq_count r) 16" and ds: "ds = map (\<lambda>k. 100 * min (2 ^ k) 16) [Suc (rq_count r)..<9]"
    using Cons(3) by (cases "rq_count r < 9"; simp add: upt_conv_Cons)+
  define r' where "r' = r\<lparr>rq_tstamp := word_of_int due, rq_count := rq_count r + 1, rq_timeout := (rq_count r + 1 = 9)\<rparr>"
  have nt: "\<not> rq_timeout r" using lt Cons(5) by simp
  have "GetNextDelay (r\<lparr>rq_tstamp := word_of_int due\<rparr>) = (d, r')"
    using Cons(2) lt nt by (cases r) (auto simp: GetNextDelay_def Let_def DELAY_UNIT_def DELAY_MAX_FACTOR_def MAX_SENDS_def d r'_def)
  from lone_send[OF Cons(6) nt this] obtain bytes where
    step: "Dispatch 0 (lone r clock due log) = Some (lone r' due (due + d) (SendPacket due (rq_id r) bytes # log))" by blast
  have "0 \<le> d" by (simp add: d)
  then obtain m' where m': "dispatch_all (replicate (length ds + 1) 0) (lone r' due (due + d) (SendPacket due (rq_id r) bytes # log)) = Some m'"
    "requests m' = Map.empty" "thread_queue m' = []"
    "send_times m' = send_times (lone r' due (due + d) (SendPacket due (rq_id r) bytes # log)) @ fst (scheduled (due + d) ds)"
    "timeout_times m' = timeout_times (lone r' due (due + d) (SendPacket due (rq_id r) bytes # log)) @ [snd (scheduled (due + d) ds)]"
    using Cons.IH[of r' due "due + d" "SendPacket due (rq_id r) bytes # log"] lt ds Cons(2) by (auto simp: r'_def)
  then show ?case
    using step by (simp add: send_times_def timeout_times_def lone_def)
qed

text \<open>A request that is never answered, on a thread that is on time, is sent nine times, at 0, 100,
  300, 700, 1500, 3100, 4700, 6300 and 7900 milliseconds, and times out at 9500.\<close>
theorem stun_request_schedule:
  assumes "rq_kind r = BaseRequest" "rq_count r = 0" "\<not> rq_timeout r" "0 \<le> delay"
  shows "\<exists>m. dispatch_all (replicate 10 0) (SendDelayed Prepare r delay (StunRequestManager_new now)) = Some m \<and>
    requests m = Map.empty \<and> send_times m = map (\<lambda>t. now + delay + t) [0, 100, 300, 700, 1500, 3100, 4700, 6300, 7900] \<and>
    timeout_times m = [now + delay + 9500]"
proof -
  define r' where "r' = Construct_request Prepare r"
  have r': "rq_kind r' = BaseRequest" "rq_count r' = 0" "\<not> rq_timeout r'"
    using assms by (auto simp: r'_def Construct_request_def)
  have l: "SendDelayed Prepare r delay (StunRequestManager_new now) = lone r' now (now + delay) []"
    by (simp add: SendDelayed_def PostDelayed_def StunRequestManager_new_def lone_def Let_def flip: r'_def)
  have ds: "map (\<lambda>k. 100 * min (2 ^ k) 16) [rq_count r'..<9] = [100, 200, 400, 800, 1600, 1600, 1600, 1600, 1600 :: int]"
    using r' by (simp add: upt_rec)
  have ten: "(10 :: nat) = length [100, 200, 400, 800, 1600, 1600, 1600, 1600, 1600 :: int] + 1"
    by simp
  show ?thesis
    using lone_run[OF r'(1) ds[symmetric], of now "now + delay" "[]"] r' assms(4) unfolding l ten
    by (auto simp: send_times_def timeout_times_def lone_def algebra_simps)
qed

section \<open>Examples\<close>

definition example_stun_request :: StunRequest where
  "example_stun_request = StunRequest_new BaseRequest (StunMessage_new StunMessageClass) (replicate 12 7)"

lemma example_stun_request_fresh: "fresh_request Prepare example_stun_request (StunRequestManager_new now)"
  by (simp add: fresh_request_def example_stun_request_def StunRequest_new_def StunRequestManager_new_def)

theorem stun_request_schedule_witness:
  "\<exists>m. dispatch_all (replicate 10 0) (SendDelayed (\<lambda>m. SetType m 1) example_stun_request 50 (StunRequestManager_new 1000)) = Some m \<and>
    requests m = Map.empty \<and> timeout_times m = [10550]"
  using stun_request_schedule[of example_stun_request 50 "\<lambda>m. SetType m 1" 1000] by (auto simp: example_stun_request_def StunRequest_new_def)

theorem stun_request_one_outcome_witness:
  "\<exists>m. mgr_run [Send_op (\<lambda>m. SetType m 1) example_stun_request 0, Dispatch_op 3, Packet_op (replicate 20 0), Clear_op, Dispatch_op 0]
     (StunRequestManager_new 5) = Some m \<and> settled (rq_log m)"
proof -
  have "fresh_run [Send_op (\<lambda>m. SetType m 1) example_stun_request 0, Dispatch_op 3, Packet_op (replicate 20 0), Clear_op, Dispatch_op 0]
     (StunRequestManager_new 5)"
    by (simp add: example_stun_request_fresh split: option.split)
  from stun_request_one_outcome[OF this] show ?thesis by auto
qed

theorem stun_requests_end_witness:
  "\<exists>m'. dispatch_all (replicate 10 4) (SendDelayed (\<lambda>m. SetType m 1) example_stun_request 0 (StunRequestManager_new 5)) = Some m' \<and>
     requests m' = Map.empty"
proof -
  define m where "m = SendDelayed (\<lambda>m. SetType m 1) example_stun_request 0 (StunRequestManager_new 5)"
  have "length (thread_queue m) = 1"
    by (simp add: m_def SendDelayed_def PostDelayed_def StunRequestManager_new_def Let_def)
  then show ?thesis
    using stun_requests_end[of "[Send_op (\<lambda>m. SetType m 1) example_stun_request 0]" 5 m "replicate 10 4"]
    by (auto simp: example_stun_request_fresh simp flip: m_def)
qed

end
