(* ===== verification/IcePort.thy ===== *)
theory IcePort
  imports StunSafety Base64
begin

text \<open>
  The credentials and the connectivity checks of an ICE port: \<^verbatim>\<open>Candidate\<close> of
  \<^verbatim>\<open>talk/p2p/base/candidate.h\<close> and the part of \<^verbatim>\<open>Port\<close>
  (\<^verbatim>\<open>port.h\<close>, \<^verbatim>\<open>port.cc\<close>) that accepts, refuses and answers
  STUN messages and resolves role conflicts, and the messages a \<^verbatim>\<open>ConnectionRequest\<close> makes.

  Text is bytes. What a port sends or signals is returned as a list of events. An operation has the
  result \<open>None\<close> where the code reads an indeterminate value or outside its data.
\<close>

section \<open>Candidates\<close>

record Candidate =
  cand_id :: bytes
  cand_component :: int
  cand_protocol :: bytes
  cand_address :: SocketAddress
  cand_priority :: u32
  cand_username :: bytes
  cand_password :: bytes
  cand_type :: bytes
  cand_network_name :: bytes
  cand_generation :: u32
  cand_foundation :: bytes
  cand_related_address :: SocketAddress

definition Candidate_IsEquivalent :: "Candidate \<Rightarrow> Candidate \<Rightarrow> bool" where
  "Candidate_IsEquivalent a c \<longleftrightarrow>
     cand_id a = cand_id c \<and> cand_component a = cand_component c \<and> cand_protocol a = cand_protocol c \<and>
     sa_eq (cand_address a) (cand_address c) \<and> cand_username a = cand_username c \<and> cand_password a = cand_password c \<and>
     cand_type a = cand_type c \<and> cand_generation a = cand_generation c \<and> cand_foundation a = cand_foundation c \<and>
     sa_eq (cand_related_address a) (cand_related_address c)"

definition GetPriority :: "SocketAddress \<Rightarrow> int \<Rightarrow> u32 \<Rightarrow> u32" where
  "GetPriority address component type_preference =
     (let addr_pref = IPAddressPrecedence (sa_ip address)
      in push_bit 24 type_preference OR word_of_int (push_bit 8 addr_pref) OR word_of_int (256 - component))"

section \<open>State of a port\<close>

datatype TransportRole = ROLE_CONTROLLING | ROLE_CONTROLLED | ROLE_UNKNOWN
datatype IceProtocolType = ICEPROTO_GOOGLE | ICEPROTO_HYBRID | ICEPROTO_RFC5245

definition ICE_CANDIDATE_COMPONENT_RTCP :: int where "ICE_CANDIDATE_COMPONENT_RTCP = 2"

definition STUN_BINDING_REQUEST :: u16 where "STUN_BINDING_REQUEST = 0x0001"
definition STUN_BINDING_INDICATION :: u16 where "STUN_BINDING_INDICATION = 0x0011"
definition STUN_BINDING_RESPONSE :: u16 where "STUN_BINDING_RESPONSE = 0x0101"
definition STUN_BINDING_ERROR_RESPONSE :: u16 where "STUN_BINDING_ERROR_RESPONSE = 0x0111"
definition STUN_ATTR_RETRANSMIT_COUNT :: u16 where "STUN_ATTR_RETRANSMIT_COUNT = 0xFF00"
definition STUN_ATTR_PRIORITY :: u16 where "STUN_ATTR_PRIORITY = 0x0024"
definition STUN_ATTR_USE_CANDIDATE :: u16 where "STUN_ATTR_USE_CANDIDATE = 0x0025"
definition STUN_ATTR_ICE_CONTROLLED :: u16 where "STUN_ATTR_ICE_CONTROLLED = 0x8029"
definition STUN_ATTR_ICE_CONTROLLING :: u16 where "STUN_ATTR_ICE_CONTROLLING = 0x802A"
definition STUN_ERROR_BAD_REQUEST :: int where "STUN_ERROR_BAD_REQUEST = 400"
definition STUN_ERROR_UNAUTHORIZED :: int where "STUN_ERROR_UNAUTHORIZED = 401"
definition STUN_ERROR_ROLE_CONFLICT :: int where "STUN_ERROR_ROLE_CONFLICT = 487"
definition STUN_ERROR_REASON_BAD_REQUEST :: bytes where "STUN_ERROR_REASON_BAD_REQUEST = text_bytes ''Bad Request''"
definition STUN_ERROR_REASON_UNAUTHORIZED :: bytes where "STUN_ERROR_REASON_UNAUTHORIZED = text_bytes ''Unauthorized''"
definition STUN_ERROR_REASON_ROLE_CONFLICT :: bytes where "STUN_ERROR_REASON_ROLE_CONFLICT = text_bytes ''Role Conflict''"
definition ICE_TYPE_PREFERENCE_PRFLX :: u32 where "ICE_TYPE_PREFERENCE_PRFLX = 110"

lemmas ice_stun_types = STUN_BINDING_REQUEST_def STUN_BINDING_INDICATION_def STUN_BINDING_RESPONSE_def STUN_BINDING_ERROR_RESPONSE_def
lemmas ice_attr_types = STUN_ATTR_RETRANSMIT_COUNT_def STUN_ATTR_PRIORITY_def STUN_ATTR_USE_CANDIDATE_def STUN_ATTR_ICE_CONTROLLED_def
  STUN_ATTR_ICE_CONTROLLING_def STUN_ATTR_USERNAME_def STUN_ATTR_MESSAGE_INTEGRITY_def STUN_ATTR_FINGERPRINT_def STUN_ATTR_ERROR_CODE_def
  STUN_ATTR_XOR_MAPPED_ADDRESS_def STUN_ATTR_MAPPED_ADDRESS_def

record IcePort =
  port_type :: bytes
  send_retransmit_count :: bool
  network_name :: bytes
  port_ip :: IPAddress
  port_component :: int
  port_generation :: u32
  port_related_address :: SocketAddress
  ice_username_fragment :: bytes
  port_password :: bytes
  port_candidates :: "Candidate list"
  ice_protocol :: IceProtocolType
  port_role :: TransportRole
  port_tiebreaker :: u64

text \<open>What a port does to the outside: a STUN message written and sent to an address, the signal of a
  role conflict.\<close>

datatype PortEvent = SentStun "bytes option" SocketAddress | RoleConflict

section \<open>User names\<close>

text \<open>\<open>None\<close>: \<^verbatim>\<open>new_last_char\<close> is used without a value.\<close>

definition GetRtcpUfragFromRtpUfrag :: "bytes \<Rightarrow> bytes option" where
  "GetRtcpUfragFromRtpUfrag rtp_ufrag =
     (if rtp_ufrag = [] then Some rtp_ufrag
      else case GetNextBase64Char (last rtp_ufrag) of
             Some (Some new_last_char) \<Rightarrow> Some (butlast rtp_ufrag @ [new_last_char])
           | _ \<Rightarrow> None)"

definition username_fragment :: "IcePort \<Rightarrow> bytes option" where
  "username_fragment p =
     (if ice_protocol p = ICEPROTO_GOOGLE \<and> port_component p = ICE_CANDIDATE_COMPONENT_RTCP
      then GetRtcpUfragFromRtpUfrag (ice_username_fragment p) else Some (ice_username_fragment p))"

definition byte_string :: "StunAttribute \<Rightarrow> bytes" where
  "byte_string a = (case a_value a of ByteStringValue s \<Rightarrow> s | _ \<Rightarrow> [])"

definition uint64_value :: "StunAttribute \<Rightarrow> u64" where
  "uint64_value a = (case a_value a of UInt64Value v \<Rightarrow> v | _ \<Rightarrow> 0)"

definition uint32_value :: "StunAttribute \<Rightarrow> u32" where
  "uint32_value a = (case a_value a of UInt32Value v \<Rightarrow> v | _ \<Rightarrow> 0)"

text \<open>The result with the local and the remote fragment.\<close>

definition ParseStunUsername :: "IcePort \<Rightarrow> StunMessage \<Rightarrow> (bool \<times> bytes \<times> bytes) option" where
  "ParseStunUsername p stun_msg =
     (case GetByteString stun_msg STUN_ATTR_USERNAME of
        None \<Rightarrow> Some (False, [], [])
      | Some username_attr \<Rightarrow>
        let str = byte_string username_attr
        in case ice_protocol p of
             ICEPROTO_RFC5245 \<Rightarrow>
               (let colon_pos = length (takeWhile (\<lambda>c. c \<noteq> 0x3A) str)
                in if colon_pos \<noteq> length str then Some (True, take colon_pos str, drop (colon_pos + 1) str)
                   else Some (False, [], []))
           | ICEPROTO_GOOGLE \<Rightarrow>
               (case username_fragment p of
                  None \<Rightarrow> None
                | Some ufrag \<Rightarrow>
                  if int (length str) - int (length ufrag) < 0 then Some (False, [], [])
                  else Some (True, take (length ufrag) str, drop (length ufrag) str))
           | ICEPROTO_HYBRID \<Rightarrow> Some (True, [], []))"

definition CreateStunUsername :: "IcePort \<Rightarrow> bytes \<Rightarrow> bytes option" where
  "CreateStunUsername p remote_username =
     map_option (\<lambda>ufrag. remote_username @ (if ice_protocol p = ICEPROTO_RFC5245 then [0x3A] else []) @ ufrag) (username_fragment p)"

section \<open>Answers\<close>

text \<open>\<^verbatim>\<open>AddAttribute\<close> with its result left alone.\<close>

definition with_attr :: "StunAttribute \<Rightarrow> StunMessage \<Rightarrow> StunMessage" where
  "with_attr a m = snd (AddAttribute m a)"

definition error_attr :: "IceProtocolType \<Rightarrow> int \<Rightarrow> bytes \<Rightarrow> StunAttribute" where
  "error_attr protocol code reason =
     (let (c, n) = (case protocol of
                      ICEPROTO_RFC5245 \<Rightarrow> SetCode code
                    | ICEPROTO_GOOGLE \<Rightarrow> (word_of_int (code sdiv 256), word_of_int (code smod 256))
                    | ICEPROTO_HYBRID \<Rightarrow> (0, 0))
      in \<lparr>a_type = STUN_ATTR_ERROR_CODE, a_length = ErrorCode_MIN_SIZE + of_nat (length reason), a_value = ErrorCodeValue c n reason\<rparr>)"

definition binding_error :: "IcePort \<Rightarrow> StunMessage \<Rightarrow> int \<Rightarrow> bytes \<Rightarrow> StunMessage" where
  "binding_error p request code reason =
     (let response = SetType (StunMessage_new StunMessageClass) (uint STUN_BINDING_ERROR_RESPONSE);
          response = snd (SetTransactionID response (m_transaction_id request));
          response = with_attr (error_attr (ice_protocol p) code reason) response
      in case ice_protocol p of
           ICEPROTO_RFC5245 \<Rightarrow>
             (let response = (if code \<noteq> STUN_ERROR_BAD_REQUEST \<and> code \<noteq> STUN_ERROR_UNAUTHORIZED
                              then snd (AddMessageIntegrity response (port_password p)) else response)
              in snd (AddFingerprint response))
         | ICEPROTO_GOOGLE \<Rightarrow>
             (case GetByteString request STUN_ATTR_USERNAME of
                None \<Rightarrow> response
              | Some username_attr \<Rightarrow> with_attr (StunByteStringAttribute STUN_ATTR_USERNAME (byte_string username_attr)) response)
         | ICEPROTO_HYBRID \<Rightarrow> response)"

definition SendBindingErrorResponse :: "IcePort \<Rightarrow> StunMessage \<Rightarrow> SocketAddress \<Rightarrow> int \<Rightarrow> bytes \<Rightarrow> PortEvent" where
  "SendBindingErrorResponse p request addr code reason = SentStun (stun_packet (binding_error p request code reason)) addr"

definition binding_response :: "IcePort \<Rightarrow> StunMessage \<Rightarrow> SocketAddress \<Rightarrow> bytes \<Rightarrow> StunMessage" where
  "binding_response p request addr username =
     (let response = SetType (StunMessage_new StunMessageClass) (uint STUN_BINDING_RESPONSE);
          response = snd (SetTransactionID response (m_transaction_id request));
          response = (case GetUInt32 request STUN_ATTR_RETRANSMIT_COUNT of
                        None \<Rightarrow> response
                      | Some a \<Rightarrow> with_attr (StunUInt32Attribute STUN_ATTR_RETRANSMIT_COUNT (uint32_value a)) response)
      in case ice_protocol p of
           ICEPROTO_RFC5245 \<Rightarrow>
             (let response = with_attr (StunXorAddressAttribute STUN_ATTR_XOR_MAPPED_ADDRESS addr) response;
                  response = snd (AddMessageIntegrity response (port_password p))
              in snd (AddFingerprint response))
         | ICEPROTO_GOOGLE \<Rightarrow>
             (let response = with_attr (StunAddressAttribute STUN_ATTR_MAPPED_ADDRESS addr) response
              in with_attr (StunByteStringAttribute STUN_ATTR_USERNAME username) response)
         | ICEPROTO_HYBRID \<Rightarrow> response)"

text \<open>The packet sent, \<open>None\<close> when the request has no user name; the connection to the address
  then takes the ping as received.\<close>

definition SendBindingResponse :: "IcePort \<Rightarrow> StunMessage \<Rightarrow> SocketAddress \<Rightarrow> PortEvent option" where
  "SendBindingResponse p request addr =
     map_option (\<lambda>username_attr. SentStun (stun_packet (binding_response p request addr (byte_string username_attr))) addr)
       (GetByteString request STUN_ATTR_USERNAME)"

section \<open>Incoming messages\<close>

text \<open>The result, the message handed out, the user name of the sender, and what the port answered.\<close>

definition GetStunMessage :: "IcePort \<Rightarrow> bytes \<Rightarrow> SocketAddress \<Rightarrow> (bool \<times> StunMessage option \<times> bytes \<times> PortEvent list) option" where
  "GetStunMessage p data addr =
     (if ice_protocol p = ICEPROTO_RFC5245 \<and> \<not> ValidateFingerprint data then Some (False, None, [], [])
      else
        case Read (StunMessage_new IceMessageClass) (ByteBuffer_of data) of
          None \<Rightarrow> Some (False, None, [], [])
        | Some (stun_msg, buf) \<Rightarrow>
          if Length buf > 0 then Some (False, None, [], [])
          else if m_type stun_msg = STUN_BINDING_REQUEST then
            (if GetByteString stun_msg STUN_ATTR_USERNAME = None \<or>
                ice_protocol p = ICEPROTO_RFC5245 \<and> GetByteString stun_msg STUN_ATTR_MESSAGE_INTEGRITY = None
             then Some (True, None, [], [SendBindingErrorResponse p stun_msg addr STUN_ERROR_BAD_REQUEST STUN_ERROR_REASON_BAD_REQUEST])
             else
               let unauthorized = Some (True, None, [], [SendBindingErrorResponse p stun_msg addr STUN_ERROR_UNAUTHORIZED STUN_ERROR_REASON_UNAUTHORIZED])
               in case (ParseStunUsername p stun_msg, username_fragment p) of
                    (Some (ok, local_ufrag, remote_ufrag), Some ufrag) \<Rightarrow>
                      if \<not> ok \<or> local_ufrag \<noteq> ufrag then unauthorized
                      else if ice_protocol p = ICEPROTO_RFC5245 then
                        (case ValidateMessageIntegrity data (port_password p) of
                           None \<Rightarrow> None
                         | Some valid \<Rightarrow> if \<not> valid then unauthorized else Some (True, Some stun_msg, remote_ufrag, []))
                      else Some (True, Some stun_msg, remote_ufrag, [])
                  | _ \<Rightarrow> None)
          else if m_type stun_msg = STUN_BINDING_RESPONSE \<or> m_type stun_msg = STUN_BINDING_ERROR_RESPONSE then
            (if m_type stun_msg = STUN_BINDING_ERROR_RESPONSE \<and> GetErrorCode stun_msg = None then Some (True, None, [], [])
             else Some (True, Some stun_msg, [], []))
          else if m_type stun_msg = STUN_BINDING_INDICATION then Some (True, Some stun_msg, [], [])
          else Some (True, None, [], []))"

definition MaybeIceRoleConflict :: "IcePort \<Rightarrow> SocketAddress \<Rightarrow> StunMessage \<Rightarrow> bytes \<Rightarrow> (bool \<times> PortEvent list) option" where
  "MaybeIceRoleConflict p addr stun_msg remote_ufrag =
     (let (remote_ice_role, remote_tiebreaker) =
            (case GetUInt64 stun_msg STUN_ATTR_ICE_CONTROLLING of
               None \<Rightarrow> (ROLE_UNKNOWN, 0)
             | Some a \<Rightarrow> (ROLE_CONTROLLING, uint64_value a))
      in case username_fragment p of
           None \<Rightarrow> None
         | Some ufrag \<Rightarrow>
           if remote_ice_role = ROLE_CONTROLLING \<and> ufrag = remote_ufrag \<and> remote_tiebreaker = port_tiebreaker p then Some (True, [])
           else
             let (remote_ice_role, remote_tiebreaker) =
                   (case GetUInt64 stun_msg STUN_ATTR_ICE_CONTROLLED of
                      None \<Rightarrow> (remote_ice_role, remote_tiebreaker)
                    | Some a \<Rightarrow> (ROLE_CONTROLLED, uint64_value a));
                 conflict = SendBindingErrorResponse p stun_msg addr STUN_ERROR_ROLE_CONFLICT STUN_ERROR_REASON_ROLE_CONFLICT
             in case port_role p of
                  ROLE_CONTROLLING \<Rightarrow>
                    (if remote_ice_role = ROLE_CONTROLLING then
                       (if remote_tiebreaker \<ge> port_tiebreaker p then Some (True, [RoleConflict]) else Some (False, [conflict]))
                     else Some (True, []))
                | ROLE_CONTROLLED \<Rightarrow>
                    (if remote_ice_role = ROLE_CONTROLLED then
                       (if remote_tiebreaker < port_tiebreaker p then Some (True, [RoleConflict]) else Some (False, [conflict]))
                     else Some (True, []))
                | ROLE_UNKNOWN \<Rightarrow> Some (True, []))"

definition IsCompatibleAddress :: "IcePort \<Rightarrow> SocketAddress \<Rightarrow> bool" where
  "IsCompatibleAddress p addr =
     (let family = ip_family (port_ip p)
      in if ip_family (sa_ip addr) \<noteq> family then False
         else if family = AF_INET6 \<and> IPIsPrivate (port_ip p) \<noteq> IPIsPrivate (sa_ip addr) then False
         else True)"

section \<open>The check a connection sends\<close>

text \<open>
  \<^verbatim>\<open>ConnectionRequest::Prepare\<close> of a connection of port \<open>p\<close>: the remote
  candidate's user name and password, the number of pings in flight, whether the candidate is
  nominated, and the local candidate's priority.
\<close>

definition prflx_priority :: "u32 \<Rightarrow> u32" where
  "prflx_priority priority = push_bit 24 ICE_TYPE_PREFERENCE_PRFLX OR (priority AND 0x00FFFFFF)"

definition check_attributes :: "IcePort \<Rightarrow> bytes \<Rightarrow> nat \<Rightarrow> bool \<Rightarrow> u32 \<Rightarrow> StunMessage \<Rightarrow> StunMessage" where
  "check_attributes p username pings use_candidate priority request =
     (let request = SetType request (uint STUN_BINDING_REQUEST);
          request = with_attr (StunByteStringAttribute STUN_ATTR_USERNAME username) request;
          request = (if send_retransmit_count p
                     then with_attr (StunUInt32Attribute STUN_ATTR_RETRANSMIT_COUNT (of_nat pings - 1)) request else request)
      in if ice_protocol p = ICEPROTO_RFC5245 then
           (let request = (case port_role p of
                ROLE_CONTROLLING \<Rightarrow>
                  (let request = with_attr (StunUInt64Attribute STUN_ATTR_ICE_CONTROLLING (port_tiebreaker p)) request
                   in if use_candidate then with_attr (StunByteStringAttribute STUN_ATTR_USE_CANDIDATE []) request else request)
              | ROLE_CONTROLLED \<Rightarrow> with_attr (StunUInt64Attribute STUN_ATTR_ICE_CONTROLLED (port_tiebreaker p)) request
              | ROLE_UNKNOWN \<Rightarrow> request)
            in with_attr (StunUInt32Attribute STUN_ATTR_PRIORITY (prflx_priority priority)) request)
         else request)"

definition Prepare_check :: "IcePort \<Rightarrow> bytes \<Rightarrow> bytes \<Rightarrow> nat \<Rightarrow> bool \<Rightarrow> u32 \<Rightarrow> StunMessage \<Rightarrow> StunMessage option" where
  "Prepare_check p remote_username remote_password pings use_candidate priority request =
     map_option (\<lambda>username.
         let request = check_attributes p username pings use_candidate priority request
         in if ice_protocol p = ICEPROTO_RFC5245
            then snd (AddFingerprint (snd (AddMessageIntegrity request remote_password))) else request)
       (CreateStunUsername p remote_username)"

section \<open>Messages under construction\<close>

text \<open>A well-formed message of at most \<open>n\<close> bytes of attributes that is not protected yet.\<close>

definition open_message :: "MessageClass \<Rightarrow> nat \<Rightarrow> StunMessage \<Rightarrow> bool" where
  "open_message c n m \<longleftrightarrow>
     msg_ok m \<and> m_class m = c \<and> length (m_transaction_id m) = kStunTransactionIdLength \<and>
     (\<forall>a\<in>set (m_attrs m). a_type a \<noteq> STUN_ATTR_MESSAGE_INTEGRITY) \<and> unat (m_length m) \<le> n"

lemma open_new:
  "length tid = kStunTransactionIdLength \<Longrightarrow>
   open_message c 0 (SetType (snd (SetTransactionID (StunMessage_new c) tid)) (uint STUN_BINDING_REQUEST))"
  "length tid = kStunTransactionIdLength \<Longrightarrow>
   open_message c 0 (SetType (snd (SetTransactionID (StunMessage_new c) tid)) (uint STUN_BINDING_RESPONSE))"
  by (simp_all add: open_message_def msg_ok_def SetTransactionID_def IsValidTransactionId_def SetType_def StunMessage_new_def
      ice_stun_types tid_ok_def)

lemma open_with_attr:
  assumes "open_message c n m" "attr_ok (Some (m_transaction_id m)) a" "typed_attr c a" "a_type a \<noteq> STUN_ATTR_MESSAGE_INTEGRITY"
    "length (attr_bytes (m_transaction_id m) a) \<le> k" "n + k < 65536"
  shows "open_message c (n + k) (with_attr a m)" "with_attr a m = add_attr m a"
proof -
  have ok: "msg_ok m" and c: "m_class m = c" and le: "unat (m_length m) \<le> n" using assms(1) by (simp_all add: open_message_def)
  show e: "with_attr a m = add_attr m a"
    using AddAttribute_typed[of m a] assms(3) c by (simp add: with_attr_def)
  have l: "unat (m_length m) + length (attr_bytes (m_transaction_id m) a) < 65536" using le assms(5,6) by simp
  show "open_message c (n + k) (with_attr a m)"
    using assms(1,4,5) add_attr_ok[OF ok assms(2) _ l] assms(3) c add_attr_length(1)[OF ok assms(2) l] le
    unfolding e open_message_def by auto
qed

text \<open>The attributes of the checks and their sizes.\<close>

lemma check_attrs_ok:
  "attr_ok (Some tid) (StunUInt32Attribute t v)" "length (attr_bytes tid (StunUInt32Attribute t v)) = 8"
  "attr_ok (Some tid) (StunUInt64Attribute t w)" "length (attr_bytes tid (StunUInt64Attribute t w)) = 12"
  by (simp_all add: StunUInt32Attribute_def StunUInt64Attribute_def attr_ok_def attr_bytes_def attr_body_def UInt32_SIZE_def UInt64_SIZE_def)

lemma byte_string_ok:
  assumes "length bs < 65532"
  shows "attr_ok (Some tid) (StunByteStringAttribute t bs)"
    "length (attr_bytes tid (StunByteStringAttribute t bs)) \<le> length bs + 7"
    "byte_string (StunByteStringAttribute t bs) = bs"
  using assms pad4_sum[of "length bs"] unfolding pad4_def
  by (auto simp: StunByteStringAttribute_def CopyBytes_def attr_ok_def attr_bytes_def attr_body_def byte_string_def unat_of_nat_u16 pad4_def)

lemma check_attrs_typed:
  "typed_attr IceMessageClass (StunByteStringAttribute STUN_ATTR_USERNAME bs)"
  "typed_attr IceMessageClass (StunUInt32Attribute STUN_ATTR_RETRANSMIT_COUNT v)"
  "typed_attr IceMessageClass (StunUInt64Attribute STUN_ATTR_ICE_CONTROLLING w)"
  "typed_attr IceMessageClass (StunUInt64Attribute STUN_ATTR_ICE_CONTROLLED w)"
  "typed_attr IceMessageClass (StunByteStringAttribute STUN_ATTR_USE_CANDIDATE bs)"
  "typed_attr IceMessageClass (StunUInt32Attribute STUN_ATTR_PRIORITY v)"
  by (simp_all add: typed_attr_def value_type_def StunByteStringAttribute_def CopyBytes_def StunUInt32Attribute_def StunUInt64Attribute_def
      GetAttributeValueType_def IceMessage_GetAttributeValueType_def StunMessage_GetAttributeValueType_def ice_attr_types)

lemma attr_type_simps [simp]:
  "a_type (StunByteStringAttribute t bs) = t" "a_type (StunUInt32Attribute t v) = t" "a_type (StunUInt64Attribute t w) = t"
  "a_type (StunXorAddressAttribute t sa) = t"
  by (simp_all add: StunByteStringAttribute_def CopyBytes_def StunUInt32Attribute_def StunUInt64Attribute_def StunXorAddressAttribute_def)

lemma ice_types_distinct:
  "STUN_ATTR_USERNAME \<noteq> STUN_ATTR_MESSAGE_INTEGRITY" "STUN_ATTR_RETRANSMIT_COUNT \<noteq> STUN_ATTR_MESSAGE_INTEGRITY"
  "STUN_ATTR_ICE_CONTROLLING \<noteq> STUN_ATTR_MESSAGE_INTEGRITY" "STUN_ATTR_ICE_CONTROLLED \<noteq> STUN_ATTR_MESSAGE_INTEGRITY"
  "STUN_ATTR_USE_CANDIDATE \<noteq> STUN_ATTR_MESSAGE_INTEGRITY" "STUN_ATTR_PRIORITY \<noteq> STUN_ATTR_MESSAGE_INTEGRITY"
  "STUN_ATTR_XOR_MAPPED_ADDRESS \<noteq> STUN_ATTR_MESSAGE_INTEGRITY"
  by (simp_all add: ice_attr_types)

text \<open>A message that is protected with integrity and fingerprint is accepted as it is.\<close>

lemma protected_message:
  assumes "open_message c n m" "n + 32 < 65536"
  shows "\<exists>h v. snd (AddFingerprint (snd (AddMessageIntegrity m key))) = add_attr (add_attr m (mi_attr h)) (fp_attr v) \<and> length h = 20 \<and>
    msg_ok (add_attr (add_attr m (mi_attr h)) (fp_attr v)) \<and>
    ValidateMessageIntegrity (msg_bytes (add_attr (add_attr m (mi_attr h)) (fp_attr v))) key = Some True \<and>
    ValidateFingerprint (msg_bytes (add_attr (add_attr m (mi_attr h)) (fp_attr v)))"
proof -
  have m: "msg_ok m" "\<forall>a\<in>set (m_attrs m). a_type a \<noteq> STUN_ATTR_MESSAGE_INTEGRITY" "unat (m_length m) + 24 < 65536"
    "length (m_transaction_id m) = kStunTransactionIdLength" "unat (m_length m) + 32 < 65536"
    using assms by (auto simp: open_message_def)
  obtain h where h: "AddMessageIntegrity m key = (True, add_attr m (mi_attr h))" "length h = 20"
    using AddMessageIntegrity_eq[OF m(1,3), of key] hmac_20 by blast
  note v = Validate_added[OF m(1,2,3), where key = key, unfolded h(1) snd_conv]
  obtain w where w: "snd (AddFingerprint (add_attr m (mi_attr h))) = add_attr (add_attr m (mi_attr h)) (fp_attr w)"
    using ValidateFingerprint_added(4)[OF v(2)] m(4,5) v(5) by auto
  note f = ValidateFingerprint_added[OF v(2), unfolded w]
  have "ValidateMessageIntegrity (msg_bytes (add_attr (add_attr m (mi_attr h)) (fp_attr w))) key = Some True"
    using v(4)[of "fp_attr w"] m(5) fp_attr_simps by simp
  moreover have "msg_ok (add_attr (add_attr m (mi_attr h)) (fp_attr w))" "ValidateFingerprint (msg_bytes (add_attr (add_attr m (mi_attr h)) (fp_attr w)))"
    using f(2,3) m(4,5) v(5) by simp_all
  ultimately show ?thesis using h w by auto
qed

lemma GetAttribute_add [simp]:
  "GetAttribute (add_attr m a) t = (case GetAttribute m t of Some x \<Rightarrow> Some x | None \<Rightarrow> if a_type a = t then Some a else None)"
proof -
  have "List.find P (xs @ [x]) = (case List.find P xs of Some y \<Rightarrow> Some y | None \<Rightarrow> if P x then Some x else None)" for P xs and x :: StunAttribute
    by (induction xs) auto
  then show ?thesis by (simp add: GetAttribute_def)
qed

text \<open>What a check is made of, before it is protected.\<close>

definition role_attr :: "IcePort \<Rightarrow> StunAttribute option" where
  "role_attr p = (case port_role p of
       ROLE_CONTROLLING \<Rightarrow> Some (StunUInt64Attribute STUN_ATTR_ICE_CONTROLLING (port_tiebreaker p))
     | ROLE_CONTROLLED \<Rightarrow> Some (StunUInt64Attribute STUN_ATTR_ICE_CONTROLLED (port_tiebreaker p))
     | ROLE_UNKNOWN \<Rightarrow> None)"

lemma open_with:
  assumes "open_message c n m" "attr_ok (Some (m_transaction_id m)) a" "typed_attr c a" "a_type a \<noteq> STUN_ATTR_MESSAGE_INTEGRITY"
    "length (attr_bytes (m_transaction_id m) a) \<le> 12" "n + 12 < 65536"
  shows "open_message c (n + 12) (with_attr a m)" "m_type (with_attr a m) = m_type m"
    "m_transaction_id (with_attr a m) = m_transaction_id m"
    "GetAttribute (with_attr a m) t = (case GetAttribute m t of Some x \<Rightarrow> Some x | None \<Rightarrow> if a_type a = t then Some a else None)"
  using open_with_attr[OF assms(1-5)] assms(6) by simp_all

lemma open_weaken: "open_message c n m \<Longrightarrow> n \<le> n' \<Longrightarrow> open_message c n' m"
  by (auto simp: open_message_def)

lemma check_attributes_open:
  fixes pings :: nat and uc :: bool and prio :: u32
  assumes "length tid = kStunTransactionIdLength" "length username \<le> 60000" "ice_protocol p = ICEPROTO_RFC5245"
  defines "m \<equiv> check_attributes p username pings uc prio (snd (SetTransactionID (StunMessage_new IceMessageClass) tid))"
  shows "open_message IceMessageClass 60055 m \<and> m_type m = STUN_BINDING_REQUEST \<and> m_transaction_id m = tid \<and>
    GetAttribute m STUN_ATTR_USERNAME = Some (StunByteStringAttribute STUN_ATTR_USERNAME username) \<and>
    GetAttribute m STUN_ATTR_MESSAGE_INTEGRITY = None \<and>
    GetAttribute m STUN_ATTR_ICE_CONTROLLING =
      (if port_role p = ROLE_CONTROLLING then Some (StunUInt64Attribute STUN_ATTR_ICE_CONTROLLING (port_tiebreaker p)) else None) \<and>
    GetAttribute m STUN_ATTR_ICE_CONTROLLED =
      (if port_role p = ROLE_CONTROLLED then Some (StunUInt64Attribute STUN_ATTR_ICE_CONTROLLED (port_tiebreaker p)) else None)"
proof -
  define m0 where "m0 = SetType (snd (SetTransactionID (StunMessage_new IceMessageClass) tid)) (uint STUN_BINDING_REQUEST)"
  define m1 where "m1 = with_attr (StunByteStringAttribute STUN_ATTR_USERNAME username) m0"
  have m0: "open_message IceMessageClass 0 m0" "m_type m0 = STUN_BINDING_REQUEST" "m_transaction_id m0 = tid" "m_attrs m0 = []"
    using open_new(1)[OF assms(1)] assms(1)
    by (simp_all add: m0_def SetType_def SetTransactionID_def IsValidTransactionId_def StunMessage_new_def)
  have l: "length username < 65532" "0 + (length username + 7) < 65536" using assms(2) by simp_all
  note o1 = open_with_attr[OF m0(1) byte_string_ok(1)[OF l(1)] check_attrs_typed(1) _ byte_string_ok(2)[OF l(1)] l(2), folded m1_def]
  have m1: "open_message IceMessageClass 60007 m1" "m_type m1 = STUN_BINDING_REQUEST" "m_transaction_id m1 = tid"
      "GetAttribute m1 t = (if t = STUN_ATTR_USERNAME then Some (StunByteStringAttribute STUN_ATTR_USERNAME username) else None)" for t
    using o1 m0 assms(2) ice_types_distinct by (auto simp: GetAttribute_def intro: open_weaken)
  define m2 where "m2 = (if send_retransmit_count p then with_attr (StunUInt32Attribute STUN_ATTR_RETRANSMIT_COUNT (of_nat pings - 1)) m1 else m1)"
  have m2: "open_message IceMessageClass 60019 m2" "m_type m2 = STUN_BINDING_REQUEST" "m_transaction_id m2 = tid"
      "t \<noteq> STUN_ATTR_RETRANSMIT_COUNT \<Longrightarrow> GetAttribute m2 t = GetAttribute m1 t" for t
    using m1(1-3) open_with[OF m1(1) check_attrs_ok(1) check_attrs_typed(2)] check_attrs_ok(2) ice_types_distinct
    by (auto simp: m2_def split: option.split intro: open_weaken)
  define m3 where "m3 = (case port_role p of
                ROLE_CONTROLLING \<Rightarrow> with_attr (StunUInt64Attribute STUN_ATTR_ICE_CONTROLLING (port_tiebreaker p)) m2
              | ROLE_CONTROLLED \<Rightarrow> with_attr (StunUInt64Attribute STUN_ATTR_ICE_CONTROLLED (port_tiebreaker p)) m2
              | ROLE_UNKNOWN \<Rightarrow> m2)"
  have m3: "open_message IceMessageClass 60031 m3 \<and> m_type m3 = STUN_BINDING_REQUEST \<and> m_transaction_id m3 = tid"
    using m2(1-3) open_with(1-3)[OF m2(1) check_attrs_ok(3) check_attrs_typed(3)] open_with(1-3)[OF m2(1) check_attrs_ok(3) check_attrs_typed(4)]
      check_attrs_ok(4) ice_types_distinct
    by (cases "port_role p") (auto simp: m3_def intro: open_weaken)
  have g3: "GetAttribute m3 t = (case GetAttribute m2 t of Some x \<Rightarrow> Some x | None \<Rightarrow>
      (case role_attr p of Some a \<Rightarrow> if a_type a = t then Some a else None | None \<Rightarrow> None))" for t
    using open_with(4)[OF m2(1) check_attrs_ok(3) check_attrs_typed(3)] open_with(4)[OF m2(1) check_attrs_ok(3) check_attrs_typed(4)]
      check_attrs_ok(4) ice_types_distinct
    by (cases "port_role p") (auto simp: m3_def role_attr_def split: option.split)
  define m4 where "m4 = (if port_role p = ROLE_CONTROLLING \<and> uc then with_attr (StunByteStringAttribute STUN_ATTR_USE_CANDIDATE []) m3 else m3)"
  note o4 = open_with[OF conjunct1[OF m3] byte_string_ok(1)[of "[]"] check_attrs_typed(5)]
  have m4: "open_message IceMessageClass 60043 m4 \<and> m_type m4 = STUN_BINDING_REQUEST \<and> m_transaction_id m4 = tid"
      "t \<noteq> STUN_ATTR_USE_CANDIDATE \<Longrightarrow> GetAttribute m4 t = GetAttribute m3 t" for t
    using m3 o4 byte_string_ok(2)[of "[]" tid STUN_ATTR_USE_CANDIDATE] ice_types_distinct
    by (auto simp: m4_def split: option.split intro: open_weaken)
  have m: "m = with_attr (StunUInt32Attribute STUN_ATTR_PRIORITY (prflx_priority prio)) m4"
    using assms(3) by (cases "port_role p") (auto simp: m_def check_attributes_def Let_def m4_def m3_def m2_def m1_def m0_def)
  note o5 = open_with[OF conjunct1[OF m4(1)] check_attrs_ok(1) check_attrs_typed(6), of "prflx_priority prio", folded m]
  have g: "GetAttribute m t = (case GetAttribute m4 t of Some x \<Rightarrow> Some x | None \<Rightarrow> if STUN_ATTR_PRIORITY = t then Some (StunUInt32Attribute STUN_ATTR_PRIORITY (prflx_priority prio)) else None)" for t
    using o5(4)[of t] check_attrs_ok(2) ice_types_distinct by simp
  have "open_message IceMessageClass 60055 m" "m_type m = STUN_BINDING_REQUEST" "m_transaction_id m = tid"
    using o5(1-3) m4(1) check_attrs_ok(2) ice_types_distinct by simp_all
  moreover have "GetAttribute m STUN_ATTR_USERNAME = Some (StunByteStringAttribute STUN_ATTR_USERNAME username)"
    "GetAttribute m STUN_ATTR_MESSAGE_INTEGRITY = None"
    "GetAttribute m STUN_ATTR_ICE_CONTROLLING = (if port_role p = ROLE_CONTROLLING then Some (StunUInt64Attribute STUN_ATTR_ICE_CONTROLLING (port_tiebreaker p)) else None)"
    "GetAttribute m STUN_ATTR_ICE_CONTROLLED = (if port_role p = ROLE_CONTROLLED then Some (StunUInt64Attribute STUN_ATTR_ICE_CONTROLLED (port_tiebreaker p)) else None)"
    unfolding g by (simp_all add: m4(2) g3 m2(4) m1(4) ice_attr_types role_attr_def split: TransportRole.split)
  ultimately show ?thesis by simp
qed

section \<open>Checks are accepted and answered\<close>

lemma stun_packet_ok: "msg_ok m \<Longrightarrow> stun_packet m = Some (msg_bytes m)"
  using Write_content[of m] by (auto simp: stun_packet_def)

text \<open>A message is read as one of the class of the reader.\<close>

lemma Read_as_ice:
  assumes "msg_ok (m\<lparr>m_class := IceMessageClass\<rparr>)"
  shows "\<exists>b. Read (StunMessage_new IceMessageClass) (ByteBuffer_of (msg_bytes m)) = Some (m\<lparr>m_class := IceMessageClass\<rparr>, b) \<and> Length b = 0"
proof -
  have "msg_bytes m = msg_bytes (m\<lparr>m_class := IceMessageClass\<rparr>)" by (simp add: msg_bytes_def)
  then have "bb_at (ByteBuffer_of (msg_bytes m)) (msg_bytes (m\<lparr>m_class := IceMessageClass\<rparr>))" using bb_at_new(2) by simp
  from Read_msg_bytes[OF this assms] show ?thesis by (auto dest: bb_at_Length)
qed

lemma Parse_created:
  assumes "ice_protocol p = ICEPROTO_RFC5245" "0x3A \<notin> set ufrag"
    "GetAttribute m STUN_ATTR_USERNAME = Some (StunByteStringAttribute STUN_ATTR_USERNAME (ufrag @ [0x3A] @ remote))"
    "length (ufrag @ [0x3A] @ remote) < 65532"
  shows "ParseStunUsername p m = Some (True, ufrag, remote)"
proof -
  have "takeWhile (\<lambda>c. c \<noteq> 0x3A) (ufrag @ [0x3A] @ remote) = ufrag"
    using assms(2) by (induction ufrag) auto
  then show ?thesis
    using assms(1,3) byte_string_ok(3)[OF assms(4)] by (simp add: ParseStunUsername_def GetByteString_def Let_def)
qed

definition new_message :: "MessageClass \<Rightarrow> bytes \<Rightarrow> StunMessage" where
  "new_message c tid = snd (SetTransactionID (StunMessage_new c) tid)"

text \<open>What the port of one side makes of the check of the other.\<close>

lemma check_received:
  assumes "ice_protocol p = ICEPROTO_RFC5245" "ice_protocol q = ICEPROTO_RFC5245" "length tid = kStunTransactionIdLength"
    "0x3A \<notin> set (ice_username_fragment p)" "length (ice_username_fragment p) + length (ice_username_fragment q) < 60000"
  shows "\<exists>m. Prepare_check q (ice_username_fragment p) (port_password p) pings uc prio (new_message IceMessageClass tid) = Some m \<and>
     stun_packet m = Some (msg_bytes m) \<and> GetStunMessage p (msg_bytes m) addr = Some (True, Some m, ice_username_fragment q, []) \<and>
     m_type m = STUN_BINDING_REQUEST \<and> m_transaction_id m = tid \<and> GetAttribute m STUN_ATTR_USERNAME \<noteq> None \<and>
    GetAttribute m STUN_ATTR_ICE_CONTROLLING =
      (if port_role q = ROLE_CONTROLLING then Some (StunUInt64Attribute STUN_ATTR_ICE_CONTROLLING (port_tiebreaker q)) else None) \<and>
    GetAttribute m STUN_ATTR_ICE_CONTROLLED =
      (if port_role q = ROLE_CONTROLLED then Some (StunUInt64Attribute STUN_ATTR_ICE_CONTROLLED (port_tiebreaker q)) else None)"
proof -
  define username where "username = ice_username_fragment p @ [0x3A] @ ice_username_fragment q"
  have l: "length username \<le> 60000" using assms(5) by (simp add: username_def)
  define m0 where "m0 = check_attributes q username pings uc prio (new_message IceMessageClass tid)"
  note c = check_attributes_open[OF assms(3) l assms(2), of pings uc prio, folded new_message_def, folded m0_def]
  have "(60055 :: nat) + 32 < 65536" by simp
  from protected_message[OF conjunct1[OF c] this, of "port_password p"] obtain h v where
    hv: "snd (AddFingerprint (snd (AddMessageIntegrity m0 (port_password p)))) = add_attr (add_attr m0 (mi_attr h)) (fp_attr v)" "length h = 20"
      "msg_ok (add_attr (add_attr m0 (mi_attr h)) (fp_attr v))"
      "ValidateMessageIntegrity (msg_bytes (add_attr (add_attr m0 (mi_attr h)) (fp_attr v))) (port_password p) = Some True"
      "ValidateFingerprint (msg_bytes (add_attr (add_attr m0 (mi_attr h)) (fp_attr v)))" by blast
  define m where "m = add_attr (add_attr m0 (mi_attr h)) (fp_attr v)"
  have "m_class m = IceMessageClass" using c by (simp add: m_def open_message_def)
  then have cls: "m\<lparr>m_class := IceMessageClass\<rparr> = m" by (cases m) simp
  have attrs: "GetAttribute m t = (case GetAttribute m0 t of Some x \<Rightarrow> Some x | None \<Rightarrow>
      if t = STUN_ATTR_MESSAGE_INTEGRITY then Some (mi_attr h) else if t = STUN_ATTR_FINGERPRINT then Some (fp_attr v) else None)" for t
    using hv(2) by (auto simp: m_def mi_attr_simps(3) fp_attr_simps(3) split: option.split)
  have prep: "Prepare_check q (ice_username_fragment p) (port_password p) pings uc prio (new_message IceMessageClass tid) = Some m"
    using assms(2) hv(1) by (simp add: Prepare_check_def CreateStunUsername_def username_fragment_def Let_def m0_def m_def username_def)
  obtain b where b: "Read (StunMessage_new IceMessageClass) (ByteBuffer_of (msg_bytes m)) = Some (m, b)" "Length b = 0"
    using Read_as_ice[of m] hv(3) cls by (auto simp: m_def)
  have user: "GetAttribute m STUN_ATTR_USERNAME = Some (StunByteStringAttribute STUN_ATTR_USERNAME (ice_username_fragment p @ [0x3A] @ ice_username_fragment q))"
    and mi: "GetAttribute m STUN_ATTR_MESSAGE_INTEGRITY = Some (mi_attr h)"
    using attrs c by (simp_all add: username_def)
  have "ParseStunUsername p m = Some (True, ice_username_fragment p, ice_username_fragment q)"
    by (rule Parse_created[OF assms(1,4) user]) (use assms(5) in simp)
  moreover have ty: "m_type m = STUN_BINDING_REQUEST" "m_transaction_id m = tid" using c by (simp_all add: m_def)
  ultimately have "GetStunMessage p (msg_bytes m) addr = Some (True, Some m, ice_username_fragment q, [])"
    using assms(1) b user mi hv(4,5)
    by (simp add: GetStunMessage_def GetByteString_def username_fragment_def Let_def m_def[symmetric])
  moreover have "GetAttribute m STUN_ATTR_ICE_CONTROLLING = (if port_role q = ROLE_CONTROLLING then Some (StunUInt64Attribute STUN_ATTR_ICE_CONTROLLING (port_tiebreaker q)) else None)"
    "GetAttribute m STUN_ATTR_ICE_CONTROLLED = (if port_role q = ROLE_CONTROLLED then Some (StunUInt64Attribute STUN_ATTR_ICE_CONTROLLED (port_tiebreaker q)) else None)"
    using attrs c by (simp_all add: ice_attr_types)
  ultimately show ?thesis
    using prep ty user stun_packet_ok[of m] hv(3) by (auto simp: m_def[symmetric])
qed

text \<open>A protected answer is accepted by the port it is for.\<close>

lemma answer_received:
  fixes key :: bytes
  assumes "open_message StunMessageClass n m" "n + 32 < 65536" "ice_protocol q = ICEPROTO_RFC5245"
    "\<forall>a\<in>set (m_attrs m). typed_attr IceMessageClass a"
    "m_type m = STUN_BINDING_RESPONSE \<or> m_type m = STUN_BINDING_ERROR_RESPONSE \<and> GetErrorCode m \<noteq> None"
  defines "r \<equiv> snd (AddFingerprint (snd (AddMessageIntegrity m key)))"
  shows "stun_packet r = Some (msg_bytes r) \<and>
    GetStunMessage q (msg_bytes r) addr = Some (True, Some (r\<lparr>m_class := IceMessageClass\<rparr>), [], []) \<and>
    m_type r = m_type m \<and> m_transaction_id r = m_transaction_id m \<and> GetErrorCode m = GetErrorCode r \<and>
    ValidateMessageIntegrity (msg_bytes r) key = Some True"
proof -
  obtain h v where r: "r = add_attr (add_attr m (mi_attr h)) (fp_attr v)" "length h = 20" "msg_ok r"
      "ValidateMessageIntegrity (msg_bytes r) key = Some True" "ValidateFingerprint (msg_bytes r)"
    using protected_message[OF assms(1,2), of key] unfolding r_def by auto
  have ok: "msg_ok (r\<lparr>m_class := IceMessageClass\<rparr>)"
    using r(3) assms(4) mi_attr_simps(2)[OF r(2)] fp_attr_simps(2) by (auto simp: msg_ok_def r(1))
  have err: "GetErrorCode (r\<lparr>m_class := IceMessageClass\<rparr>) = GetErrorCode r"
    by (simp add: GetErrorCode_def GetAttribute_def)
  have err': "GetErrorCode m = GetErrorCode r"
    using mi_attr_simps(3)[OF r(2)] by (simp add: GetErrorCode_def r(1) fp_attr_simps(3) ice_attr_types split: option.split)
  have ty: "m_type r = m_type m" "m_transaction_id r = m_transaction_id m" by (simp_all add: r(1))
  obtain b where "Read (StunMessage_new IceMessageClass) (ByteBuffer_of (msg_bytes r)) = Some (r\<lparr>m_class := IceMessageClass\<rparr>, b)" "Length b = 0"
    using Read_as_ice[OF ok] by blast
  then show ?thesis
    using assms(3,5) r err err' ty stun_packet_ok[OF r(3)] by (auto simp: GetStunMessage_def ice_stun_types)
qed

lemma sa_ok_length: "sa_ok sa \<Longrightarrow> EnsureAddressLength sa \<in> {SIZE_IP4, SIZE_IP6}"
  by (cases "ip_family (sa_ip sa)") (auto simp: EnsureAddressLength_def sa_ok_def stun_family_def)

text \<open>The answer to a check, at the end that sent it.\<close>

lemma response_received:
  fixes username :: bytes
  assumes "ice_protocol p = ICEPROTO_RFC5245" "ice_protocol q = ICEPROTO_RFC5245" "length (m_transaction_id m) = kStunTransactionIdLength" "sa_ok qaddr"
  defines "r \<equiv> binding_response p m qaddr username"
  shows "stun_packet r = Some (msg_bytes r) \<and>
    GetStunMessage q (msg_bytes r) addr = Some (True, Some (r\<lparr>m_class := IceMessageClass\<rparr>), [], []) \<and>
    m_type r = STUN_BINDING_RESPONSE \<and> m_transaction_id r = m_transaction_id m \<and>
    ValidateMessageIntegrity (msg_bytes r) (port_password p) = Some True"
proof -
  define tid where "tid = m_transaction_id m"
  have tid: "length tid = kStunTransactionIdLength" using assms(3) by (simp add: tid_def)
  define m0 where "m0 = SetType (snd (SetTransactionID (StunMessage_new StunMessageClass) tid)) (uint STUN_BINDING_RESPONSE)"
  have m0': "snd (SetTransactionID (SetType (StunMessage_new StunMessageClass) (uint STUN_BINDING_RESPONSE)) tid) = m0"
    using tid by (simp add: m0_def SetTransactionID_def IsValidTransactionId_def SetType_def)
  have m0: "open_message StunMessageClass 0 m0" "m_type m0 = STUN_BINDING_RESPONSE" "m_transaction_id m0 = tid" "m_attrs m0 = []"
    using open_new(2)[OF tid] tid
    by (simp_all add: m0_def SetType_def SetTransactionID_def IsValidTransactionId_def StunMessage_new_def)
  define v where "v = (case GetUInt32 m STUN_ATTR_RETRANSMIT_COUNT of None \<Rightarrow> 0 | Some a \<Rightarrow> uint32_value a)"
  define m1 where "m1 = (case GetUInt32 m STUN_ATTR_RETRANSMIT_COUNT of None \<Rightarrow> m0 | Some a \<Rightarrow> with_attr (StunUInt32Attribute STUN_ATTR_RETRANSMIT_COUNT v) m0)"
  have t1: "typed_attr StunMessageClass (StunUInt32Attribute STUN_ATTR_RETRANSMIT_COUNT v)"
    by (simp add: typed_attr_def value_type_def StunUInt32Attribute_def GetAttributeValueType_def StunMessage_GetAttributeValueType_def ice_attr_types)
  note o1 = open_with_attr[OF m0(1) check_attrs_ok(1) t1, of 8]
  have m1: "open_message StunMessageClass 8 m1 \<and> m_type m1 = STUN_BINDING_RESPONSE \<and> m_transaction_id m1 = tid \<and>
      (\<forall>a\<in>set (m_attrs m1). a_type a = STUN_ATTR_RETRANSMIT_COUNT \<and> typed_attr IceMessageClass a)"
    using m0 o1 check_attrs_ok(2) ice_types_distinct check_attrs_typed(2) open_weaken[OF m0(1), of 8]
    by (auto simp: m1_def split: option.split)
  define xa where "xa = StunXorAddressAttribute STUN_ATTR_XOR_MAPPED_ADDRESS qaddr"
  have xa: "attr_ok (Some tid) xa" "typed_attr StunMessageClass xa" "typed_attr IceMessageClass xa" "a_type xa \<noteq> STUN_ATTR_MESSAGE_INTEGRITY"
    using assms(4) tid
    by (auto simp: xa_def StunXorAddressAttribute_def attr_ok_def typed_attr_def value_type_def GetAttributeValueType_def
        IceMessage_GetAttributeValueType_def StunMessage_GetAttributeValueType_def ice_attr_types)
  have "unat (a_length xa) \<le> 20"
    using sa_ok_length[OF assms(4)] by (auto simp: xa_def StunXorAddressAttribute_def SIZE_IP4_def SIZE_IP6_def)
  then have xl: "length (attr_bytes tid xa) \<le> 40"
    using length_attr_bytes(1)[OF xa(1)] by (simp add: pad4_def)
  define m2 where "m2 = with_attr xa m1"
  have m2: "open_message StunMessageClass 48 m2" "m_type m2 = STUN_BINDING_RESPONSE" "m_transaction_id m2 = tid"
      "\<forall>a\<in>set (m_attrs m2). typed_attr IceMessageClass a"
    using open_with_attr[OF conjunct1[OF m1], of xa 40] m1 xa xl by (auto simp: m2_def)
  have "r = snd (AddFingerprint (snd (AddMessageIntegrity m2 (port_password p))))"
    using assms(1) m0' by (simp add: r_def binding_response_def Let_def m2_def xa_def m1_def v_def tid_def cong: option.case_cong)
  then show ?thesis
    using answer_received[OF m2(1) _ assms(2) m2(4), of "port_password p" addr] m2(2,3) by (simp add: tid_def)
qed

text \<open>The refusal of a check because of its role, at the end that sent it.\<close>

lemma conflict_error_attr:
  defines "a \<equiv> error_attr ICEPROTO_RFC5245 STUN_ERROR_ROLE_CONFLICT STUN_ERROR_REASON_ROLE_CONFLICT"
  shows "a = \<lparr>a_type = STUN_ATTR_ERROR_CODE, a_length = 17, a_value = ErrorCodeValue 4 87 STUN_ERROR_REASON_ROLE_CONFLICT\<rparr>"
    "attr_ok (Some tid) a" "typed_attr StunMessageClass a" "typed_attr IceMessageClass a" "length (attr_bytes tid a) \<le> 40"
proof -
  show a: "a = \<lparr>a_type = STUN_ATTR_ERROR_CODE, a_length = 17, a_value = ErrorCodeValue 4 87 STUN_ERROR_REASON_ROLE_CONFLICT\<rparr>"
    by (simp add: a_def error_attr_def SetCode_def STUN_ERROR_ROLE_CONFLICT_def STUN_ERROR_REASON_ROLE_CONFLICT_def ErrorCode_MIN_SIZE_def text_bytes_def)
  have l: "length STUN_ERROR_REASON_ROLE_CONFLICT = 13" by (simp add: STUN_ERROR_REASON_ROLE_CONFLICT_def text_bytes_def)
  show ok: "attr_ok (Some tid) a" using l by (simp add: a attr_ok_def ErrorCode_MIN_SIZE_def)
  show "length (attr_bytes tid a) \<le> 40" using length_attr_bytes(1)[OF ok] by (simp add: a pad4_def)
  show "typed_attr StunMessageClass a" "typed_attr IceMessageClass a"
    by (simp_all add: a typed_attr_def value_type_def GetAttributeValueType_def IceMessage_GetAttributeValueType_def
        StunMessage_GetAttributeValueType_def ice_attr_types)
qed

lemma conflict_refused:
  assumes "ice_protocol p = ICEPROTO_RFC5245" "ice_protocol q = ICEPROTO_RFC5245" "length (m_transaction_id m) = kStunTransactionIdLength"
  defines "r \<equiv> binding_error p m STUN_ERROR_ROLE_CONFLICT STUN_ERROR_REASON_ROLE_CONFLICT"
  shows "stun_packet r = Some (msg_bytes r) \<and>
    GetStunMessage q (msg_bytes r) addr = Some (True, Some (r\<lparr>m_class := IceMessageClass\<rparr>), [], []) \<and>
    m_type r = STUN_BINDING_ERROR_RESPONSE \<and> m_transaction_id r = m_transaction_id m \<and>
    GetErrorCode (r\<lparr>m_class := IceMessageClass\<rparr>) = Some \<lparr>a_type = STUN_ATTR_ERROR_CODE, a_length = 17,
      a_value = ErrorCodeValue 4 87 STUN_ERROR_REASON_ROLE_CONFLICT\<rparr> \<and>
    ValidateMessageIntegrity (msg_bytes r) (port_password p) = Some True"
proof -
  define tid where "tid = m_transaction_id m"
  have tid: "length tid = kStunTransactionIdLength" using assms(3) by (simp add: tid_def)
  define m0 where "m0 = SetType (snd (SetTransactionID (StunMessage_new StunMessageClass) tid)) (uint STUN_BINDING_ERROR_RESPONSE)"
  have m0': "snd (SetTransactionID (SetType (StunMessage_new StunMessageClass) (uint STUN_BINDING_ERROR_RESPONSE)) tid) = m0"
    using tid by (simp add: m0_def SetTransactionID_def IsValidTransactionId_def SetType_def)
  have m0: "open_message StunMessageClass 0 m0" "m_type m0 = STUN_BINDING_ERROR_RESPONSE" "m_transaction_id m0 = tid" "m_attrs m0 = []"
    using tid by (simp_all add: m0_def open_message_def msg_ok_def SetTransactionID_def IsValidTransactionId_def SetType_def StunMessage_new_def ice_stun_types tid_ok_def)
  define a where "a = error_attr ICEPROTO_RFC5245 STUN_ERROR_ROLE_CONFLICT STUN_ERROR_REASON_ROLE_CONFLICT"
  note a = conflict_error_attr[folded a_def]
  define m1 where "m1 = with_attr a m0"
  have ty: "a_type a \<noteq> STUN_ATTR_MESSAGE_INTEGRITY" by (simp add: a(1) ice_attr_types)
  note o1 = open_with_attr[OF m0(1) a(2,3) ty a(5), folded m1_def]
  have m1: "m_type m1 = STUN_BINDING_ERROR_RESPONSE" "m_transaction_id m1 = tid" "\<forall>x\<in>set (m_attrs m1). typed_attr IceMessageClass x" "GetErrorCode m1 = Some a"
    using o1(2) m0 a(4) by (simp_all add: GetErrorCode_def GetAttribute_def add_attr_def a(1))
  have "r = snd (AddFingerprint (snd (AddMessageIntegrity m1 (port_password p))))"
    using assms(1) m0' by (simp add: r_def binding_error_def Let_def m1_def a_def tid_def STUN_ERROR_ROLE_CONFLICT_def STUN_ERROR_BAD_REQUEST_def STUN_ERROR_UNAUTHORIZED_def)
  moreover have "GetErrorCode (x\<lparr>m_class := c\<rparr>) = GetErrorCode x" for x c by (simp add: GetErrorCode_def GetAttribute_def)
  ultimately show ?thesis
    using answer_received[OF o1(1) _ assms(2) m1(3), of "port_password p" addr] m1(1,2,4) a(1) by (simp add: tid_def)
qed

section \<open>Properties\<close>

text \<open>C37: The connectivity check one ICE port sends with the credentials of the other is accepted there, with
  the sender's user name, whatever roles, nomination and counters it carries; the other port answers
  it, and the sender accepts the answer as the response to its transaction, under the password of the
  answering port.\<close>
theorem ice_check_answered:
  assumes "ice_protocol p = ICEPROTO_RFC5245" "ice_protocol q = ICEPROTO_RFC5245" "length tid = kStunTransactionIdLength"
    "0x3A \<notin> set (ice_username_fragment p)" "length (ice_username_fragment p) + length (ice_username_fragment q) < 60000" "sa_ok qaddr"
  shows "\<exists>m data reply r. Prepare_check q (ice_username_fragment p) (port_password p) pings uc prio (new_message IceMessageClass tid) = Some m \<and>
     stun_packet m = Some data \<and> GetStunMessage p data qaddr = Some (True, Some m, ice_username_fragment q, []) \<and>
     SendBindingResponse p m qaddr = Some (SentStun (Some reply) qaddr) \<and>
     GetStunMessage q reply paddr = Some (True, Some r, [], []) \<and> m_type r = STUN_BINDING_RESPONSE \<and> m_transaction_id r = tid \<and>
     ValidateMessageIntegrity reply (port_password p) = Some True"
proof -
  obtain m where m: "Prepare_check q (ice_username_fragment p) (port_password p) pings uc prio (new_message IceMessageClass tid) = Some m"
     "stun_packet m = Some (msg_bytes m)" "GetStunMessage p (msg_bytes m) qaddr = Some (True, Some m, ice_username_fragment q, [])"
     "m_transaction_id m = tid" "GetAttribute m STUN_ATTR_USERNAME \<noteq> None"
    using check_received[OF assms(1-5), of pings uc prio qaddr] by blast
  obtain a where a: "GetAttribute m STUN_ATTR_USERNAME = Some a" using m(5) by auto
  note r = response_received[OF assms(1,2) _ assms(6), of m "byte_string a" paddr]
  show ?thesis
    using m a r assms(3) by (intro exI[of _ m] exI[of _ "msg_bytes m"] exI[of _ "msg_bytes (binding_response p m qaddr (byte_string a))"]
      exI[of _ "(binding_response p m qaddr (byte_string a))\<lparr>m_class := IceMessageClass\<rparr>"])
      (auto simp: SendBindingResponse_def GetByteString_def)
qed

text \<open>C17: A binding request that an ICE port hands on has a right fingerprint, names the port's user fragment
  before its first colon, and has an integrity attribute with the HMAC-SHA1 under the port's password
  of everything before it; the port has answered nothing itself.\<close>
theorem ice_request_authenticated:
  assumes "ice_protocol p = ICEPROTO_RFC5245" "GetStunMessage p data addr = Some (True, Some m, remote, events)" "m_type m = STUN_BINDING_REQUEST"
  shows "ValidateFingerprint data \<and> events = [] \<and>
    (\<exists>a. GetByteString m STUN_ATTR_USERNAME = Some a \<and> byte_string a = ice_username_fragment p @ [0x3A] @ remote \<and>
      0x3A \<notin> set (ice_username_fragment p)) \<and>
    (\<exists>pos. 20 \<le> pos \<and> pos + 24 \<le> length data \<and> peek16 data pos = Some STUN_ATTR_MESSAGE_INTEGRITY \<and>
      chunk (pos + 4) 20 data = hmac sha1_hash (port_password p) (mac_input data pos))"
proof -
  have fp: "ValidateFingerprint data"
    using assms(1,2) by (auto simp: GetStunMessage_def split: if_split_asm)
  obtain b where rd: "Read (StunMessage_new IceMessageClass) (ByteBuffer_of data) = Some (m, b)"
    using assms by (auto simp: GetStunMessage_def Let_def split: if_split_asm option.splits prod.splits)
  have u: "GetByteString m STUN_ATTR_USERNAME \<noteq> None"
    using assms fp rd by (auto simp: GetStunMessage_def split: if_split_asm)
  have ufrag: "username_fragment p = Some (ice_username_fragment p)"
    using assms(1) by (simp add: username_fragment_def)
  obtain ok lu ru where parse: "ParseStunUsername p m = Some (ok, lu, ru)"
  proof -
    have "ParseStunUsername p m \<noteq> None"
      using assms(1) u by (cases "GetByteString m STUN_ATTR_USERNAME") (auto simp: ParseStunUsername_def Let_def intro: exI[of _ True] exI[of _ False])
    then show ?thesis using that by (cases "ParseStunUsername p m") auto
  qed
  have acc: "ok" "lu = ice_username_fragment p" "ru = remote" "ValidateMessageIntegrity data (port_password p) = Some True" "events = []"
    using assms fp rd u ufrag parse by (auto simp: GetStunMessage_def Let_def split: if_split_asm option.splits)
  obtain a where a: "GetByteString m STUN_ATTR_USERNAME = Some a" using u by auto
  define s where "s = byte_string a"
  define n where "n = length (takeWhile (\<lambda>c. c \<noteq> 0x3A) s)"
  have n: "n \<noteq> length s" "take n s = ice_username_fragment p" "drop (n + 1) s = remote"
    using parse acc(1-3) assms(1) a by (auto simp: ParseStunUsername_def Let_def s_def n_def split: if_split_asm)
  have lt: "n < length s" using n(1) length_takeWhile_le[of "\<lambda>c. c \<noteq> 0x3A" s] by (simp add: n_def)
  have colon: "s ! n = 0x3A" using nth_length_takeWhile[of "\<lambda>c. c \<noteq> 0x3A" s] lt by (simp add: n_def)
  have "take n s = takeWhile (\<lambda>c. c \<noteq> 0x3A) s" unfolding n_def by (rule takeWhile_eq_take[symmetric])
  then have "0x3A \<notin> set (take n s)" by (metis (mono_tags) set_takeWhileD)
  moreover have "s = take n s @ [s ! n] @ drop (n + 1) s" using lt by (simp add: Cons_nth_drop_Suc)
  ultimately have "byte_string a = ice_username_fragment p @ [0x3A] @ remote \<and> 0x3A \<notin> set (ice_username_fragment p)"
    using n(2,3) colon by (simp add: s_def)
  then show ?thesis using fp a acc(5) Validate_sound[OF acc(4)] by blast
qed

section \<open>Examples\<close>

definition example_port :: "u8 \<Rightarrow> TransportRole \<Rightarrow> u64 \<Rightarrow> IcePort" where
  "example_port c role tiebreaker =
     \<lparr>port_type = [], send_retransmit_count = True, network_name = [], port_ip = IPAddress_host 1, port_component = 1,
      port_generation = 0, port_related_address = SocketAddress_of (IPAddress_host 2) 9, ice_username_fragment = [c, c, c, c],
      port_password = replicate 22 c, port_candidates = [], ice_protocol = ICEPROTO_RFC5245, port_role = role, port_tiebreaker = tiebreaker\<rparr>"

lemma example_port_simps [simp]:
  "ice_protocol (example_port c role t) = ICEPROTO_RFC5245" "ice_username_fragment (example_port c role t) = [c, c, c, c]"
  "port_role (example_port c role t) = role" "port_tiebreaker (example_port c role t) = t"
  by (simp_all add: example_port_def)

lemma example_address_ok: "sa_ok (SocketAddress_of (IPAddress_host 7) 5000)"
  by (simp add: sa_ok_def SocketAddress_of_def SetPort_def SetIP_def SocketAddress_nil_def IPAddress_host_def IPAddress_v4_def ip_wf_def blit_def)

theorem ice_check_answered_witness:
  "\<exists>m data reply. Prepare_check (example_port 66 ROLE_CONTROLLING 5) [65, 65, 65, 65] (port_password (example_port 65 ROLE_CONTROLLED 9)) 3 True 77
      (new_message IceMessageClass (replicate 12 1)) = Some m \<and> stun_packet m = Some data \<and>
     GetStunMessage (example_port 65 ROLE_CONTROLLED 9) data (SocketAddress_of (IPAddress_host 7) 5000) = Some (True, Some m, [66, 66, 66, 66], []) \<and>
     SendBindingResponse (example_port 65 ROLE_CONTROLLED 9) m (SocketAddress_of (IPAddress_host 7) 5000) =
       Some (SentStun (Some reply) (SocketAddress_of (IPAddress_host 7) 5000))"
  using ice_check_answered[of "example_port 65 ROLE_CONTROLLED 9" "example_port 66 ROLE_CONTROLLING 5" "replicate 12 1"
      "SocketAddress_of (IPAddress_host 7) 5000" 3 True 77 "SocketAddress_of (IPAddress_host 8) 5000"] example_address_ok
  by (simp add: kStunTransactionIdLength_def) blast

theorem ice_request_authenticated_witness:
  "\<exists>data m. GetStunMessage (example_port 65 ROLE_CONTROLLED 9) data (SocketAddress_of (IPAddress_host 7) 5000) = Some (True, Some m, [66, 66, 66, 66], []) \<and>
     (\<exists>a. GetByteString m STUN_ATTR_USERNAME = Some a \<and> byte_string a = [65, 65, 65, 65, 0x3A, 66, 66, 66, 66])"
proof -
  obtain m where m: "GetStunMessage (example_port 65 ROLE_CONTROLLED 9) (msg_bytes m) (SocketAddress_of (IPAddress_host 7) 5000) =
      Some (True, Some m, [66, 66, 66, 66], [])" "m_type m = STUN_BINDING_REQUEST"
    using check_received[of "example_port 65 ROLE_CONTROLLED 9" "example_port 66 ROLE_CONTROLLING 5" "replicate 12 1" 3 True 77 "SocketAddress_of (IPAddress_host 7) 5000"]
    by (auto simp: kStunTransactionIdLength_def)
  from ice_request_authenticated[OF _ m] m(1) show ?thesis by auto
qed

end
