(* ===== verification/IceConnection.thy ===== *)
theory IceConnection
  imports IcePort StunRequests
begin

text \<open>
  \<^verbatim>\<open>Connection\<close> of \<^verbatim>\<open>talk/p2p/base/port.h\<close> and
  \<^verbatim>\<open>port.cc\<close>: a candidate pair, its readability and writability, the checks it sends
  and what it makes of the packets it receives.

  The port is an argument. The clock is an argument of the operations that read it. Signals, packets
  and the message by which a connection deletes itself are logged, newest first; what the channel
  does on a signal is outside. The rate trackers are left out.
\<close>

section \<open>State\<close>

datatype ReadState = STATE_READ_INIT | STATE_READABLE | STATE_READ_TIMEOUT
datatype WriteState = STATE_WRITABLE | STATE_WRITE_UNRELIABLE | STATE_WRITE_INIT | STATE_WRITE_TIMEOUT
datatype CheckState = STATE_WAITING | STATE_INPROGRESS | STATE_SUCCEEDED | STATE_FAILED
datatype IceMode = ICEMODE_FULL | ICEMODE_LITE

text \<open>\<open>StateChange\<close> and \<open>UseCandidate\<close> say whether the connection was writable when they were
  signalled.\<close>

datatype ConnEvent =
    StateChange bool
  | PostDelete
  | ReadPacket bytes
  | UseCandidate bool
  | ReadyToSend
  | Destroyed
  | PortDid PortEvent

record Connection =
  conn_local :: Candidate
  conn_remote :: Candidate
  read_state :: ReadState
  write_state :: WriteState
  connected :: bool
  pruned :: bool
  use_candidate_attr :: bool
  remote_ice_mode :: IceMode
  conn_requests :: RequestManager
  conn_rtt :: u32
  last_ping_sent :: u32
  last_ping_received :: u32
  last_data_received :: u32
  last_ping_response_received :: u32
  pings_since_last_response :: "u32 list"
  reported :: bool
  check_state :: CheckState
  conn_log :: "ConnEvent list"

definition CONNECTION_READ_TIMEOUT :: u32 where "CONNECTION_READ_TIMEOUT = 30000"
definition CONNECTION_WRITE_TIMEOUT :: u32 where "CONNECTION_WRITE_TIMEOUT = 15000"
definition CONNECTION_WRITE_CONNECT_TIMEOUT :: u32 where "CONNECTION_WRITE_CONNECT_TIMEOUT = 5000"
definition CONNECTION_WRITE_CONNECT_FAILURES :: u32 where "CONNECTION_WRITE_CONNECT_FAILURES = 5"
definition MINIMUM_RTT :: u32 where "MINIMUM_RTT = 100"
definition MAXIMUM_RTT :: u32 where "MAXIMUM_RTT = 3000"
definition DEFAULT_RTT :: u32 where "DEFAULT_RTT = MAXIMUM_RTT"
definition RTT_RATIO :: u32 where "RTT_RATIO = 3"
definition STUN_ERROR_UNKNOWN_ATTRIBUTE :: int where "STUN_ERROR_UNKNOWN_ATTRIBUTE = 420"
definition STUN_ERROR_STALE_CREDENTIALS :: int where "STUN_ERROR_STALE_CREDENTIALS = 430"
definition STUN_ERROR_SERVER_ERROR :: int where "STUN_ERROR_SERVER_ERROR = 500"
definition STUN_ERROR_GLOBAL_FAILURE :: int where "STUN_ERROR_GLOBAL_FAILURE = 600"

lemmas conn_constants = CONNECTION_READ_TIMEOUT_def CONNECTION_WRITE_TIMEOUT_def CONNECTION_WRITE_CONNECT_TIMEOUT_def
  CONNECTION_WRITE_CONNECT_FAILURES_def MINIMUM_RTT_def MAXIMUM_RTT_def DEFAULT_RTT_def

definition Connection_new :: "Candidate \<Rightarrow> Candidate \<Rightarrow> int \<Rightarrow> Connection" where
  "Connection_new local remote now =
     \<lparr>conn_local = local, conn_remote = remote, read_state = STATE_READ_INIT, write_state = STATE_WRITE_INIT, connected = True,
      pruned = False, use_candidate_attr = False, remote_ice_mode = ICEMODE_FULL, conn_requests = StunRequestManager_new now,
      conn_rtt = DEFAULT_RTT, last_ping_sent = 0, last_ping_received = 0, last_data_received = 0, last_ping_response_received = 0,
      pings_since_last_response = [], reported = False, check_state = STATE_WAITING, conn_log = []\<rparr>"

definition log_event :: "ConnEvent \<Rightarrow> Connection \<Rightarrow> Connection" where
  "log_event e c = c\<lparr>conn_log := e # conn_log c\<rparr>"

section \<open>Priority\<close>

definition pair_priority :: "TransportRole \<Rightarrow> u32 \<Rightarrow> u32 \<Rightarrow> u64" where
  "pair_priority role local_priority remote_priority =
     (if role \<noteq> ROLE_UNKNOWN then
        let (g, d) = (if role = ROLE_CONTROLLING then (local_priority, remote_priority) else (remote_priority, local_priority));
            priority = ucast (min g d);
            priority = push_bit 32 priority
        in priority + ucast (2 * max g d + (if g > d then 1 else 0))
      else 0)"

definition conn_priority :: "IcePort \<Rightarrow> Connection \<Rightarrow> u64" where
  "conn_priority p c = pair_priority (port_role p) (cand_priority (conn_local c)) (cand_priority (conn_remote c))"

section \<open>State changes\<close>

definition CheckTimeout :: "Connection \<Rightarrow> Connection" where
  "CheckTimeout c =
     (if (read_state c = STATE_READ_TIMEOUT \<or> read_state c = STATE_READ_INIT) \<and> write_state c = STATE_WRITE_TIMEOUT
      then log_event PostDelete c else c)"

definition set_read_state :: "ReadState \<Rightarrow> Connection \<Rightarrow> Connection" where
  "set_read_state value c =
     (let old_value = read_state c;
          c = c\<lparr>read_state := value\<rparr>
      in if value \<noteq> old_value then CheckTimeout (log_event (StateChange (write_state c = STATE_WRITABLE)) c) else c)"

definition set_write_state :: "WriteState \<Rightarrow> Connection \<Rightarrow> Connection" where
  "set_write_state value c =
     (let old_value = write_state c;
          c = c\<lparr>write_state := value\<rparr>
      in if value \<noteq> old_value then CheckTimeout (log_event (StateChange (write_state c = STATE_WRITABLE)) c) else c)"

definition set_state :: "CheckState \<Rightarrow> Connection \<Rightarrow> Connection" where
  "set_state state c = c\<lparr>check_state := state\<rparr>"

definition set_connected :: "bool \<Rightarrow> Connection \<Rightarrow> Connection" where
  "set_connected value c = c\<lparr>connected := value\<rparr>"

definition set_use_candidate_attr :: "bool \<Rightarrow> Connection \<Rightarrow> Connection" where
  "set_use_candidate_attr enable c = c\<lparr>use_candidate_attr := enable\<rparr>"

definition set_remote_ice_mode :: "IceMode \<Rightarrow> Connection \<Rightarrow> Connection" where
  "set_remote_ice_mode mode c = c\<lparr>remote_ice_mode := mode\<rparr>"

definition set_reported :: "bool \<Rightarrow> Connection \<Rightarrow> Connection" where
  "set_reported value c = c\<lparr>reported := value\<rparr>"

definition ReceivedPing :: "u32 \<Rightarrow> Connection \<Rightarrow> Connection" where
  "ReceivedPing now c = set_read_state STATE_READABLE (c\<lparr>last_ping_received := now\<rparr>)"

definition Prune :: "Connection \<Rightarrow> Connection" where
  "Prune c =
     (if \<not> pruned c then set_write_state STATE_WRITE_TIMEOUT (c\<lparr>pruned := True, conn_requests := Clear_requests (conn_requests c)\<rparr>)
      else c)"

definition conn_Destroy :: "Connection \<Rightarrow> Connection" where
  "conn_Destroy c = set_write_state STATE_WRITE_TIMEOUT (set_read_state STATE_READ_TIMEOUT c)"

definition conn_OnReadyToSend :: "Connection \<Rightarrow> Connection" where
  "conn_OnReadyToSend c = (if write_state c = STATE_WRITABLE then log_event ReadyToSend c else c)"

definition conn_OnMessage :: "Connection \<Rightarrow> Connection" where
  "conn_OnMessage c = log_event Destroyed c"

section \<open>Time\<close>

definition TooManyFailures :: "u32 list \<Rightarrow> u32 \<Rightarrow> u32 \<Rightarrow> u32 \<Rightarrow> bool" where
  "TooManyFailures pings maximum_failures rtt_estimate now =
     (if length pings < unat maximum_failures then False
      else pings ! (unat maximum_failures - 1) + rtt_estimate < now)"

definition TooLongWithoutResponse :: "u32 list \<Rightarrow> u32 \<Rightarrow> u32 \<Rightarrow> bool" where
  "TooLongWithoutResponse pings maximum_time now =
     (if length pings = 0 then False else pings ! 0 + maximum_time < now)"

definition ConservativeRTTEstimate :: "u32 \<Rightarrow> u32" where
  "ConservativeRTTEstimate rtt = max MINIMUM_RTT (min MAXIMUM_RTT (2 * rtt))"

definition UpdateState :: "u32 \<Rightarrow> Connection \<Rightarrow> Connection" where
  "UpdateState now c =
     (let rtt = ConservativeRTTEstimate (conn_rtt c);
          c = (if read_state c = STATE_READABLE \<and>
                  last_ping_received c + CONNECTION_READ_TIMEOUT \<le> now \<and>
                  last_data_received c + CONNECTION_READ_TIMEOUT \<le> now
               then set_read_state STATE_READ_TIMEOUT c else c);
          c = (if write_state c = STATE_WRITABLE \<and>
                  TooManyFailures (pings_since_last_response c) CONNECTION_WRITE_CONNECT_FAILURES rtt now \<and>
                  TooLongWithoutResponse (pings_since_last_response c) CONNECTION_WRITE_CONNECT_TIMEOUT now
               then set_write_state STATE_WRITE_UNRELIABLE c else c)
      in if (write_state c = STATE_WRITE_UNRELIABLE \<or> write_state c = STATE_WRITE_INIT) \<and>
            TooLongWithoutResponse (pings_since_last_response c) CONNECTION_WRITE_TIMEOUT now
         then set_write_state STATE_WRITE_TIMEOUT c else c)"

section \<open>Checks\<close>

text \<open>The request object of a ping takes its random identifier as an argument; \<open>None\<close> where
  building the request reads an indeterminate value.\<close>

definition Ping :: "IcePort \<Rightarrow> bytes \<Rightarrow> u32 \<Rightarrow> Connection \<Rightarrow> Connection option" where
  "Ping p random_id now c =
     (let c = c\<lparr>last_ping_sent := now, pings_since_last_response := pings_since_last_response c @ [now]\<rparr>;
          req = StunRequest_new ConnectionRequest (StunMessage_new IceMessageClass) random_id
      in case Prepare_check p (cand_username (conn_remote c)) (cand_password (conn_remote c)) (length (pings_since_last_response c))
                 (use_candidate_attr c) (cand_priority (conn_local c)) (rq_msg req) of
           None \<Rightarrow> None
         | Some msg \<Rightarrow>
           Some (c\<lparr>conn_requests := Send_request (\<lambda>_. msg) req (conn_requests c), check_state := STATE_INPROGRESS\<rparr>))"

definition OnConnectionRequestResponse :: "u32 \<Rightarrow> u32 \<Rightarrow> Connection \<Rightarrow> Connection" where
  "OnConnectionRequestResponse now elapsed c =
     (let c = set_write_state STATE_WRITABLE c;
          c = set_state STATE_SUCCEEDED c;
          c = (if remote_ice_mode c = ICEMODE_LITE then ReceivedPing now c else c)
      in c\<lparr>pings_since_last_response := [], last_ping_response_received := now,
           conn_rtt := (RTT_RATIO * conn_rtt c + elapsed) div (RTT_RATIO + 1)\<rparr>)"

definition response_error_code :: "IcePort \<Rightarrow> StunMessage \<Rightarrow> int" where
  "response_error_code p response =
     (case GetErrorCode response of
        None \<Rightarrow> STUN_ERROR_GLOBAL_FAILURE
      | Some a \<Rightarrow>
        (case a_value a of
           ErrorCodeValue eclass number _ \<Rightarrow>
             if ice_protocol p = ICEPROTO_GOOGLE then uint eclass * 256 + uint number else error_code eclass number
         | _ \<Rightarrow> STUN_ERROR_GLOBAL_FAILURE))"

definition HandleRoleConflictFromPeer :: "Connection \<Rightarrow> Connection" where
  "HandleRoleConflictFromPeer c = log_event (PortDid RoleConflict) c"

definition OnConnectionRequestErrorResponse :: "IcePort \<Rightarrow> StunMessage \<Rightarrow> Connection \<Rightarrow> Connection" where
  "OnConnectionRequestErrorResponse p response c =
     (let code = response_error_code p response
      in if code = STUN_ERROR_UNKNOWN_ATTRIBUTE \<or> code = STUN_ERROR_SERVER_ERROR \<or> code = STUN_ERROR_UNAUTHORIZED then c
         else if code = STUN_ERROR_STALE_CREDENTIALS then c
         else if code = STUN_ERROR_ROLE_CONFLICT then HandleRoleConflictFromPeer c
         else set_write_state STATE_WRITE_TIMEOUT (set_state STATE_FAILED c))"

text \<open>\<^verbatim>\<open>requests_.CheckResponse(msg)\<close> with the callbacks of the request.\<close>

definition conn_CheckResponse :: "IcePort \<Rightarrow> u32 \<Rightarrow> StunMessage \<Rightarrow> Connection \<Rightarrow> Connection" where
  "conn_CheckResponse p now msg c =
     (case requests (conn_requests c) (m_transaction_id msg) of
        None \<Rightarrow> c
      | Some request \<Rightarrow>
        let type = ucast (m_type (rq_msg request)) :: u32;
            c' = (if ucast (m_type msg) = GetStunSuccessResponseType type
                  then OnConnectionRequestResponse now (Elapsed now request) c
                  else if ucast (m_type msg) = GetStunErrorResponseType type
                  then OnConnectionRequestErrorResponse p msg c else c)
        in c'\<lparr>conn_requests := snd (CheckResponse msg (conn_requests c))\<rparr>)"

section \<open>Packets\<close>

definition restart_checks :: "Connection \<Rightarrow> Connection" where
  "restart_checks c =
     (if \<not> pruned c \<and> write_state c = STATE_WRITE_TIMEOUT then set_write_state STATE_WRITE_INIT c else c)"

definition log_port :: "PortEvent list \<Rightarrow> Connection \<Rightarrow> Connection" where
  "log_port es c = c\<lparr>conn_log := rev (map PortDid es) @ conn_log c\<rparr>"

text \<open>A binding request whose user name is right, after the role check. \<^verbatim>\<open>SendBindingResponse\<close> lets
  the connection which the port has under the remote address take the ping as received, which is this one: the
  channel keeps every connection in the table of its port under its remote address.\<close>

definition accept_request :: "IcePort \<Rightarrow> u32 \<Rightarrow> StunMessage \<Rightarrow> Connection \<Rightarrow> Connection" where
  "accept_request p now msg c =
     (let c = (case SendBindingResponse p msg (cand_address (conn_remote c)) of
                 None \<Rightarrow> c | Some e \<Rightarrow> ReceivedPing now (log_event (PortDid e) c));
          c = restart_checks c
      in if ice_protocol p = ICEPROTO_RFC5245 \<and> port_role p = ROLE_CONTROLLED \<and> GetByteString msg STUN_ATTR_USE_CANDIDATE \<noteq> None
         then log_event (UseCandidate (write_state c = STATE_WRITABLE)) c else c)"

definition conn_OnReadPacket :: "IcePort \<Rightarrow> u32 \<Rightarrow> bytes \<Rightarrow> Connection \<Rightarrow> Connection option" where
  "conn_OnReadPacket p now data c =
     (let addr = cand_address (conn_remote c)
      in case GetStunMessage p data addr of
           None \<Rightarrow> None
         | Some (stun, msg, remote_ufrag, events) \<Rightarrow>
           let c = log_port events c
           in if \<not> stun then
                (if read_state c = STATE_READABLE
                 then Some (restart_checks (log_event (ReadPacket data) (c\<lparr>last_data_received := now\<rparr>)))
                 else Some c)
              else
                case msg of
                  None \<Rightarrow> Some c
                | Some msg \<Rightarrow>
                  if m_type msg = STUN_BINDING_REQUEST then
                    (if remote_ufrag = cand_username (conn_remote c) then
                       (if ice_protocol p = ICEPROTO_RFC5245 then
                          (case MaybeIceRoleConflict p addr msg remote_ufrag of
                             None \<Rightarrow> None
                           | Some (ok, events) \<Rightarrow>
                             let c = log_port events c in if ok then Some (accept_request p now msg c) else Some c)
                        else Some (accept_request p now msg c))
                     else Some (log_event (PortDid (SendBindingErrorResponse p msg addr STUN_ERROR_UNAUTHORIZED STUN_ERROR_REASON_UNAUTHORIZED)) c))
                  else if m_type msg = STUN_BINDING_RESPONSE \<or> m_type msg = STUN_BINDING_ERROR_RESPONSE then
                    (if ice_protocol p = ICEPROTO_GOOGLE then Some (conn_CheckResponse p now msg c)
                     else
                       case ValidateMessageIntegrity data (cand_password (conn_remote c)) of
                         None \<Rightarrow> None
                       | Some valid \<Rightarrow> Some (if valid then conn_CheckResponse p now msg c else c))
                  else if m_type msg = STUN_BINDING_INDICATION then
                    Some (if ice_protocol p = ICEPROTO_RFC5245 \<and> read_state c = STATE_READABLE then ReceivedPing now c else c)
                  else Some c)"

text \<open>The thread dispatches a message of the connection's requests: a check is sent to the remote
  candidate, or its time is up, which changes nothing.\<close>

definition conn_Dispatch :: "nat \<Rightarrow> Connection \<Rightarrow> Connection option" where
  "conn_Dispatch late c = map_option (\<lambda>m. c\<lparr>conn_requests := m\<rparr>) (Dispatch late (conn_requests c))"

text \<open>\<^verbatim>\<open>ProxyConnection::Send\<close>; the port's \<^verbatim>\<open>SendTo\<close> and its error are parameters.\<close>

datatype SendError = EWOULDBLOCK | PortError int

definition Proxy_Send :: "(bytes \<Rightarrow> SocketAddress \<Rightarrow> int) \<Rightarrow> int \<Rightarrow> Connection \<Rightarrow> bytes \<Rightarrow> int \<times> SendError option" where
  "Proxy_Send SendTo port_error c data =
     (if write_state c = STATE_WRITE_INIT \<or> write_state c = STATE_WRITE_TIMEOUT then (- 1, Some EWOULDBLOCK)
      else
        let sent = SendTo data (cand_address (conn_remote c))
        in (sent, if sent \<le> 0 then Some (PortError port_error) else None))"

section \<open>Runs\<close>

text \<open>What the port, the channel and the timers can do to a connection: its public functions that change it,
  and the callbacks.\<close>

datatype ConnOp =
    PacketOp u32 bytes
  | PingOp bytes u32
  | UpdateOp u32
  | TimerOp nat
  | PruneOp
  | DestroyOp
  | NominateOp bool
  | ConnectedOp bool
  | IceModeOp IceMode
  | PingedOp u32
  | ReadyOp
  | ReportedOp bool
  | ConflictOp

fun conn_step :: "IcePort \<Rightarrow> ConnOp \<Rightarrow> Connection \<Rightarrow> Connection option" where
  "conn_step p (PacketOp now data) c = conn_OnReadPacket p now data c"
| "conn_step p (PingOp tid now) c = Ping p tid now c"
| "conn_step p (UpdateOp now) c = Some (UpdateState now c)"
| "conn_step p (TimerOp late) c = conn_Dispatch late c"
| "conn_step p PruneOp c = Some (Prune c)"
| "conn_step p DestroyOp c = Some (conn_Destroy c)"
| "conn_step p (NominateOp b) c = Some (set_use_candidate_attr b c)"
| "conn_step p (ConnectedOp b) c = Some (set_connected b c)"
| "conn_step p (IceModeOp mode) c = Some (set_remote_ice_mode mode c)"
| "conn_step p (PingedOp now) c = Some (ReceivedPing now c)"
| "conn_step p ReadyOp c = Some (conn_OnReadyToSend c)"
| "conn_step p (ReportedOp b) c = Some (set_reported b c)"
| "conn_step p ConflictOp c = Some (HandleRoleConflictFromPeer c)"

text \<open>The port has the role it has when the operation runs.\<close>

fun conn_run :: "IcePort \<Rightarrow> (TransportRole \<times> ConnOp) list \<Rightarrow> Connection \<Rightarrow> Connection option" where
  "conn_run p [] c = Some c"
| "conn_run p ((role, x) # xs) c =
     (case conn_step (p\<lparr>port_role := role\<rparr>) x c of None \<Rightarrow> None | Some c \<Rightarrow> conn_run p xs c)"

lemma conn_run_snoc:
  "conn_run p (xs @ [(role, x)]) c = (case conn_run p xs c of None \<Rightarrow> None | Some c \<Rightarrow> conn_step (p\<lparr>port_role := role\<rparr>) x c)"
  by (induction xs arbitrary: c) (auto split: option.split)

section \<open>What an operation leaves alone\<close>

lemmas conn_setters = log_event_def CheckTimeout_def set_read_state_def set_write_state_def set_state_def set_connected_def
  set_use_candidate_attr_def ReceivedPing_def log_port_def restart_checks_def Let_def

lemma set_read_simps [simp]:
  "read_state (set_read_state v c) = v" "write_state (set_read_state v c) = write_state c" "conn_remote (set_read_state v c) = conn_remote c"
  "remote_ice_mode (set_read_state v c) = remote_ice_mode c" "conn_requests (set_read_state v c) = conn_requests c"
  "pings_since_last_response (set_read_state v c) = pings_since_last_response c" "pruned (set_read_state v c) = pruned c"
  by (auto simp: conn_setters)

lemma set_write_simps [simp]:
  "read_state (set_write_state v c) = read_state c" "write_state (set_write_state v c) = v" "conn_remote (set_write_state v c) = conn_remote c"
  "remote_ice_mode (set_write_state v c) = remote_ice_mode c" "conn_requests (set_write_state v c) = conn_requests c"
  "pings_since_last_response (set_write_state v c) = pings_since_last_response c" "pruned (set_write_state v c) = pruned c"
  by (auto simp: conn_setters)

lemma log_simps [simp]:
  "read_state (log_event e c) = read_state c" "write_state (log_event e c) = write_state c" "conn_remote (log_event e c) = conn_remote c"
  "remote_ice_mode (log_event e c) = remote_ice_mode c" "conn_requests (log_event e c) = conn_requests c"
  "pings_since_last_response (log_event e c) = pings_since_last_response c" "pruned (log_event e c) = pruned c"
  "conn_log (log_event e c) = e # conn_log c"
  "read_state (log_port es c) = read_state c" "write_state (log_port es c) = write_state c" "conn_remote (log_port es c) = conn_remote c"
  "remote_ice_mode (log_port es c) = remote_ice_mode c" "conn_requests (log_port es c) = conn_requests c"
  "pings_since_last_response (log_port es c) = pings_since_last_response c" "pruned (log_port es c) = pruned c"
  "conn_log (log_port es c) = rev (map PortDid es) @ conn_log c"
  by (simp_all add: log_event_def log_port_def)

lemma set_state_simps [simp]:
  "read_state (set_state v c) = read_state c" "write_state (set_state v c) = write_state c" "conn_remote (set_state v c) = conn_remote c"
  "remote_ice_mode (set_state v c) = remote_ice_mode c" "conn_requests (set_state v c) = conn_requests c" "conn_log (set_state v c) = conn_log c"
  "pings_since_last_response (set_state v c) = pings_since_last_response c"
  by (simp_all add: set_state_def)

lemma ReceivedPing_simps [simp]:
  "read_state (ReceivedPing now c) = STATE_READABLE" "write_state (ReceivedPing now c) = write_state c" "conn_remote (ReceivedPing now c) = conn_remote c"
  "remote_ice_mode (ReceivedPing now c) = remote_ice_mode c" "conn_requests (ReceivedPing now c) = conn_requests c"
  "pings_since_last_response (ReceivedPing now c) = pings_since_last_response c"
  by (simp_all add: ReceivedPing_def)

lemma restart_simps [simp]:
  "read_state (restart_checks c) = read_state c" "conn_remote (restart_checks c) = conn_remote c"
  "remote_ice_mode (restart_checks c) = remote_ice_mode c" "conn_requests (restart_checks c) = conn_requests c"
  "write_state (restart_checks c) = STATE_WRITABLE \<longleftrightarrow> write_state c = STATE_WRITABLE"
  "pings_since_last_response (restart_checks c) = pings_since_last_response c"
  by (simp_all add: restart_checks_def)

section \<open>A useless connection is to be deleted\<close>

definition useless :: "Connection \<Rightarrow> bool" where
  "useless c \<longleftrightarrow> read_state c \<noteq> STATE_READABLE \<and> write_state c = STATE_WRITE_TIMEOUT"

definition deletes_useless :: "Connection \<Rightarrow> bool" where
  "deletes_useless c \<longleftrightarrow> (useless c \<longrightarrow> PostDelete \<in> set (conn_log c))"

lemma CheckTimeout_deletes: "deletes_useless (CheckTimeout c)"
  by (cases "read_state c") (auto simp: deletes_useless_def useless_def CheckTimeout_def log_event_def)

lemma CheckTimeout_keeps [simp]: "deletes_useless c \<Longrightarrow> deletes_useless (CheckTimeout c)"
  by (rule CheckTimeout_deletes)

lemma deletes_frame [simp]:
  "deletes_useless c \<Longrightarrow> deletes_useless (log_event e c)" "deletes_useless c \<Longrightarrow> deletes_useless (log_port es c)"
  "deletes_useless c \<Longrightarrow> deletes_useless (set_state s c)"
  by (auto simp: deletes_useless_def useless_def)

lemma deletes_updates [simp]:
  "deletes_useless (c\<lparr>conn_requests := m\<rparr>) = deletes_useless c" "deletes_useless (c\<lparr>last_ping_received := t\<rparr>) = deletes_useless c"
  "deletes_useless (c\<lparr>last_data_received := t\<rparr>) = deletes_useless c" "deletes_useless (c\<lparr>last_ping_sent := t\<rparr>) = deletes_useless c"
  "deletes_useless (c\<lparr>pings_since_last_response := ts\<rparr>) = deletes_useless c" "deletes_useless (c\<lparr>pruned := b\<rparr>) = deletes_useless c"
  "deletes_useless (c\<lparr>last_ping_response_received := t\<rparr>) = deletes_useless c" "deletes_useless (c\<lparr>conn_rtt := t\<rparr>) = deletes_useless c"
  "deletes_useless (c\<lparr>check_state := s\<rparr>) = deletes_useless c" "deletes_useless (c\<lparr>use_candidate_attr := b\<rparr>) = deletes_useless c"
  "deletes_useless (c\<lparr>connected := b\<rparr>) = deletes_useless c"
  "deletes_useless (c\<lparr>remote_ice_mode := i\<rparr>) = deletes_useless c" "deletes_useless (c\<lparr>reported := b\<rparr>) = deletes_useless c"
  by (simp_all add: deletes_useless_def useless_def)

lemma deletes_set [simp]:
  "deletes_useless c \<Longrightarrow> deletes_useless (set_read_state v c)" "deletes_useless c \<Longrightarrow> deletes_useless (set_write_state w c)"
  by (auto simp: set_read_state_def set_write_state_def Let_def CheckTimeout_deletes)

lemma deletes_ops [simp]:
  "deletes_useless c \<Longrightarrow> deletes_useless (ReceivedPing now c)"
  "deletes_useless c \<Longrightarrow> deletes_useless (restart_checks c)"
  "deletes_useless c \<Longrightarrow> deletes_useless (Prune c)"
  "deletes_useless c \<Longrightarrow> deletes_useless (conn_Destroy c)"
  "deletes_useless c \<Longrightarrow> deletes_useless (UpdateState now c)"
  "deletes_useless c \<Longrightarrow> deletes_useless (OnConnectionRequestResponse now t c)"
  "deletes_useless c \<Longrightarrow> deletes_useless (OnConnectionRequestErrorResponse p m c)"
  "deletes_useless c \<Longrightarrow> deletes_useless (set_use_candidate_attr b c)"
  "deletes_useless c \<Longrightarrow> deletes_useless (set_connected b c)"
  "deletes_useless c \<Longrightarrow> deletes_useless (set_remote_ice_mode i c)"
  "deletes_useless c \<Longrightarrow> deletes_useless (set_reported b c)"
  "deletes_useless c \<Longrightarrow> deletes_useless (conn_OnReadyToSend c)"
  "deletes_useless c \<Longrightarrow> deletes_useless (HandleRoleConflictFromPeer c)"
  by (simp_all add: ReceivedPing_def restart_checks_def Prune_def conn_Destroy_def UpdateState_def Let_def OnConnectionRequestResponse_def
      OnConnectionRequestErrorResponse_def set_use_candidate_attr_def set_connected_def set_remote_ice_mode_def set_reported_def
      conn_OnReadyToSend_def HandleRoleConflictFromPeer_def)

lemma deletes_CheckResponse [simp]: "deletes_useless c \<Longrightarrow> deletes_useless (conn_CheckResponse p now m c)"
  by (simp add: conn_CheckResponse_def Let_def split: option.split)

lemma deletes_accept [simp]: "deletes_useless c \<Longrightarrow> deletes_useless (accept_request p now m c)"
  by (simp add: accept_request_def Let_def split: option.split)

lemma deletes_packet: "deletes_useless c \<Longrightarrow> conn_OnReadPacket p now data c = Some c' \<Longrightarrow> deletes_useless c'"
  by (auto simp: conn_OnReadPacket_def Let_def split: option.splits if_splits prod.splits)

lemma deletes_step: "deletes_useless c \<Longrightarrow> conn_step p x c = Some c' \<Longrightarrow> deletes_useless c'"
  by (cases x) (auto simp: deletes_packet Ping_def conn_Dispatch_def Let_def split: option.splits)

lemma deletes_run: "deletes_useless c \<Longrightarrow> conn_run p xs c = Some c' \<Longrightarrow> deletes_useless c'"
  by (induction p xs c rule: conn_run.induct) (auto split: option.splits dest: deletes_step)


section \<open>Credentials\<close>

text \<open>The packet has an integrity attribute with the HMAC-SHA1 under the key of everything before it.\<close>

definition authenticated :: "bytes \<Rightarrow> bytes \<Rightarrow> bool" where
  "authenticated data key \<longleftrightarrow>
     (\<exists>pos. 20 \<le> pos \<and> pos + 24 \<le> length data \<and> peek16 data pos = Some STUN_ATTR_MESSAGE_INTEGRITY \<and>
        chunk (pos + 4) 20 data = hmac sha1_hash key (mac_input data pos))"

lemma valid_authenticated: "ValidateMessageIntegrity data key = Some True \<Longrightarrow> authenticated data key"
  using Validate_sound[of data key] by (auto simp: authenticated_def)

lemma request_authenticated:
  assumes "ice_protocol p = ICEPROTO_RFC5245" "GetStunMessage p data addr = Some (True, Some m, remote, events)" "m_type m = STUN_BINDING_REQUEST"
  shows "authenticated data (port_password p)"
proof -
  have "ValidateMessageIntegrity data (port_password p) = Some True"
    using assms by (auto simp: GetStunMessage_def Let_def split: if_split_asm option.splits prod.splits)
  then show ?thesis by (rule valid_authenticated)
qed

text \<open>The identifiers of the requests: a check has the identifier given to its request object.\<close>

definition check_id :: "bytes \<Rightarrow> bytes" where
  "check_id random_id = rq_id (StunRequest_new ConnectionRequest (StunMessage_new IceMessageClass) random_id)"

lemma with_attr_id [simp]: "m_transaction_id (with_attr a m) = m_transaction_id m"
  by (simp add: with_attr_def AddAttribute_def Let_def)

lemma protect_id [simp]:
  "m_transaction_id (snd (AddMessageIntegrity m key)) = m_transaction_id m" "m_transaction_id (snd (AddFingerprint m)) = m_transaction_id m"
  by (auto simp: AddMessageIntegrity_def AddFingerprint_def AddAttribute_def Let_def split: option.split)

lemma Prepare_check_id: "Prepare_check p u pw n uc prio m = Some m' \<Longrightarrow> m_transaction_id m' = m_transaction_id m"
  by (auto simp: Prepare_check_def check_attributes_def Let_def SetType_def split: TransportRole.split)

lemma Send_request_dom: "dom (requests (Send_request Prepare r m)) = insert (rq_id (Construct_request Prepare r)) (dom (requests m))"
  by (auto simp: Send_request_def SendDelayed_def PostDelayed_def Let_def)

lemma CheckResponse_dom: "dom (requests (snd (CheckResponse msg m))) \<subseteq> dom (requests m)"
  by (auto simp: CheckResponse_def Let_def delete_request_eq split: option.splits if_splits)

lemma Dispatch_dom: "Dispatch late m = Some m' \<Longrightarrow> dom (requests m') \<subseteq> dom (requests m)"
  by (auto simp: Dispatch_def OnMessage_def Let_def delete_request_eq PostDelayed_def split: list.splits option.splits if_splits prod.splits)

section \<open>Readable and writable connections are authenticated\<close>

text \<open>The evidence for a state in the operations up to now: a response under the remote password to one of
  the checks; a request under the port's password, or the word of the owner that there was one, or, once the
  owner has said that the other side is ICE lite, such a response.\<close>

definition pinged :: "ConnOp set \<Rightarrow> bytes \<Rightarrow> bool" where
  "pinged ops tid \<longleftrightarrow> (\<exists>random_id now. PingOp random_id now \<in> ops \<and> tid = check_id random_id)"

definition write_evidence :: "IcePort \<Rightarrow> Candidate \<Rightarrow> ConnOp set \<Rightarrow> bool" where
  "write_evidence p remote ops \<longleftrightarrow>
     (\<exists>now data m remote_ufrag events. PacketOp now data \<in> ops \<and> authenticated data (cand_password remote) \<and>
        GetStunMessage p data (cand_address remote) = Some (True, Some m, remote_ufrag, events) \<and> pinged ops (m_transaction_id m))"

definition read_evidence :: "IcePort \<Rightarrow> Candidate \<Rightarrow> ConnOp set \<Rightarrow> bool" where
  "read_evidence p remote ops \<longleftrightarrow>
     (\<exists>now data. PacketOp now data \<in> ops \<and> authenticated data (port_password p)) \<or> (\<exists>now. PingedOp now \<in> ops) \<or>
     IceModeOp ICEMODE_LITE \<in> ops \<and> write_evidence p remote ops"

lemma evidence_mono:
  "pinged ops tid \<Longrightarrow> ops \<subseteq> ops' \<Longrightarrow> pinged ops' tid"
  "read_evidence p r ops \<Longrightarrow> ops \<subseteq> ops' \<Longrightarrow> read_evidence p r ops'"
  "write_evidence p r ops \<Longrightarrow> ops \<subseteq> ops' \<Longrightarrow> write_evidence p r ops'"
  unfolding pinged_def read_evidence_def write_evidence_def by blast+

definition conn_sound :: "IcePort \<Rightarrow> Candidate \<Rightarrow> ConnOp set \<Rightarrow> Connection \<Rightarrow> bool" where
  "conn_sound p remote ops c \<longleftrightarrow>
     conn_remote c = remote \<and> (remote_ice_mode c = ICEMODE_LITE \<longrightarrow> IceModeOp ICEMODE_LITE \<in> ops) \<and> dom (requests (conn_requests c)) \<subseteq> {tid. pinged ops tid} \<and>
     (read_state c = STATE_READABLE \<longrightarrow> read_evidence p remote ops) \<and> (write_state c = STATE_WRITABLE \<longrightarrow> write_evidence p remote ops)"

lemma conn_sound_frame [simp]:
  "conn_sound p r ops (log_event e c) = conn_sound p r ops c" "conn_sound p r ops (log_port es c) = conn_sound p r ops c"
  "conn_sound p r ops (set_state s c) = conn_sound p r ops c" "conn_sound p r ops (restart_checks c) = conn_sound p r ops c"
  "conn_sound p r ops (set_use_candidate_attr b c) = conn_sound p r ops c" "conn_sound p r ops (set_connected b c) = conn_sound p r ops c"
  "conn_sound p r ops (set_reported b c) = conn_sound p r ops c" "conn_sound p r ops (HandleRoleConflictFromPeer c) = conn_sound p r ops c"
  "conn_sound p r ops (conn_OnReadyToSend c) = conn_sound p r ops c"
  "conn_sound p r ops (c\<lparr>last_data_received := t\<rparr>) = conn_sound p r ops c"
  by (simp_all add: conn_sound_def set_use_candidate_attr_def set_connected_def set_reported_def HandleRoleConflictFromPeer_def
      conn_OnReadyToSend_def)

lemma conn_sound_mono: "conn_sound p r ops c \<Longrightarrow> ops \<subseteq> ops' \<Longrightarrow> conn_sound p r ops' c"
  using evidence_mono unfolding conn_sound_def by (auto dest: subsetD)

lemma conn_sound_states:
  "conn_sound p r ops c \<Longrightarrow> v \<noteq> STATE_READABLE \<Longrightarrow> conn_sound p r ops (set_read_state v c)"
  "conn_sound p r ops c \<Longrightarrow> w \<noteq> STATE_WRITABLE \<Longrightarrow> conn_sound p r ops (set_write_state w c)"
  by (auto simp: conn_sound_def)

lemma conn_sound_owner:
  "conn_sound p r ops c \<Longrightarrow> read_evidence p r ops \<Longrightarrow> conn_sound p r ops (ReceivedPing now c)"
  "conn_sound p r ops c \<Longrightarrow> mode = ICEMODE_LITE \<longrightarrow> IceModeOp ICEMODE_LITE \<in> ops \<Longrightarrow> conn_sound p r ops (set_remote_ice_mode mode c)"
  by (simp_all add: conn_sound_def set_remote_ice_mode_def)

lemma conn_sound_UpdateState: "conn_sound p r ops c \<Longrightarrow> conn_sound p r ops (UpdateState now c)"
  by (auto simp: UpdateState_def Let_def intro!: conn_sound_states)

lemma conn_sound_ErrorResponse: "conn_sound p r ops c \<Longrightarrow> conn_sound p r ops (OnConnectionRequestErrorResponse p' m c)"
  by (auto simp: OnConnectionRequestErrorResponse_def Let_def intro!: conn_sound_states)

lemma username_fragment_role [simp]: "username_fragment (p\<lparr>port_role := role\<rparr>) = username_fragment p"
  by (simp add: username_fragment_def)

lemma GetStunMessage_role [simp]: "GetStunMessage (p\<lparr>port_role := role\<rparr>) data addr = GetStunMessage p data addr"
proof -
  have "ParseStunUsername (p\<lparr>port_role := role\<rparr>) m = ParseStunUsername p m" for m
    by (cases "ice_protocol p") (auto simp: ParseStunUsername_def split: option.split)
  moreover have "binding_error (p\<lparr>port_role := role\<rparr>) m n reason = binding_error p m n reason" for m n reason
    by (cases "ice_protocol p") (auto simp: binding_error_def Let_def)
  ultimately show ?thesis
    by (simp add: GetStunMessage_def SendBindingErrorResponse_def cong: option.case_cong if_cong)
qed

lemma conn_sound_request:
  assumes "conn_sound p r ops c" "PacketOp now data \<in> ops" "authenticated data (port_password p)"
  shows "conn_sound p r ops (accept_request p' now' m c)"
proof -
  have "read_evidence p r ops" using assms(2,3) by (auto simp: read_evidence_def)
  then have "conn_sound p r ops (ReceivedPing now' (log_event e c))" for e using assms(1) by (simp add: conn_sound_def)
  then show ?thesis using assms(1) by (simp add: accept_request_def Let_def split: option.split)
qed

lemma conn_sound_requests:
  "conn_sound p r ops c \<Longrightarrow> dom (requests m) \<subseteq> dom (requests (conn_requests c)) \<Longrightarrow> conn_sound p r ops (c\<lparr>conn_requests := m\<rparr>)"
  unfolding conn_sound_def by auto

lemma OnResponse_requests:
  "conn_requests (OnConnectionRequestResponse now t c) = conn_requests c" "conn_requests (OnConnectionRequestErrorResponse p m c) = conn_requests c"
  by (simp_all add: OnConnectionRequestResponse_def OnConnectionRequestErrorResponse_def HandleRoleConflictFromPeer_def Let_def)

lemma conn_sound_response:
  assumes s: "conn_sound p r ops c" and op: "PacketOp now data \<in> ops" and a: "authenticated data (cand_password r)"
    and g: "GetStunMessage p data (cand_address r) = Some (True, Some m, remote_ufrag, events)"
  shows "conn_sound p r ops (conn_CheckResponse p' now' m c)"
proof (cases "requests (conn_requests c) (m_transaction_id m)")
  case (Some q)
  then have "pinged ops (m_transaction_id m)" using s by (auto simp: conn_sound_def)
  then have "write_evidence p r ops" using op a g unfolding write_evidence_def by blast
  then have ok: "conn_sound p r ops (OnConnectionRequestResponse now' t c)" for t
    using s by (cases "remote_ice_mode c") (simp_all add: conn_sound_def OnConnectionRequestResponse_def Let_def read_evidence_def)
  show ?thesis
    using Some CheckResponse_dom[of m "conn_requests c"]
    by (auto simp: conn_CheckResponse_def Let_def OnResponse_requests intro!: conn_sound_requests ok s conn_sound_ErrorResponse)
qed (use s in \<open>simp add: conn_CheckResponse_def\<close>)

lemma conn_sound_packet:
  assumes p: "ice_protocol p = ICEPROTO_RFC5245" and s: "conn_sound p r ops c" and op: "PacketOp now data \<in> ops"
    and run: "conn_OnReadPacket (p\<lparr>port_role := role\<rparr>) now data c = Some c'"
  shows "conn_sound p r ops c'"
proof -
  have r: "conn_remote c = r" using s unfolding conn_sound_def by blast
  obtain stun msg ufrag events where g: "GetStunMessage p data (cand_address r) = Some (stun, msg, ufrag, events)"
    using run by (cases "GetStunMessage p data (cand_address r)") (auto simp: conn_OnReadPacket_def r)
  have s': "conn_sound p r ops (log_port events c)" using s by simp
  show ?thesis
  proof (cases "\<not> stun \<or> msg = None")
    case True
    then show ?thesis
      using run g s' by (auto simp: conn_OnReadPacket_def r Let_def split: if_splits)
  next
    case False
    then obtain m where m: "stun" "msg = Some m" by auto
    note g' = g[unfolded m(2)] note run' = run[unfolded conn_OnReadPacket_def r Let_def GetStunMessage_role g', simplified m(1), simplified]
    show ?thesis
    proof (cases "m_type m = STUN_BINDING_REQUEST")
      case True
      have "authenticated data (port_password p)"
        using request_authenticated[OF p _ True] g' m(1) by simp
      from conn_sound_request[OF _ op this] show ?thesis
        using run' True p s' by (auto split: if_splits option.splits prod.splits)
    next
      case False
      show ?thesis
      proof (cases "m_type m = STUN_BINDING_RESPONSE \<or> m_type m = STUN_BINDING_ERROR_RESPONSE")
        case True
        then show ?thesis
          using run' False p s' r conn_sound_response[OF s' op valid_authenticated] g' m(1)
          by (auto split: if_splits option.splits)
      next
        case other: False
        have "read_state c = STATE_READABLE \<Longrightarrow> conn_sound p r ops (ReceivedPing now (log_port events c))"
          using s by (auto simp: conn_sound_def)
        then show ?thesis
          using run' False other s' p by (auto split: if_splits)
      qed
    qed
  qed
qed

lemma conn_sound_ping:
  assumes "conn_sound p r ops c" "PingOp tid now \<in> ops" "Ping p' tid now c = Some c'"
  shows "conn_sound p r ops c'"
proof -
  define req where "req = StunRequest_new ConnectionRequest (StunMessage_new IceMessageClass) tid"
  define c1 where "c1 = c\<lparr>last_ping_sent := now, pings_since_last_response := pings_since_last_response c @ [now]\<rparr>"
  obtain m where m: "Prepare_check p' (cand_username (conn_remote c1)) (cand_password (conn_remote c1)) (length (pings_since_last_response c1))
      (use_candidate_attr c1) (cand_priority (conn_local c1)) (rq_msg req) = Some m"
    "c' = c1\<lparr>conn_requests := Send_request (\<lambda>_. m) req (conn_requests c1), check_state := STATE_INPROGRESS\<rparr>"
    using assms(3) by (auto simp: Ping_def Let_def c1_def req_def split: option.splits)
  have "rq_id (Construct_request (\<lambda>_. m) req) = check_id tid"
    using Prepare_check_id[OF m(1)] by (simp add: Construct_request_def rq_id_def check_id_def req_def)
  then have "dom (requests (conn_requests c')) = insert (check_id tid) (dom (requests (conn_requests c)))"
    by (simp add: m(2) c1_def Send_request_dom)
  moreover have "pinged ops (check_id tid)" using assms(2) by (auto simp: pinged_def)
  ultimately show ?thesis
    using assms(1) by (simp add: conn_sound_def m(2) c1_def)
qed

lemma conn_sound_Prune: "conn_sound p r ops c \<Longrightarrow> conn_sound p r ops (Prune c)"
  using conn_sound_requests[of p r ops c "Clear_requests (conn_requests c)"]
  by (auto simp: Prune_def Clear_requests_def conn_sound_def set_write_simps)

lemma conn_sound_step:
  assumes "ice_protocol p = ICEPROTO_RFC5245" "conn_sound p r ops c" "conn_step (p\<lparr>port_role := role\<rparr>) x c = Some c'"
  shows "conn_sound p r (insert x ops) c'"
proof -
  have s: "conn_sound p r (insert x ops) c" using assms(2) by (rule conn_sound_mono) auto
  show ?thesis
  proof (cases x)
    case (PacketOp now data)
    then show ?thesis using conn_sound_packet[OF assms(1) s] assms(3) by auto
  next
    case (PingOp tid now)
    then show ?thesis using conn_sound_ping[OF s] assms(3) by auto
  next
    case (TimerOp late)
    then show ?thesis using s assms(3) conn_sound_requests[OF s] Dispatch_dom by (auto simp: conn_Dispatch_def)
  next
    case DestroyOp
    then show ?thesis using s assms(3) by (simp add: conn_Destroy_def) (metis ReadState.distinct(5) WriteState.distinct(5) conn_sound_states)
  next
    case (PingedOp now)
    then have "read_evidence p r (insert x ops)" by (auto simp: read_evidence_def)
    then show ?thesis using conn_sound_owner(1)[OF s] assms(3) PingedOp by auto
  next
    case (IceModeOp mode)
    then show ?thesis using conn_sound_owner(2)[OF s] assms(3) by auto
  qed (use s assms(3) conn_sound_UpdateState[OF s] conn_sound_Prune[OF s] in auto)
qed

lemma conn_sound_run:
  assumes "ice_protocol p = ICEPROTO_RFC5245"
  shows "conn_run p xs c = Some c' \<Longrightarrow> conn_sound p r ops c \<Longrightarrow> conn_sound p r (snd ` set xs \<union> ops) c'"
proof (induction xs arbitrary: c ops)
  case (Cons y xs)
  obtain role x where y: "y = (role, x)" by (cases y)
  then obtain c1 where c1: "conn_step (p\<lparr>port_role := role\<rparr>) x c = Some c1" "conn_run p xs c1 = Some c'"
    using Cons.prems(1) by (auto split: option.splits)
  show ?case using Cons.IH[OF c1(2) conn_sound_step[OF assms Cons.prems(2) c1(1)]] y by simp
qed simp

lemma conn_sound_new: "conn_sound p remote {} (Connection_new local remote now)"
  by (simp add: conn_sound_def Connection_new_def StunRequestManager_new_def)

section \<open>Properties\<close>

text \<open>C6: Whatever packets come and whatever its owner and the timers do, a connection of an ICE port is writable
  only after a message with an integrity attribute made with the remote candidate's password that has the
  transaction identifier of a check the connection has sent. It is readable only after a packet with an
  integrity attribute made with the port's password, or after the owner itself has reported a ping, or, where
  the owner has declared the other side to be ICE lite, after a message as above. So nobody without one of the
  two passwords can bring it there.\<close>
theorem conn_states_authenticated:
  assumes "ice_protocol p = ICEPROTO_RFC5245" "conn_run p ops (Connection_new local remote start) = Some c"
  shows "(read_state c = STATE_READABLE \<longrightarrow>
      (\<exists>role now data. (role, PacketOp now data) \<in> set ops \<and> authenticated data (port_password p)) \<or>
      (\<exists>role now. (role, PingedOp now) \<in> set ops) \<or>
      (\<exists>role. (role, IceModeOp ICEMODE_LITE) \<in> set ops) \<and>
      (\<exists>role now data m remote_ufrag events role' random_id sent. (role, PacketOp now data) \<in> set ops \<and>
         authenticated data (cand_password remote) \<and> GetStunMessage p data (cand_address remote) = Some (True, Some m, remote_ufrag, events) \<and>
         (role', PingOp random_id sent) \<in> set ops \<and> m_transaction_id m = check_id random_id)) \<and>
    (write_state c = STATE_WRITABLE \<longrightarrow>
      (\<exists>role now data m remote_ufrag events role' random_id sent. (role, PacketOp now data) \<in> set ops \<and>
         authenticated data (cand_password remote) \<and> GetStunMessage p data (cand_address remote) = Some (True, Some m, remote_ufrag, events) \<and>
         (role', PingOp random_id sent) \<in> set ops \<and> m_transaction_id m = check_id random_id))"
proof -
  have "conn_sound p remote (snd ` set ops \<union> {}) c"
    using conn_sound_run[OF assms(1,2) conn_sound_new] .
  then have r: "read_state c = STATE_READABLE \<longrightarrow> read_evidence p remote (snd ` set ops)"
    and w: "write_state c = STATE_WRITABLE \<longrightarrow> write_evidence p remote (snd ` set ops)"
    by (simp_all add: conn_sound_def)
  have mem: "x \<in> snd ` set ops \<Longrightarrow> \<exists>role. (role, x) \<in> set ops" for x by force
  have w': "write_evidence p remote (snd ` set ops) \<Longrightarrow>
      \<exists>role now data m remote_ufrag events role' random_id sent. (role, PacketOp now data) \<in> set ops \<and>
         authenticated data (cand_password remote) \<and> GetStunMessage p data (cand_address remote) = Some (True, Some m, remote_ufrag, events) \<and>
         (role', PingOp random_id sent) \<in> set ops \<and> m_transaction_id m = check_id random_id"
    unfolding write_evidence_def pinged_def by (metis mem)
  show ?thesis
  proof (intro conjI impI)
    assume "read_state c = STATE_READABLE"
    with r have "read_evidence p remote (snd ` set ops)" by simp
    then show "(\<exists>role now data. (role, PacketOp now data) \<in> set ops \<and> authenticated data (port_password p)) \<or>
      (\<exists>role now. (role, PingedOp now) \<in> set ops) \<or>
      (\<exists>role. (role, IceModeOp ICEMODE_LITE) \<in> set ops) \<and>
      (\<exists>role now data m remote_ufrag events role' random_id sent. (role, PacketOp now data) \<in> set ops \<and>
         authenticated data (cand_password remote) \<and> GetStunMessage p data (cand_address remote) = Some (True, Some m, remote_ufrag, events) \<and>
         (role', PingOp random_id sent) \<in> set ops \<and> m_transaction_id m = check_id random_id)"
      unfolding read_evidence_def using mem w' by meson
  qed (use w w' in simp)
qed

text \<open>C20: In every run a connection that is neither readable nor ready to send, nor trying to be, has posted
  the message that deletes it.\<close>
theorem conn_useless_deleted:
  assumes "conn_run p ops (Connection_new local remote start) = Some c" "read_state c \<noteq> STATE_READABLE" "write_state c = STATE_WRITE_TIMEOUT"
  shows "PostDelete \<in> set (conn_log c)"
proof -
  have "deletes_useless (Connection_new local remote start)"
    by (simp add: deletes_useless_def useless_def Connection_new_def)
  from deletes_run[OF this assms(1)] show ?thesis
    using assms(2,3) by (simp add: deletes_useless_def useless_def)
qed

text \<open>C39: For candidate priorities below \<open>2^31\<close> the two ends of a pair compute the same priority, and it is the
  number of RFC 5245, section 5.7.2, without overflow: the pairs are ordered by the smaller priority
  first.\<close>
theorem pair_priority_rfc5245:
  assumes "g < 0x80000000" "d < 0x80000000"
  shows "pair_priority ROLE_CONTROLLING g d = pair_priority ROLE_CONTROLLED d g \<and>
    unat (pair_priority ROLE_CONTROLLING g d) = 2 ^ 32 * min (unat g) (unat d) + 2 * max (unat g) (unat d) + (if g > d then 1 else 0)"
proof -
  have lt: "unat g < 2147483648" "unat d < 2147483648"
    using assms by (simp_all add: word_less_nat_alt)
  have mm: "unat (min g d) = min (unat g) (unat d)" "unat (max g d) = max (unat g) (unat d)"
    by (simp_all add: min_def max_def word_le_nat_alt)
  have low: "unat (2 * max g d + (if g > d then 1 else 0)) = 2 * max (unat g) (unat d) + (if g > d then 1 else 0)"
  proof -
    define n where "n = max (unat g) (unat d)"
    have "n < 2147483648" using lt by (simp add: n_def)
    then show ?thesis unfolding n_def[symmetric] using mm(2) by (simp add: unat_word_ariths mod_less n_def[symmetric])
  qed
  have up: "unat (ucast w :: u64) = unat w" for w :: u32
    using unsigned_less[of w, where 'a = nat] by (simp add: unsigned_ucast_eq take_bit_nat_eq_self_iff)
  have hi: "unat (push_bit 32 (ucast (min g d) :: u64)) = 4294967296 * min (unat g) (unat d)"
    using lt mm(1) by (simp add: push_bit_eq_mult unat_word_ariths up mod_less)
  have "4294967296 * min (unat g) (unat d) + (2 * max (unat g) (unat d) + 1) < 18446744073709551616"
    using lt by (auto simp: min_def max_def)
  then have "unat (push_bit 32 (ucast (min g d)) + ucast (2 * max g d + (if g > d then 1 else 0)) :: u64) =
      4294967296 * min (unat g) (unat d) + (2 * max (unat g) (unat d) + (if g > d then 1 else 0))"
    using low hi by (subst unat_word_ariths) (auto simp: up)
  then show ?thesis by (simp add: pair_priority_def Let_def)
qed

text \<open>From \<open>2^31\<close> on the second term is computed in 32 bits and wraps.\<close>

lemma pair_priority_wraps: "pair_priority ROLE_CONTROLLING 0x80000000 2 < pair_priority ROLE_CONTROLLING 0x7FFFFFFF 2"
  by (simp add: pair_priority_def Let_def min_def max_def push_bit_eq_mult)

text \<open>The request manager of a connection without checks under way.\<close>

definition idle :: "Connection \<Rightarrow> bool" where
  "idle c \<longleftrightarrow> requests (conn_requests c) = Map.empty \<and> thread_queue (conn_requests c) = []"

lemma Send_idle:
  assumes "requests m = Map.empty" "thread_queue m = []"
    and r: "rq_kind r = ConnectionRequest" "rq_timeout r = False" "m_type (rq_msg r) = 0" "m_transaction_id msg = rq_id r"
  shows "\<exists>m'. Dispatch late (Send_request (\<lambda>_. msg) r m) = Some m' \<and>
    (\<exists>q. requests m' = [rq_id r \<mapsto> q] \<and> rq_msg q = msg \<and> rq_id q = rq_id r) \<and>
    (\<exists>t. rq_log m' = SendPacket t (rq_id r) (stun_packet msg) # rq_log m)"
proof -
  have "rq_id (r\<lparr>rq_msg := msg\<rparr>) = rq_id r" using r(4) by (simp add: rq_id_def)
  then show ?thesis
    using assms by (simp add: Dispatch_def Send_request_def SendDelayed_def Construct_request_def PostDelayed_def Let_def OnMessage_def GetNextDelay_def
        rq_id_def) (intro exI, rule conjI[OF refl], simp)
qed

lemma Response_accepted:
  assumes "requests (conn_requests c) (m_transaction_id m) = Some q" "m_type (rq_msg q) = STUN_BINDING_REQUEST" "m_type m = STUN_BINDING_RESPONSE"
  shows "write_state (conn_CheckResponse p now m c) = STATE_WRITABLE \<and> pings_since_last_response (conn_CheckResponse p now m c) = [] \<and>
    read_state (conn_CheckResponse p now m c) = (if remote_ice_mode c = ICEMODE_LITE then STATE_READABLE else read_state c)"
proof -
  have "GetStunSuccessResponseType (ucast STUN_BINDING_REQUEST) = ucast STUN_BINDING_RESPONSE"
    by (simp add: GetStunSuccessResponseType_def IsStunRequestType_def kStunTypeMask_def ice_stun_types)
  then show ?thesis using assms by (simp add: conn_CheckResponse_def OnConnectionRequestResponse_def Let_def)
qed

lemma accept_readable:
  assumes "GetAttribute m STUN_ATTR_USERNAME \<noteq> None"
  shows "read_state (accept_request p now m c) = STATE_READABLE"
    "\<exists>a es. GetAttribute m STUN_ATTR_USERNAME = Some a \<and> conn_log (accept_request p now m c) = es @
      PortDid (SentStun (stun_packet (binding_response p m (cand_address (conn_remote c)) (byte_string a))) (cand_address (conn_remote c))) # conn_log c"
proof -
  obtain a where a: "GetAttribute m STUN_ATTR_USERNAME = Some a" using assms by auto
  define e where "e = SentStun (stun_packet (binding_response p m (cand_address (conn_remote c)) (byte_string a))) (cand_address (conn_remote c))"
  have s: "SendBindingResponse p m (cand_address (conn_remote c)) = Some e"
    using a by (simp add: SendBindingResponse_def GetByteString_def e_def)
  have r: "\<exists>es. conn_log (set_read_state v c') = es @ conn_log c'" "\<exists>es. conn_log (restart_checks c') = es @ conn_log c'" for v c'
    by (auto simp: conn_setters)
  obtain e1 where e1: "conn_log (ReceivedPing now (log_event (PortDid e) c)) = e1 @ PortDid e # conn_log c"
    using r(1)[of STATE_READABLE "(log_event (PortDid e) c)\<lparr>last_ping_received := now\<rparr>"] by (auto simp: ReceivedPing_def log_event_def)
  obtain e2 where e2: "conn_log (restart_checks (ReceivedPing now (log_event (PortDid e) c))) = e2 @ e1 @ PortDid e # conn_log c"
    using r(2)[of "ReceivedPing now (log_event (PortDid e) c)"] e1 by auto
  show "read_state (accept_request p now m c) = STATE_READABLE" using s by (simp add: accept_request_def Let_def)
  have "\<exists>es. conn_log (accept_request p now m c) = es @ PortDid e # conn_log c"
    using s e2 by (auto simp: accept_request_def Let_def)
  then show "\<exists>a es. GetAttribute m STUN_ATTR_USERNAME = Some a \<and> conn_log (accept_request p now m c) = es @
      PortDid (SentStun (stun_packet (binding_response p m (cand_address (conn_remote c)) (byte_string a))) (cand_address (conn_remote c))) # conn_log c"
    using a by (auto simp: e_def)
qed

lemma checks_connect:
  assumes "ice_protocol p = ICEPROTO_RFC5245" "ice_protocol q = ICEPROTO_RFC5245" "length tid = kStunTransactionIdLength"
    "0x3A \<notin> set (ice_username_fragment p)" "length (ice_username_fragment p) + length (ice_username_fragment q) < 60000"
    "port_role p \<noteq> port_role q" "port_role p \<noteq> ROLE_UNKNOWN" "port_role q \<noteq> ROLE_UNKNOWN"
    "cand_username (conn_remote a) = ice_username_fragment p" "cand_password (conn_remote a) = port_password p"
    "cand_username (conn_remote b) = ice_username_fragment q" "sa_ok (cand_address (conn_remote b))"
    "idle a" "remote_ice_mode a = ICEMODE_FULL"
  shows "\<exists>a1 a2 data b1 es reply a3. Ping q tid t1 a = Some a1 \<and>
     conn_Dispatch late a1 = Some a2 \<and> (\<exists>t. rq_log (conn_requests a2) = SendPacket t tid (Some data) # rq_log (conn_requests a)) \<and>
     conn_OnReadPacket p t2 data b = Some b1 \<and> read_state b1 = STATE_READABLE \<and>
     conn_log b1 = es @ PortDid (SentStun (Some reply) (cand_address (conn_remote b))) # conn_log b \<and>
     conn_OnReadPacket q t3 reply a2 = Some a3 \<and> write_state a3 = STATE_WRITABLE \<and> pings_since_last_response a3 = []"
proof -
  define req where "req = StunRequest_new ConnectionRequest (StunMessage_new IceMessageClass) tid"
  have req: "rq_msg req = new_message IceMessageClass tid" "rq_kind req = ConnectionRequest" "rq_timeout req = False" "rq_id req = tid"
      "m_type (rq_msg req) = 0"
    using assms(3) by (simp_all add: req_def StunRequest_new_def new_message_def rq_id_def SetTransactionID_def IsValidTransactionId_def StunMessage_new_def)
  obtain m where m: "Prepare_check q (ice_username_fragment p) (port_password p) (Suc (length (pings_since_last_response a))) (use_candidate_attr a)
        (cand_priority (conn_local a)) (new_message IceMessageClass tid) = Some m"
    "stun_packet m = Some (msg_bytes m)" "GetStunMessage p (msg_bytes m) (cand_address (conn_remote b)) = Some (True, Some m, ice_username_fragment q, [])"
    "m_type m = STUN_BINDING_REQUEST" "m_transaction_id m = tid" "GetAttribute m STUN_ATTR_USERNAME \<noteq> None"
    "GetAttribute m STUN_ATTR_ICE_CONTROLLING = (if port_role q = ROLE_CONTROLLING then Some (StunUInt64Attribute STUN_ATTR_ICE_CONTROLLING (port_tiebreaker q)) else None)"
    "GetAttribute m STUN_ATTR_ICE_CONTROLLED = (if port_role q = ROLE_CONTROLLED then Some (StunUInt64Attribute STUN_ATTR_ICE_CONTROLLED (port_tiebreaker q)) else None)"
    using check_received[OF assms(1-5)] by blast
  define a1 where "a1 = a\<lparr>last_ping_sent := t1, pings_since_last_response := pings_since_last_response a @ [t1],
      conn_requests := Send_request (\<lambda>_. m) req (conn_requests a), check_state := STATE_INPROGRESS\<rparr>"
  have ping: "Ping q tid t1 a = Some a1"
    using m(1) assms(9,10) by (simp add: Ping_def Let_def a1_def req_def[symmetric] req(1))
  obtain mgr rq t where d: "Dispatch late (conn_requests a1) = Some mgr" "requests mgr = [tid \<mapsto> rq]" "rq_msg rq = m"
      "rq_log mgr = SendPacket t tid (stun_packet m) # rq_log (conn_requests a)"
    using Send_idle[of "conn_requests a" req m late] assms(13) req m(5) by (auto simp: idle_def a1_def)
  define a2 where "a2 = a1\<lparr>conn_requests := mgr\<rparr>"
  have ok: "MaybeIceRoleConflict p (cand_address (conn_remote b)) m (ice_username_fragment q) = Some (True, [])"
    using m(7,8) assms(1,6-8) by (cases "port_role p"; cases "port_role q")
      (auto simp: MaybeIceRoleConflict_def GetUInt64_def username_fragment_def)
  define b1 where "b1 = accept_request p t2 m (log_port [] (log_port [] b))"
  have read: "conn_OnReadPacket p t2 (msg_bytes m) b = Some b1"
    using m(3,4) ok assms(1,11) by (simp add: conn_OnReadPacket_def b1_def)
  obtain u es where u: "GetAttribute m STUN_ATTR_USERNAME = Some u"
    "conn_log b1 = es @ PortDid (SentStun (stun_packet (binding_response p m (cand_address (conn_remote b)) (byte_string u))) (cand_address (conn_remote b))) # conn_log b"
    using accept_readable(2)[OF m(6), of p t2 "log_port [] (log_port [] b)"] by (auto simp: b1_def)
  define r where "r = binding_response p m (cand_address (conn_remote b)) (byte_string u)"
  note rr = response_received[OF assms(1,2) _ assms(12), of m "byte_string u" "cand_address (conn_remote a)", folded r_def, unfolded m(5), OF assms(3)]
  define r' where "r' = r\<lparr>m_class := IceMessageClass\<rparr>"
  have r': "m_type r' = STUN_BINDING_RESPONSE" "m_transaction_id r' = tid" using rr by (simp_all add: r'_def)
  define a3 where "a3 = conn_CheckResponse q t3 r' (log_port [] a2)"
  have "conn_OnReadPacket q t3 (msg_bytes r) a2 = Some a3"
    using rr r' assms(2,10) by (simp add: conn_OnReadPacket_def a3_def a2_def a1_def ice_stun_types r'_def)
  moreover have "write_state a3 = STATE_WRITABLE" "pings_since_last_response a3 = []"
    using Response_accepted[of "log_port [] a2" r' rq q t3] d(2,3) r' m(4) by (simp_all add: a3_def a2_def)
  ultimately show ?thesis
    using ping d(1,4) m(2) read u(2) accept_readable(1)[OF m(6)] rr
    by (intro exI[of _ a1] exI[of _ a2] exI[of _ "msg_bytes m"] exI[of _ b1] exI[of _ es] exI[of _ "msg_bytes r"] exI[of _ a3])
      (auto simp: conn_Dispatch_def a2_def b1_def r_def)
qed

text \<open>C11: Two connections of ICE ports that know each other's credentials and have different roles connect: the
  check of one makes the other readable, and the answer makes the first writable and clears its
  unanswered checks.\<close>
theorem ice_connects:
  assumes "ice_protocol p = ICEPROTO_RFC5245" "ice_protocol q = ICEPROTO_RFC5245" "length tid = kStunTransactionIdLength"
    "0x3A \<notin> set (ice_username_fragment p)" "length (ice_username_fragment p) + length (ice_username_fragment q) < 60000"
    "port_role p \<noteq> port_role q" "port_role p \<noteq> ROLE_UNKNOWN" "port_role q \<noteq> ROLE_UNKNOWN"
    "cand_username (conn_remote a) = ice_username_fragment p" "cand_password (conn_remote a) = port_password p"
    "cand_username (conn_remote b) = ice_username_fragment q" "sa_ok (cand_address (conn_remote b))"
    "idle a" "remote_ice_mode a = ICEMODE_FULL"
  shows "\<exists>a1 a2 data b1 es reply a3. Ping q tid t1 a = Some a1 \<and>
     conn_Dispatch late a1 = Some a2 \<and> (\<exists>t. rq_log (conn_requests a2) = SendPacket t tid (Some data) # rq_log (conn_requests a)) \<and>
     conn_OnReadPacket p t2 data b = Some b1 \<and> read_state b1 = STATE_READABLE \<and>
     conn_log b1 = es @ PortDid (SentStun (Some reply) (cand_address (conn_remote b))) # conn_log b \<and>
     conn_OnReadPacket q t3 reply a2 = Some a3 \<and> write_state a3 = STATE_WRITABLE \<and> pings_since_last_response a3 = []"
  using checks_connect[OF assms] .

text \<open>C21: Where two ports have taken the same role, each sees the other's check, and exactly one of them is told
  to change its role, the same one by both ways: \<open>s\<close>, the one with the smaller tie breaker where both control and
  the one with the greater where both are controlled. Its own port signals the conflict and accepts the check of \<open>k\<close>;
  \<open>k\<close> signals nothing and answers its check with the error 487, which \<open>s\<close> reads as an authentic answer to that
  check, and its connection signals the conflict too. So one role remains with each.\<close>
theorem ice_role_conflict_resolved:
  assumes "ice_protocol k = ICEPROTO_RFC5245" "ice_protocol s = ICEPROTO_RFC5245" "length tk = kStunTransactionIdLength" "length ts = kStunTransactionIdLength"
    "0x3A \<notin> set (ice_username_fragment k)" "0x3A \<notin> set (ice_username_fragment s)"
    "length (ice_username_fragment k) + length (ice_username_fragment s) < 60000"
    "port_role k = port_role s" "port_role k \<noteq> ROLE_UNKNOWN"
    "if port_role k = ROLE_CONTROLLING then port_tiebreaker s < port_tiebreaker k else port_tiebreaker k < port_tiebreaker s"
  shows "\<exists>mk ms e r.
     Prepare_check k (ice_username_fragment s) (port_password s) n1 uc1 prio1 (new_message IceMessageClass tk) = Some mk \<and>
     Prepare_check s (ice_username_fragment k) (port_password k) n2 uc2 prio2 (new_message IceMessageClass ts) = Some ms \<and>
     MaybeIceRoleConflict s kaddr mk (ice_username_fragment k) = Some (True, [RoleConflict]) \<and>
     MaybeIceRoleConflict k saddr ms (ice_username_fragment s) = Some (False, [SentStun (Some e) saddr]) \<and>
     GetStunMessage s e kaddr = Some (True, Some r, [], []) \<and> ValidateMessageIntegrity e (port_password k) = Some True \<and>
     m_type r = STUN_BINDING_ERROR_RESPONSE \<and> m_transaction_id r = ts \<and> response_error_code s r = 487 \<and>
     OnConnectionRequestErrorResponse s r c = log_event (PortDid RoleConflict) c"
proof -
  have l: "length (ice_username_fragment s) + length (ice_username_fragment k) < 60000" using assms(7) by simp
  obtain ms where ms: "Prepare_check s (ice_username_fragment k) (port_password k) n2 uc2 prio2 (new_message IceMessageClass ts) = Some ms"
    "m_transaction_id ms = ts"
    "GetAttribute ms STUN_ATTR_ICE_CONTROLLING = (if port_role s = ROLE_CONTROLLING then Some (StunUInt64Attribute STUN_ATTR_ICE_CONTROLLING (port_tiebreaker s)) else None)"
    "GetAttribute ms STUN_ATTR_ICE_CONTROLLED = (if port_role s = ROLE_CONTROLLED then Some (StunUInt64Attribute STUN_ATTR_ICE_CONTROLLED (port_tiebreaker s)) else None)"
    using check_received[OF assms(1,2,4,5,7)] by blast
  obtain mk where mk: "Prepare_check k (ice_username_fragment s) (port_password s) n1 uc1 prio1 (new_message IceMessageClass tk) = Some mk"
    "GetAttribute mk STUN_ATTR_ICE_CONTROLLING = (if port_role k = ROLE_CONTROLLING then Some (StunUInt64Attribute STUN_ATTR_ICE_CONTROLLING (port_tiebreaker k)) else None)"
    "GetAttribute mk STUN_ATTR_ICE_CONTROLLED = (if port_role k = ROLE_CONTROLLED then Some (StunUInt64Attribute STUN_ATTR_ICE_CONTROLLED (port_tiebreaker k)) else None)"
    using check_received[OF assms(2,1,3,6) l] by blast
  have v: "uint64_value (StunUInt64Attribute t w) = w" for t w by (simp add: uint64_value_def StunUInt64Attribute_def)
  have lt: "port_tiebreaker s \<noteq> port_tiebreaker k" "port_tiebreaker k \<noteq> port_tiebreaker s" using assms(10) by (auto split: if_splits)
  have c: "port_role k = ROLE_CONTROLLING \<and> port_role s = ROLE_CONTROLLING \<or> port_role k = ROLE_CONTROLLED \<and> port_role s = ROLE_CONTROLLED"
    using assms(8,9) by (cases "port_role k") auto
  define e where "e = binding_error k ms STUN_ERROR_ROLE_CONFLICT STUN_ERROR_REASON_ROLE_CONFLICT"
  define r where "r = e\<lparr>m_class := IceMessageClass\<rparr>"
  have len: "length (m_transaction_id ms) = kStunTransactionIdLength" using ms(2) assms(4) by simp
  note f = conflict_refused[OF assms(1,2) len, of kaddr, folded e_def, folded r_def]
  have rs: "m_type r = STUN_BINDING_ERROR_RESPONSE" "m_transaction_id r = ts" using f ms(2) by (simp_all add: r_def)
  have code: "response_error_code s r = 487"
    using f assms(2) by (simp add: response_error_code_def error_code_def)
  have "MaybeIceRoleConflict s kaddr mk (ice_username_fragment k) = Some (True, [RoleConflict])"
    "MaybeIceRoleConflict k saddr ms (ice_username_fragment s) = Some (False, [SentStun (stun_packet e) saddr])"
    using mk ms c lt assms(1,2,10)
    by (auto simp: MaybeIceRoleConflict_def GetUInt64_def username_fragment_def v SendBindingErrorResponse_def e_def Let_def)
  moreover have "OnConnectionRequestErrorResponse s r c = log_event (PortDid RoleConflict) c"
    using code by (simp add: OnConnectionRequestErrorResponse_def HandleRoleConflictFromPeer_def STUN_ERROR_UNKNOWN_ATTRIBUTE_def STUN_ERROR_SERVER_ERROR_def
        STUN_ERROR_UNAUTHORIZED_def STUN_ERROR_STALE_CREDENTIALS_def STUN_ERROR_ROLE_CONFLICT_def)
  ultimately show ?thesis
    using mk(1) ms(1) f rs code by (intro exI[of _ mk] exI[of _ ms] exI[of _ "msg_bytes e"] exI[of _ r]) simp
qed

lemma estimate_value:
  assumes "unat r < 2 ^ 31"
  shows "unat (ConservativeRTTEstimate r) = max 100 (min 3000 (2 * unat r))"
proof -
  have "unat (2 * r) = 2 * unat r" using assms by (simp add: unat_word_ariths)
  then have "2 * r \<le> 3000 \<longleftrightarrow> 2 * unat r \<le> 3000" "100 \<le> 2 * r \<longleftrightarrow> 100 \<le> 2 * unat r" by (simp_all add: word_le_nat_alt)
  with \<open>unat (2 * r) = 2 * unat r\<close> show ?thesis
    by (auto simp: ConservativeRTTEstimate_def MINIMUM_RTT_def MAXIMUM_RTT_def max_def min_def)
qed

lemma old_ping:
  fixes x k now :: u32
  assumes "unat x + 15000 < 2 ^ 32" "unat k \<le> 15000"
  shows "x + k < now \<longleftrightarrow> unat x + unat k < unat now"
proof -
  have "unat (x + k) = unat x + unat k" using assms by (simp add: unat_word_ariths)
  then show ?thesis by (simp add: word_less_nat_alt)
qed

text \<open>C38: While no clock value wraps, \<^verbatim>\<open>UpdateState\<close> makes a writable connection unreliable exactly if
  five checks are unanswered, the fifth of them longer than the conservative estimate of the round trip, which is
  twice the measured one kept between 100 ms and 3 s, and the oldest for more than five seconds. An
  unreliable connection, that one included, or one that has never been writable is timed out exactly if the
  oldest has been for more than 15 seconds. A writable connection with fewer failures stays writable however old they are.\<close>
theorem UpdateState_writability:
  assumes "\<forall>x\<in>set (pings_since_last_response c). unat x + 15000 < 2 ^ 32" "unat (conn_rtt c) < 2 ^ 31"
    "failing = (5 \<le> length (pings_since_last_response c) \<and>
       unat (pings_since_last_response c ! 4) + max 100 (min 3000 (2 * unat (conn_rtt c))) < unat now \<and>
       unat (pings_since_last_response c ! 0) + 5000 < unat now)"
    "overdue = (pings_since_last_response c \<noteq> [] \<and> unat (pings_since_last_response c ! 0) + 15000 < unat now)"
  shows "write_state (UpdateState now c) =
    (case write_state c of
       STATE_WRITABLE \<Rightarrow> if \<not> failing then STATE_WRITABLE else if overdue then STATE_WRITE_TIMEOUT else STATE_WRITE_UNRELIABLE
     | STATE_WRITE_UNRELIABLE \<Rightarrow> if overdue then STATE_WRITE_TIMEOUT else STATE_WRITE_UNRELIABLE
     | STATE_WRITE_INIT \<Rightarrow> if overdue then STATE_WRITE_TIMEOUT else STATE_WRITE_INIT
     | STATE_WRITE_TIMEOUT \<Rightarrow> STATE_WRITE_TIMEOUT)"
proof -
  define ps where "ps = pings_since_last_response c"
  have old: "i < length ps \<Longrightarrow> unat k \<le> 15000 \<Longrightarrow> ps ! i + k < now \<longleftrightarrow> unat (ps ! i) + unat k < unat now" for i and k :: u32
    by (rule old_ping) (use assms(1) nth_mem[of i ps] in \<open>simp_all add: ps_def\<close>)
  note e = estimate_value[OF assms(2)]
  have many: "TooManyFailures ps CONNECTION_WRITE_CONNECT_FAILURES (ConservativeRTTEstimate (conn_rtt c)) now \<longleftrightarrow>
      5 \<le> length ps \<and> unat (ps ! 4) + max 100 (min 3000 (2 * unat (conn_rtt c))) < unat now"
    using old[of 4 "ConservativeRTTEstimate (conn_rtt c)"] e by (auto simp: TooManyFailures_def conn_constants)
  have long: "TooLongWithoutResponse ps CONNECTION_WRITE_CONNECT_TIMEOUT now \<longleftrightarrow> ps \<noteq> [] \<and> unat (ps ! 0) + 5000 < unat now"
    "TooLongWithoutResponse ps CONNECTION_WRITE_TIMEOUT now \<longleftrightarrow> ps \<noteq> [] \<and> unat (ps ! 0) + 15000 < unat now"
    using old[of 0 5000] old[of 0 15000] by (auto simp: TooLongWithoutResponse_def conn_constants)
  have w: "write_state (UpdateState now c) =
      (let w = (if write_state c = STATE_WRITABLE \<and> failing then STATE_WRITE_UNRELIABLE else write_state c)
       in if (w = STATE_WRITE_UNRELIABLE \<or> w = STATE_WRITE_INIT) \<and> overdue then STATE_WRITE_TIMEOUT else w)"
    using many long unfolding assms(3,4) ps_def[symmetric]
    by (auto simp: UpdateState_def Let_def ps_def)
  show ?thesis by (cases "write_state c") (simp_all add: w Let_def)
qed

section \<open>Examples\<close>

definition example_candidate :: "u8 \<Rightarrow> Candidate" where
  "example_candidate x =
     \<lparr>cand_id = [], cand_component = 1, cand_protocol = [], cand_address = SocketAddress_of (IPAddress_host 7) 5000, cand_priority = 9,
      cand_username = [x, x, x, x], cand_password = replicate 22 x, cand_type = [], cand_network_name = [], cand_generation = 0,
      cand_foundation = [], cand_related_address = SocketAddress_of (IPAddress_host 8) 5000\<rparr>"

theorem UpdateState_writability_witness:
  "write_state (UpdateState 9000 ((Connection_new (example_candidate 65) (example_candidate 66) 0)
     \<lparr>write_state := STATE_WRITABLE, conn_rtt := 400, pings_since_last_response := [500, 1000, 1500, 2000, 8000]\<rparr>)) = STATE_WRITE_UNRELIABLE"
  using UpdateState_writability[of "(Connection_new (example_candidate 65) (example_candidate 66) 0)
      \<lparr>write_state := STATE_WRITABLE, conn_rtt := 400, pings_since_last_response := [500, 1000, 1500, 2000, 8000]\<rparr>" True 9000 False]
  by (simp add: Connection_new_def)

theorem pair_priority_rfc5245_witness: "unat (pair_priority ROLE_CONTROLLING 7 5) = 5 * 2 ^ 32 + 15"
  using pair_priority_rfc5245[of 7 5, THEN conjunct2] by simp

theorem conn_useless_deleted_witness:
  "\<exists>c. conn_run (example_port 65 ROLE_CONTROLLED 9) [(ROLE_CONTROLLED, PruneOp)] (Connection_new (example_candidate 65) (example_candidate 66) 0) = Some c \<and>
     PostDelete \<in> set (conn_log c)"
proof -
  define c where "c = Prune (Connection_new (example_candidate 65) (example_candidate 66) 0)"
  have "read_state c \<noteq> STATE_READABLE" "write_state c = STATE_WRITE_TIMEOUT" by (simp_all add: c_def Prune_def Connection_new_def)
  then show ?thesis
    using conn_useless_deleted[of "example_port 65 ROLE_CONTROLLED 9" "[(ROLE_CONTROLLED, PruneOp)]" "example_candidate 65" "example_candidate 66" 0 c]
    by (simp add: c_def)
qed

theorem ice_connects_witness:
  "\<exists>a1 data b1. Ping (example_port 66 ROLE_CONTROLLING 5) (replicate 12 1) 100 (Connection_new (example_candidate 66) (example_candidate 65) 0) = Some a1 \<and>
     conn_OnReadPacket (example_port 65 ROLE_CONTROLLED 9) 200 data (Connection_new (example_candidate 65) (example_candidate 66) 0) = Some b1 \<and>
     read_state b1 = STATE_READABLE"
  using ice_connects[of "example_port 65 ROLE_CONTROLLED 9" "example_port 66 ROLE_CONTROLLING 5" "replicate 12 1"
      "Connection_new (example_candidate 66) (example_candidate 65) 0" "Connection_new (example_candidate 65) (example_candidate 66) 0" 100 0 200 300]
    example_address_ok
  by (simp add: kStunTransactionIdLength_def Connection_new_def idle_def StunRequestManager_new_def example_candidate_def example_port_def) blast

lemma example_connects:
  "\<exists>data b1. conn_OnReadPacket (example_port 65 ROLE_CONTROLLED 9) 200 data (Connection_new (example_candidate 65) (example_candidate 66) 0) = Some b1 \<and>
     read_state b1 = STATE_READABLE"
  using checks_connect[of "example_port 65 ROLE_CONTROLLED 9" "example_port 66 ROLE_CONTROLLING 5" "replicate 12 1"
      "Connection_new (example_candidate 66) (example_candidate 65) 0" "Connection_new (example_candidate 65) (example_candidate 66) 0" 100 0 200 300]
    example_address_ok
  by (simp add: kStunTransactionIdLength_def Connection_new_def idle_def StunRequestManager_new_def example_candidate_def example_port_def) blast

theorem conn_states_authenticated_witness:
  "\<exists>c data. conn_run (example_port 65 ROLE_CONTROLLED 9) [(ROLE_CONTROLLED, PacketOp 200 data)] (Connection_new (example_candidate 65) (example_candidate 66) 0) = Some c \<and>
     read_state c = STATE_READABLE \<and> authenticated data (port_password (example_port 65 ROLE_CONTROLLED 9))"
proof -
  have role: "(example_port 65 ROLE_CONTROLLED 9)\<lparr>port_role := ROLE_CONTROLLED\<rparr> = example_port 65 ROLE_CONTROLLED 9"
    by (simp add: example_port_def)
  obtain data c where c: "conn_OnReadPacket (example_port 65 ROLE_CONTROLLED 9) 200 data (Connection_new (example_candidate 65) (example_candidate 66) 0) = Some c"
      "read_state c = STATE_READABLE"
    using example_connects by blast
  have "conn_run (example_port 65 ROLE_CONTROLLED 9) [(ROLE_CONTROLLED, PacketOp 200 data)] (Connection_new (example_candidate 65) (example_candidate 66) 0) = Some c"
    using c(1) by (simp add: role)
  from conn_states_authenticated[OF _ this] this c(2) show ?thesis by auto
qed

theorem ice_role_conflict_resolved_witness:
  "\<exists>mk ms e. Prepare_check (example_port 65 ROLE_CONTROLLING 9) [66, 66, 66, 66] (port_password (example_port 66 ROLE_CONTROLLING 5)) 3 True 77
      (new_message IceMessageClass (replicate 12 2)) = Some mk \<and>
     MaybeIceRoleConflict (example_port 66 ROLE_CONTROLLING 5) (SocketAddress_of (IPAddress_host 8) 5000) mk [65, 65, 65, 65] = Some (True, [RoleConflict]) \<and>
     MaybeIceRoleConflict (example_port 65 ROLE_CONTROLLING 9) (SocketAddress_of (IPAddress_host 7) 5000) ms [66, 66, 66, 66] =
       Some (False, [SentStun (Some e) (SocketAddress_of (IPAddress_host 7) 5000)])"
  using ice_role_conflict_resolved[of "example_port 65 ROLE_CONTROLLING 9" "example_port 66 ROLE_CONTROLLING 5" "replicate 12 2" "replicate 12 1"
      3 True 77 3 True 77 "SocketAddress_of (IPAddress_host 8) 5000" "SocketAddress_of (IPAddress_host 7) 5000"
      "Connection_new (example_candidate 66) (example_candidate 65) 0"]
  by (simp add: kStunTransactionIdLength_def) blast

end
