(* ===== verification/StreamParams.thy ===== *)
theory StreamParams
  imports Prelude
begin

text \<open>
  The media sources of a session, \<^verbatim>\<open>talk/media/base/streamparams.h\<close> and
  \<^verbatim>\<open>streamparams.cc\<close>: groups of SSRCs, the description of a stream, and the lookup and
  removal of streams by SSRC or by identifiers.
\<close>

section \<open>Descriptions\<close>

definition kFecSsrcGroupSemantics :: string where "kFecSsrcGroupSemantics = ''FEC''"
definition kFidSsrcGroupSemantics :: string where "kFidSsrcGroupSemantics = ''FID''"

record SsrcGroup =
  semantics :: string
  grp_ssrcs :: "u32 list"

record StreamParams =
  groupid :: string
  stream_id :: string
  ssrcs :: "u32 list"
  ssrc_groups :: "SsrcGroup list"
  stream_type :: string
  display :: string
  cname :: string
  sync_label :: string

definition has_semantics :: "SsrcGroup \<Rightarrow> string \<Rightarrow> bool" where
  "has_semantics g semantics_in \<longleftrightarrow> semantics g = semantics_in \<and> length (grp_ssrcs g) > 0"

definition CreateLegacy :: "u32 \<Rightarrow> StreamParams" where
  "CreateLegacy ssrc =
     \<lparr>groupid = [], stream_id = [], ssrcs = [ssrc], ssrc_groups = [], stream_type = [], display = [], cname = [], sync_label = []\<rparr>"

definition first_ssrc :: "StreamParams \<Rightarrow> u32" where
  "first_ssrc s = (if ssrcs s = [] then 0 else ssrcs s ! 0)"

definition has_ssrcs :: "StreamParams \<Rightarrow> bool" where
  "has_ssrcs s \<longleftrightarrow> ssrcs s \<noteq> []"

definition has_ssrc :: "StreamParams \<Rightarrow> u32 \<Rightarrow> bool" where
  "has_ssrc s ssrc \<longleftrightarrow> ssrc \<in> set (ssrcs s)"

definition add_ssrc :: "StreamParams \<Rightarrow> u32 \<Rightarrow> StreamParams" where
  "add_ssrc s ssrc = s\<lparr>ssrcs := ssrcs s @ [ssrc]\<rparr>"

definition has_ssrc_groups :: "StreamParams \<Rightarrow> bool" where
  "has_ssrc_groups s \<longleftrightarrow> ssrc_groups s \<noteq> []"

definition get_ssrc_group :: "StreamParams \<Rightarrow> string \<Rightarrow> SsrcGroup option" where
  "get_ssrc_group s usage = List.find (\<lambda>g. has_semantics g usage) (ssrc_groups s)"

definition has_ssrc_group :: "StreamParams \<Rightarrow> string \<Rightarrow> bool" where
  "has_ssrc_group s usage \<longleftrightarrow> get_ssrc_group s usage \<noteq> None"

definition AddSecondarySsrc :: "StreamParams \<Rightarrow> string \<Rightarrow> u32 \<Rightarrow> u32 \<Rightarrow> bool \<times> StreamParams" where
  "AddSecondarySsrc s usage primary_ssrc secondary_ssrc =
     (if \<not> has_ssrc s primary_ssrc then (False, s)
      else
        (True, s\<lparr>ssrcs := ssrcs s @ [secondary_ssrc],
                 ssrc_groups := ssrc_groups s @ [\<lparr>semantics = usage, grp_ssrcs = [primary_ssrc, secondary_ssrc]\<rparr>]\<rparr>))"

definition GetSecondarySsrc :: "StreamParams \<Rightarrow> string \<Rightarrow> u32 \<Rightarrow> u32 option" where
  "GetSecondarySsrc s usage primary_ssrc =
     map_option (\<lambda>g. grp_ssrcs g ! 1)
       (List.find (\<lambda>g. has_semantics g usage \<and> length (grp_ssrcs g) \<ge> 2 \<and> grp_ssrcs g ! 0 = primary_ssrc) (ssrc_groups s))"

definition AddFidSsrc :: "StreamParams \<Rightarrow> u32 \<Rightarrow> u32 \<Rightarrow> bool \<times> StreamParams" where
  "AddFidSsrc s primary_ssrc fid_ssrc = AddSecondarySsrc s kFidSsrcGroupSemantics primary_ssrc fid_ssrc"

definition GetFidSsrc :: "StreamParams \<Rightarrow> u32 \<Rightarrow> u32 option" where
  "GetFidSsrc s primary_ssrc = GetSecondarySsrc s kFidSsrcGroupSemantics primary_ssrc"

section \<open>Selecting streams\<close>

record StreamSelector =
  sel_ssrc :: u32
  sel_groupid :: string
  sel_streamid :: string

definition StreamSelector_ssrc :: "u32 \<Rightarrow> StreamSelector" where
  "StreamSelector_ssrc ssrc = \<lparr>sel_ssrc = ssrc, sel_groupid = [], sel_streamid = []\<rparr>"

definition StreamSelector_ids :: "string \<Rightarrow> string \<Rightarrow> StreamSelector" where
  "StreamSelector_ids grp streamid = \<lparr>sel_ssrc = 0, sel_groupid = grp, sel_streamid = streamid\<rparr>"

definition Matches :: "StreamSelector \<Rightarrow> StreamParams \<Rightarrow> bool" where
  "Matches sel stream =
     (if sel_ssrc sel = 0 then groupid stream = sel_groupid sel \<and> stream_id stream = sel_streamid sel
      else has_ssrc stream (sel_ssrc sel))"

fun GetStream :: "StreamParams list \<Rightarrow> StreamSelector \<Rightarrow> StreamParams option" where
  "GetStream [] selector = None"
| "GetStream (stream # streams) selector = (if Matches selector stream then Some stream else GetStream streams selector)"

definition GetStreamBySsrc :: "StreamParams list \<Rightarrow> u32 \<Rightarrow> StreamParams option" where
  "GetStreamBySsrc streams ssrc = GetStream streams (StreamSelector_ssrc ssrc)"

definition GetStreamByIds :: "StreamParams list \<Rightarrow> string \<Rightarrow> string \<Rightarrow> StreamParams option" where
  "GetStreamByIds streams grp stream = GetStream streams (StreamSelector_ids grp stream)"

fun RemoveStream :: "StreamParams list \<Rightarrow> StreamSelector \<Rightarrow> bool \<times> StreamParams list" where
  "RemoveStream [] selector = (False, [])"
| "RemoveStream (stream # streams) selector =
     (case RemoveStream streams selector of
        (ret, streams) \<Rightarrow> if Matches selector stream then (True, streams) else (ret, stream # streams))"

definition RemoveStreamBySsrc :: "StreamParams list \<Rightarrow> u32 \<Rightarrow> bool \<times> StreamParams list" where
  "RemoveStreamBySsrc streams ssrc = RemoveStream streams (StreamSelector_ssrc ssrc)"

definition RemoveStreamByIds :: "StreamParams list \<Rightarrow> string \<Rightarrow> string \<Rightarrow> bool \<times> StreamParams list" where
  "RemoveStreamByIds streams grp stream = RemoveStream streams (StreamSelector_ids grp stream)"

section \<open>Text\<close>

text \<open>The decimal digits \<^verbatim>\<open>ostream\<close> writes for an unsigned number.\<close>

fun decimal :: "nat \<Rightarrow> string" where
  "decimal n = (if n < 10 then [char_of (48 + n)] else decimal (n div 10) @ [char_of (48 + n mod 10)])"

declare decimal.simps [simp del]

fun separated :: "string list \<Rightarrow> string" where
  "separated [] = []"
| "separated [x] = x"
| "separated (x # y # xs) = x @ '','' @ separated (y # xs)"

definition SsrcsToString :: "u32 list \<Rightarrow> string" where
  "SsrcsToString xs = ''ssrcs:['' @ separated (map (\<lambda>s. decimal (unat s)) xs) @ '']''"

definition SsrcGroup_ToString :: "SsrcGroup \<Rightarrow> string" where
  "SsrcGroup_ToString g = ''{semantics:'' @ semantics g @ '';'' @ SsrcsToString (grp_ssrcs g) @ ''}''"

definition StreamParams_ToString :: "StreamParams \<Rightarrow> string" where
  "StreamParams_ToString s =
     ''{'' @
     (if groupid s \<noteq> [] then ''groupid:'' @ groupid s @ '';'' else []) @
     (if stream_id s \<noteq> [] then ''id:'' @ stream_id s @ '';'' else []) @
     SsrcsToString (ssrcs s) @ '';'' @
     ''ssrc_groups:'' @ separated (map SsrcGroup_ToString (ssrc_groups s)) @ '';'' @
     (if stream_type s \<noteq> [] then ''type:'' @ stream_type s @ '';'' else []) @
     (if display s \<noteq> [] then ''display:'' @ display s @ '';'' else []) @
     (if cname s \<noteq> [] then ''cname:'' @ cname s @ '';'' else []) @
     (if sync_label s \<noteq> [] then ''sync_label:'' @ sync_label s else []) @
     ''}''"

section \<open>Lemmas\<close>

lemma GetStream_None: "GetStream streams sel = None \<longleftrightarrow> (\<forall>s\<in>set streams. \<not> Matches sel s)"
  by (induction streams) auto

lemma GetStream_Some: "GetStream streams sel = Some s \<Longrightarrow> s \<in> set streams \<and> Matches sel s"
  by (induction streams) (auto split: if_split_asm)

lemma RemoveStream_eq:
  "RemoveStream streams sel = (\<exists>s\<in>set streams. Matches sel s, filter (\<lambda>s. \<not> Matches sel s) streams)"
  by (induction streams) auto

lemma Matches_ssrc [simp]: "ssrc \<noteq> 0 \<Longrightarrow> Matches (StreamSelector_ssrc ssrc) s = has_ssrc s ssrc"
  by (simp add: Matches_def StreamSelector_ssrc_def)

lemma Matches_zero [simp]: "Matches (StreamSelector_ssrc 0) s = (groupid s = [] \<and> stream_id s = [])"
  by (simp add: Matches_def StreamSelector_ssrc_def)

lemma find_None: "(\<And>x. x \<in> set xs \<Longrightarrow> \<not> P x) \<Longrightarrow> List.find P (xs @ ys) = List.find P ys"
  by (induction xs) auto

text \<open>A secondary SSRC added for a primary one is the one found for it, unless one was there.\<close>

lemma GetFidSsrc_AddFidSsrc:
  assumes "has_ssrc s p" "GetFidSsrc s p = None"
  shows "\<exists>t. AddFidSsrc s p f = (True, t) \<and> GetFidSsrc t p = Some f \<and> has_ssrc t f"
proof -
  have "List.find (\<lambda>g. has_semantics g kFidSsrcGroupSemantics \<and> length (grp_ssrcs g) \<ge> 2 \<and> grp_ssrcs g ! 0 = p) (ssrc_groups s) = None"
    using assms(2) by (simp add: GetFidSsrc_def GetSecondarySsrc_def)
  then show ?thesis
    using assms(1) unfolding find_None_iff
    by (auto simp: AddFidSsrc_def AddSecondarySsrc_def GetFidSsrc_def GetSecondarySsrc_def has_ssrc_def find_None has_semantics_def
        intro!: exI[of _ "[p, f] ! 1"])
qed

end
