(* ===== verification/IceChannel.thy ===== *)
theory IceChannel
  imports IceConnection StreamParams
begin

text \<open>
  \<^verbatim>\<open>P2PTransportChannel\<close> of \<^verbatim>\<open>talk/p2p/base/p2ptransportchannel.h\<close> and
  \<^verbatim>\<open>p2ptransportchannel.cc\<close>: the connections of an ICE channel, which of them carries
  the data, which are checked next and which are pruned; with the connection table of
  \<^verbatim>\<open>Port\<close> and the connections a \<^verbatim>\<open>UDPPort\<close> makes.

  Ports and connections are objects in two stores; a pointer is the number of its object, and an
  operation that follows a pointer to an object that is gone has the result \<open>None\<close>. What the
  connections signal is handled in the order in which it was signalled. Signals of the channel are
  logged, newest first; the messages it has posted are kept in order. The number of an object is never used
  again, where the program may put a new object at the address of a deleted one.
\<close>

section \<open>Objects\<close>

datatype Lifetime = LT_PRESTART | LT_PRETIMEOUT | LT_POSTTIMEOUT

record ChanPort =
  cp_port :: IcePort
  cp_network :: nat
  cp_shared :: bool
  cp_lifetime :: Lifetime
  cp_table :: "(SocketAddress \<times> nat) list"

datatype ChanMsg = MSG_SORT | MSG_PING | MSG_DELETE nat

datatype ChanEvent =
    RequestSignaling
  | CreateSession bytes bytes
  | StopGettingPorts nat
  | RouteChange nat
  | ReadableState bool
  | WritableState bool
  | ChReadyToSend
  | ChReadPacket bytes
  | ChPort nat PortEvent

record IceChannel =
  ch_ports_mem :: "nat \<rightharpoonup> ChanPort"
  ch_conns_mem :: "nat \<rightharpoonup> nat \<times> Connection"
  ch_next :: nat
  ch_filter_turn :: bool
  ch_incoming_only :: bool
  ch_waiting :: bool
  ch_sessions :: "bool list"
  ch_ports :: "nat list"
  ch_connections :: "nat list"
  ch_best :: "nat option"
  ch_pending :: "nat option"
  ch_remotes :: "(Candidate \<times> nat option) list"
  ch_sort_dirty :: bool
  ch_was_writable :: bool
  ch_readable :: bool
  ch_writable :: bool
  ch_ufrag :: bytes
  ch_pwd :: bytes
  ch_remote_ufrag :: bytes
  ch_remote_pwd :: bytes
  ch_protocol :: IceProtocolType
  ch_remote_mode :: IceMode
  ch_role :: TransportRole
  ch_tiebreaker :: u64
  ch_generation :: u32
  ch_msgs :: "ChanMsg list"
  ch_log :: "ChanEvent list"

definition P2PTransportChannel_new :: "bool \<Rightarrow> IceChannel" where
  "P2PTransportChannel_new filter_turn =
     \<lparr>ch_ports_mem = Map.empty, ch_conns_mem = Map.empty, ch_next = 0, ch_filter_turn = filter_turn, ch_incoming_only = False,
      ch_waiting = False, ch_sessions = [], ch_ports = [], ch_connections = [], ch_best = None, ch_pending = None, ch_remotes = [],
      ch_sort_dirty = False, ch_was_writable = False, ch_readable = False, ch_writable = False, ch_ufrag = [], ch_pwd = [],
      ch_remote_ufrag = [], ch_remote_pwd = [], ch_protocol = ICEPROTO_GOOGLE, ch_remote_mode = ICEMODE_FULL, ch_role = ROLE_UNKNOWN,
      ch_tiebreaker = 0, ch_generation = 0, ch_msgs = [], ch_log = []\<rparr>"

definition chan_log :: "ChanEvent \<Rightarrow> IceChannel \<Rightarrow> IceChannel" where
  "chan_log e ch = ch\<lparr>ch_log := e # ch_log ch\<rparr>"

definition post_msg :: "ChanMsg \<Rightarrow> IceChannel \<Rightarrow> IceChannel" where
  "post_msg m ch = ch\<lparr>ch_msgs := ch_msgs ch @ [m]\<rparr>"

text \<open>A connection with its port, where both objects are there.\<close>

definition conn_at :: "IceChannel \<Rightarrow> nat \<Rightarrow> (ChanPort \<times> Connection) option" where
  "conn_at ch i =
     (case ch_conns_mem ch i of
        None \<Rightarrow> None
      | Some (pid, c) \<Rightarrow> map_option (\<lambda>cp. (cp, c)) (ch_ports_mem ch pid))"

definition the_port :: "IceChannel \<Rightarrow> nat \<Rightarrow> ChanPort" where
  "the_port ch i = fst (the (conn_at ch i))"

definition the_conn :: "IceChannel \<Rightarrow> nat \<Rightarrow> Connection" where
  "the_conn ch i = snd (the (conn_at ch i))"

text \<open>Every pointer among the connections of the channel, and the one to the best, leads to an object.\<close>

definition live :: "IceChannel \<Rightarrow> bool" where
  "live ch \<longleftrightarrow> list_all (\<lambda>i. conn_at ch i \<noteq> None) (ch_connections ch) \<and> (case ch_best ch of None \<Rightarrow> True | Some i \<Rightarrow> conn_at ch i \<noteq> None)"

section \<open>Comparing connections\<close>

fun write_rank :: "WriteState \<Rightarrow> nat" where
  "write_rank STATE_WRITABLE = 0"
| "write_rank STATE_WRITE_UNRELIABLE = 1"
| "write_rank STATE_WRITE_INIT = 2"
| "write_rank STATE_WRITE_TIMEOUT = 3"

definition CompareConnectionCandidates :: "ChanPort \<times> Connection \<Rightarrow> ChanPort \<times> Connection \<Rightarrow> int" where
  "CompareConnectionCandidates a b =
     (let pa = conn_priority (cp_port (fst a)) (snd a);
          pb = conn_priority (cp_port (fst b)) (snd b)
      in if pa > pb then 1
         else if pa < pb then - 1
         else sint ((cand_generation (conn_remote (snd a)) + port_generation (cp_port (fst a))) -
                    (cand_generation (conn_remote (snd b)) + port_generation (cp_port (fst b)))))"

definition CompareConnections :: "ChanPort \<times> Connection \<Rightarrow> ChanPort \<times> Connection \<Rightarrow> int" where
  "CompareConnections a b =
     (if write_rank (write_state (snd a)) < write_rank (write_state (snd b)) then 1
      else if write_rank (write_state (snd a)) > write_rank (write_state (snd b)) then - 1
      else CompareConnectionCandidates a b)"

definition ConnectionCompare :: "ChanPort \<times> Connection \<Rightarrow> ChanPort \<times> Connection \<Rightarrow> bool" where
  "ConnectionCompare a b =
     (let cmp = CompareConnections a b
      in if cmp > 0 then True else if cmp < 0 then False else conn_rtt (snd a) < conn_rtt (snd b))"

definition kMinImprovement :: nat where "kMinImprovement = 10"

definition should_switch :: "ChanPort \<times> Connection \<Rightarrow> ChanPort \<times> Connection \<Rightarrow> bool" where
  "should_switch a b =
     (let prefs_cmp = CompareConnections a b
      in if prefs_cmp < 0 then True
         else if prefs_cmp > 0 then False
         else unat (conn_rtt (snd b)) \<le> unat (conn_rtt (snd a)) + kMinImprovement)"

definition ShouldSwitch :: "IceChannel \<Rightarrow> nat option \<Rightarrow> nat option \<Rightarrow> bool" where
  "ShouldSwitch ch a b =
     (if a = b then False
      else case (a, b) of
             (Some a, Some b) \<Rightarrow> should_switch (the_port ch a, the_conn ch a) (the_port ch b, the_conn ch b)
           | _ \<Rightarrow> True)"

text \<open>\<^verbatim>\<open>std::stable_sort\<close>, for a comparison that is a strict weak order.\<close>

fun stable_insert :: "('a \<Rightarrow> 'a \<Rightarrow> bool) \<Rightarrow> 'a \<Rightarrow> 'a list \<Rightarrow> 'a list" where
  "stable_insert lt x [] = [x]"
| "stable_insert lt x (y # ys) = (if lt y x then y # stable_insert lt x ys else x # y # ys)"

definition stable_sort :: "('a \<Rightarrow> 'a \<Rightarrow> bool) \<Rightarrow> 'a list \<Rightarrow> 'a list" where
  "stable_sort lt xs = foldr (stable_insert lt) xs []"

section \<open>Signals\<close>

definition set_readable :: "bool \<Rightarrow> IceChannel \<Rightarrow> IceChannel" where
  "set_readable readable ch = (if ch_readable ch \<noteq> readable then chan_log (ReadableState readable) (ch\<lparr>ch_readable := readable\<rparr>) else ch)"

definition set_writable :: "bool \<Rightarrow> IceChannel \<Rightarrow> IceChannel" where
  "set_writable writable ch =
     (if ch_writable ch \<noteq> writable then
        let ch = ch\<lparr>ch_writable := writable\<rparr>;
            ch = (if writable then chan_log ChReadyToSend ch else ch)
        in chan_log (WritableState writable) ch
      else ch)"

definition SwitchBestConnectionTo :: "nat option \<Rightarrow> IceChannel \<Rightarrow> IceChannel" where
  "SwitchBestConnectionTo conn ch =
     (let ch = ch\<lparr>ch_best := conn\<rparr> in case conn of None \<Rightarrow> ch | Some i \<Rightarrow> chan_log (RouteChange i) ch)"

definition RequestSort :: "IceChannel \<Rightarrow> IceChannel" where
  "RequestSort ch = (if \<not> ch_sort_dirty ch then (post_msg MSG_SORT ch)\<lparr>ch_sort_dirty := True\<rparr> else ch)"

definition OnConnectionStateChange :: "nat \<Rightarrow> bool \<Rightarrow> IceChannel \<Rightarrow> IceChannel" where
  "OnConnectionStateChange i writable ch =
     (let ch = (if ch_protocol ch = ICEPROTO_RFC5245 \<and> ch_role ch = ROLE_CONTROLLED \<and> ch_pending ch = Some i \<and> writable
                then SwitchBestConnectionTo (Some i) (ch\<lparr>ch_pending := None\<rparr>) else ch)
      in RequestSort ch)"

definition OnUseCandidate :: "nat \<Rightarrow> bool \<Rightarrow> IceChannel \<Rightarrow> IceChannel" where
  "OnUseCandidate i writable ch =
     (if writable then
        (if ch_best ch \<noteq> Some i then RequestSort (SwitchBestConnectionTo (Some i) (ch\<lparr>ch_pending := None\<rparr>)) else ch)
      else ch\<lparr>ch_pending := Some i\<rparr>)"

definition chan_OnReadPacket :: "nat \<Rightarrow> bytes \<Rightarrow> IceChannel \<Rightarrow> IceChannel" where
  "chan_OnReadPacket i data ch = (if i \<in> set (ch_connections ch) then chan_log (ChReadPacket data) ch else ch)"

definition chan_OnReadyToSend :: "nat \<Rightarrow> IceChannel \<Rightarrow> IceChannel" where
  "chan_OnReadyToSend i ch = (if ch_best ch = Some i \<and> ch_writable ch then chan_log ChReadyToSend ch else ch)"

text \<open>One signal of connection \<open>i\<close> of port \<open>pid\<close>.\<close>

fun conn_signal :: "nat \<Rightarrow> nat \<Rightarrow> ConnEvent \<Rightarrow> IceChannel \<Rightarrow> IceChannel" where
  "conn_signal pid i (StateChange w) ch = OnConnectionStateChange i w ch"
| "conn_signal pid i PostDelete ch = post_msg (MSG_DELETE i) ch"
| "conn_signal pid i (ReadPacket data) ch = chan_OnReadPacket i data ch"
| "conn_signal pid i (UseCandidate w) ch = OnUseCandidate i w ch"
| "conn_signal pid i ReadyToSend ch = chan_OnReadyToSend i ch"
| "conn_signal pid i Destroyed ch = ch"
| "conn_signal pid i (PortDid e) ch = chan_log (ChPort pid e) ch"

text \<open>An operation of a connection, with what it signals.\<close>

definition set_conn :: "nat \<Rightarrow> Connection \<Rightarrow> IceChannel \<Rightarrow> IceChannel" where
  "set_conn i c ch =
     (case ch_conns_mem ch i of
        None \<Rightarrow> ch
      | Some (pid, _) \<Rightarrow> fold (conn_signal pid i) (rev (conn_log c)) (ch\<lparr>ch_conns_mem := (ch_conns_mem ch)(i \<mapsto> (pid, c\<lparr>conn_log := []\<rparr>))\<rparr>))"

definition on_conn :: "nat \<Rightarrow> (Connection \<Rightarrow> Connection) \<Rightarrow> IceChannel \<Rightarrow> IceChannel" where
  "on_conn i f ch = set_conn i (f ((the_conn ch i)\<lparr>conn_log := []\<rparr>)) ch"

section \<open>Sorting, pruning and the state of the channel\<close>

definition UpdateConnectionStates :: "u32 \<Rightarrow> IceChannel \<Rightarrow> IceChannel" where
  "UpdateConnectionStates now ch = fold (\<lambda>i. on_conn i (UpdateState now)) (ch_connections ch) ch"

definition GetBestConnectionOnNetwork :: "IceChannel \<Rightarrow> nat \<Rightarrow> nat option" where
  "GetBestConnectionOnNetwork ch network =
     (case ch_best ch of
        Some i \<Rightarrow> if cp_network (the_port ch i) = network then Some i
                  else find (\<lambda>i. cp_network (the_port ch i) = network) (ch_connections ch)
      | None \<Rightarrow> find (\<lambda>i. cp_network (the_port ch i) = network) (ch_connections ch))"

definition prune_network :: "nat \<Rightarrow> IceChannel \<Rightarrow> IceChannel" where
  "prune_network network ch =
     (case GetBestConnectionOnNetwork ch network of
        None \<Rightarrow> ch
      | Some primier \<Rightarrow>
        if write_state (the_conn ch primier) \<noteq> STATE_WRITABLE then ch
        else fold (\<lambda>i ch. if i \<noteq> primier \<and> cp_network (the_port ch i) = network \<and>
                             CompareConnectionCandidates (the_port ch primier, the_conn ch primier) (the_port ch i, the_conn ch i) \<ge> 0
                          then on_conn i Prune ch else ch)
               (ch_connections ch) ch)"

definition HandleWritable :: "IceChannel \<Rightarrow> IceChannel" where
  "HandleWritable ch =
     (let ch = (if \<not> ch_writable ch
                then fold (\<lambda>k ch. if ch_sessions ch ! k then chan_log (StopGettingPorts k) (ch\<lparr>ch_sessions := (ch_sessions ch)[k := False]\<rparr>) else ch)
                       [0..<length (ch_sessions ch)] ch
                else ch)
      in set_writable True (ch\<lparr>ch_was_writable := True\<rparr>))"

definition HandleNotWritable :: "IceChannel \<Rightarrow> IceChannel" where
  "HandleNotWritable ch = (if ch_was_writable ch then set_writable False (ch\<lparr>ch_was_writable := False\<rparr>) else ch)"

definition HandleAllTimedOut :: "IceChannel \<Rightarrow> IceChannel" where
  "HandleAllTimedOut ch = HandleNotWritable ch"

definition best_writable :: "IceChannel \<Rightarrow> bool" where
  "best_writable ch = (case ch_best ch of None \<Rightarrow> False | Some i \<Rightarrow> write_state (the_conn ch i) = STATE_WRITABLE)"

definition UpdateChannelState :: "IceChannel \<Rightarrow> IceChannel" where
  "UpdateChannelState ch = set_readable (list_ex (\<lambda>i. read_state (the_conn ch i) = STATE_READABLE) (ch_connections ch)) ch"

text \<open>The networks are visited in the order of their first connection; the code visits them in the
  order of their addresses, which changes nothing but the order of the signals.\<close>

definition sort_step :: "IceChannel \<Rightarrow> IceChannel" where
  "sort_step ch =
     (let ch = ch\<lparr>ch_sort_dirty := False\<rparr>;
          networks = remdups (map (\<lambda>i. cp_network (the_port ch i)) (ch_connections ch));
          ch = ch\<lparr>ch_connections := stable_sort (\<lambda>i j. ConnectionCompare (the_port ch i, the_conn ch i) (the_port ch j, the_conn ch j)) (ch_connections ch)\<rparr>;
          top_connection = (case ch_connections ch of [] \<Rightarrow> None | i # _ \<Rightarrow> Some i);
          ch = (if (ch_protocol ch \<noteq> ICEPROTO_RFC5245 \<or> ch_role ch = ROLE_CONTROLLING) \<and> ShouldSwitch ch (ch_best ch) top_connection
                then SwitchBestConnectionTo top_connection ch else ch);
          ch = fold prune_network networks ch;
          all_connections_timedout = list_all (\<lambda>i. write_state (the_conn ch i) = STATE_WRITE_TIMEOUT) (ch_connections ch);
          ch = (if best_writable ch then HandleWritable ch
                else if all_connections_timedout then HandleAllTimedOut ch else HandleNotWritable ch)
      in UpdateChannelState ch)"

definition SortConnections :: "u32 \<Rightarrow> IceChannel \<Rightarrow> IceChannel option" where
  "SortConnections now ch = (if live ch then Some (sort_step (UpdateConnectionStates now ch)) else None)"

section \<open>Checks\<close>

definition WRITABLE_DELAY :: u32 where "WRITABLE_DELAY = 1000 * (60 * 8) div 1000"
definition UNWRITABLE_DELAY :: u32 where "UNWRITABLE_DELAY = 1000 * (60 * 8) div 10000"
definition MAX_CURRENT_WRITABLE_DELAY :: u32 where "MAX_CURRENT_WRITABLE_DELAY = 2 * WRITABLE_DELAY"

definition IsPingable :: "IceChannel \<Rightarrow> Connection \<Rightarrow> bool" where
  "IsPingable ch conn =
     (if \<not> connected conn then False
      else if ch_writable ch then write_state conn \<noteq> STATE_WRITE_TIMEOUT
      else write_state conn \<noteq> STATE_WRITE_TIMEOUT \<or> read_state conn \<noteq> STATE_READ_TIMEOUT)"

fun oldest_pingable :: "IceChannel \<Rightarrow> nat list \<Rightarrow> nat option \<Rightarrow> u32 \<Rightarrow> nat option" where
  "oldest_pingable ch [] oldest_conn oldest_time = oldest_conn"
| "oldest_pingable ch (i # is) oldest_conn oldest_time =
     (if IsPingable ch (the_conn ch i) \<and> last_ping_sent (the_conn ch i) < oldest_time
      then oldest_pingable ch is (Some i) (last_ping_sent (the_conn ch i)) else oldest_pingable ch is oldest_conn oldest_time)"

definition FindNextPingableConnection :: "u32 \<Rightarrow> IceChannel \<Rightarrow> nat option" where
  "FindNextPingableConnection now ch =
     (let oldest = oldest_pingable ch (ch_connections ch) None 0xFFFFFFFF
      in case ch_best ch of
           None \<Rightarrow> oldest
         | Some b \<Rightarrow>
           if write_state (the_conn ch b) = STATE_WRITABLE \<and> last_ping_sent (the_conn ch b) + MAX_CURRENT_WRITABLE_DELAY \<le> now
           then Some b else oldest)"

definition ping_nominates :: "IceChannel \<Rightarrow> nat \<Rightarrow> bool" where
  "ping_nominates ch i =
     (if ch_protocol ch = ICEPROTO_RFC5245 then
        (if ch_remote_mode ch = ICEMODE_FULL \<and> ch_role ch = ROLE_CONTROLLING then
           (case ch_best ch of
              None \<Rightarrow> True
            | Some b \<Rightarrow> i = b \<or> write_state (the_conn ch b) \<noteq> STATE_WRITABLE \<or>
                conn_priority (cp_port (the_port ch i)) (the_conn ch i) > conn_priority (cp_port (the_port ch b)) (the_conn ch b))
         else if ch_remote_mode ch = ICEMODE_LITE \<and> ch_best ch = Some i
         then write_state (the_conn ch i) = STATE_WRITABLE
         else False)
      else False)"

definition PingConnection :: "nat \<Rightarrow> bytes \<Rightarrow> u32 \<Rightarrow> IceChannel \<Rightarrow> IceChannel option" where
  "PingConnection i random_id now ch =
     (case Ping (cp_port (the_port ch i)) random_id now (set_use_candidate_attr (ping_nominates ch i) (the_conn ch i)) of
        None \<Rightarrow> None
      | Some c \<Rightarrow> Some (on_conn i (\<lambda>_. c\<lparr>conn_log := []\<rparr>) ch))"

definition OnPing :: "bytes \<Rightarrow> u32 \<Rightarrow> IceChannel \<Rightarrow> IceChannel option" where
  "OnPing random_id now ch =
     (if live ch then
        let ch = UpdateConnectionStates now ch;
            pinged = (case FindNextPingableConnection now ch of None \<Rightarrow> Some ch | Some i \<Rightarrow> PingConnection i random_id now ch)
        in map_option (post_msg MSG_PING) pinged
      else None)"

section \<open>Connections of the ports\<close>

definition GetConnection :: "ChanPort \<Rightarrow> SocketAddress \<Rightarrow> nat option" where
  "GetConnection cp addr = map_option snd (find (\<lambda>e. sa_eq (fst e) addr) (cp_table cp))"

definition AddConnection :: "SocketAddress \<Rightarrow> nat \<Rightarrow> ChanPort \<Rightarrow> ChanPort" where
  "AddConnection addr i cp = cp\<lparr>cp_table := filter (\<lambda>e. \<not> sa_eq (fst e) addr) (cp_table cp) @ [(addr, i)]\<rparr>"

definition LOCAL_PORT_TYPE :: bytes where "LOCAL_PORT_TYPE = text_bytes ''local''"
definition STUN_PORT_TYPE :: bytes where "STUN_PORT_TYPE = text_bytes ''stun''"
definition RELAY_PORT_TYPE :: bytes where "RELAY_PORT_TYPE = text_bytes ''relay''"
definition UDP_PROTOCOL_NAME :: bytes where "UDP_PROTOCOL_NAME = text_bytes ''udp''"

text \<open>Whether \<^verbatim>\<open>UDPPort::CreateConnection\<close> makes a connection.\<close>

definition udp_accepts :: "ChanPort \<Rightarrow> Candidate \<Rightarrow> bool" where
  "udp_accepts cp address =
     (if cand_protocol address \<noteq> UDP_PROTOCOL_NAME then False
      else if \<not> IsCompatibleAddress (cp_port cp) (cand_address address) then False
      else if cp_shared cp \<and> cand_type (hd (port_candidates (cp_port cp))) \<noteq> LOCAL_PORT_TYPE then False
      else True)"

datatype CandidateOrigin = ORIGIN_THIS_PORT | ORIGIN_OTHER_PORT | ORIGIN_MESSAGE

definition GetOrigin :: "nat \<Rightarrow> nat option \<Rightarrow> CandidateOrigin" where
  "GetOrigin pid origin_port =
     (case origin_port of None \<Rightarrow> ORIGIN_MESSAGE | Some q \<Rightarrow> if pid = q then ORIGIN_THIS_PORT else ORIGIN_OTHER_PORT)"

text \<open>The new object, in the store, the port's table and the channel's list.\<close>

definition new_connection :: "nat \<Rightarrow> ChanPort \<Rightarrow> Candidate \<Rightarrow> int \<Rightarrow> IceChannel \<Rightarrow> IceChannel" where
  "new_connection pid cp remote_candidate clock ch =
     (let i = ch_next ch;
          c = (Connection_new (hd (port_candidates (cp_port cp))) remote_candidate clock)\<lparr>remote_ice_mode := ch_remote_mode ch\<rparr>
      in ch\<lparr>ch_next := i + 1, ch_ports_mem := (ch_ports_mem ch)(pid \<mapsto> AddConnection (cand_address remote_candidate) i cp),
            ch_conns_mem := (ch_conns_mem ch)(i \<mapsto> (pid, c)), ch_connections := ch_connections ch @ [i]\<rparr>)"

text \<open>\<open>None\<close>: the port is gone or has no candidate.\<close>

definition CreateConnection :: "nat \<Rightarrow> Candidate \<Rightarrow> nat option \<Rightarrow> bool \<Rightarrow> u32 \<Rightarrow> IceChannel \<Rightarrow> (bool \<times> IceChannel) option" where
  "CreateConnection pid remote_candidate origin_port readable now ch =
     (case ch_ports_mem ch pid of
        None \<Rightarrow> None
      | Some cp \<Rightarrow>
        let ping = (\<lambda>i ch. if readable then on_conn i (ReceivedPing now) ch else ch)
        in if ch_filter_turn ch \<and> port_type (cp_port cp) \<noteq> RELAY_PORT_TYPE \<and> cand_type remote_candidate \<noteq> RELAY_PORT_TYPE then Some (False, ch)
           else
             case GetConnection cp (cand_address remote_candidate) of
               Some i \<Rightarrow>
                 (case conn_at ch i of
                    None \<Rightarrow> None
                  | Some (_, c) \<Rightarrow> if \<not> Candidate_IsEquivalent remote_candidate (conn_remote c) then Some (False, ch) else Some (True, ping i ch))
             | None \<Rightarrow>
                 if GetOrigin pid origin_port = ORIGIN_MESSAGE \<and> ch_incoming_only ch then Some (False, ch)
                 else if port_candidates (cp_port cp) = [] then None
                 else if \<not> udp_accepts cp remote_candidate then Some (False, ch)
                 else Some (True, ping (ch_next ch) (new_connection pid cp remote_candidate (uint now) ch)))"

definition GetRemoteCandidateGeneration :: "IceChannel \<Rightarrow> Candidate \<Rightarrow> u32" where
  "GetRemoteCandidateGeneration ch candidate = (if ch_protocol ch = ICEPROTO_GOOGLE then cand_generation candidate else ch_generation ch)"

definition RememberRemoteCandidate :: "Candidate \<Rightarrow> nat option \<Rightarrow> IceChannel \<Rightarrow> IceChannel" where
  "RememberRemoteCandidate remote_candidate origin_port ch =
     (let kept = filter (\<lambda>r. \<not> cand_generation (fst r) < cand_generation remote_candidate) (ch_remotes ch)
      in ch\<lparr>ch_remotes := (if list_ex (\<lambda>r. Candidate_IsEquivalent (fst r) remote_candidate) kept then kept
                          else kept @ [(remote_candidate, origin_port)])\<rparr>)"

fun create_on :: "nat list \<Rightarrow> Candidate \<Rightarrow> nat option \<Rightarrow> bool \<Rightarrow> u32 \<Rightarrow> bool \<times> IceChannel \<Rightarrow> (bool \<times> IceChannel) option" where
  "create_on [] candidate origin_port readable now s = Some s"
| "create_on (pid # pids) candidate origin_port readable now (created, ch) =
     (case CreateConnection pid candidate origin_port readable now ch of
        None \<Rightarrow> None
      | Some (ok, ch) \<Rightarrow> create_on pids candidate origin_port readable now (created \<or> ok \<and> origin_port = Some pid, ch))"

definition CreateConnections :: "Candidate \<Rightarrow> nat option \<Rightarrow> bool \<Rightarrow> u32 \<Rightarrow> IceChannel \<Rightarrow> (bool \<times> IceChannel) option" where
  "CreateConnections remote_candidate origin_port readable now ch =
     (let new_remote_candidate = remote_candidate\<lparr>cand_generation := GetRemoteCandidateGeneration ch remote_candidate\<rparr>;
          new_remote_candidate = (if cand_username remote_candidate = [] then new_remote_candidate\<lparr>cand_username := ch_remote_ufrag ch\<rparr> else new_remote_candidate);
          new_remote_candidate = (if cand_password remote_candidate = [] then new_remote_candidate\<lparr>cand_password := ch_remote_pwd ch\<rparr> else new_remote_candidate);
          others = (case origin_port of Some q \<Rightarrow> if q \<in> set (ch_ports ch) then [] else [q] | None \<Rightarrow> [])
      in map_option (\<lambda>(created, ch). (created, RememberRemoteCandidate new_remote_candidate origin_port ch))
           (create_on (rev (ch_ports ch) @ others) new_remote_candidate origin_port readable now (False, ch)))"

definition OnCandidate :: "Candidate \<Rightarrow> u32 \<Rightarrow> IceChannel \<Rightarrow> IceChannel option" where
  "OnCandidate candidate now ch =
     (case CreateConnections candidate None False now ch of None \<Rightarrow> None | Some (_, ch) \<Rightarrow> SortConnections now ch)"

section \<open>Ports come and go\<close>

definition set_port :: "nat \<Rightarrow> ChanPort \<Rightarrow> IceChannel \<Rightarrow> IceChannel" where
  "set_port pid cp ch = ch\<lparr>ch_ports_mem := (ch_ports_mem ch)(pid \<mapsto> cp)\<rparr>"

definition on_ports :: "(IcePort \<Rightarrow> IcePort) \<Rightarrow> IceChannel \<Rightarrow> IceChannel" where
  "on_ports f ch =
     ch\<lparr>ch_ports_mem := (\<lambda>pid. if pid \<in> set (ch_ports ch) then map_option (\<lambda>cp. cp\<lparr>cp_port := f (cp_port cp)\<rparr>) (ch_ports_mem ch pid)
                              else ch_ports_mem ch pid)\<rparr>"

fun create_for :: "nat \<Rightarrow> (Candidate \<times> nat option) list \<Rightarrow> u32 \<Rightarrow> IceChannel \<Rightarrow> IceChannel option" where
  "create_for pid [] now ch = Some ch"
| "create_for pid ((r, origin_port) # rs) now ch =
     (case CreateConnection pid r origin_port False now ch of None \<Rightarrow> None | Some (_, ch) \<Rightarrow> create_for pid rs now ch)"

text \<open>The port is a new object.\<close>

definition OnPortReady :: "nat \<Rightarrow> ChanPort \<Rightarrow> u32 \<Rightarrow> IceChannel \<Rightarrow> IceChannel option" where
  "OnPortReady pid cp now ch =
     (let cp = cp\<lparr>cp_port := (cp_port cp)\<lparr>ice_protocol := ch_protocol ch, port_role := ch_role ch, port_tiebreaker := ch_tiebreaker ch\<rparr>, cp_table := []\<rparr>;
          ch = (set_port pid cp ch)\<lparr>ch_ports := ch_ports ch @ [pid]\<rparr>
      in case create_for pid (ch_remotes ch) now ch of None \<Rightarrow> None | Some ch \<Rightarrow> SortConnections now ch)"

definition OnPortDestroyed :: "nat \<Rightarrow> IceChannel \<Rightarrow> IceChannel" where
  "OnPortDestroyed pid ch = ch\<lparr>ch_ports := remove1 pid (ch_ports ch)\<rparr>"

text \<open>\<^verbatim>\<open>Port::CheckTimeout\<close>, \<^verbatim>\<open>Port::Destroy\<close> and the two calls that
  run the port's life time.\<close>

definition Port_CheckTimeout :: "nat \<Rightarrow> IceChannel \<Rightarrow> IceChannel" where
  "Port_CheckTimeout pid ch =
     (case ch_ports_mem ch pid of
        None \<Rightarrow> ch
      | Some cp \<Rightarrow>
        if cp_lifetime cp = LT_POSTTIMEOUT \<and> cp_table cp = []
        then (OnPortDestroyed pid ch)\<lparr>ch_ports_mem := (ch_ports_mem ch)(pid := None)\<rparr> else ch)"

definition Port_Start :: "ChanPort \<Rightarrow> ChanPort" where
  "Port_Start cp = (if cp_lifetime cp = LT_PRESTART then cp\<lparr>cp_lifetime := LT_PRETIMEOUT\<rparr> else cp)"

definition Port_OnMessage :: "nat \<Rightarrow> IceChannel \<Rightarrow> IceChannel option" where
  "Port_OnMessage pid ch =
     (case ch_ports_mem ch pid of
        None \<Rightarrow> None
      | Some cp \<Rightarrow> Some (Port_CheckTimeout pid (set_port pid (cp\<lparr>cp_lifetime := LT_POSTTIMEOUT\<rparr>) ch)))"

definition OnConnectionDestroyed :: "nat \<Rightarrow> IceChannel \<Rightarrow> IceChannel option" where
  "OnConnectionDestroyed i ch =
     (if i \<notin> set (ch_connections ch) then None
      else
        let ch = ch\<lparr>ch_connections := remove1 i (ch_connections ch)\<rparr>;
            ch = (if ch_pending ch = Some i then ch\<lparr>ch_pending := None\<rparr> else ch)
        in Some (if ch_best ch = Some i then RequestSort (SwitchBestConnectionTo None ch) else ch))"

text \<open>The message by which a connection deletes itself: its port, then the channel hear of it, and the
  object goes with its messages. \<open>None\<close> where a list element to erase is not found.\<close>

definition delete_connection :: "nat \<Rightarrow> IceChannel \<Rightarrow> IceChannel option" where
  "delete_connection i ch =
     (case ch_conns_mem ch i of
        None \<Rightarrow> None
      | Some (pid, c) \<Rightarrow>
        case ch_ports_mem ch pid of
          None \<Rightarrow> None
        | Some cp \<Rightarrow>
          if GetConnection cp (cand_address (conn_remote c)) = None then None
          else
            let cp = cp\<lparr>cp_table := filter (\<lambda>e. \<not> sa_eq (fst e) (cand_address (conn_remote c))) (cp_table cp)\<rparr>;
                ch = Port_CheckTimeout pid (set_port pid cp ch)
            in map_option (\<lambda>ch. ch\<lparr>ch_conns_mem := (ch_conns_mem ch)(i := None), ch_msgs := filter (\<lambda>m. m \<noteq> MSG_DELETE i) (ch_msgs ch)\<rparr>)
                 (OnConnectionDestroyed i ch))"

section \<open>Packets\<close>

text \<open>The candidate of a check from an address without a connection: a known one of that user name, or a
  new one. \<open>None\<close>: the user name is not known.\<close>

definition known_candidate :: "IceChannel \<Rightarrow> bytes \<Rightarrow> bytes \<Rightarrow> SocketAddress \<Rightarrow> Candidate option" where
  "known_candidate ch remote_username proto address =
     (let ufrag_per_port = (case ch_remotes ch of [] \<Rightarrow> False | (r, _) # _ \<Rightarrow> list_ex (\<lambda>x. cand_username (fst x) \<noteq> cand_username r) (ch_remotes ch))
      in map_option (\<lambda>x. if ufrag_per_port then (fst x)\<lparr>cand_address := address\<rparr> else fst x)
           (find (\<lambda>x. cand_username (fst x) = remote_username \<and>
                      (ufrag_per_port \<or> sa_eq (cand_address (fst x)) address \<and> cand_protocol (fst x) = proto)) (ch_remotes ch)))"

definition remote_password_of :: "IceChannel \<Rightarrow> bytes \<Rightarrow> bytes option" where
  "remote_password_of ch remote_username =
     (case filter (\<lambda>x. cand_username (fst x) = remote_username) (ch_remotes ch) of
        [] \<Rightarrow> None
      | xs \<Rightarrow> Some (cand_password (fst (last xs))))"

definition ICE_TYPE_PREFERENCE_SRFLX :: u32 where "ICE_TYPE_PREFERENCE_SRFLX = 100"

definition new_candidate :: "ChanPort \<Rightarrow> SocketAddress \<Rightarrow> bytes \<Rightarrow> bytes \<Rightarrow> bytes \<Rightarrow> bytes \<Rightarrow> Candidate" where
  "new_candidate cp address proto remote_username remote_password random_id =
     (let p = cp_port cp;
          type = (if port_type p = RELAY_PORT_TYPE \<or> cp_shared cp then STUN_PORT_TYPE else port_type p)
      in \<lparr>cand_id = random_id, cand_component = port_component p, cand_protocol = proto, cand_address = address,
          cand_priority = GetPriority address (port_component p) ICE_TYPE_PREFERENCE_SRFLX, cand_username = remote_username,
          cand_password = remote_password, cand_type = type, cand_network_name = network_name p, cand_generation = 0,
          cand_foundation = text_bytes (decimal (unat (ComputeCrc32 random_id))), cand_related_address = SocketAddress_nil\<rparr>)"

definition STUN_ERROR_REASON_STALE_CREDENTIALS :: bytes where "STUN_ERROR_REASON_STALE_CREDENTIALS = text_bytes ''Stale Credentials''"
definition STUN_ERROR_REASON_SERVER_ERROR :: bytes where "STUN_ERROR_REASON_SERVER_ERROR = text_bytes ''Server Error''"

text \<open>\<^verbatim>\<open>Port::SendBindingResponse\<close> with its effect on the connection to the address.\<close>

definition respond :: "nat \<Rightarrow> StunMessage \<Rightarrow> SocketAddress \<Rightarrow> u32 \<Rightarrow> IceChannel \<Rightarrow> IceChannel option" where
  "respond pid msg address now ch =
     (case ch_ports_mem ch pid of
        None \<Rightarrow> None
      | Some cp \<Rightarrow>
        case SendBindingResponse (cp_port cp) msg address of
          None \<Rightarrow> Some ch
        | Some e \<Rightarrow>
          let ch = chan_log (ChPort pid e) ch
          in case GetConnection cp address of
               None \<Rightarrow> Some ch
             | Some i \<Rightarrow> if conn_at ch i = None then None else Some (on_conn i (ReceivedPing now) ch))"

definition OnUnknownAddress :: "nat \<Rightarrow> SocketAddress \<Rightarrow> bytes \<Rightarrow> StunMessage \<Rightarrow> bytes \<Rightarrow> bytes \<Rightarrow> bool \<Rightarrow> u32 \<Rightarrow> IceChannel \<Rightarrow> IceChannel option" where
  "OnUnknownAddress pid address proto msg remote_username random_id port_muxed now ch =
     (case ch_ports_mem ch pid of
        None \<Rightarrow> None
      | Some cp \<Rightarrow>
        case remote_password_of ch remote_username of
          None \<Rightarrow>
            Some (if port_muxed then ch
                  else chan_log (ChPort pid (SendBindingErrorResponse (cp_port cp) msg address STUN_ERROR_STALE_CREDENTIALS STUN_ERROR_REASON_STALE_CREDENTIALS)) ch)
        | Some remote_password \<Rightarrow>
          let candidate = (case known_candidate ch remote_username proto address of
                             Some r \<Rightarrow> r
                           | None \<Rightarrow> new_candidate cp address proto remote_username remote_password random_id)
          in case CreateConnections candidate (Some pid) True now ch of
               None \<Rightarrow> None
             | Some (created, ch) \<Rightarrow>
               if created then (case respond pid msg address now ch of None \<Rightarrow> None | Some ch \<Rightarrow> SortConnections now ch)
               else Some (chan_log (ChPort pid (SendBindingErrorResponse (cp_port cp) msg address STUN_ERROR_SERVER_ERROR STUN_ERROR_REASON_SERVER_ERROR)) ch))"

text \<open>\<^verbatim>\<open>Port::OnReadPacket\<close>, for a packet from an address without a connection, of a port that does
  not hand its packets over (\<^verbatim>\<open>EnablePortPackets\<close> is for relayed ones).\<close>

definition Port_OnReadPacket :: "nat \<Rightarrow> bytes \<Rightarrow> SocketAddress \<Rightarrow> bytes \<Rightarrow> bytes \<Rightarrow> u32 \<Rightarrow> IceChannel \<Rightarrow> IceChannel option" where
  "Port_OnReadPacket pid data addr proto random_id now ch =
     (case ch_ports_mem ch pid of
        None \<Rightarrow> None
      | Some cp \<Rightarrow>
        case GetStunMessage (cp_port cp) data addr of
          None \<Rightarrow> None
        | Some (stun, msg, remote_username, events) \<Rightarrow>
          let ch = fold (\<lambda>e. chan_log (ChPort pid e)) events ch
          in if \<not> stun then Some ch
             else
               case msg of
                 None \<Rightarrow> Some ch
               | Some msg \<Rightarrow>
                 if m_type msg = STUN_BINDING_REQUEST then
                   (if ice_protocol (cp_port cp) = ICEPROTO_RFC5245 then
                      (case MaybeIceRoleConflict (cp_port cp) addr msg remote_username of
                         None \<Rightarrow> None
                       | Some (ok, events) \<Rightarrow>
                         let ch = fold (\<lambda>e. chan_log (ChPort pid e)) events ch
                         in if ok then OnUnknownAddress pid addr proto msg remote_username random_id False now ch else Some ch)
                    else OnUnknownAddress pid addr proto msg remote_username random_id False now ch)
                 else Some ch)"

text \<open>\<^verbatim>\<open>UDPPort::OnReadPacket\<close>, for a packet that is not from the port's STUN server.\<close>

definition UDPPort_OnReadPacket :: "nat \<Rightarrow> bytes \<Rightarrow> SocketAddress \<Rightarrow> bytes \<Rightarrow> u32 \<Rightarrow> IceChannel \<Rightarrow> IceChannel option" where
  "UDPPort_OnReadPacket pid data addr random_id now ch =
     (case ch_ports_mem ch pid of
        None \<Rightarrow> None
      | Some cp \<Rightarrow>
        case GetConnection cp addr of
          None \<Rightarrow> Port_OnReadPacket pid data addr UDP_PROTOCOL_NAME random_id now ch
        | Some i \<Rightarrow>
          (case conn_at ch i of
             None \<Rightarrow> None
           | Some (_, c) \<Rightarrow> map_option (\<lambda>c. set_conn i c ch) (conn_OnReadPacket (cp_port cp) now data (c\<lparr>conn_log := []\<rparr>))))"

text \<open>The thread runs a message of a connection's requests.\<close>

definition chan_Dispatch :: "nat \<Rightarrow> nat \<Rightarrow> IceChannel \<Rightarrow> IceChannel option" where
  "chan_Dispatch i late ch =
     (case conn_at ch i of
        None \<Rightarrow> None
      | Some (_, c) \<Rightarrow> map_option (\<lambda>c. set_conn i c ch) (conn_Dispatch late (c\<lparr>conn_log := []\<rparr>)))"

section \<open>The owner's calls\<close>

definition chan_SetRole :: "TransportRole \<Rightarrow> IceChannel \<Rightarrow> IceChannel" where
  "chan_SetRole role ch = (if ch_role ch \<noteq> role then on_ports (\<lambda>p. p\<lparr>port_role := role\<rparr>) (ch\<lparr>ch_role := role\<rparr>) else ch)"

definition chan_SetTiebreaker :: "u64 \<Rightarrow> IceChannel \<Rightarrow> IceChannel" where
  "chan_SetTiebreaker tiebreaker ch = (if ch_ports ch \<noteq> [] then ch else ch\<lparr>ch_tiebreaker := tiebreaker\<rparr>)"

definition chan_SetIceProtocolType :: "IceProtocolType \<Rightarrow> IceChannel \<Rightarrow> IceChannel" where
  "chan_SetIceProtocolType type ch = on_ports (\<lambda>p. p\<lparr>ice_protocol := type\<rparr>) (ch\<lparr>ch_protocol := type\<rparr>)"

definition Allocate :: "IceChannel \<Rightarrow> IceChannel" where
  "Allocate ch = chan_log RequestSignaling (ch\<lparr>ch_waiting := True\<rparr>)"

definition SetIceCredentials :: "bytes \<Rightarrow> bytes \<Rightarrow> IceChannel \<Rightarrow> IceChannel" where
  "SetIceCredentials ice_ufrag ice_pwd ch =
     (let ice_restart = (ch_ufrag ch \<noteq> [] \<and> ch_pwd ch \<noteq> [] \<and> (ch_ufrag ch \<noteq> ice_ufrag \<or> ch_pwd ch \<noteq> ice_pwd));
          ch = ch\<lparr>ch_ufrag := ice_ufrag, ch_pwd := ice_pwd\<rparr>
      in if ice_restart then Allocate ch else ch)"

definition SetRemoteIceCredentials :: "bytes \<Rightarrow> bytes \<Rightarrow> IceChannel \<Rightarrow> IceChannel" where
  "SetRemoteIceCredentials ice_ufrag ice_pwd ch =
     (let ice_restart = (ch_remote_ufrag ch \<noteq> [] \<and> ch_remote_pwd ch \<noteq> [] \<and> (ch_remote_ufrag ch \<noteq> ice_ufrag \<or> ch_remote_pwd ch \<noteq> ice_pwd));
          ch = ch\<lparr>ch_remote_ufrag := ice_ufrag, ch_remote_pwd := ice_pwd\<rparr>
      in if ice_restart then ch\<lparr>ch_generation := ch_generation ch + 1\<rparr> else ch)"

definition SetRemoteIceMode :: "IceMode \<Rightarrow> IceChannel \<Rightarrow> IceChannel" where
  "SetRemoteIceMode mode ch = ch\<lparr>ch_remote_mode := mode\<rparr>"

definition chan_Connect :: "IceChannel \<Rightarrow> IceChannel" where
  "chan_Connect ch = (if ch_ufrag ch = [] \<or> ch_pwd ch = [] then ch else post_msg MSG_PING (Allocate ch))"

definition AddAllocatorSession :: "IceChannel \<Rightarrow> IceChannel" where
  "AddAllocatorSession ch = ch\<lparr>ch_sessions := ch_sessions ch @ [True], ch_ports := []\<rparr>"

definition OnSignalingReady :: "IceChannel \<Rightarrow> IceChannel" where
  "OnSignalingReady ch =
     (if ch_waiting ch then AddAllocatorSession (chan_log (CreateSession (ch_ufrag ch) (ch_pwd ch)) (ch\<lparr>ch_waiting := False\<rparr>)) else ch)"

text \<open>The sessions take their ports, and these their connections, with them.\<close>

definition chan_Reset :: "bool \<Rightarrow> IceChannel \<Rightarrow> IceChannel" where
  "chan_Reset connect_requested ch =
     (let ch = ch\<lparr>ch_ports_mem := Map.empty, ch_conns_mem := Map.empty, ch_sessions := [], ch_ports := [], ch_connections := [], ch_best := None,
                 ch_remotes := []\<rparr>;
          ch = set_writable False (set_readable False ch);
          ch = ch\<lparr>ch_waiting := False, ch_sort_dirty := False\<rparr>;
          ch = (if connect_requested then Allocate ch else ch)
      in ch\<lparr>ch_msgs := [MSG_PING]\<rparr>)"

datatype ChanError = EINVAL | BestError SendError

text \<open>The result and the error it leaves.\<close>

definition chan_SendPacket :: "(bytes \<Rightarrow> SocketAddress \<Rightarrow> int) \<Rightarrow> int \<Rightarrow> bytes \<Rightarrow> int \<Rightarrow> IceChannel \<Rightarrow> (int \<times> ChanError option) option" where
  "chan_SendPacket SendTo port_error data flags ch =
     (if flags \<noteq> 0 then Some (- 1, Some EINVAL)
      else case ch_best ch of
             None \<Rightarrow> Some (- 1, Some (BestError EWOULDBLOCK))
           | Some i \<Rightarrow>
             (case conn_at ch i of
                None \<Rightarrow> None
              | Some (_, c) \<Rightarrow>
                let (sent, e) = Proxy_Send SendTo port_error c data
                in Some (sent, if sent \<le> 0 then map_option BestError e else None)))"

section \<open>Notifications and statistics\<close>

text \<open>The socket of a port can send again: every connection of the port is told.\<close>

definition Port_OnReadyToSend :: "nat \<Rightarrow> IceChannel \<Rightarrow> IceChannel option" where
  "Port_OnReadyToSend pid ch =
     map_option (\<lambda>cp. fold (\<lambda>i. on_conn i conn_OnReadyToSend) (map snd (cp_table cp)) ch) (ch_ports_mem ch pid)"

text \<open>The rates and totals of the packets are left out.\<close>

record ConnectionInfo =
  info_best :: bool
  info_readable :: bool
  info_writable :: bool
  info_timeout :: bool
  info_new :: bool
  info_rtt :: u32
  info_local :: Candidate
  info_remote :: Candidate
  info_key :: nat

definition conn_info :: "IceChannel \<Rightarrow> nat \<Rightarrow> ConnectionInfo" where
  "conn_info ch i =
     (let c = the_conn ch i
      in \<lparr>info_best = (ch_best ch = Some i), info_readable = (read_state c = STATE_READABLE),
          info_writable = (write_state c = STATE_WRITABLE), info_timeout = (write_state c = STATE_WRITE_TIMEOUT),
          info_new = (\<not> reported c), info_rtt = conn_rtt c, info_local = conn_local c, info_remote = conn_remote c, info_key = i\<rparr>)"

definition chan_GetStats :: "IceChannel \<Rightarrow> ConnectionInfo list \<times> IceChannel" where
  "chan_GetStats ch = (map (conn_info ch) (ch_connections ch), fold (\<lambda>i. on_conn i (set_reported True)) (ch_connections ch) ch)"

definition set_incoming_only :: "bool \<Rightarrow> IceChannel \<Rightarrow> IceChannel" where
  "set_incoming_only value ch = ch\<lparr>ch_incoming_only := value\<rparr>"

section \<open>Messages and runs\<close>

text \<open>One of the messages that wait; \<open>MSG_PING\<close> is a delayed one, so the order is the thread's.\<close>

definition chan_OnMessage :: "ChanMsg \<Rightarrow> bytes \<Rightarrow> u32 \<Rightarrow> IceChannel \<Rightarrow> IceChannel option" where
  "chan_OnMessage m random_id now ch =
     (if m \<notin> set (ch_msgs ch) then Some ch
      else
        let ch = ch\<lparr>ch_msgs := remove1 m (ch_msgs ch)\<rparr>
        in case m of
             MSG_SORT \<Rightarrow> SortConnections now ch
           | MSG_PING \<Rightarrow> OnPing random_id now ch
           | MSG_DELETE i \<Rightarrow> delete_connection i ch)"

text \<open>What can happen to a channel: the messages of its thread, packets, the timers of its requests and ports, new
  ports, and the public functions that change it. Socket options are left out.\<close>

datatype ChanOp =
    MessageOp ChanMsg bytes u32
  | ChanPacketOp nat bytes SocketAddress bytes u32
  | DispatchOp nat nat
  | CandidateOp Candidate u32
  | PortReadyOp ChanPort u32
  | PortTimeoutOp nat
  | RoleOp TransportRole
  | TiebreakerOp u64
  | ProtocolOp IceProtocolType
  | CredentialsOp bytes bytes
  | RemoteCredentialsOp bytes bytes
  | RemoteModeOp IceMode
  | ConnectOp
  | SignalingOp
  | ResetOp bool
  | PortReadyToSendOp nat
  | StatsOp
  | IncomingOnlyOp bool

text \<open>A new port gets the next number.\<close>

fun chan_step :: "ChanOp \<Rightarrow> IceChannel \<Rightarrow> IceChannel option" where
  "chan_step (MessageOp m random_id now) ch = chan_OnMessage m random_id now ch"
| "chan_step (ChanPacketOp pid data addr random_id now) ch = UDPPort_OnReadPacket pid data addr random_id now ch"
| "chan_step (DispatchOp i late) ch = chan_Dispatch i late ch"
| "chan_step (CandidateOp c now) ch = OnCandidate c now ch"
| "chan_step (PortReadyOp cp now) ch = OnPortReady (ch_next ch) cp now (ch\<lparr>ch_next := ch_next ch + 1\<rparr>)"
| "chan_step (PortTimeoutOp pid) ch = Port_OnMessage pid ch"
| "chan_step (RoleOp role) ch = Some (chan_SetRole role ch)"
| "chan_step (TiebreakerOp t) ch = Some (chan_SetTiebreaker t ch)"
| "chan_step (ProtocolOp p) ch = Some (chan_SetIceProtocolType p ch)"
| "chan_step (CredentialsOp u p) ch = Some (SetIceCredentials u p ch)"
| "chan_step (RemoteCredentialsOp u p) ch = Some (SetRemoteIceCredentials u p ch)"
| "chan_step (RemoteModeOp m) ch = Some (SetRemoteIceMode m ch)"
| "chan_step ConnectOp ch = Some (chan_Connect ch)"
| "chan_step SignalingOp ch = Some (OnSignalingReady ch)"
| "chan_step (ResetOp connect_requested) ch = Some (chan_Reset connect_requested ch)"
| "chan_step (PortReadyToSendOp pid) ch = Port_OnReadyToSend pid ch"
| "chan_step StatsOp ch = Some (snd (chan_GetStats ch))"
| "chan_step (IncomingOnlyOp b) ch = Some (set_incoming_only b ch)"

fun chan_run :: "ChanOp list \<Rightarrow> IceChannel \<Rightarrow> IceChannel option" where
  "chan_run [] ch = Some ch"
| "chan_run (x # xs) ch = (case chan_step x ch of None \<Rightarrow> None | Some ch \<Rightarrow> chan_run xs ch)"

end
