(* ===== verification/TimeUtils.thy ===== *)
theory TimeUtils
  imports Prelude
begin

text \<open>
  The time stamps of \<^verbatim>\<open>talk/base/timeutils.h\<close> and \<^verbatim>\<open>timeutils.cc\<close>:
  32-bit milliseconds that wrap around. The source holds two implementations of the comparisons,
  chosen by \<^verbatim>\<open>EFFICIENT_IMPLEMENTATION\<close>; the compiled one subtracts, the other one
  (suffix \<open>_by_range\<close>) argues by ranges. Both are modelled and compared. Reading the clock
  is outside, the current time is an argument. An \<^verbatim>\<open>int32\<close> is its signed value.
\<close>

definition LAST :: u32 where "LAST = 0xFFFFFFFF"
definition HALF :: u32 where "HALF = 0x80000000"

definition TimeAfter :: "u32 \<Rightarrow> int \<Rightarrow> u32" where
  "TimeAfter now elapsed = now + word_of_int elapsed"

definition TimeIsBetween :: "u32 \<Rightarrow> u32 \<Rightarrow> u32 \<Rightarrow> bool" where
  "TimeIsBetween earlier middle later =
     (if earlier \<le> later then earlier \<le> middle \<and> middle \<le> later
      else \<not> (later < middle \<and> middle < earlier))"

definition TimeIsLaterOrEqual :: "u32 \<Rightarrow> u32 \<Rightarrow> bool" where
  "TimeIsLaterOrEqual earlier later =
     (let diff = sint (later - earlier) in diff \<ge> 0 \<and> word_of_int diff < HALF)"

definition TimeIsLaterOrEqual_by_range :: "u32 \<Rightarrow> u32 \<Rightarrow> bool" where
  "TimeIsLaterOrEqual_by_range earlier later = TimeIsBetween earlier later (earlier + HALF)"

definition TimeIsLater :: "u32 \<Rightarrow> u32 \<Rightarrow> bool" where
  "TimeIsLater earlier later =
     (let diff = sint (later - earlier) in diff > 0 \<and> word_of_int diff < HALF)"

definition TimeIsLater_by_range :: "u32 \<Rightarrow> u32 \<Rightarrow> bool" where
  "TimeIsLater_by_range earlier later = (\<not> TimeIsBetween later earlier (later + HALF))"

definition TimeMax :: "u32 \<Rightarrow> u32 \<Rightarrow> u32" where
  "TimeMax ts1 ts2 = (if TimeIsLaterOrEqual ts1 ts2 then ts2 else ts1)"

definition TimeMin :: "u32 \<Rightarrow> u32 \<Rightarrow> u32" where
  "TimeMin ts1 ts2 = (if TimeIsLaterOrEqual ts1 ts2 then ts1 else ts2)"

definition TimeDiff :: "u32 \<Rightarrow> u32 \<Rightarrow> int" where
  "TimeDiff later earlier = sint (later - earlier)"

text \<open>Conversion of a \<^verbatim>\<open>long\<close> to \<^verbatim>\<open>int32\<close>.\<close>

definition to_int32 :: "int \<Rightarrow> int" where
  "to_int32 i = sint (word_of_int i :: u32)"

definition TimeDiff_by_range :: "u32 \<Rightarrow> u32 \<Rightarrow> int" where
  "TimeDiff_by_range later earlier =
     (let later_or_equal = TimeIsBetween earlier later (earlier + HALF) in
      to_int32
        (if later_or_equal then
           (if earlier \<le> later then uint (later - earlier) else uint (later + (LAST - earlier) + 1))
         else
           (if later \<le> earlier then - uint (earlier - later) else - uint (earlier + (LAST - later) + 1))))"

definition TimeSince :: "u32 \<Rightarrow> u32 \<Rightarrow> int" where
  "TimeSince now earlier = TimeDiff now earlier"

definition TimeUntil :: "u32 \<Rightarrow> u32 \<Rightarrow> int" where
  "TimeUntil now later = TimeDiff later now"

section \<open>The comparisons as differences\<close>

lemma u32_lt: "uint (w :: u32) < 4294967296"
  using unsigned_less[of w, where 'a = int] by simp

lemma u32_ge: "0 \<le> uint (w :: u32)"
  by simp

lemma sint_u32: "sint (w :: u32) = (if uint w < 2147483648 then uint w else uint w - 4294967296)"
proof -
  have "sint w = signed_take_bit 31 (uint w)" by (simp add: sint_uint)
  also have "\<dots> = (uint w + 2147483648) mod 4294967296 - 2147483648"
    by (simp add: signed_take_bit_eq_take_bit_shift take_bit_eq_mod)
  finally have e: "sint w = (uint w + 2147483648) mod 4294967296 - 2147483648" .
  show ?thesis
  proof (cases "uint w < 2147483648")
    case True
    then show ?thesis using e u32_ge[of w] by simp
  next
    case False
    have "uint w + 2147483648 = (uint w - 2147483648) + 4294967296" by simp
    then have "(uint w + 2147483648) mod 4294967296 = (uint w - 2147483648) mod 4294967296"
      by (simp only: mod_add_self2)
    also have "\<dots> = uint w - 2147483648" using False u32_lt[of w] by (intro mod_pos_pos_trivial) simp_all
    finally show ?thesis using e False by simp
  qed
qed

lemma uint_diff_u32: "uint (l - e :: u32) = (if uint e \<le> uint l then uint l - uint e else uint l - uint e + 4294967296)"
  by (simp add: uint_sub_if')

lemma uint_add_HALF: "uint (e + HALF) = (if uint e < 2147483648 then uint e + 2147483648 else uint e - 2147483648)"
  by (simp add: HALF_def uint_plus_if')

lemma TimeIsBetween_iff: "TimeIsBetween e m l \<longleftrightarrow> uint (m - e) \<le> uint (l - e)"
  using u32_lt[of e] u32_lt[of m] u32_lt[of l] u32_ge[of e] u32_ge[of m] u32_ge[of l]
  unfolding TimeIsBetween_def word_le_def word_less_def uint_diff_u32 by presburger

lemma TimeIsLaterOrEqual_iff: "TimeIsLaterOrEqual e l \<longleftrightarrow> uint (l - e) < 2147483648"
  using u32_lt[of "l - e"] by (auto simp: TimeIsLaterOrEqual_def Let_def sint_u32 HALF_def word_less_def)

lemma TimeIsLater_iff: "TimeIsLater e l \<longleftrightarrow> uint (l - e) \<noteq> 0 \<and> uint (l - e) < 2147483648"
  using u32_lt[of "l - e"] le_neq_trans[OF u32_ge[of "l - e"]] by (auto simp: TimeIsLater_def Let_def sint_u32 HALF_def word_less_def)

lemma by_range_iff:
  "TimeIsLaterOrEqual_by_range e l \<longleftrightarrow> uint (l - e) \<le> 2147483648"
  "TimeIsLater_by_range e l \<longleftrightarrow> 2147483648 < uint (e - l)"
  by (simp_all add: TimeIsLaterOrEqual_by_range_def TimeIsLater_by_range_def TimeIsBetween_iff HALF_def not_le)

lemma TimeDiff_word: "word_of_int (TimeDiff l e) = (l - e :: u32)"
  by (simp add: TimeDiff_def)

lemma LAST_minus: "LAST = - 1"
  by (simp add: LAST_def)

lemma TimeDiff_by_range_eq: "TimeDiff_by_range later earlier = TimeDiff later earlier"
proof -
  have "later + (LAST - earlier) + 1 = later - earlier" "- (earlier + (LAST - later) + 1) = later - earlier"
    by (simp_all add: LAST_minus)
  moreover have "word_of_int (uint x) = x" "word_of_int (- uint x) = - x" for x :: u32 by simp_all
  ultimately show ?thesis
    unfolding TimeDiff_by_range_def TimeDiff_def to_int32_def Let_def
    by (simp only: if_distrib[of word_of_int] minus_diff_eq if_cancel)
qed

lemma diff_HALF: "l - e \<noteq> HALF \<longleftrightarrow> uint (l - e) \<noteq> 2147483648"
  by (simp add: HALF_def word_uint_eq_iff)

text \<open>The two implementations of \<^verbatim>\<open>TimeDiff\<close> agree on all time stamps; those of the
  two comparisons agree on all stamps that are not exactly half the range apart, where only the
  subtracting one says neither is later.\<close>
theorem time_implementations:
  "TimeDiff_by_range later earlier = TimeDiff later earlier \<and>
   (later - earlier \<noteq> HALF \<longrightarrow>
     TimeIsLaterOrEqual_by_range earlier later = TimeIsLaterOrEqual earlier later \<and>
     TimeIsLater_by_range earlier later = TimeIsLater earlier later) \<and>
   (later - earlier = HALF \<longrightarrow>
     TimeIsLaterOrEqual_by_range earlier later \<and> \<not> TimeIsLaterOrEqual earlier later \<and>
     \<not> TimeIsLater earlier later \<and> \<not> TimeIsLaterOrEqual later earlier)"
proof -
  have u: "uint (earlier - later) = (if uint (later - earlier) = 0 then 0 else 4294967296 - uint (later - earlier))"
    using u32_lt[of later] u32_lt[of earlier] u32_ge[of later] u32_ge[of earlier] unfolding uint_diff_u32 by presburger
  show ?thesis
    using TimeDiff_by_range_eq[of later earlier] diff_HALF[of later earlier] u32_lt[of "later - earlier"]
      unsigned_greater_eq[of "later - earlier", where 'a = int]
    by (auto simp: by_range_iff TimeIsLaterOrEqual_iff TimeIsLater_iff u split: if_splits)
qed

lemma time_implementations_witness:
  "TimeIsLaterOrEqual_by_range 0xFFFFFFF0 5 = TimeIsLaterOrEqual 0xFFFFFFF0 5 \<and>
   TimeIsLaterOrEqual_by_range 1 (1 + HALF) \<and> \<not> TimeIsLaterOrEqual 1 (1 + HALF)"
  using time_implementations[of 5 "0xFFFFFFF0"] time_implementations[of "1 + HALF" 1]
  by (simp add: HALF_def)

end
