(* ===== verification/IceChannelInv.thy ===== *)
theory IceChannelInv
  imports IceChannel TimeUtils
begin

lemma ip_eq_refl [simp]: "ip_eq a a"
  by (cases "ip_family a") (auto simp: ip_eq_def)

lemma ip_eq_sym: "ip_eq a b \<Longrightarrow> ip_eq b a"
  by (auto simp: ip_eq_def split: if_splits)

lemma sa_eq_refl [simp]: "sa_eq a a"
  by (simp add: sa_eq_def EqualIPs_def EqualPorts_def)

lemma IPIsAny_cong: "ip_eq a b \<Longrightarrow> IPIsAny a = IPIsAny b"
  by (auto simp: ip_eq_def IPIsAny_def split: if_splits)

lemma sa_eq_sym: "sa_eq a b \<Longrightarrow> sa_eq b a"
  by (auto simp: sa_eq_def EqualIPs_def EqualPorts_def IPIsAny_cong dest: ip_eq_sym)

section \<open>What an operation leaves alone\<close>

lemma accept_remote [simp]: "conn_remote (accept_request p now m c) = conn_remote c"
  by (simp add: accept_request_def Let_def split: option.split)

lemma CheckResponse_remote [simp]: "conn_remote (conn_CheckResponse p now m c) = conn_remote c"
  by (simp add: conn_CheckResponse_def OnConnectionRequestResponse_def OnConnectionRequestErrorResponse_def HandleRoleConflictFromPeer_def Let_def split: option.split)

lemma OnReadPacket_remote:
  assumes "conn_OnReadPacket p now data c = Some c'"
  shows "conn_remote c' = conn_remote c"
proof -
  obtain stun msg ufrag events where g: "GetStunMessage p data (cand_address (conn_remote c)) = Some (stun, msg, ufrag, events)"
    using assms by (cases "GetStunMessage p data (cand_address (conn_remote c))") (auto simp: conn_OnReadPacket_def)
  show ?thesis
    using assms[unfolded conn_OnReadPacket_def Let_def g] by (auto split: option.splits if_splits prod.splits)
qed

lemma conn_op_remote [simp]:
  "conn_remote (UpdateState now c) = conn_remote c" "conn_remote (Prune c) = conn_remote c"
  "conn_remote (conn_OnReadyToSend c) = conn_remote c" "conn_remote (set_reported b c) = conn_remote c"
  "conn_Dispatch late c = Some c' \<Longrightarrow> conn_remote c' = conn_remote c" "Ping p tid now c = Some c' \<Longrightarrow> conn_remote c' = conn_remote c"
  by (auto simp: UpdateState_def Prune_def conn_OnReadyToSend_def set_reported_def conn_Dispatch_def Ping_def Let_def split: option.splits)

text \<open>The parts of the channel a signal does not touch.\<close>

definition same_objects :: "IceChannel \<Rightarrow> IceChannel \<Rightarrow> bool" where
  "same_objects ch ch' \<longleftrightarrow>
     ch_ports_mem ch' = ch_ports_mem ch \<and> ch_conns_mem ch' = ch_conns_mem ch \<and> ch_next ch' = ch_next ch \<and> ch_ports ch' = ch_ports ch \<and>
     ch_connections ch' = ch_connections ch \<and> ch_remotes ch' = ch_remotes ch \<and> ch_was_writable ch' = ch_was_writable ch \<and>
     ch_readable ch' = ch_readable ch \<and> ch_writable ch' = ch_writable ch \<and> ch_protocol ch' = ch_protocol ch \<and> ch_role ch' = ch_role ch \<and>
     ch_sessions ch' = ch_sessions ch \<and> ch_remote_mode ch' = ch_remote_mode ch"

lemma same_objects_refl [simp]: "same_objects ch ch"
  by (simp add: same_objects_def)

lemma same_objects_trans: "same_objects a b \<Longrightarrow> same_objects b c \<Longrightarrow> same_objects a c"
  by (simp add: same_objects_def)

lemma conn_signal_same: "same_objects ch (conn_signal pid i e ch)"
  by (cases e) (auto simp: same_objects_def OnConnectionStateChange_def RequestSort_def post_msg_def SwitchBestConnectionTo_def chan_log_def
      chan_OnReadPacket_def OnUseCandidate_def chan_OnReadyToSend_def Let_def)

lemma fold_same: "(\<And>x ch. same_objects ch (f x ch)) \<Longrightarrow> same_objects ch (fold f xs ch)"
  by (induction xs arbitrary: ch) (auto intro: same_objects_trans)

lemma signals_same: "same_objects ch (fold (conn_signal pid i) es ch)"
  by (rule fold_same) (rule conn_signal_same)

lemma set_conn_same:
  assumes "ch_conns_mem ch i = Some (pid, c0)"
  shows "same_objects (ch\<lparr>ch_conns_mem := (ch_conns_mem ch)(i \<mapsto> (pid, c\<lparr>conn_log := []\<rparr>))\<rparr>) (set_conn i c ch)"
  using assms signals_same by (simp add: set_conn_def)

section \<open>Pointers\<close>

text \<open>
  The connections of the channel are the connection objects; the best one is among them and, if the first
  argument is set, the pending one: \<^verbatim>\<open>Reset\<close> leaves it as it is. Every connection is in the table of its port, which is there, under its remote address, and
  no table has two entries for an address. A message that deletes a connection is for an object
  that is there.
\<close>

definition table_ok :: "IceChannel \<Rightarrow> nat \<Rightarrow> ChanPort \<Rightarrow> bool" where
  "table_ok ch pid cp \<longleftrightarrow>
     (\<forall>(addr, i)\<in>set (cp_table cp). \<exists>c. ch_conns_mem ch i = Some (pid, c) \<and> cand_address (conn_remote c) = addr) \<and>
     (\<forall>e\<in>set (cp_table cp). \<forall>e'\<in>set (cp_table cp). sa_eq (fst e) (fst e') \<longrightarrow> e = e')"

definition refs_ok :: "bool \<Rightarrow> IceChannel \<Rightarrow> bool" where
  "refs_ok st ch \<longleftrightarrow>
     set (ch_connections ch) = dom (ch_conns_mem ch) \<and> distinct (ch_connections ch) \<and>
     (\<forall>i. ch_best ch = Some i \<or> st \<and> ch_pending ch = Some i \<longrightarrow> i \<in> dom (ch_conns_mem ch)) \<and>
     (\<forall>i pid c. ch_conns_mem ch i = Some (pid, c) \<longrightarrow>
        (\<exists>cp. ch_ports_mem ch pid = Some cp \<and> (cand_address (conn_remote c), i) \<in> set (cp_table cp))) \<and>
     (\<forall>pid cp. ch_ports_mem ch pid = Some cp \<longrightarrow> table_ok ch pid cp) \<and>
     set (ch_ports ch) \<subseteq> dom (ch_ports_mem ch) \<and> distinct (ch_ports ch) \<and>
     (\<forall>i. MSG_DELETE i \<in> set (ch_msgs ch) \<longrightarrow> i \<in> dom (ch_conns_mem ch)) \<and>
     (\<forall>i\<in>dom (ch_conns_mem ch) \<union> dom (ch_ports_mem ch). i < ch_next ch) \<and>
     (ch_writable ch \<longrightarrow> ch_was_writable ch)"

lemma refs_ok_new: "refs_ok st (P2PTransportChannel_new b)"
  by (simp add: refs_ok_def P2PTransportChannel_new_def)

lemma refs_live:
  assumes "refs_ok st ch"
  shows "live ch" "i \<in> set (ch_connections ch) \<Longrightarrow> \<exists>cp c pid. conn_at ch i = Some (cp, c) \<and> ch_conns_mem ch i = Some (pid, c)"
proof -
  have at: "\<exists>cp c pid. conn_at ch i = Some (cp, c) \<and> ch_conns_mem ch i = Some (pid, c)" if "i \<in> dom (ch_conns_mem ch)" for i
    using that assms by (fastforce simp: refs_ok_def conn_at_def)
  then show "i \<in> set (ch_connections ch) \<Longrightarrow> \<exists>cp c pid. conn_at ch i = Some (cp, c) \<and> ch_conns_mem ch i = Some (pid, c)"
    using assms by (simp add: refs_ok_def)
  show "live ch"
    using at assms by (fastforce simp: live_def list_all_iff refs_ok_def split: option.split)
qed

lemma table_ok_cong:
  assumes "table_ok ch pid cp"
    "\<And>i c. ch_conns_mem ch i = Some (pid, c) \<Longrightarrow> \<exists>c'. ch_conns_mem ch' i = Some (pid, c') \<and> conn_remote c' = conn_remote c"
  shows "table_ok ch' pid cp"
proof -
  have "\<exists>c'. ch_conns_mem ch' i = Some (pid, c') \<and> cand_address (conn_remote c') = addr" if e: "(addr, i) \<in> set (cp_table cp)" for addr i
  proof -
    obtain c where "ch_conns_mem ch i = Some (pid, c)" "cand_address (conn_remote c) = addr"
      using assms(1) e unfolding table_ok_def by fast
    with assms(2)[of i c] show ?thesis by auto
  qed
  then show ?thesis using assms(1) unfolding table_ok_def by blast
qed

text \<open>The parts that hold pointers, and the ones that only stay.\<close>

lemma refs_ok_keep:
  assumes "refs_ok st ch" "same_objects ch ch'"
    "\<And>i. ch_best ch' = Some i \<or> st \<and> ch_pending ch' = Some i \<Longrightarrow> i \<in> dom (ch_conns_mem ch)"
    "\<And>i. MSG_DELETE i \<in> set (ch_msgs ch') \<Longrightarrow> i \<in> dom (ch_conns_mem ch)"
  shows "refs_ok st ch'"
  using assms by (simp add: refs_ok_def same_objects_def table_ok_def)

lemma refs_msgs:
  "refs_ok st ch \<Longrightarrow> MSG_DELETE i \<in> set (ch_msgs ch) \<Longrightarrow> i \<in> dom (ch_conns_mem ch)"
  "refs_ok st ch \<Longrightarrow> ch_best ch = Some i \<Longrightarrow> i \<in> dom (ch_conns_mem ch)"
  "refs_ok st ch \<Longrightarrow> st \<Longrightarrow> ch_pending ch = Some i \<Longrightarrow> i \<in> dom (ch_conns_mem ch)"
  unfolding refs_ok_def by blast+

lemma RequestSort_refs: "refs_ok st ch \<Longrightarrow> refs_ok st (RequestSort ch)"
  by (rule refs_ok_keep[of st ch]) (auto simp: RequestSort_def post_msg_def same_objects_def dest: refs_msgs split: if_splits)

lemma Switch_refs: "refs_ok st ch \<Longrightarrow> i \<in> dom (ch_conns_mem ch) \<Longrightarrow> refs_ok st (SwitchBestConnectionTo (Some i) (ch\<lparr>ch_pending := None\<rparr>))"
  by (rule refs_ok_keep[of st ch]) (auto simp: SwitchBestConnectionTo_def chan_log_def same_objects_def dest: refs_msgs)

text \<open>A signal keeps the pointers right.\<close>

lemma conn_signal_refs:
  assumes "refs_ok st ch" "i \<in> dom (ch_conns_mem ch)"
  shows "refs_ok st (conn_signal pid i e ch)"
proof (cases e)
  case (StateChange w)
  then show ?thesis using assms by (simp add: OnConnectionStateChange_def Let_def RequestSort_refs Switch_refs)
next
  case (UseCandidate w)
  have "refs_ok st (ch\<lparr>ch_pending := Some i\<rparr>)"
    by (rule refs_ok_keep[OF assms(1)]) (use assms in \<open>auto simp: same_objects_def dest: refs_msgs\<close>)
  with UseCandidate show ?thesis using assms by (simp add: OnUseCandidate_def RequestSort_refs Switch_refs)
next
  case PostDelete
  show ?thesis
    unfolding PostDelete conn_signal.simps post_msg_def
    by (rule refs_ok_keep[OF assms(1)]) (use assms refs_msgs[OF assms(1)] in \<open>auto simp: same_objects_def\<close>)
qed (use assms in \<open>auto simp: post_msg_def chan_log_def chan_OnReadPacket_def chan_OnReadyToSend_def same_objects_def
      intro!: refs_ok_keep[OF assms(1)] dest: refs_msgs\<close>)

lemma signals_refs: "refs_ok st ch \<Longrightarrow> i \<in> dom (ch_conns_mem ch) \<Longrightarrow> refs_ok st (fold (conn_signal pid i) es ch)"
proof (induction es arbitrary: ch)
  case (Cons e es)
  have "refs_ok st (conn_signal pid i e ch)" "ch_conns_mem (conn_signal pid i e ch) = ch_conns_mem ch"
    using conn_signal_refs[OF Cons.prems] conn_signal_same[of ch pid i e] by (simp_all add: same_objects_def)
  then show ?case using Cons.IH Cons.prems(2) by simp
qed simp

lemma set_conn_refs:
  assumes ok: "refs_ok st ch" and at: "ch_conns_mem ch i = Some (pid, c0)" and r: "conn_remote c = conn_remote c0"
  shows "refs_ok st (set_conn i c ch)"
proof -
  define ch1 where "ch1 = ch\<lparr>ch_conns_mem := (ch_conns_mem ch)(i \<mapsto> (pid, c\<lparr>conn_log := []\<rparr>))\<rparr>"
  have t: "table_ok ch1 q cp" if "ch_ports_mem ch q = Some cp" for q cp
    by (rule table_ok_cong[of ch]) (use that ok at r in \<open>auto simp: refs_ok_def ch1_def\<close>)
  have d: "dom (ch_conns_mem ch1) = dom (ch_conns_mem ch)" using at by (auto simp: ch1_def)
  have e: "\<exists>cp. ch_ports_mem ch q = Some cp \<and> (cand_address (conn_remote c'), j) \<in> set (cp_table cp)"
    if "ch_conns_mem ch1 j = Some (q, c')" for j q c'
    using that ok at r by (auto simp: refs_ok_def ch1_def split: if_splits)
  have "refs_ok st ch1"
    using ok t d e unfolding refs_ok_def ch1_def by simp
  moreover have "set_conn i c ch = fold (conn_signal pid i) (rev (conn_log c)) ch1"
    using at by (simp add: set_conn_def ch1_def)
  ultimately show ?thesis using signals_refs[of st ch1 i pid] by (simp add: ch1_def)
qed

lemma on_conn_refs:
  assumes "refs_ok st ch" "i \<in> set (ch_connections ch)" "\<And>c. conn_remote (f c) = conn_remote c"
  shows "refs_ok st (on_conn i f ch)"
proof -
  obtain cp c pid where c: "conn_at ch i = Some (cp, c)" "ch_conns_mem ch i = Some (pid, c)"
    using refs_live(2)[OF assms(1,2)] by blast
  then have "conn_remote (f ((the_conn ch i)\<lparr>conn_log := []\<rparr>)) = conn_remote c"
    using assms(3) by (simp add: the_conn_def)
  from set_conn_refs[OF assms(1) c(2) this] show ?thesis by (simp add: on_conn_def)
qed

section \<open>Operations on connections\<close>

text \<open>What an operation on connections leaves alone.\<close>

definition framed :: "IceChannel \<Rightarrow> IceChannel \<Rightarrow> bool" where
  "framed ch ch' \<longleftrightarrow>
     ch_ports_mem ch' = ch_ports_mem ch \<and> ch_next ch' = ch_next ch \<and> ch_ports ch' = ch_ports ch \<and> ch_connections ch' = ch_connections ch \<and>
     ch_remotes ch' = ch_remotes ch \<and> ch_was_writable ch' = ch_was_writable ch \<and> ch_readable ch' = ch_readable ch \<and>
     ch_writable ch' = ch_writable ch \<and> ch_protocol ch' = ch_protocol ch \<and> ch_role ch' = ch_role ch \<and> ch_remote_mode ch' = ch_remote_mode ch \<and>
     dom (ch_conns_mem ch') = dom (ch_conns_mem ch) \<and> (\<forall>i. the_port ch' i = the_port ch i)"

lemma framed_refl [simp]: "framed ch ch"
  by (simp add: framed_def)

lemma framed_trans: "framed a b \<Longrightarrow> framed b c \<Longrightarrow> framed a c"
  by (simp add: framed_def)

lemma conn_at_cong: "ch_conns_mem ch' i = ch_conns_mem ch i \<Longrightarrow> ch_ports_mem ch' = ch_ports_mem ch \<Longrightarrow> conn_at ch' i = conn_at ch i"
  by (auto simp: conn_at_def split: option.split)

lemma same_framed: "same_objects ch ch' \<Longrightarrow> framed ch ch'"
  using conn_at_cong[of ch' _ ch] by (simp add: same_objects_def framed_def the_port_def)

lemma set_conn_eff:
  assumes "ch_conns_mem ch i = Some (pid, c0)"
  shows "ch_conns_mem (set_conn i c ch) = (ch_conns_mem ch)(i \<mapsto> (pid, c\<lparr>conn_log := []\<rparr>))" "framed ch (set_conn i c ch)"
proof -
  note s = set_conn_same[OF assms, of c]
  show "ch_conns_mem (set_conn i c ch) = (ch_conns_mem ch)(i \<mapsto> (pid, c\<lparr>conn_log := []\<rparr>))" using s by (simp add: same_objects_def)
  have "the_port (ch\<lparr>ch_conns_mem := (ch_conns_mem ch)(i \<mapsto> (pid, c\<lparr>conn_log := []\<rparr>))\<rparr>) j = the_port ch j" for j
    using assms conn_at_cong[of "ch\<lparr>ch_conns_mem := (ch_conns_mem ch)(i \<mapsto> (pid, c\<lparr>conn_log := []\<rparr>))\<rparr>" j ch]
    by (cases "ch_ports_mem ch pid"; cases "j = i") (simp_all add: the_port_def conn_at_def)
  then have "framed ch (ch\<lparr>ch_conns_mem := (ch_conns_mem ch)(i \<mapsto> (pid, c\<lparr>conn_log := []\<rparr>))\<rparr>)"
    using assms by (auto simp: framed_def)
  then show "framed ch (set_conn i c ch)" using same_framed[OF s] by (rule framed_trans)
qed

lemma on_conn_eff:
  assumes "refs_ok st ch" "i \<in> set (ch_connections ch)"
  shows "framed ch (on_conn i f ch)" "the_conn (on_conn i f ch) i = (f ((the_conn ch i)\<lparr>conn_log := []\<rparr>))\<lparr>conn_log := []\<rparr>"
    "j \<noteq> i \<Longrightarrow> the_conn (on_conn i f ch) j = the_conn ch j"
proof -
  obtain cp c pid where c: "conn_at ch i = Some (cp, c)" "ch_conns_mem ch i = Some (pid, c)"
    using refs_live(2)[OF assms] by blast
  note e = set_conn_eff[OF c(2), of "f ((the_conn ch i)\<lparr>conn_log := []\<rparr>)", folded on_conn_def]
  show "framed ch (on_conn i f ch)" by (rule e(2))
  then have p: "ch_ports_mem (on_conn i f ch) = ch_ports_mem ch" by (simp add: framed_def)
  show "the_conn (on_conn i f ch) i = (f ((the_conn ch i)\<lparr>conn_log := []\<rparr>))\<lparr>conn_log := []\<rparr>"
    using c p e(1) by (auto simp: the_conn_def conn_at_def)
  show "j \<noteq> i \<Longrightarrow> the_conn (on_conn i f ch) j = the_conn ch j"
    using p e(1) conn_at_cong[of "on_conn i f ch" j ch] by (simp add: the_conn_def)
qed

text \<open>A walk over connections.\<close>

lemma fold_conns:
  assumes "refs_ok st ch" "set is \<subseteq> set (ch_connections ch)"
    "\<And>i ch. refs_ok st ch \<Longrightarrow> i \<in> set (ch_connections ch) \<Longrightarrow> refs_ok st (g i ch) \<and> framed ch (g i ch)"
  shows "refs_ok st (fold g is ch) \<and> framed ch (fold g is ch)"
  using assms(1,2)
proof (induction "is" arbitrary: ch)
  case (Cons i "is")
  have g: "refs_ok st (g i ch)" "framed ch (g i ch)" using assms(3) Cons.prems by simp_all
  moreover have "set is \<subseteq> set (ch_connections (g i ch))" using g(2) Cons.prems(2) by (simp add: framed_def)
  ultimately show ?case using Cons.IH[OF g(1)] framed_trans[OF g(2)] by simp
qed simp

lemma Update_refs: "refs_ok st ch \<Longrightarrow> refs_ok st (UpdateConnectionStates now ch) \<and> framed ch (UpdateConnectionStates now ch)"
  unfolding UpdateConnectionStates_def by (rule fold_conns) (auto intro: on_conn_refs on_conn_eff(1))

lemma find_in: "find P xs = Some x \<Longrightarrow> x \<in> set xs"
  by (induction xs) (auto split: if_splits)

lemma best_in: "refs_ok st ch \<Longrightarrow> ch_best ch = Some b \<Longrightarrow> b \<in> set (ch_connections ch)"
  by (simp add: refs_ok_def)

lemma GetBest_in: "refs_ok st ch \<Longrightarrow> GetBestConnectionOnNetwork ch n = Some i \<Longrightarrow> i \<in> set (ch_connections ch)"
  by (auto simp: GetBestConnectionOnNetwork_def best_in find_in split: option.splits if_splits)

lemma prune_refs: "refs_ok st ch \<Longrightarrow> refs_ok st (prune_network n ch) \<and> framed ch (prune_network n ch)"
proof (cases "GetBestConnectionOnNetwork ch n")
  case (Some b)
  assume ok: "refs_ok st ch"
  show ?thesis
    unfolding prune_network_def Some option.simps
    by (cases "write_state (the_conn ch b) \<noteq> STATE_WRITABLE")
      (use ok in \<open>simp_all, intro fold_conns, auto intro: on_conn_refs on_conn_eff(1)\<close>)
qed (simp add: prune_network_def)

lemma prunes_refs: "refs_ok st ch \<Longrightarrow> refs_ok st (fold prune_network ns ch) \<and> framed ch (fold prune_network ns ch)"
proof (induction ns arbitrary: ch)
  case (Cons n ns)
  have p: "refs_ok st (prune_network n ch)" "framed ch (prune_network n ch)" using prune_refs Cons.prems by simp_all
  show ?case using Cons.IH[OF p(1)] framed_trans[OF p(2)] by simp
qed simp

section \<open>Sorting\<close>

lemma stable_insert_set [simp]:
  "set (stable_insert lt x xs) = insert x (set xs)" "distinct (stable_insert lt x xs) \<longleftrightarrow> x \<notin> set xs \<and> distinct xs"
  by (induction xs) auto

lemma stable_sort_set [simp]: "set (stable_sort lt xs) = set xs" "distinct (stable_sort lt xs) \<longleftrightarrow> distinct xs"
proof -
  have s: "set (foldr (stable_insert lt) ys []) = set ys" for ys by (induction ys) auto
  then show "set (stable_sort lt xs) = set xs" by (simp add: stable_sort_def)
  show "distinct (stable_sort lt xs) \<longleftrightarrow> distinct xs"
    unfolding stable_sort_def by (induction xs) (auto simp: s)
qed

lemma stable_sort_hd:
  assumes "\<And>a b. a \<in> set xs \<Longrightarrow> b \<in> set xs \<Longrightarrow> lt a b \<Longrightarrow> \<not> lt b a"
    "\<And>a b c. a \<in> set xs \<Longrightarrow> b \<in> set xs \<Longrightarrow> c \<in> set xs \<Longrightarrow> \<not> lt a b \<Longrightarrow> \<not> lt b c \<Longrightarrow> \<not> lt a c"
    "stable_sort lt xs = y # ys" "x \<in> set xs"
  shows "\<not> lt x y"
  using assms
proof (induction xs arbitrary: x y ys)
  case (Cons z zs)
  have irr: "\<not> lt z z" using Cons.prems(1)[of z z] by auto
  show ?case
  proof (cases "stable_sort lt zs")
    case Nil
    then have "zs = []" using stable_sort_set(1)[of lt zs] by simp
    then show ?thesis using Cons.prems(3,4) irr by (simp add: stable_sort_def)
  next
    case (Cons u us)
    have u: "u \<in> set zs" using stable_sort_set(1)[of lt zs] Cons by (metis list.set_intros(1))
    have c1: "\<And>a b. a \<in> set zs \<Longrightarrow> b \<in> set zs \<Longrightarrow> lt a b \<Longrightarrow> \<not> lt b a"
      using Cons.prems(1) by simp
    have c2: "\<And>a b c. a \<in> set zs \<Longrightarrow> b \<in> set zs \<Longrightarrow> c \<in> set zs \<Longrightarrow> \<not> lt a b \<Longrightarrow> \<not> lt b c \<Longrightarrow> \<not> lt a c"
      by (rule Cons.prems(2)) simp_all
    have IH: "w \<in> set zs \<Longrightarrow> \<not> lt w u" for w
      by (rule Cons.IH[OF c1 c2 Cons])
    have eq: "stable_sort lt (z # zs) = stable_insert lt z (u # us)" using Cons by (simp add: stable_sort_def)
    show ?thesis
    proof (cases "lt u z")
      case True
      then have "y = u" using eq Cons.prems(3) by simp
      then show ?thesis using IH Cons.prems(1)[OF _ _ True] u Cons.prems(4) by auto
    next
      case False
      then have y: "y = z" using eq Cons.prems(3) by simp
      show ?thesis
      proof (cases "x = z")
        case False
        then have "x \<in> set zs" using Cons.prems(4) by simp
        then show ?thesis using Cons.prems(2)[of x u z] IH \<open>\<not> lt u z\<close> u y by simp
      qed (use irr y in simp)
    qed
  qed
next
  case Nil
  from Nil.prems(4) show ?case by simp
qed

text \<open>The static preference between connections, where the generations are small enough to subtract.\<close>

definition prio_of :: "ChanPort \<times> Connection \<Rightarrow> u64" where
  "prio_of a = conn_priority (cp_port (fst a)) (snd a)"

definition gen_of :: "ChanPort \<times> Connection \<Rightarrow> int" where
  "gen_of a = uint (cand_generation (conn_remote (snd a)) + port_generation (cp_port (fst a)))"

definition rank_of :: "ChanPort \<times> Connection \<Rightarrow> nat" where
  "rank_of a = write_rank (write_state (snd a))"

definition static_ge :: "ChanPort \<times> Connection \<Rightarrow> ChanPort \<times> Connection \<Rightarrow> bool" where
  "static_ge a b \<longleftrightarrow> prio_of a > prio_of b \<or> prio_of a = prio_of b \<and> gen_of a \<ge> gen_of b"

definition preferred :: "ChanPort \<times> Connection \<Rightarrow> ChanPort \<times> Connection \<Rightarrow> bool" where
  "preferred a b \<longleftrightarrow> rank_of a < rank_of b \<or> rank_of a = rank_of b \<and> static_ge a b"

lemma gen_diff:
  fixes u v :: u32
  assumes "uint u < 2 ^ 31" "uint v < 2 ^ 31"
  shows "sint (u - v) = uint u - uint v"
proof -
  have m: "uint (u - v) = (uint u - uint v) mod 4294967296" by (simp add: uint_word_ariths)
  show ?thesis
  proof (cases "uint v \<le> uint u")
    case True
    have "uint u - uint v < 4294967296" using assms u32_ge[of v] u32_lt[of u] by linarith
    then have "(uint u - uint v) mod 4294967296 = uint u - uint v"
      using True by (intro mod_pos_pos_trivial) linarith+
    then have "uint (u - v) = uint u - uint v" using m by simp
    moreover have "uint u < 2147483648" using assms(1) by simp
    then have "uint u - uint v < 2147483648" using u32_ge[of v] by linarith
    ultimately show ?thesis by (simp add: sint_u32)
  next
    case False
    have "(uint u - uint v) mod 4294967296 = (uint u - uint v + 4294967296) mod 4294967296" by simp
    also have "\<dots> = uint u - uint v + 4294967296"
      using False u32_ge[of u] u32_lt[of v] by (intro mod_pos_pos_trivial) linarith+
    finally have e: "uint (u - v) = uint u - uint v + 4294967296" using m by simp
    have "uint v < 2147483648" using assms(2) by simp
    then have "\<not> uint u - uint v + 4294967296 < 2147483648" using u32_ge[of u] by linarith
    with e show ?thesis by (simp add: sint_u32)
  qed
qed

lemma Compare_candidates:
  assumes "gen_of a < 2 ^ 31" "gen_of b < 2 ^ 31"
  shows "CompareConnectionCandidates a b = (if prio_of a > prio_of b then 1 else if prio_of a < prio_of b then - 1 else gen_of a - gen_of b)"
  using gen_diff[of "cand_generation (conn_remote (snd a)) + port_generation (cp_port (fst a))" "cand_generation (conn_remote (snd b)) + port_generation (cp_port (fst b))"] assms
  by (simp add: CompareConnectionCandidates_def Let_def prio_of_def gen_of_def)

lemma Compare_static:
  assumes "gen_of a < 2 ^ 31" "gen_of b < 2 ^ 31"
  shows "CompareConnectionCandidates a b \<ge> 0 \<longleftrightarrow> static_ge a b" "CompareConnections a b \<ge> 0 \<longleftrightarrow> preferred a b"
    "CompareConnections a b \<le> 0 \<longleftrightarrow> preferred b a"
  using linorder_less_linear[of "prio_of a" "prio_of b"] linorder_less_linear[of "rank_of a" "rank_of b"]
  unfolding CompareConnections_def Compare_candidates[OF assms] rank_of_def[symmetric]
  by (auto simp: static_ge_def preferred_def)

lemma preferred_trans: "preferred a b \<Longrightarrow> preferred b c \<Longrightarrow> preferred a c"
  by (auto simp: preferred_def static_ge_def)

lemma preferred_total: "preferred a b \<or> preferred b a"
  by (auto simp: preferred_def static_ge_def)

lemma Compare_lt:
  assumes "gen_of a < 2 ^ 31" "gen_of b < 2 ^ 31"
  shows "ConnectionCompare a b \<longleftrightarrow> preferred a b \<and> (preferred b a \<longrightarrow> conn_rtt (snd a) < conn_rtt (snd b))"
  using Compare_static[OF assms] preferred_total[of a b] by (auto simp: ConnectionCompare_def Let_def)

section \<open>What sorting does\<close>

definition at :: "IceChannel \<Rightarrow> nat \<Rightarrow> ChanPort \<times> Connection" where
  "at ch i = (the_port ch i, the_conn ch i)"

text \<open>Signals that choose no best connection.\<close>

definition quiet :: "ConnEvent \<Rightarrow> bool" where
  "quiet e \<longleftrightarrow> (case e of StateChange w \<Rightarrow> \<not> w | UseCandidate w \<Rightarrow> False | _ \<Rightarrow> True)"

lemma quiet_signal: "quiet e \<Longrightarrow> ch_best (conn_signal pid i e ch) = ch_best ch \<and> ch_pending (conn_signal pid i e ch) = ch_pending ch"
  by (cases e) (auto simp: quiet_def OnConnectionStateChange_def RequestSort_def post_msg_def chan_log_def chan_OnReadPacket_def chan_OnReadyToSend_def Let_def)

lemma quiet_signals:
  "\<forall>e\<in>set es. quiet e \<Longrightarrow> ch_best (fold (conn_signal pid i) es ch) = ch_best ch \<and> ch_pending (fold (conn_signal pid i) es ch) = ch_pending ch"
  by (induction es arbitrary: ch) (simp_all add: quiet_signal)

lemma Prune_quiet: "conn_log c = [] \<Longrightarrow> \<forall>e\<in>set (conn_log (Prune c)). quiet e"
  by (auto simp: Prune_def conn_setters quiet_def)

lemma Prune_conn:
  "conn_local (Prune c) = conn_local c" "read_state (Prune c) = read_state c" "conn_rtt (Prune c) = conn_rtt c"
  "write_state (Prune c) = write_state c \<or> write_state (Prune c) = STATE_WRITE_TIMEOUT"
  by (auto simp: Prune_def conn_setters)

lemma prune_best: "ch_best (on_conn i Prune ch) = ch_best ch"
  using quiet_signals[of "rev (conn_log (Prune ((the_conn ch i)\<lparr>conn_log := []\<rparr>)))"] Prune_quiet[of "(the_conn ch i)\<lparr>conn_log := []\<rparr>"]
  by (auto simp: on_conn_def set_conn_def split: option.split)

text \<open>What pruning makes of one connection.\<close>

definition pruned_from :: "IceChannel \<Rightarrow> IceChannel \<Rightarrow> bool" where
  "pruned_from ch ch' \<longleftrightarrow>
     ch_best ch' = ch_best ch \<and>
     (\<forall>i. prio_of (at ch' i) = prio_of (at ch i) \<and> gen_of (at ch' i) = gen_of (at ch i) \<and> rank_of (at ch i) \<le> rank_of (at ch' i) \<and>
          conn_rtt (the_conn ch' i) = conn_rtt (the_conn ch i) \<and> read_state (the_conn ch' i) = read_state (the_conn ch i) \<and> (ch_best ch = Some i \<longrightarrow> the_conn ch' i = the_conn ch i))"

lemma pruned_from_refl [simp]: "pruned_from ch ch"
  by (simp add: pruned_from_def)

lemma pruned_from_trans: "pruned_from a b \<Longrightarrow> pruned_from b c \<Longrightarrow> pruned_from a c"
  unfolding pruned_from_def by (metis le_trans)

lemma write_rank_le: "write_rank w \<le> 3"
  by (cases w) simp_all

lemma on_conn_Prune:
  assumes "refs_ok st ch" "i \<in> set (ch_connections ch)" "ch_best ch \<noteq> Some i"
  shows "pruned_from ch (on_conn i Prune ch)"
proof -
  define c where "c = (Prune ((the_conn ch i)\<lparr>conn_log := []\<rparr>))\<lparr>conn_log := []\<rparr>"
  have c: "conn_local c = conn_local (the_conn ch i)" "conn_remote c = conn_remote (the_conn ch i)" "read_state c = read_state (the_conn ch i)"
    "conn_rtt c = conn_rtt (the_conn ch i)"
    "write_state c = write_state (the_conn ch i) \<or> write_state c = STATE_WRITE_TIMEOUT"
    using Prune_conn[of "(the_conn ch i)\<lparr>conn_log := []\<rparr>"] by (simp_all add: c_def)
  have at: "the_conn (on_conn i Prune ch) j = (if j = i then c else the_conn ch j)" "the_port (on_conn i Prune ch) j = the_port ch j" for j
    using on_conn_eff[OF assms(1,2), where f = Prune] by (simp_all add: c_def framed_def)
  have r: "write_rank (write_state (the_conn ch i)) \<le> write_rank (write_state c)"
    using c(5) write_rank_le by auto
  show ?thesis
    using c(1-4) r assms(3) by (auto simp: pruned_from_def prune_best at_def at prio_of_def gen_of_def rank_of_def conn_priority_def)
qed

lemma GetBest_best: "ch_best ch = Some b \<Longrightarrow> cp_network (the_port ch b) = n \<Longrightarrow> GetBestConnectionOnNetwork ch n = Some b"
  by (simp add: GetBestConnectionOnNetwork_def)

lemma prune_network_from:
  assumes "refs_ok st ch"
  shows "pruned_from ch (prune_network n ch)"
proof (cases "GetBestConnectionOnNetwork ch n")
  case (Some p)
  define g where "g = (\<lambda>i ch. if i \<noteq> p \<and> cp_network (the_port ch i) = n \<and>
      CompareConnectionCandidates (the_port ch p, the_conn ch p) (the_port ch i, the_conn ch i) \<ge> 0 then on_conn i Prune ch else ch)"
  have not_best: "ch_best ch \<noteq> Some i" if "i \<noteq> p" "cp_network (the_port ch i) = n" for i
    using that Some GetBest_best[of ch i n] by auto
  have ports: "framed ch ch' \<Longrightarrow> the_port ch' i = the_port ch i" for ch' i by (simp add: framed_def)
  have "refs_ok st ch' \<Longrightarrow> framed ch ch' \<Longrightarrow> ch_best ch' = ch_best ch \<Longrightarrow> i \<in> set (ch_connections ch') \<Longrightarrow>
      refs_ok st (g i ch') \<and> framed ch (g i ch') \<and> pruned_from ch' (g i ch')" for i ch'
    using not_best[of i] ports[of ch' i] on_conn_Prune[of st ch' i] on_conn_refs[of st ch' i Prune] on_conn_eff(1)[of st ch' i Prune] framed_trans[of ch ch']
    by (auto simp: g_def)
  then have "refs_ok st ch' \<Longrightarrow> framed ch ch' \<Longrightarrow> ch_best ch' = ch_best ch \<Longrightarrow> set is \<subseteq> set (ch_connections ch') \<Longrightarrow> pruned_from ch' (fold g is ch')" for "is" ch'
  proof (induction "is" arbitrary: ch')
    case (Cons i "is")
    have s: "refs_ok st (g i ch')" "framed ch (g i ch')" "pruned_from ch' (g i ch')" using Cons.prems by simp_all
    have "pruned_from (g i ch') (fold g is (g i ch'))"
      by (rule Cons.IH) (use s Cons.prems in \<open>simp_all add: framed_def pruned_from_def\<close>)
    then show ?case using pruned_from_trans[OF s(3)] by simp
  qed simp
  then have "pruned_from ch (fold g (ch_connections ch) ch)" using assms by simp
  then show ?thesis using Some by (simp add: prune_network_def g_def)
qed (simp add: prune_network_def)

lemma prunes_from: "refs_ok st ch \<Longrightarrow> pruned_from ch (fold prune_network ns ch)"
proof (induction ns arbitrary: ch)
  case (Cons n ns)
  show ?case
    using pruned_from_trans[OF prune_network_from[OF Cons.prems] Cons.IH[OF conjunct1[OF prune_refs[OF Cons.prems]]]] by simp
qed simp

text \<open>The steps of sorting after the states are up to date.\<close>

definition sorted_chan :: "IceChannel \<Rightarrow> IceChannel" where
  "sorted_chan ch =
     ch\<lparr>ch_sort_dirty := False, ch_connections := stable_sort (\<lambda>i j. ConnectionCompare (at ch i) (at ch j)) (ch_connections ch)\<rparr>"

definition top_connection :: "IceChannel \<Rightarrow> nat option" where
  "top_connection ch = (case ch_connections ch of [] \<Rightarrow> None | i # _ \<Rightarrow> Some i)"

definition switched :: "IceChannel \<Rightarrow> IceChannel" where
  "switched ch =
     (if (ch_protocol ch \<noteq> ICEPROTO_RFC5245 \<or> ch_role ch = ROLE_CONTROLLING) \<and> ShouldSwitch ch (ch_best ch) (top_connection ch)
      then SwitchBestConnectionTo (top_connection ch) ch else ch)"

definition set_states :: "IceChannel \<Rightarrow> IceChannel" where
  "set_states ch =
     UpdateChannelState
       (if best_writable ch then HandleWritable ch
        else if list_all (\<lambda>i. write_state (the_conn ch i) = STATE_WRITE_TIMEOUT) (ch_connections ch) then HandleAllTimedOut ch
        else HandleNotWritable ch)"

lemma at_update [simp]:
  "the_port (ch\<lparr>ch_sort_dirty := d\<rparr>) i = the_port ch i" "the_conn (ch\<lparr>ch_sort_dirty := d\<rparr>) i = the_conn ch i"
  "the_port (ch\<lparr>ch_connections := is\<rparr>) i = the_port ch i" "the_conn (ch\<lparr>ch_connections := is\<rparr>) i = the_conn ch i"
  by (auto simp: the_port_def the_conn_def conn_at_def split: option.split)

lemma sort_step_eq:
  "sort_step ch = set_states (fold prune_network (remdups (map (\<lambda>i. cp_network (the_port ch i)) (ch_connections ch))) (switched (sorted_chan ch)))"
  unfolding sort_step_def Let_def set_states_def
  by (simp add: switched_def top_connection_def sorted_chan_def at_def)

lemma sorted_refs: "refs_ok st ch \<Longrightarrow> refs_ok st (sorted_chan ch)"
  by (simp add: refs_ok_def sorted_chan_def table_ok_def)

lemma at_cong:
  "ch_conns_mem ch' = ch_conns_mem ch \<Longrightarrow> ch_ports_mem ch' = ch_ports_mem ch \<Longrightarrow> at ch' i = at ch i"
  "ch_conns_mem ch' = ch_conns_mem ch \<Longrightarrow> ch_ports_mem ch' = ch_ports_mem ch \<Longrightarrow> the_conn ch' i = the_conn ch i"
  "ch_conns_mem ch' = ch_conns_mem ch \<Longrightarrow> ch_ports_mem ch' = ch_ports_mem ch \<Longrightarrow> the_port ch' i = the_port ch i"
  using conn_at_cong[of ch' i ch] by (simp_all add: at_def the_port_def the_conn_def)

lemma switched_fields:
  "ch_conns_mem (switched ch) = ch_conns_mem ch" "ch_ports_mem (switched ch) = ch_ports_mem ch" "ch_connections (switched ch) = ch_connections ch"
  "ch_writable (switched ch) = ch_writable ch" "ch_was_writable (switched ch) = ch_was_writable ch"
  "ch_best (switched ch) = (if (ch_protocol ch \<noteq> ICEPROTO_RFC5245 \<or> ch_role ch = ROLE_CONTROLLING) \<and> ShouldSwitch ch (ch_best ch) (top_connection ch)
      then top_connection ch else ch_best ch)"
  by (auto simp: switched_def SwitchBestConnectionTo_def chan_log_def Let_def split: option.split)

lemma switched_refs: "refs_ok st ch \<Longrightarrow> refs_ok st (switched ch)"
proof -
  assume ok: "refs_ok st ch"
  have "top_connection ch = Some i \<Longrightarrow> i \<in> dom (ch_conns_mem ch)" for i
    using ok by (auto simp: top_connection_def refs_ok_def split: list.splits)
  then have "same_objects ch (switched ch) \<and> (ch_best (switched ch) = Some i \<longrightarrow> i \<in> dom (ch_conns_mem ch)) \<and>
      ch_pending (switched ch) = ch_pending ch \<and> ch_msgs (switched ch) = ch_msgs ch \<and> ch_sort_dirty (switched ch) = ch_sort_dirty ch" for i
    using refs_msgs(2)[OF ok] by (auto simp: switched_def SwitchBestConnectionTo_def chan_log_def Let_def same_objects_def split: option.split)
  then show "refs_ok st (switched ch)"
    by (intro refs_ok_keep[OF ok]) (auto dest: refs_msgs[OF ok])
qed

text \<open>The state of the channel at the end.\<close>

lemma sessions_fold:
  "\<exists>ss l. fold (\<lambda>k ch. if ch_sessions ch ! k then chan_log (StopGettingPorts k) (ch\<lparr>ch_sessions := (ch_sessions ch)[k := False]\<rparr>) else ch) ks ch =
     ch\<lparr>ch_sessions := ss, ch_log := l\<rparr>"
proof (induction ks arbitrary: ch)
  case Nil
  show ?case by (intro exI[of _ "ch_sessions ch"] exI[of _ "ch_log ch"]) simp
next
  case (Cons k ks)
  show ?case using Cons[of ch] Cons[of "chan_log (StopGettingPorts k) (ch\<lparr>ch_sessions := (ch_sessions ch)[k := False]\<rparr>)"]
    by (auto simp: chan_log_def)
qed

lemma Handle_eff:
  "\<exists>ss l. HandleWritable ch = ch\<lparr>ch_sessions := ss, ch_was_writable := True, ch_writable := True, ch_log := l\<rparr>"
  "(ch_writable ch \<longrightarrow> ch_was_writable ch) \<Longrightarrow> \<exists>l. HandleNotWritable ch = ch\<lparr>ch_was_writable := False, ch_writable := False, ch_log := l\<rparr>"
proof -
  obtain ss l where f: "(if \<not> ch_writable ch then fold (\<lambda>k ch. if ch_sessions ch ! k then chan_log (StopGettingPorts k) (ch\<lparr>ch_sessions := (ch_sessions ch)[k := False]\<rparr>) else ch)
      [0..<length (ch_sessions ch)] ch else ch) = ch\<lparr>ch_sessions := ss, ch_log := l\<rparr>"
    using sessions_fold[of "[0..<length (ch_sessions ch)]" ch] by (cases "ch_writable ch") (auto intro: that[where ss = "ch_sessions ch" and l = "ch_log ch"])
  show "\<exists>ss l. HandleWritable ch = ch\<lparr>ch_sessions := ss, ch_was_writable := True, ch_writable := True, ch_log := l\<rparr>"
    unfolding HandleWritable_def f Let_def by (cases ch) (auto simp: set_writable_def chan_log_def)
  show "(ch_writable ch \<longrightarrow> ch_was_writable ch) \<Longrightarrow> \<exists>l. HandleNotWritable ch = ch\<lparr>ch_was_writable := False, ch_writable := False, ch_log := l\<rparr>"
    by (cases ch) (auto simp: HandleNotWritable_def set_writable_def chan_log_def)
qed

lemma set_states_eff:
  assumes "ch_writable ch \<longrightarrow> ch_was_writable ch"
  shows "\<exists>ss l. set_states ch = ch\<lparr>ch_sessions := ss, ch_was_writable := best_writable ch, ch_writable := best_writable ch,
     ch_readable := (\<exists>i\<in>set (ch_connections ch). read_state (the_conn ch i) = STATE_READABLE), ch_log := l\<rparr>"
proof -
  obtain ss l where h: "(if best_writable ch then HandleWritable ch
        else if list_all (\<lambda>i. write_state (the_conn ch i) = STATE_WRITE_TIMEOUT) (ch_connections ch) then HandleAllTimedOut ch
        else HandleNotWritable ch) = ch\<lparr>ch_sessions := ss, ch_was_writable := best_writable ch, ch_writable := best_writable ch, ch_log := l\<rparr>"
    using Handle_eff(1)[of ch] Handle_eff(2)[OF assms]
    by (cases "best_writable ch") (auto simp: HandleAllTimedOut_def intro: that[where ss = "ch_sessions ch"])
  have at: "the_conn (ch\<lparr>ch_sessions := ss, ch_was_writable := b, ch_writable := b, ch_log := l\<rparr>) i = the_conn ch i" for b i
    by (rule at_cong(2)) simp_all
  have "set_readable r (ch\<lparr>ch_sessions := ss, ch_was_writable := b, ch_writable := b, ch_log := l\<rparr>) =
      ch\<lparr>ch_sessions := ss, ch_was_writable := b, ch_writable := b, ch_readable := r, ch_log := (if ch_readable ch \<noteq> r then ReadableState r # l else l)\<rparr>" for r b
    by (cases ch) (simp add: set_readable_def chan_log_def)
  then show ?thesis
    unfolding set_states_def h UpdateChannelState_def by (auto simp: at list_ex_iff)
qed

end
