(* ===== verification/IceChannelRun.thy ===== *)
theory IceChannelRun
  imports IceChannelInv
begin

text \<open>
  Every operation of an ICE channel keeps its pointers right, but that \<^verbatim>\<open>Reset\<close> leaves the pending
  connection pointing to a deleted object.
\<close>

lemma refs_ok_cong:
  assumes "refs_ok st ch" "ch_ports_mem ch' = ch_ports_mem ch" "ch_conns_mem ch' = ch_conns_mem ch" "ch_next ch' = ch_next ch"
    "ch_connections ch' = ch_connections ch" "ch_best ch' = ch_best ch" "ch_pending ch' = ch_pending ch" "ch_ports ch' = ch_ports ch"
    "ch_msgs ch' = ch_msgs ch" "ch_writable ch' \<longrightarrow> ch_was_writable ch'"
  shows "refs_ok st ch'"
  using assms by (simp add: refs_ok_def table_ok_def)

lemma set_states_refs: "refs_ok st ch \<Longrightarrow> refs_ok st (set_states ch)"
proof -
  assume ok: "refs_ok st ch"
  then have "ch_writable ch \<longrightarrow> ch_was_writable ch" by (simp add: refs_ok_def)
  from set_states_eff[OF this] show ?thesis by (auto intro: refs_ok_cong[OF ok])
qed

lemma sort_step_refs: "refs_ok st ch \<Longrightarrow> refs_ok st (sort_step ch)"
  unfolding sort_step_eq by (intro set_states_refs conjunct1[OF prunes_refs] switched_refs sorted_refs)

lemma SortConnections_refs: "refs_ok st ch \<Longrightarrow> \<exists>ch'. SortConnections now ch = Some ch' \<and> refs_ok st ch'"
  using refs_live(1) sort_step_refs Update_refs by (simp add: SortConnections_def)

lemma oldest_in: "oldest_pingable ch is b t = Some i \<Longrightarrow> i \<in> set is \<or> b = Some i"
  by (induction ch "is" b t rule: oldest_pingable.induct) (auto split: if_splits)

lemma FindNext_in: "refs_ok st ch \<Longrightarrow> FindNextPingableConnection now ch = Some i \<Longrightarrow> i \<in> set (ch_connections ch)"
  using oldest_in[of ch "ch_connections ch" None "0xFFFFFFFF" i] best_in[of st ch]
  by (auto simp: FindNextPingableConnection_def Let_def split: option.splits if_splits)

lemma PingConnection_refs:
  assumes "refs_ok st ch" "i \<in> set (ch_connections ch)" "PingConnection i tid now ch = Some ch'"
  shows "refs_ok st ch'"
proof -
  obtain cp c pid where at: "conn_at ch i = Some (cp, c)" "ch_conns_mem ch i = Some (pid, c)"
    using refs_live(2)[OF assms(1,2)] by blast
  obtain c' where c': "Ping (cp_port (the_port ch i)) tid now (set_use_candidate_attr (ping_nominates ch i) (the_conn ch i)) = Some c'"
    "ch' = on_conn i (\<lambda>_. c'\<lparr>conn_log := []\<rparr>) ch"
    using assms(3) by (auto simp: PingConnection_def split: option.splits)
  have "conn_remote c' = conn_remote c"
    using conn_op_remote(6)[OF c'(1)] at by (simp add: the_conn_def set_use_candidate_attr_def)
  then show ?thesis
    using set_conn_refs[OF assms(1) at(2), of "c'\<lparr>conn_log := []\<rparr>"] by (simp add: c'(2) on_conn_def)
qed

lemma post_refs: "refs_ok st ch \<Longrightarrow> (\<And>i. m = MSG_DELETE i \<Longrightarrow> i \<in> dom (ch_conns_mem ch)) \<Longrightarrow> refs_ok st (post_msg m ch)"
  by (rule refs_ok_keep[of st ch]) (auto simp: post_msg_def same_objects_def dest: refs_msgs)

lemma OnPing_refs: "refs_ok st ch \<Longrightarrow> OnPing tid now ch = Some ch' \<Longrightarrow> refs_ok st ch'"
proof -
  assume ok: "refs_ok st ch" and run: "OnPing tid now ch = Some ch'"
  define u where "u = UpdateConnectionStates now ch"
  have u: "refs_ok st u" using Update_refs[OF ok] by (simp add: u_def)
  have "\<exists>v. refs_ok st v \<and> ch' = post_msg MSG_PING v"
    using run refs_live(1)[OF ok] u PingConnection_refs[OF u] FindNext_in[OF u]
    by (auto simp: OnPing_def u_def[symmetric] split: option.splits) blast
  then show ?thesis using post_refs by auto
qed

section \<open>New connections and ports\<close>

lemma GetConnection_None: "GetConnection cp addr = None \<longleftrightarrow> (\<forall>e\<in>set (cp_table cp). \<not> sa_eq (fst e) addr)"
  by (auto simp: GetConnection_def find_None_iff)

lemma GetConnection_Some: "GetConnection cp addr = Some i \<Longrightarrow> \<exists>a. (a, i) \<in> set (cp_table cp) \<and> sa_eq a addr"
proof -
  assume "GetConnection cp addr = Some i"
  then obtain e where e: "find (\<lambda>e. sa_eq (fst e) addr) (cp_table cp) = Some e" "i = snd e" by (auto simp: GetConnection_def)
  then have "sa_eq (fst e) addr" by (auto simp: find_Some_iff)
  moreover have "(fst e, i) \<in> set (cp_table cp)" using find_in[OF e(1)] e(2) by simp
  ultimately show ?thesis by blast
qed

lemma refs_entry: "refs_ok st ch \<Longrightarrow> ch_conns_mem ch i = Some (pid, c) \<Longrightarrow>
    \<exists>cp. ch_ports_mem ch pid = Some cp \<and> (cand_address (conn_remote c), i) \<in> set (cp_table cp)"
  "refs_ok st ch \<Longrightarrow> ch_ports_mem ch pid = Some cp \<Longrightarrow> table_ok ch pid cp"
  unfolding refs_ok_def by blast+

lemma new_connection_refs:
  assumes ok: "refs_ok st ch" and p: "ch_ports_mem ch pid = Some cp" and g: "GetConnection cp (cand_address r) = None"
  shows "refs_ok st (new_connection pid cp r clock ch)" "ch_next ch \<in> set (ch_connections (new_connection pid cp r clock ch))"
    "ch_ports (new_connection pid cp r clock ch) = ch_ports ch"
proof -
  define i where "i = ch_next ch"
  define c where "c = (Connection_new (hd (port_candidates (cp_port cp))) r clock)\<lparr>remote_ice_mode := ch_remote_mode ch\<rparr>"
  define cp' where "cp' = AddConnection (cand_address r) i cp"
  define ch' where "ch' = ch\<lparr>ch_next := i + 1, ch_ports_mem := (ch_ports_mem ch)(pid \<mapsto> cp'), ch_conns_mem := (ch_conns_mem ch)(i \<mapsto> (pid, c)),
      ch_connections := ch_connections ch @ [i]\<rparr>"
  have eq: "new_connection pid cp r clock ch = ch'" by (simp add: new_connection_def ch'_def i_def c_def cp'_def Let_def)
  have fresh: "i \<notin> dom (ch_conns_mem ch)" "j \<in> dom (ch_conns_mem ch) \<union> dom (ch_ports_mem ch) \<Longrightarrow> j < i" for j
    using ok by (auto simp: refs_ok_def i_def)
  have rem: "conn_remote c = r" by (simp add: c_def Connection_new_def)
  have old: "table_ok ch pid cp" using ok p by (simp add: refs_ok_def)
  have tab: "cp_table cp' = cp_table cp @ [(cand_address r, i)]"
    using g[unfolded GetConnection_None] by (simp add: cp'_def AddConnection_def filter_id_conv)
  have keep: "ch_conns_mem ch j = Some (q, d) \<Longrightarrow> ch_conns_mem ch' j = Some (q, d)" for j q d
    using fresh(1) by (auto simp: ch'_def)
  have new: "table_ok ch' pid cp'"
  proof -
    have "table_ok ch' pid cp" by (rule table_ok_cong[OF old]) (use keep in blast)
    moreover have "\<not> sa_eq (fst e) (cand_address r)" "\<not> sa_eq (cand_address r) (fst e)" if "e \<in> set (cp_table cp)" for e
      using g[unfolded GetConnection_None] that sa_eq_sym by blast+
    ultimately show ?thesis using rem by (auto simp: table_ok_def tab ch'_def)
  qed
  have tables: "table_ok ch' q cq" if "ch_ports_mem ch' q = Some cq" for q cq
  proof (cases "q = pid")
    case True
    then show ?thesis using that new by (simp add: ch'_def)
  next
    case False
    then have "ch_ports_mem ch q = Some cq" using that by (simp add: ch'_def)
    then have "table_ok ch q cq" using ok by (simp add: refs_ok_def)
    then show ?thesis by (rule table_ok_cong) (use keep in blast)
  qed
  have entries: "\<exists>cq. ch_ports_mem ch' q = Some cq \<and> (cand_address (conn_remote d), j) \<in> set (cp_table cq)"
    if e: "ch_conns_mem ch' j = Some (q, d)" for j q d
  proof (cases "j = i")
    case True
    then show ?thesis using e tab rem by (simp add: ch'_def)
  next
    case False
    then obtain cq where "ch_ports_mem ch q = Some cq" "(cand_address (conn_remote d), j) \<in> set (cp_table cq)"
      using e refs_entry(1)[OF ok, of j q d] by (auto simp: ch'_def)
    then show ?thesis using tab p by (cases "q = pid") (auto simp: ch'_def)
  qed
  have "set (ch_connections ch') = dom (ch_conns_mem ch')" "distinct (ch_connections ch')"
    using ok fresh(1) by (auto simp: refs_ok_def ch'_def)
  moreover have "\<forall>j. ch_best ch' = Some j \<or> st \<and> ch_pending ch' = Some j \<longrightarrow> j \<in> dom (ch_conns_mem ch')"
    using refs_msgs(2,3)[OF ok] by (auto simp: ch'_def)
  moreover have "set (ch_ports ch') \<subseteq> dom (ch_ports_mem ch')" "distinct (ch_ports ch')"
    using ok by (auto simp: refs_ok_def ch'_def)
  moreover have "\<forall>j. MSG_DELETE j \<in> set (ch_msgs ch') \<longrightarrow> j \<in> dom (ch_conns_mem ch')"
    using refs_msgs(1)[OF ok] by (auto simp: ch'_def)
  moreover have "\<forall>j\<in>dom (ch_conns_mem ch') \<union> dom (ch_ports_mem ch'). j < ch_next ch'"
  proof -
    have "dom (ch_conns_mem ch') \<union> dom (ch_ports_mem ch') \<subseteq> insert i (dom (ch_conns_mem ch) \<union> dom (ch_ports_mem ch))"
      using p by (auto simp: ch'_def)
    moreover have "ch_next ch' = Suc i" by (simp add: ch'_def)
    ultimately show ?thesis using fresh(2) by (metis insert_iff less_Suc_eq subsetD)
  qed
  moreover have "ch_writable ch' \<longrightarrow> ch_was_writable ch'"
    using ok by (simp_all add: refs_ok_def ch'_def)
  ultimately show "refs_ok st (new_connection pid cp r clock ch)"
    using tables entries unfolding eq refs_ok_def by blast
  show "ch_next ch \<in> set (ch_connections (new_connection pid cp r clock ch))" "ch_ports (new_connection pid cp r clock ch) = ch_ports ch"
    by (simp_all add: eq ch'_def i_def)
qed

lemma CreateConnection_refs:
  assumes "refs_ok st ch" "CreateConnection pid r origin readable now ch = Some (ok, ch')"
  shows "refs_ok st ch' \<and> ch_ports ch' = ch_ports ch"
proof -
  obtain cp where p: "ch_ports_mem ch pid = Some cp" using assms(2) by (auto simp: CreateConnection_def split: option.splits)
  have ping: "refs_ok st ch1 \<Longrightarrow> i \<in> set (ch_connections ch1) \<Longrightarrow> refs_ok st (on_conn i (ReceivedPing now) ch1) \<and> ch_ports (on_conn i (ReceivedPing now) ch1) = ch_ports ch1" for i ch1
    using on_conn_refs[of st ch1 i "ReceivedPing now"] on_conn_eff(1)[of st ch1 i] by (simp add: framed_def)
  show ?thesis
  proof (cases "GetConnection cp (cand_address r)")
    case None
    note n = new_connection_refs[OF assms(1) p None, of "uint now"]
    show ?thesis
      using assms p None n ping[OF n(1,2)] by (auto simp: CreateConnection_def Let_def split: if_splits)
  next
    case (Some i)
    then have "i \<in> set (ch_connections ch)"
      using assms(1) p GetConnection_Some[OF Some] by (fastforce simp: refs_ok_def table_ok_def)
    then show ?thesis
      using assms p Some ping[OF assms(1)] by (auto simp: CreateConnection_def Let_def split: if_splits option.splits)
  qed
qed

lemma create_on_refs:
  "create_on pids r origin readable now (b, ch) = Some (ok, ch') \<Longrightarrow> refs_ok st ch \<Longrightarrow> refs_ok st ch' \<and> ch_ports ch' = ch_ports ch"
proof (induction pids arbitrary: b ch)
  case (Cons pid pids)
  then obtain ok1 ch1 where c: "CreateConnection pid r origin readable now ch = Some (ok1, ch1)"
    "create_on pids r origin readable now (b \<or> ok1 \<and> origin = Some pid, ch1) = Some (ok, ch')"
    by (auto split: option.splits)
  then show ?case using CreateConnection_refs[OF Cons.prems(2) c(1)] Cons.IH[OF c(2)] by simp
qed simp

lemma CreateConnections_refs:
  assumes "refs_ok st ch" "CreateConnections r origin readable now ch = Some (ok, ch')"
  shows "refs_ok st ch'"
proof -
  have "\<exists>r' pids. CreateConnections r origin readable now ch =
      map_option (\<lambda>(created, ch). (created, RememberRemoteCandidate r' origin ch)) (create_on pids r' origin readable now (False, ch))"
    unfolding CreateConnections_def Let_def by blast
  then obtain r' pids where e: "CreateConnections r origin readable now ch =
      map_option (\<lambda>(created, ch). (created, RememberRemoteCandidate r' origin ch)) (create_on pids r' origin readable now (False, ch))" by blast
  obtain b ch1 where c: "create_on pids r' origin readable now (False, ch) = Some (b, ch1)" "ch' = RememberRemoteCandidate r' origin ch1"
    using assms(2)[unfolded e] by (auto simp: map_option_case split: option.splits)
  then have r: "refs_ok st ch1" "ch' = RememberRemoteCandidate r' origin ch1" using create_on_refs[OF c(1) assms(1)] by simp_all
  show ?thesis
    by (rule refs_ok_cong[OF r(1)]) (use r in \<open>auto simp: RememberRemoteCandidate_def Let_def refs_ok_def\<close>)
qed

lemma OnCandidate_refs: "refs_ok st ch \<Longrightarrow> OnCandidate r now ch = Some ch' \<Longrightarrow> refs_ok st ch'"
proof -
  assume ok: "refs_ok st ch" and run: "OnCandidate r now ch = Some ch'"
  then obtain b ch1 where c: "CreateConnections r None False now ch = Some (b, ch1)" "SortConnections now ch1 = Some ch'"
    by (auto simp: OnCandidate_def split: option.splits)
  from SortConnections_refs[OF CreateConnections_refs[OF ok c(1)], of now] c(2) show "refs_ok st ch'" by auto
qed

lemma create_for_refs: "create_for pid rs now ch = Some ch' \<Longrightarrow> refs_ok st ch \<Longrightarrow> refs_ok st ch'"
proof (induction pid rs now ch rule: create_for.induct)
  case (2 pid r origin rs now ch)
  then obtain b ch1 where c: "CreateConnection pid r origin False now ch = Some (b, ch1)" "create_for pid rs now ch1 = Some ch'"
    by (auto split: option.splits)
  have "refs_ok st ch1" using CreateConnection_refs[OF "2.prems"(2) c(1)] by simp
  with c "2.IH"[OF c(1)] show ?case by simp
qed simp

lemma new_port_refs:
  assumes ok: "refs_ok st ch" and tab: "cp_table cp = []"
  shows "refs_ok st ((set_port (ch_next ch) cp (ch\<lparr>ch_next := ch_next ch + 1\<rparr>))\<lparr>ch_ports := ch_ports ch @ [ch_next ch]\<rparr>)"
proof -
  define ch' where "ch' = (set_port (ch_next ch) cp (ch\<lparr>ch_next := ch_next ch + 1\<rparr>))\<lparr>ch_ports := ch_ports ch @ [ch_next ch]\<rparr>"
  have fresh: "ch_next ch \<notin> dom (ch_ports_mem ch)" "\<forall>j\<in>dom (ch_conns_mem ch) \<union> dom (ch_ports_mem ch). j < ch_next ch"
    using ok by (auto simp: refs_ok_def)
  have t: "table_ok ch' q cq" if "ch_ports_mem ch' q = Some cq" for q cq
  proof (cases "q = ch_next ch")
    case True
    then show ?thesis using that tab by (simp add: ch'_def set_port_def table_ok_def)
  next
    case False
    then have "table_ok ch q cq" using that refs_entry(2)[OF ok] by (simp add: ch'_def set_port_def)
    then show ?thesis by (rule table_ok_cong) (simp add: ch'_def set_port_def)
  qed
  have e: "\<exists>cq. ch_ports_mem ch' q = Some cq \<and> (cand_address (conn_remote d), j) \<in> set (cp_table cq)"
    if "ch_conns_mem ch' j = Some (q, d)" for j q d
    using that refs_entry(1)[OF ok, of j q d] fresh(1) by (auto simp: ch'_def set_port_def)
  have "ch_next ch \<notin> set (ch_ports ch)" using ok fresh(1) by (auto simp: refs_ok_def)
  then have "set (ch_ports ch') \<subseteq> dom (ch_ports_mem ch')" "distinct (ch_ports ch')"
    using ok by (auto simp: refs_ok_def ch'_def set_port_def)
  moreover have "\<forall>j\<in>dom (ch_conns_mem ch') \<union> dom (ch_ports_mem ch'). j < ch_next ch'"
    using fresh(2) by (auto simp: ch'_def set_port_def less_Suc_eq split: if_splits)
  moreover have "set (ch_connections ch') = dom (ch_conns_mem ch')" "distinct (ch_connections ch')"
    "\<forall>j. ch_best ch' = Some j \<or> st \<and> ch_pending ch' = Some j \<longrightarrow> j \<in> dom (ch_conns_mem ch')"
    "\<forall>j. MSG_DELETE j \<in> set (ch_msgs ch') \<longrightarrow> j \<in> dom (ch_conns_mem ch')"
    "ch_writable ch' \<longrightarrow> ch_was_writable ch'"
    using ok by (simp_all add: refs_ok_def ch'_def set_port_def)
  ultimately show ?thesis using t e unfolding ch'_def[symmetric] refs_ok_def by blast
qed

lemma OnPortReady_refs:
  assumes "refs_ok st ch" "chan_step (PortReadyOp cp now) ch = Some ch'"
  shows "refs_ok st ch'"
proof -
  define cp' where "cp' = cp\<lparr>cp_port := (cp_port cp)\<lparr>ice_protocol := ch_protocol ch, port_role := ch_role ch, port_tiebreaker := ch_tiebreaker ch\<rparr>, cp_table := []\<rparr>"
  define ch1 where "ch1 = (set_port (ch_next ch) cp' (ch\<lparr>ch_next := ch_next ch + 1\<rparr>))\<lparr>ch_ports := ch_ports ch @ [ch_next ch]\<rparr>"
  have ok: "refs_ok st ch1" unfolding ch1_def by (rule new_port_refs[OF assms(1)]) (simp add: cp'_def)
  obtain ch2 where "create_for (ch_next ch) (ch_remotes ch) now ch1 = Some ch2" "SortConnections now ch2 = Some ch'"
    using assms(2) by (auto simp: OnPortReady_def Let_def cp'_def[symmetric] ch1_def set_port_def split: option.splits)
  then show ?thesis using create_for_refs[OF _ ok] SortConnections_refs[of st ch2 now] by auto
qed

section \<open>Ports and connections go\<close>

lemma set_port_same_table:
  assumes ok: "refs_ok st ch" and p: "ch_ports_mem ch pid = Some cp" and t: "cp_table cp' = cp_table cp"
  shows "refs_ok st (set_port pid cp' ch)"
proof -
  have "table_ok (set_port pid cp' ch) q cq" if "ch_ports_mem (set_port pid cp' ch) q = Some cq" for q cq
    using that refs_entry(2)[OF ok p] refs_entry(2)[OF ok, of q cq] t by (auto simp: set_port_def table_ok_def split: if_splits)
  moreover have "\<exists>cq. ch_ports_mem (set_port pid cp' ch) q = Some cq \<and> (cand_address (conn_remote d), j) \<in> set (cp_table cq)"
    if "ch_conns_mem (set_port pid cp' ch) j = Some (q, d)" for j q d
    using that refs_entry(1)[OF ok, of j q d] p t by (auto simp: set_port_def)
  moreover have "dom (ch_ports_mem (set_port pid cp' ch)) = dom (ch_ports_mem ch)" using p by (auto simp: set_port_def)
  ultimately show ?thesis using ok unfolding refs_ok_def by (simp add: set_port_def)
qed

text \<open>A port without connections can go.\<close>

lemma drop_port_refs:
  assumes ok: "refs_ok st ch" and p: "ch_ports_mem ch pid = Some cp" "cp_table cp = []"
  shows "refs_ok st ((OnPortDestroyed pid ch)\<lparr>ch_ports_mem := (ch_ports_mem ch)(pid := None)\<rparr>)"
proof -
  define ch' where "ch' = (OnPortDestroyed pid ch)\<lparr>ch_ports_mem := (ch_ports_mem ch)(pid := None)\<rparr>"
  have none: "ch_conns_mem ch j = Some (q, d) \<Longrightarrow> q \<noteq> pid" for j q d
    using refs_entry(1)[OF ok, of j q d] p by auto
  have t: "table_ok ch' q cq" if "ch_ports_mem ch' q = Some cq" for q cq
    using that refs_entry(2)[OF ok, of q cq] by (auto simp: ch'_def OnPortDestroyed_def table_ok_def split: if_splits)
  have e: "\<exists>cq. ch_ports_mem ch' q = Some cq \<and> (cand_address (conn_remote d), j) \<in> set (cp_table cq)"
    if "ch_conns_mem ch' j = Some (q, d)" for j q d
    using that refs_entry(1)[OF ok, of j q d] none[of j q d] by (auto simp: ch'_def OnPortDestroyed_def)
  have "set (ch_ports ch') \<subseteq> dom (ch_ports_mem ch')" "distinct (ch_ports ch')"
    using ok by (auto simp: refs_ok_def ch'_def OnPortDestroyed_def)
  moreover have "\<forall>j\<in>dom (ch_conns_mem ch') \<union> dom (ch_ports_mem ch'). j < ch_next ch'"
    using ok by (auto simp: refs_ok_def ch'_def OnPortDestroyed_def)
  moreover have "set (ch_connections ch') = dom (ch_conns_mem ch')" "distinct (ch_connections ch')"
    "\<forall>j. ch_best ch' = Some j \<or> st \<and> ch_pending ch' = Some j \<longrightarrow> j \<in> dom (ch_conns_mem ch')"
    "\<forall>j. MSG_DELETE j \<in> set (ch_msgs ch') \<longrightarrow> j \<in> dom (ch_conns_mem ch')"
    "ch_writable ch' \<longrightarrow> ch_was_writable ch'"
    using ok by (simp_all add: refs_ok_def ch'_def OnPortDestroyed_def)
  ultimately show ?thesis using t e unfolding ch'_def[symmetric] refs_ok_def by blast
qed

lemma CheckTimeout_refs: "refs_ok st ch \<Longrightarrow> refs_ok st (Port_CheckTimeout pid ch)"
  using drop_port_refs[of st ch pid] by (auto simp: Port_CheckTimeout_def split: option.split)

lemma Port_OnMessage_refs: "refs_ok st ch \<Longrightarrow> Port_OnMessage pid ch = Some ch' \<Longrightarrow> refs_ok st ch'"
proof -
  assume ok: "refs_ok st ch" and run: "Port_OnMessage pid ch = Some ch'"
  then obtain cp where p: "ch_ports_mem ch pid = Some cp" "ch' = Port_CheckTimeout pid (set_port pid (cp\<lparr>cp_lifetime := LT_POSTTIMEOUT\<rparr>) ch)"
    by (auto simp: Port_OnMessage_def split: option.splits)
  have "refs_ok st (set_port pid (cp\<lparr>cp_lifetime := LT_POSTTIMEOUT\<rparr>) ch)"
    by (rule set_port_same_table[OF ok p(1)]) simp
  then show "refs_ok st ch'" unfolding p(2) by (rule CheckTimeout_refs)
qed

text \<open>A connection deletes itself.\<close>

lemma table_okD:
  "table_ok ch pid cp \<Longrightarrow> (a, j) \<in> set (cp_table cp) \<Longrightarrow> \<exists>c. ch_conns_mem ch j = Some (pid, c) \<and> cand_address (conn_remote c) = a"
  "table_ok ch pid cp \<Longrightarrow> e \<in> set (cp_table cp) \<Longrightarrow> e' \<in> set (cp_table cp) \<Longrightarrow> sa_eq (fst e) (fst e') \<Longrightarrow> e = e'"
  unfolding table_ok_def by fast+

lemma own_entry:
  assumes "refs_ok st ch" "ch_conns_mem ch i = Some (pid, c)" "ch_ports_mem ch pid = Some cp"
  shows "(cand_address (conn_remote c), i) \<in> set (cp_table cp)" "table_ok ch pid cp"
  using refs_entry(1)[OF assms(1,2)] refs_entry(2)[OF assms(1,3)] assms(3) by auto

lemma GetConnection_own:
  "refs_ok st ch \<Longrightarrow> ch_conns_mem ch i = Some (pid, c) \<Longrightarrow> ch_ports_mem ch pid = Some cp \<Longrightarrow> GetConnection cp (cand_address (conn_remote c)) \<noteq> None"
  unfolding GetConnection_None using own_entry(1)[of st ch i pid c cp] by (metis fst_conv sa_eq_refl)

lemma delete_fields:
  "ch_conns_mem (Port_CheckTimeout pid ch) = ch_conns_mem ch" "ch_connections (Port_CheckTimeout pid ch) = ch_connections ch"
  "ch_best (Port_CheckTimeout pid ch) = ch_best ch" "ch_pending (Port_CheckTimeout pid ch) = ch_pending ch"
  "ch_msgs (Port_CheckTimeout pid ch) = ch_msgs ch" "ch_next (Port_CheckTimeout pid ch) = ch_next ch"
  "ch_sort_dirty (Port_CheckTimeout pid ch) = ch_sort_dirty ch" "ch_writable (Port_CheckTimeout pid ch) = ch_writable ch"
  "ch_was_writable (Port_CheckTimeout pid ch) = ch_was_writable ch"
  by (auto simp: Port_CheckTimeout_def OnPortDestroyed_def split: option.split)

text \<open>The objects without the connection and its entry.\<close>

definition without :: "nat \<Rightarrow> nat \<Rightarrow> ChanPort \<Rightarrow> IceChannel \<Rightarrow> IceChannel" where
  "without i pid cp ch =
     (set_port pid cp ch)\<lparr>ch_connections := remove1 i (ch_connections ch), ch_conns_mem := (ch_conns_mem ch)(i := None),
       ch_best := (if ch_best ch = Some i then None else ch_best ch), ch_pending := (if ch_pending ch = Some i then None else ch_pending ch),
       ch_msgs := filter (\<lambda>m. m \<noteq> MSG_DELETE i) (ch_msgs ch)\<rparr>"

lemma without_refs:
  assumes ok: "refs_ok st ch" and i: "ch_conns_mem ch i = Some (pid, c)" and p: "ch_ports_mem ch pid = Some cp"
  defines "cp' \<equiv> cp\<lparr>cp_table := filter (\<lambda>e. \<not> sa_eq (fst e) (cand_address (conn_remote c))) (cp_table cp)\<rparr>"
  shows "refs_ok st (without i pid cp' ch)"
proof -
  define ch' where "ch' = without i pid cp' ch"
  have own: "(cand_address (conn_remote c), i) \<in> set (cp_table cp)" and tab: "table_ok ch pid cp"
    using own_entry[OF ok i p] by simp_all
  have only: "e = (cand_address (conn_remote c), i)" if "e \<in> set (cp_table cp)" "sa_eq (fst e) (cand_address (conn_remote c))" for e
    using table_okD(2)[OF tab that(1) own] that(2) by simp
  have gone: "j \<noteq> i" if e: "(a, j) \<in> set (cp_table cp')" for a j
  proof
    assume j: "j = i"
    have e: "(a, j) \<in> set (cp_table cp)" "\<not> sa_eq a (cand_address (conn_remote c))" using e by (auto simp: cp'_def)
    have "cand_address (conn_remote c) = a" using table_okD(1)[OF tab e(1)] i j by simp
    then show False using e(2) by simp
  qed
  have other: "j \<noteq> i" if "ch_ports_mem ch q = Some cq" "q \<noteq> pid" "(a, j) \<in> set (cp_table cq)" for q cq a j
    using table_okD(1)[OF refs_entry(2)[OF ok that(1)] that(3)] that(2) i by auto
  have "\<exists>d. ch_conns_mem ch' j = Some (q, d) \<and> cand_address (conn_remote d) = a" if cq: "ch_ports_mem ch' q = Some cq" and m: "(a, j) \<in> set (cp_table cq)" for q cq a j
  proof (cases "q = pid")
    case True
    then have "cq = cp'" using cq by (simp add: ch'_def without_def set_port_def)
    then have j: "(a, j) \<in> set (cp_table cp)" "j \<noteq> i" using m gone[of a j] by (auto simp: cp'_def)
    then show ?thesis using table_okD(1)[OF tab j(1)] True by (simp add: ch'_def without_def)
  next
    case False
    then have q: "ch_ports_mem ch q = Some cq" using cq by (simp add: ch'_def without_def set_port_def)
    then show ?thesis using table_okD(1)[OF refs_entry(2)[OF ok q] m] other[OF q False m] by (simp add: ch'_def without_def)
  qed
  moreover have "e = e'" if cq: "ch_ports_mem ch' q = Some cq" and m: "e \<in> set (cp_table cq)" "e' \<in> set (cp_table cq)" "sa_eq (fst e) (fst e')" for q cq e e'
  proof (cases "q = pid")
    case True
    then have "cq = cp'" using cq by (simp add: ch'_def without_def set_port_def)
    then show ?thesis using table_okD(2)[OF tab _ _ m(3)] m(1,2) by (simp add: cp'_def)
  next
    case False
    then have q: "ch_ports_mem ch q = Some cq" using cq by (simp add: ch'_def without_def set_port_def)
    then show ?thesis by (intro table_okD(2)[OF refs_entry(2)[OF ok q] m])
  qed
  ultimately have t: "table_ok ch' q cq" if "ch_ports_mem ch' q = Some cq" for q cq
    using that unfolding table_ok_def by blast
  have en: "\<exists>cq. ch_ports_mem ch' q = Some cq \<and> (cand_address (conn_remote d), j) \<in> set (cp_table cq)" if e: "ch_conns_mem ch' j = Some (q, d)" for j q d
  proof -
    have j: "j \<noteq> i" "ch_conns_mem ch j = Some (q, d)" using e by (auto simp: ch'_def without_def split: if_splits)
    obtain cq where cq: "ch_ports_mem ch q = Some cq" "(cand_address (conn_remote d), j) \<in> set (cp_table cq)"
      using refs_entry(1)[OF ok j(2)] by blast
    show ?thesis
    proof (cases "q = pid")
      case True
      then have "\<not> sa_eq (cand_address (conn_remote d)) (cand_address (conn_remote c))"
        using only[of "(cand_address (conn_remote d), j)"] cq p j(1) by auto
      then show ?thesis using True cq p by (simp add: ch'_def without_def set_port_def cp'_def)
    next
      case False
      then show ?thesis using cq by (simp add: ch'_def without_def set_port_def)
    qed
  qed
  have "set (ch_connections ch') = dom (ch_conns_mem ch')" "distinct (ch_connections ch')"
    using ok by (auto simp: refs_ok_def ch'_def without_def)
  moreover have "\<forall>j. ch_best ch' = Some j \<or> st \<and> ch_pending ch' = Some j \<longrightarrow> j \<in> dom (ch_conns_mem ch')"
    using refs_msgs(2,3)[OF ok] by (auto simp: ch'_def without_def split: if_splits)
  moreover have "set (ch_ports ch') \<subseteq> dom (ch_ports_mem ch')" "distinct (ch_ports ch')"
    using ok by (auto simp: refs_ok_def ch'_def without_def set_port_def)
  moreover have "\<forall>j. MSG_DELETE j \<in> set (ch_msgs ch') \<longrightarrow> j \<in> dom (ch_conns_mem ch')"
    using refs_msgs(1)[OF ok] by (auto simp: ch'_def without_def)
  moreover have "\<forall>j\<in>dom (ch_conns_mem ch') \<union> dom (ch_ports_mem ch'). j < ch_next ch'"
    using ok p by (auto simp: refs_ok_def ch'_def without_def set_port_def)
  moreover have "ch_writable ch' \<longrightarrow> ch_was_writable ch'"
    using ok by (simp_all add: refs_ok_def ch'_def without_def set_port_def)
  ultimately show ?thesis using t en unfolding ch'_def[symmetric] refs_ok_def by blast
qed

lemma delete_refs:
  assumes ok: "refs_ok st ch" and i: "ch_conns_mem ch i = Some (pid, c)"
  shows "\<exists>ch'. delete_connection i ch = Some ch' \<and> refs_ok st ch'"
proof -
  obtain cp where p: "ch_ports_mem ch pid = Some cp" using refs_entry(1)[OF ok i] by blast
  define cp' where "cp' = cp\<lparr>cp_table := filter (\<lambda>e. \<not> sa_eq (fst e) (cand_address (conn_remote c))) (cp_table cp)\<rparr>"
  define w where "w = Port_CheckTimeout pid (without i pid cp' ch)"
  have w: "refs_ok st w" unfolding w_def cp'_def by (rule CheckTimeout_refs[OF without_refs[OF ok i p]])
  have mem: "i \<in> set (ch_connections ch)" using ok i by (auto simp: refs_ok_def)
  define v where "v = Port_CheckTimeout pid (set_port pid cp' ch)"
  have vw: "w = v\<lparr>ch_connections := remove1 i (ch_connections v), ch_conns_mem := (ch_conns_mem v)(i := None),
       ch_best := (if ch_best v = Some i then None else ch_best v), ch_pending := (if ch_pending v = Some i then None else ch_pending v),
       ch_msgs := filter (\<lambda>m. m \<noteq> MSG_DELETE i) (ch_msgs v)\<rparr>"
    unfolding w_def v_def without_def Port_CheckTimeout_def OnPortDestroyed_def set_port_def by (simp add: Let_def)
  have v: "i \<in> set (ch_connections v)" using mem by (simp add: v_def delete_fields set_port_def)
  define r where "r = (if ch_best v = Some i then RequestSort w else w)"
  have "delete_connection i ch = Some r"
    using i p GetConnection_own[OF ok i p] v
    by (simp add: delete_connection_def Let_def cp'_def[symmetric] v_def[symmetric] OnConnectionDestroyed_def r_def vw SwitchBestConnectionTo_def RequestSort_def post_msg_def)
  moreover have "refs_ok st r" using w RequestSort_refs by (simp add: r_def)
  ultimately show ?thesis by blast
qed

section \<open>Packets\<close>

lemma set_conn_run_refs:
  assumes "refs_ok st ch" "conn_at ch i = Some (cp, c)" "conn_remote c' = conn_remote c"
  shows "refs_ok st (set_conn i c' ch)"
proof -
  obtain pid where "ch_conns_mem ch i = Some (pid, c)" using assms(2) by (auto simp: conn_at_def split: option.splits)
  from set_conn_refs[OF assms(1) this assms(3)] show ?thesis .
qed

lemma chan_log_refs: "refs_ok st ch \<Longrightarrow> refs_ok st (chan_log e ch)"
  by (rule refs_ok_cong[of st ch]) (auto simp: chan_log_def refs_ok_def)

lemma chan_logs_refs: "refs_ok st ch \<Longrightarrow> refs_ok st (fold (\<lambda>e. chan_log (ChPort pid e)) es ch)"
  by (induction es arbitrary: ch) (simp_all add: chan_log_refs)

lemma at_connections: "refs_ok st ch \<Longrightarrow> conn_at ch i \<noteq> None \<Longrightarrow> i \<in> set (ch_connections ch)"
  by (auto simp: refs_ok_def conn_at_def split: option.splits)

lemma respond_refs:
  assumes "refs_ok st ch" "respond pid m a now ch = Some ch'"
  shows "refs_ok st ch'"
proof -
  have "refs_ok st ch1 \<Longrightarrow> conn_at ch1 i \<noteq> None \<Longrightarrow> refs_ok st (on_conn i (ReceivedPing now) ch1)" for ch1 i
    using on_conn_refs[of st ch1 i "ReceivedPing now"] at_connections by simp
  moreover have "conn_at (chan_log e ch) i = conn_at ch i" for e i by (rule conn_at_cong) (simp_all add: chan_log_def)
  ultimately show ?thesis
    using assms chan_log_refs[OF assms(1)] by (auto simp: respond_def Let_def split: option.splits if_splits)
qed

lemma OnUnknownAddress_refs:
  assumes "refs_ok st ch" "OnUnknownAddress pid a proto m u tid muxed now ch = Some ch'"
  shows "refs_ok st ch'"
proof -
  obtain cp where p: "ch_ports_mem ch pid = Some cp" using assms(2) by (auto simp: OnUnknownAddress_def split: option.splits)
  show ?thesis
  proof (cases "remote_password_of ch u")
    case None
    then show ?thesis using assms p chan_log_refs by (auto simp: OnUnknownAddress_def)
  next
    case (Some pw)
    define cand where "cand = (case known_candidate ch u proto a of Some r \<Rightarrow> r | None \<Rightarrow> new_candidate cp a proto u pw tid)"
    obtain created ch1 where c: "CreateConnections cand (Some pid) True now ch = Some (created, ch1)"
      using assms(2) p Some by (auto simp: OnUnknownAddress_def Let_def cand_def[symmetric] split: option.splits)
    have ok: "refs_ok st ch1" by (rule CreateConnections_refs[OF assms(1) c])
    show ?thesis
    proof (cases created)
      case False
      then show ?thesis using assms(2) p Some c chan_log_refs[OF ok] by (auto simp: OnUnknownAddress_def Let_def cand_def[symmetric])
    next
      case True
      then obtain ch2 where "respond pid m a now ch1 = Some ch2" "SortConnections now ch2 = Some ch'"
        using assms(2) p Some c by (auto simp: OnUnknownAddress_def Let_def cand_def[symmetric] split: option.splits)
      then show ?thesis using SortConnections_refs[OF respond_refs[OF ok], of pid m a now ch2 now] by auto
    qed
  qed
qed

lemma Port_OnReadPacket_refs:
  assumes "refs_ok st ch" "Port_OnReadPacket pid data a proto tid now ch = Some ch'"
  shows "refs_ok st ch'"
proof -
  have un: "refs_ok st c \<Longrightarrow> OnUnknownAddress pid a proto m u tid False now c = Some ch' \<Longrightarrow> refs_ok st ch'" for c m u
    by (rule OnUnknownAddress_refs)
  obtain cp where p: "ch_ports_mem ch pid = Some cp" using assms(2) by (auto simp: Port_OnReadPacket_def split: option.splits)
  obtain stun msg u events where g: "GetStunMessage (cp_port cp) data a = Some (stun, msg, u, events)"
    using assms(2) p by (cases "GetStunMessage (cp_port cp) data a") (auto simp: Port_OnReadPacket_def)
  define ch1 where "ch1 = fold (\<lambda>e. chan_log (ChPort pid e)) events ch"
  have ok1: "refs_ok st ch1" unfolding ch1_def by (rule chan_logs_refs[OF assms(1)])
  have run: "(if \<not> stun then Some ch1 else case msg of None \<Rightarrow> Some ch1 | Some msg \<Rightarrow>
      if m_type msg = STUN_BINDING_REQUEST then
        (if ice_protocol (cp_port cp) = ICEPROTO_RFC5245 then
           (case MaybeIceRoleConflict (cp_port cp) a msg u of None \<Rightarrow> None
            | Some (ok, events) \<Rightarrow>
              let ch = fold (\<lambda>e. chan_log (ChPort pid e)) events ch1
              in if ok then OnUnknownAddress pid a proto msg u tid False now ch else Some ch)
         else OnUnknownAddress pid a proto msg u tid False now ch1)
      else Some ch1) = Some ch'"
    using assms(2) unfolding Port_OnReadPacket_def p g option.case prod.case Let_def ch1_def .
  show ?thesis
    using run ok1 chan_logs_refs[OF ok1] by (auto simp: Let_def split: if_splits option.splits intro: un[OF ok1] un[OF chan_logs_refs[OF ok1]])
qed

lemma UDPPort_refs:
  assumes "refs_ok st ch" "UDPPort_OnReadPacket pid data a tid now ch = Some ch'"
  shows "refs_ok st ch'"
proof -
  obtain cp where p: "ch_ports_mem ch pid = Some cp" using assms(2) by (auto simp: UDPPort_OnReadPacket_def split: option.splits)
  show ?thesis
  proof (cases "GetConnection cp a")
    case None
    then show ?thesis using Port_OnReadPacket_refs[OF assms(1)] assms(2) p by (auto simp: UDPPort_OnReadPacket_def)
  next
    case (Some i)
    then obtain cp' c c' where c: "conn_at ch i = Some (cp', c)" "conn_OnReadPacket (cp_port cp) now data (c\<lparr>conn_log := []\<rparr>) = Some c'" "ch' = set_conn i c' ch"
      using assms(2) p by (auto simp: UDPPort_OnReadPacket_def split: option.splits)
    show ?thesis unfolding c(3) using set_conn_run_refs[OF assms(1) c(1)] OnReadPacket_remote[OF c(2)] by simp
  qed
qed

lemma chan_Dispatch_refs: "refs_ok st ch \<Longrightarrow> chan_Dispatch i late ch = Some ch' \<Longrightarrow> refs_ok st ch'"
  using set_conn_run_refs conn_op_remote(5)
  by (fastforce simp: chan_Dispatch_def split: option.splits)

section \<open>The owner's calls\<close>

lemma on_ports_refs: "refs_ok st ch \<Longrightarrow> refs_ok st (on_ports f ch)"
proof -
  assume ok: "refs_ok st ch"
  define ch' where "ch' = on_ports f ch"
  have mem: "ch_ports_mem ch' q = map_option (\<lambda>cp. if q \<in> set (ch_ports ch) then cp\<lparr>cp_port := f (cp_port cp)\<rparr> else cp) (ch_ports_mem ch q)" for q
    by (cases "ch_ports_mem ch q") (simp_all add: ch'_def on_ports_def)
  have t: "table_ok ch' q cq" if "ch_ports_mem ch' q = Some cq" for q cq
    using that refs_entry(2)[OF ok, of q] by (fastforce simp: mem ch'_def on_ports_def table_ok_def split: if_splits)
  have e: "\<exists>cq. ch_ports_mem ch' q = Some cq \<and> (cand_address (conn_remote d), j) \<in> set (cp_table cq)" if "ch_conns_mem ch' j = Some (q, d)" for j q d
  proof -
    have "ch_conns_mem ch j = Some (q, d)" using that by (simp add: ch'_def on_ports_def)
    then obtain cp where "ch_ports_mem ch q = Some cp" "(cand_address (conn_remote d), j) \<in> set (cp_table cp)"
      using refs_entry(1)[OF ok] by blast
    then show ?thesis by (simp add: mem)
  qed
  have "dom (ch_ports_mem ch') = dom (ch_ports_mem ch)" by (auto simp: mem dom_def)
  then show "refs_ok st (on_ports f ch)"
    using ok t e unfolding ch'_def[symmetric] refs_ok_def by (simp add: ch'_def on_ports_def)
qed

lemma message_refs:
  assumes ok: "refs_ok st ch" and run: "chan_OnMessage m tid now ch = Some ch'"
  shows "refs_ok st ch'"
proof (cases "m \<in> set (ch_msgs ch)")
  case True
  define ch1 where "ch1 = ch\<lparr>ch_msgs := remove1 m (ch_msgs ch)\<rparr>"
  have ok1: "refs_ok st ch1"
    by (rule refs_ok_keep[OF ok]) (use refs_msgs[OF ok] in \<open>auto simp: ch1_def same_objects_def dest: notin_set_remove1\<close>)
  show ?thesis
  proof (cases m)
    case MSG_SORT
    then show ?thesis using SortConnections_refs[OF ok1, of now] run True by (auto simp: chan_OnMessage_def ch1_def Let_def)
  next
    case MSG_PING
    then show ?thesis using OnPing_refs[OF ok1] run True by (simp add: chan_OnMessage_def ch1_def Let_def)
  next
    case (MSG_DELETE i)
    then obtain pid c where "ch_conns_mem ch1 i = Some (pid, c)"
      using refs_msgs(1)[OF ok, of i] True by (auto simp: ch1_def)
    then show ?thesis using delete_refs[OF ok1] run True MSG_DELETE by (fastforce simp: chan_OnMessage_def ch1_def Let_def)
  qed
qed (use assms in \<open>simp add: chan_OnMessage_def\<close>)

lemma setters_refs:
  assumes ok: "refs_ok st ch"
  shows "refs_ok st (chan_SetTiebreaker t ch)" "refs_ok st (SetIceCredentials u p ch)" "refs_ok st (SetRemoteIceCredentials u p ch)"
    "refs_ok st (SetRemoteIceMode m ch)" "refs_ok st (Allocate ch)" "refs_ok st (ch\<lparr>ch_role := r\<rparr>)" "refs_ok st (ch\<lparr>ch_protocol := pr\<rparr>)"
proof -
  have w: "ch_writable ch \<longrightarrow> ch_was_writable ch" using ok by (simp add: refs_ok_def)
  show "refs_ok st (chan_SetTiebreaker t ch)" "refs_ok st (SetIceCredentials u p ch)" "refs_ok st (SetRemoteIceCredentials u p ch)"
    "refs_ok st (SetRemoteIceMode m ch)" "refs_ok st (Allocate ch)" "refs_ok st (ch\<lparr>ch_role := r\<rparr>)" "refs_ok st (ch\<lparr>ch_protocol := pr\<rparr>)"
    by (rule refs_ok_cong[OF ok];
        use w in \<open>simp add: chan_SetTiebreaker_def SetIceCredentials_def SetRemoteIceCredentials_def SetRemoteIceMode_def Allocate_def chan_log_def Let_def\<close>)+
qed

lemma OnSignalingReady_refs: "refs_ok st ch \<Longrightarrow> refs_ok st (OnSignalingReady ch)"
  by (simp add: OnSignalingReady_def AddAllocatorSession_def chan_log_def refs_ok_def table_ok_def)

lemma Connect_refs: "refs_ok st ch \<Longrightarrow> refs_ok st (chan_Connect ch)"
  using post_refs[OF setters_refs(5), of st ch MSG_PING] by (simp add: chan_Connect_def)

text \<open>Every connection of a port is one of the channel.\<close>

lemma table_connections:
  assumes "refs_ok st ch" "ch_ports_mem ch pid = Some cp"
  shows "set (map snd (cp_table cp)) \<subseteq> set (ch_connections ch)"
  using refs_entry(2)[OF assms] assms(1) by (fastforce simp: table_ok_def refs_ok_def)

lemma walk_refs:
  assumes "refs_ok st ch" "set is \<subseteq> set (ch_connections ch)" "\<And>c. conn_remote (f c) = conn_remote c"
  shows "refs_ok st (fold (\<lambda>i. on_conn i f) is ch)"
  using fold_conns[OF assms(1,2), of "\<lambda>i. on_conn i f"] on_conn_refs[of st _ _ f, OF _ _ assms(3)] on_conn_eff(1)[of st _ _ f] by blast

lemma notify_refs:
  "refs_ok st ch \<Longrightarrow> Port_OnReadyToSend pid ch = Some ch' \<Longrightarrow> refs_ok st ch'" "refs_ok st ch \<Longrightarrow> refs_ok st (snd (chan_GetStats ch))"
  "refs_ok st ch \<Longrightarrow> refs_ok st (set_incoming_only b ch)"
proof -
  assume ok: "refs_ok st ch"
  show "Port_OnReadyToSend pid ch = Some ch' \<Longrightarrow> refs_ok st ch'"
    using walk_refs[OF ok table_connections[OF ok]] by (auto simp: Port_OnReadyToSend_def)
  show "refs_ok st (snd (chan_GetStats ch))" using walk_refs[OF ok order_refl] by (simp add: chan_GetStats_def)
  show "refs_ok st (set_incoming_only b ch)" by (rule refs_ok_cong[OF ok]) (use ok in \<open>simp_all add: set_incoming_only_def refs_ok_def\<close>)
qed

text \<open>\<^verbatim>\<open>Reset\<close> leaves the pending connection as it is, although it has deleted all connections.\<close>

lemma Reset_eff:
  "ch_conns_mem (chan_Reset b ch) = Map.empty" "ch_ports_mem (chan_Reset b ch) = Map.empty" "ch_connections (chan_Reset b ch) = []"
  "ch_ports (chan_Reset b ch) = []" "ch_best (chan_Reset b ch) = None" "ch_pending (chan_Reset b ch) = ch_pending ch"
  "ch_remotes (chan_Reset b ch) = []" "ch_msgs (chan_Reset b ch) = [MSG_PING]" "\<not> ch_writable (chan_Reset b ch)" "\<not> ch_readable (chan_Reset b ch)"
  "ch_remote_pwd (chan_Reset b ch) = ch_remote_pwd ch" "ch_protocol (chan_Reset b ch) = ch_protocol ch" "ch_remote_mode (chan_Reset b ch) = ch_remote_mode ch"
  by (simp_all add: chan_Reset_def Let_def set_writable_def set_readable_def Allocate_def chan_log_def)

lemma Reset_refs: "refs_ok False (chan_Reset b ch)"
  by (simp add: refs_ok_def Reset_eff)

lemma Reset_leaves_pending: "ch_pending ch = Some i \<Longrightarrow> ch_pending (chan_Reset b ch) = Some i \<and> ch_conns_mem (chan_Reset b ch) i = None"
  by (simp add: Reset_eff)

lemma chan_step_refs:
  assumes ok: "refs_ok st ch" and run: "chan_step x ch = Some ch'" and no: "\<And>b. x = ResetOp b \<Longrightarrow> \<not> st"
  shows "refs_ok st ch'"
proof (cases x)
  case (PortReadyOp cp now)
  then show ?thesis using OnPortReady_refs[OF ok] run by simp
next
  case (ResetOp b)
  then show ?thesis using Reset_refs[of b ch] run no[OF ResetOp] by simp
qed (use run message_refs[OF ok] notify_refs[OF ok] UDPPort_refs[OF ok] chan_Dispatch_refs[OF ok] OnCandidate_refs[OF ok] Port_OnMessage_refs[OF ok]
    setters_refs[OF ok] OnSignalingReady_refs[OF ok] Connect_refs[OF ok] on_ports_refs[OF setters_refs(6)[OF ok]] on_ports_refs[OF setters_refs(7)[OF ok]]
    ok in \<open>auto simp: chan_SetRole_def chan_SetIceProtocolType_def\<close>)

lemma chan_run_refs: "refs_ok st ch \<Longrightarrow> chan_run xs ch = Some ch' \<Longrightarrow> (\<And>b. ResetOp b \<in> set xs \<Longrightarrow> \<not> st) \<Longrightarrow> refs_ok st ch'"
proof (induction xs ch rule: chan_run.induct)
  case (2 x xs ch)
  then obtain ch1 where c: "chan_step x ch = Some ch1" "chan_run xs ch1 = Some ch'" by (auto split: option.splits)
  have "refs_ok st ch1" by (rule chan_step_refs[OF "2.prems"(1) c(1)]) (use "2.prems"(3) in auto)
  show ?case by (rule "2.IH"[OF c(1) \<open>refs_ok st ch1\<close> c(2)]) (use "2.prems"(3) in auto)
qed simp

text \<open>Everything but the pending connection is right after any run, the pending one after a run without \<^verbatim>\<open>Reset\<close>.\<close>

lemma chan_runs_refs:
  assumes "chan_run xs (P2PTransportChannel_new b) = Some ch"
  shows "refs_ok False ch" "(\<And>r. ResetOp r \<notin> set xs) \<Longrightarrow> refs_ok True ch"
  using chan_run_refs[OF refs_ok_new assms] by simp_all

end
