(* ===== verification/IceChannelAuth.thy ===== *)
theory IceChannelAuth
  imports IceChannelRun
begin

text \<open>
  Who can bring an ICE channel up: it is readable and writable only after packets with the integrity
  attribute of someone who knows the passwords.
\<close>

section \<open>Connections\<close>

text \<open>
  \<open>P\<close> are the remote passwords, \<open>L\<close> says that the remote side may be ICE lite, \<open>W\<close> and \<open>R\<close> stand for
  the evidence that makes a connection writable and readable.
\<close>

definition conn_guarded :: "bytes set \<Rightarrow> bool \<Rightarrow> bool \<Rightarrow> bool \<Rightarrow> Connection \<Rightarrow> bool" where
  "conn_guarded P L W R c \<longleftrightarrow>
     cand_password (conn_remote c) \<in> P \<and> (remote_ice_mode c = ICEMODE_LITE \<longrightarrow> L) \<and> (L \<and> W \<longrightarrow> R) \<and>
     (write_state c = STATE_WRITABLE \<longrightarrow> W) \<and> (read_state c = STATE_READABLE \<longrightarrow> R)"

lemma guarded_frame [simp]:
  "conn_guarded P L W R (log_event e c) = conn_guarded P L W R c" "conn_guarded P L W R (log_port es c) = conn_guarded P L W R c"
  "conn_guarded P L W R (set_state s c) = conn_guarded P L W R c" "conn_guarded P L W R (restart_checks c) = conn_guarded P L W R c"
  "conn_guarded P L W R (c\<lparr>last_data_received := t\<rparr>) = conn_guarded P L W R c" "conn_guarded P L W R (c\<lparr>conn_log := l\<rparr>) = conn_guarded P L W R c"
  "conn_guarded P L W R (c\<lparr>conn_requests := m\<rparr>) = conn_guarded P L W R c"
  "conn_guarded P L W R (set_use_candidate_attr b c) = conn_guarded P L W R c"
  by (simp_all add: conn_guarded_def set_use_candidate_attr_def)

lemma guarded_states:
  "conn_guarded P L W R c \<Longrightarrow> v \<noteq> STATE_READABLE \<or> R \<Longrightarrow> conn_guarded P L W R (set_read_state v c)"
  "conn_guarded P L W R c \<Longrightarrow> w \<noteq> STATE_WRITABLE \<or> W \<Longrightarrow> conn_guarded P L W R (set_write_state w c)"
  "conn_guarded P L W R c \<Longrightarrow> R \<Longrightarrow> conn_guarded P L W R (ReceivedPing now c)"
  by (auto simp: conn_guarded_def)

lemma guarded_UpdateState: "conn_guarded P L W R c \<Longrightarrow> conn_guarded P L W R (UpdateState now c)"
  by (auto simp: UpdateState_def Let_def intro!: guarded_states)

lemma guarded_Prune: "conn_guarded P L W R c \<Longrightarrow> conn_guarded P L W R (Prune c)"
  by (auto simp: Prune_def conn_guarded_def)

lemma guarded_Ping: "conn_guarded P L W R c \<Longrightarrow> Ping p tid now c = Some c' \<Longrightarrow> conn_guarded P L W R c'"
proof -
  assume g: "conn_guarded P L W R c" and run: "Ping p tid now c = Some c'"
  obtain ps q where "c' = c\<lparr>last_ping_sent := now, pings_since_last_response := ps, conn_requests := q, check_state := STATE_INPROGRESS\<rparr>"
    using run unfolding Ping_def Let_def by (auto split: option.splits)
  with g show ?thesis by (simp add: conn_guarded_def)
qed

lemma guarded_Dispatch: "conn_guarded P L W R c \<Longrightarrow> conn_Dispatch late c = Some c' \<Longrightarrow> conn_guarded P L W R c'"
  by (auto simp: conn_Dispatch_def)

lemma guarded_accept: "conn_guarded P L W R c \<Longrightarrow> R \<Longrightarrow> conn_guarded P L W R (accept_request p now m c)"
  by (simp add: accept_request_def Let_def guarded_states split: option.split)

lemma guarded_CheckResponse:
  assumes "conn_guarded P L W R c" W
  shows "conn_guarded P L W R (conn_CheckResponse p now m c)"
proof -
  have ok: "conn_guarded P L W R (OnConnectionRequestResponse now t c)" for t
    using assms by (auto simp: OnConnectionRequestResponse_def Let_def conn_guarded_def)
  have err: "conn_guarded P L W R (OnConnectionRequestErrorResponse p m c)"
    using assms by (auto simp: OnConnectionRequestErrorResponse_def HandleRoleConflictFromPeer_def Let_def intro!: guarded_states)
  show ?thesis using ok err assms(1) by (auto simp: conn_CheckResponse_def Let_def split: option.split)
qed

text \<open>A packet brings a connection up only with a password.\<close>

lemma guarded_packet:
  assumes g: "conn_guarded P L W R c" and p: "ice_protocol p = ICEPROTO_RFC5245"
    and w: "\<And>key. key \<in> P \<Longrightarrow> authenticated data key \<Longrightarrow> W" and r: "authenticated data (port_password p) \<Longrightarrow> R"
    and run: "conn_OnReadPacket p now data c = Some c'"
  shows "conn_guarded P L W R c'"
proof -
  define a where "a = cand_address (conn_remote c)"
  obtain stun msg ufrag events where m: "GetStunMessage p data a = Some (stun, msg, ufrag, events)"
    using run by (cases "GetStunMessage p data a") (auto simp: conn_OnReadPacket_def a_def)
  have g': "conn_guarded P L W R (log_port events c)" using g by simp
  have kept: "read_state c = STATE_READABLE \<Longrightarrow> conn_guarded P L W R (ReceivedPing now (log_port events c))"
    using g by (simp add: conn_guarded_def)
  have req: "conn_guarded P L W R c1 \<Longrightarrow> stun \<Longrightarrow> msg = Some m1 \<Longrightarrow> m_type m1 = STUN_BINDING_REQUEST \<Longrightarrow>
      conn_guarded P L W R (accept_request p now m1 c1)" for c1 m1
    using request_authenticated[OF p, of data a m1 ufrag events] m r guarded_accept by simp
  have resp: "ValidateMessageIntegrity data (cand_password (conn_remote c)) = Some True \<Longrightarrow>
      conn_guarded P L W R (conn_CheckResponse p now m1 (log_port events c))" for m1
    using guarded_CheckResponse[OF g'] w valid_authenticated g by (auto simp: conn_guarded_def)
  show ?thesis
  proof (cases "stun \<and> msg \<noteq> None")
    case False
    then show ?thesis using run m g g' by (auto simp: conn_OnReadPacket_def a_def Let_def split: if_splits)
  next
    case True
    then obtain m1 where m1: "stun" "msg = Some m1" by auto
    have run': "(if m_type m1 = STUN_BINDING_REQUEST then
        (if ufrag = cand_username (conn_remote c) then
           (case MaybeIceRoleConflict p a m1 ufrag of None \<Rightarrow> None
            | Some (ok, es) \<Rightarrow> if ok then Some (accept_request p now m1 (log_port es (log_port events c))) else Some (log_port es (log_port events c)))
         else Some (log_event (PortDid (SendBindingErrorResponse p m1 a STUN_ERROR_UNAUTHORIZED STUN_ERROR_REASON_UNAUTHORIZED)) (log_port events c)))
      else if m_type m1 = STUN_BINDING_RESPONSE \<or> m_type m1 = STUN_BINDING_ERROR_RESPONSE then
        (case ValidateMessageIntegrity data (cand_password (conn_remote c)) of None \<Rightarrow> None
         | Some valid \<Rightarrow> Some (if valid then conn_CheckResponse p now m1 (log_port events c) else log_port events c))
      else if m_type m1 = STUN_BINDING_INDICATION then
        Some (if read_state c = STATE_READABLE then ReceivedPing now (log_port events c) else log_port events c)
      else Some (log_port events c)) = Some c'"
      using run p by (simp add: conn_OnReadPacket_def a_def[symmetric] m m1 Let_def cong: if_cong option.case_cong prod.case_cong)
    show ?thesis
      using run' g' kept req[OF _ m1] resp by (auto split: if_splits option.splits prod.splits)
  qed
qed

section \<open>The channel\<close>

text \<open>\<open>K\<close> is the remote password the channel has now: it stands in for an empty one.\<close>

definition key_of :: "bytes \<Rightarrow> Candidate \<Rightarrow> bytes" where
  "key_of pwd r = (if cand_password r = [] then pwd else cand_password r)"

definition guarded :: "bytes \<Rightarrow> bytes set \<Rightarrow> bytes set \<Rightarrow> bool \<Rightarrow> bool \<Rightarrow> bool \<Rightarrow> IceChannel \<Rightarrow> bool" where
  "guarded K P Q L W R ch \<longleftrightarrow>
     (\<forall>i pid c. ch_conns_mem ch i = Some (pid, c) \<longrightarrow> conn_guarded P L W R c) \<and>
     (\<forall>pid cp. ch_ports_mem ch pid = Some cp \<longrightarrow> ice_protocol (cp_port cp) = ICEPROTO_RFC5245 \<and> port_password (cp_port cp) \<in> Q) \<and>
     (\<forall>r\<in>set (ch_remotes ch). cand_password (fst r) \<in> P) \<and> ch_remote_pwd ch = K \<and> ([] \<in> P \<longrightarrow> K \<in> P) \<and> ch_protocol ch = ICEPROTO_RFC5245 \<and>
     (ch_remote_mode ch = ICEMODE_LITE \<longrightarrow> L) \<and> (L \<and> W \<longrightarrow> R) \<and> (ch_writable ch \<longrightarrow> W) \<and> (ch_readable ch \<longrightarrow> R)"

lemma guardedD:
  assumes "guarded K P Q L W R ch"
  shows "ch_conns_mem ch i = Some (pid, c) \<Longrightarrow> conn_guarded P L W R c"
    "ch_ports_mem ch pid = Some cp \<Longrightarrow> ice_protocol (cp_port cp) = ICEPROTO_RFC5245 \<and> port_password (cp_port cp) \<in> Q"
    "r \<in> set (ch_remotes ch) \<Longrightarrow> cand_password (fst r) \<in> P"
    "ch_remote_pwd ch = K" "[] \<in> P \<longrightarrow> K \<in> P" "L \<and> W \<longrightarrow> R"
  using assms unfolding guarded_def by blast+

lemma guarded_cong:
  assumes "guarded K P Q L W R ch" "ch_ports_mem ch' = ch_ports_mem ch" "ch_conns_mem ch' = ch_conns_mem ch"
    "ch_remotes ch' = ch_remotes ch" "ch_remote_pwd ch' = ch_remote_pwd ch" "ch_protocol ch' = ch_protocol ch"
    "ch_remote_mode ch' = ch_remote_mode ch" "ch_writable ch' \<longrightarrow> W" "ch_readable ch' \<longrightarrow> R"
  shows "guarded K P Q L W R ch'"
  using assms by (simp add: guarded_def)

lemma signal_pwd: "ch_remote_pwd (conn_signal pid i e ch) = ch_remote_pwd ch"
  by (cases e) (auto simp: OnConnectionStateChange_def RequestSort_def post_msg_def SwitchBestConnectionTo_def chan_log_def
      chan_OnReadPacket_def OnUseCandidate_def chan_OnReadyToSend_def Let_def)

lemma signals_pwd: "ch_remote_pwd (fold (conn_signal pid i) es ch) = ch_remote_pwd ch"
  by (induction es arbitrary: ch) (simp_all add: signal_pwd)

lemma guarded_signals: "guarded K P Q L W R ch \<Longrightarrow> guarded K P Q L W R (fold (conn_signal pid i) es ch)"
  using signals_same[of ch pid i es] by (auto simp: same_objects_def guarded_def signals_pwd intro: guarded_cong)

lemma guarded_set_conn:
  assumes "guarded K P Q L W R ch" "conn_guarded P L W R c"
  shows "guarded K P Q L W R (set_conn i c ch)"
proof (cases "ch_conns_mem ch i")
  case (Some e)
  obtain pid c0 where e: "e = (pid, c0)" by (cases e)
  have "guarded K P Q L W R (ch\<lparr>ch_conns_mem := (ch_conns_mem ch)(i \<mapsto> (pid, c\<lparr>conn_log := []\<rparr>))\<rparr>)"
    using assms by (auto simp: guarded_def)
  then show ?thesis using guarded_signals Some e by (simp add: set_conn_def)
qed (use assms in \<open>simp add: set_conn_def\<close>)

lemma guarded_on_conn:
  assumes "refs_ok st ch" "i \<in> set (ch_connections ch)" "guarded K P Q L W R ch"
    "\<And>c. conn_guarded P L W R c \<Longrightarrow> conn_guarded P L W R (f c)"
  shows "guarded K P Q L W R (on_conn i f ch)"
proof -
  obtain cp c pid where "conn_at ch i = Some (cp, c)" "ch_conns_mem ch i = Some (pid, c)"
    using refs_live(2)[OF assms(1,2)] by blast
  then have "conn_guarded P L W R (f ((the_conn ch i)\<lparr>conn_log := []\<rparr>))"
    using guardedD(1)[OF assms(3)] assms(4) by (simp add: the_conn_def)
  then show ?thesis unfolding on_conn_def by (rule guarded_set_conn[OF assms(3)])
qed

text \<open>A walk over connections.\<close>

lemma fold_guarded:
  assumes "refs_ok st ch" "guarded K P Q L W R ch" "set is \<subseteq> set (ch_connections ch)"
    "\<And>i ch. refs_ok st ch \<Longrightarrow> i \<in> set (ch_connections ch) \<Longrightarrow> refs_ok st (g i ch) \<and> framed ch (g i ch)"
    "\<And>i ch. refs_ok st ch \<Longrightarrow> i \<in> set (ch_connections ch) \<Longrightarrow> guarded K P Q L W R ch \<Longrightarrow> guarded K P Q L W R (g i ch)"
  shows "guarded K P Q L W R (fold g is ch)"
  using assms(1-3)
proof (induction "is" arbitrary: ch)
  case (Cons i "is")
  have "refs_ok st (g i ch) \<and> framed ch (g i ch)" "guarded K P Q L W R (g i ch)" using assms(4,5)[of ch i] Cons.prems by simp_all
  then show ?case using Cons.IH[of "g i ch"] Cons.prems(3) by (simp add: framed_def)
qed simp

lemma walk_guarded:
  assumes "refs_ok st ch" "guarded K P Q L W R ch" "set is \<subseteq> set (ch_connections ch)" "\<And>c. conn_remote (f c) = conn_remote c"
    "\<And>c. conn_guarded P L W R c \<Longrightarrow> conn_guarded P L W R (f c)"
  shows "guarded K P Q L W R (fold (\<lambda>i. on_conn i f) is ch)"
  by (rule fold_guarded[OF assms(1-3)]) (use assms(4,5) on_conn_refs[of st _ _ f] on_conn_eff(1)[of st _ _ f] guarded_on_conn in blast)+

lemma guarded_notify:
  "conn_guarded P L W R c \<Longrightarrow> conn_guarded P L W R (conn_OnReadyToSend c)" "conn_guarded P L W R c \<Longrightarrow> conn_guarded P L W R (set_reported b c)"
  by (simp_all add: conn_OnReadyToSend_def set_reported_def conn_guarded_def)

lemma Update_guarded: "refs_ok st ch \<Longrightarrow> guarded K P Q L W R ch \<Longrightarrow> guarded K P Q L W R (UpdateConnectionStates now ch)"
  unfolding UpdateConnectionStates_def
  by (rule fold_guarded) (auto intro: on_conn_refs on_conn_eff(1) guarded_on_conn guarded_UpdateState)

lemma prune_guarded:
  assumes "refs_ok st ch" "guarded K P Q L W R ch"
  shows "guarded K P Q L W R (prune_network n ch)"
proof (cases "GetBestConnectionOnNetwork ch n")
  case (Some b)
  show ?thesis
    unfolding prune_network_def Some option.simps
    by (cases "write_state (the_conn ch b) \<noteq> STATE_WRITABLE")
      (use assms in \<open>simp_all, intro fold_guarded, auto intro: on_conn_refs on_conn_eff(1) guarded_on_conn guarded_Prune\<close>)
qed (use assms in \<open>simp add: prune_network_def\<close>)

lemma prunes_guarded: "refs_ok st ch \<Longrightarrow> guarded K P Q L W R ch \<Longrightarrow> guarded K P Q L W R (fold prune_network ns ch)"
proof (induction ns arbitrary: ch)
  case (Cons n ns)
  show ?case using Cons.IH[of "prune_network n ch"] prune_guarded[OF Cons.prems] prune_refs[OF Cons.prems(1), of n] by simp
qed simp

text \<open>The states of the channel are those of its connections.\<close>

lemma set_states_guarded:
  assumes ok: "refs_ok st ch" and g: "guarded K P Q L W R ch"
  shows "guarded K P Q L W R (set_states ch)"
proof -
  have c: "i \<in> set (ch_connections ch) \<Longrightarrow> conn_guarded P L W R (the_conn ch i)" for i
    using refs_live(2)[OF ok, of i] guardedD(1)[OF g] by (auto simp: the_conn_def)
  have w: "best_writable ch \<longrightarrow> W"
    using c best_in[OF ok] by (auto simp: best_writable_def conn_guarded_def split: option.splits)
  have r: "(\<exists>i\<in>set (ch_connections ch). read_state (the_conn ch i) = STATE_READABLE) \<longrightarrow> R"
    using c by (auto simp: conn_guarded_def)
  have "ch_writable ch \<longrightarrow> ch_was_writable ch" using ok by (simp add: refs_ok_def)
  from set_states_eff[OF this] obtain ss l where s: "set_states ch = ch\<lparr>ch_sessions := ss, ch_was_writable := best_writable ch, ch_writable := best_writable ch,
     ch_readable := (\<exists>i\<in>set (ch_connections ch). read_state (the_conn ch i) = STATE_READABLE), ch_log := l\<rparr>" by blast
  show ?thesis by (rule guarded_cong[OF g]) (use w r in \<open>simp_all add: s\<close>)
qed

lemma SortConnections_guarded:
  assumes "refs_ok st ch" "guarded K P Q L W R ch" "SortConnections now ch = Some ch'"
  shows "guarded K P Q L W R ch'"
proof -
  define u where "u = UpdateConnectionStates now ch"
  have u: "refs_ok st u" "guarded K P Q L W R u" using Update_refs[OF assms(1)] Update_guarded[OF assms(1,2)] by (simp_all add: u_def)
  have s: "guarded K P Q L W R (switched (sorted_chan u))"
  proof -
    have "ch_remotes (switched c) = ch_remotes c \<and> ch_remote_pwd (switched c) = ch_remote_pwd c \<and> ch_protocol (switched c) = ch_protocol c \<and>
        ch_remote_mode (switched c) = ch_remote_mode c \<and> ch_readable (switched c) = ch_readable c" for c
      by (auto simp: switched_def SwitchBestConnectionTo_def chan_log_def Let_def split: option.split)
    then show ?thesis using u(2) by (intro guarded_cong[OF u(2)]) (simp_all add: switched_fields, simp_all add: sorted_chan_def guarded_def)
  qed
  have "ch' = set_states (fold prune_network (remdups (map (\<lambda>i. cp_network (the_port u i)) (ch_connections u))) (switched (sorted_chan u)))"
    using assms(3) refs_live(1)[OF assms(1)] by (simp add: SortConnections_def sort_step_eq u_def)
  moreover have sw: "refs_ok st (switched (sorted_chan u))" by (rule switched_refs[OF sorted_refs[OF u(1)]])
  ultimately show ?thesis
    using set_states_guarded[OF conjunct1[OF prunes_refs[OF sw]] prunes_guarded[OF sw s]] by simp
qed

lemma guarded_flags:
  "guarded K P Q L W R ch \<Longrightarrow> guarded K P Q L W R (chan_log e ch)" "guarded K P Q L W R ch \<Longrightarrow> guarded K P Q L W R (post_msg m ch)"
  "guarded K P Q L W R ch \<Longrightarrow> guarded K P Q L W R (RequestSort ch)" "guarded K P Q L W R ch \<Longrightarrow> guarded K P Q L W R (Allocate ch)"
  by (auto intro!: guarded_cong[of K P Q L W R ch] simp: chan_log_def post_msg_def RequestSort_def Allocate_def guarded_def)

lemma guarded_logs: "guarded K P Q L W R ch \<Longrightarrow> guarded K P Q L W R (fold (\<lambda>e. chan_log (ChPort pid e)) es ch)"
  by (induction es arbitrary: ch) (simp_all add: guarded_flags)

lemma OnPing_guarded:
  assumes ok: "refs_ok st ch" and g: "guarded K P Q L W R ch" and run: "OnPing tid now ch = Some ch'"
  shows "guarded K P Q L W R ch'"
proof -
  define u where "u = UpdateConnectionStates now ch"
  have u: "refs_ok st u" "guarded K P Q L W R u" using Update_refs[OF ok] Update_guarded[OF ok g] by (simp_all add: u_def)
  have ping: "guarded K P Q L W R v" if i: "i \<in> set (ch_connections u)" and v: "PingConnection i tid now u = Some v" for i v
  proof -
    obtain c' where c': "Ping (cp_port (the_port u i)) tid now (set_use_candidate_attr (ping_nominates u i) (the_conn u i)) = Some c'"
      "v = on_conn i (\<lambda>_. c'\<lparr>conn_log := []\<rparr>) u"
      using v by (auto simp: PingConnection_def split: option.splits)
    have "conn_guarded P L W R (the_conn u i)"
      using refs_live(2)[OF u(1) i] guardedD(1)[OF u(2)] by (auto simp: the_conn_def)
    then have "conn_guarded P L W R c'" using guarded_Ping[OF _ c'(1)] by simp
    then show ?thesis unfolding c'(2) on_conn_def by (intro guarded_set_conn[OF u(2)]) simp
  qed
  have "\<exists>v. guarded K P Q L W R v \<and> ch' = post_msg MSG_PING v"
    using run refs_live(1)[OF ok] u ping FindNext_in[OF u(1)]
    by (auto simp: OnPing_def u_def[symmetric] split: option.splits) blast
  then show ?thesis using guarded_flags(2) by auto
qed

section \<open>New connections, ports and packets\<close>

lemma guarded_new:
  assumes g: "guarded K P Q L W R ch" and p: "ch_ports_mem ch pid = Some cp" and r: "cand_password r \<in> P"
  shows "guarded K P Q L W R (new_connection pid cp r clock ch)"
proof -
  define c where "c = (Connection_new (hd (port_candidates (cp_port cp))) r clock)\<lparr>remote_ice_mode := ch_remote_mode ch\<rparr>"
  have "conn_guarded P L W R c"
    using g r by (simp add: conn_guarded_def guarded_def c_def Connection_new_def)
  then show ?thesis
    using g p by (auto simp: guarded_def new_connection_def Let_def c_def[symmetric] AddConnection_def)
qed

lemma CreateConnection_guarded:
  assumes "refs_ok st ch" "guarded K P Q L W R ch" "cand_password r \<in> P" "readable \<longrightarrow> R" "CreateConnection pid r origin readable now ch = Some (ok, ch')"
  shows "guarded K P Q L W R ch'"
proof -
  obtain cp where p: "ch_ports_mem ch pid = Some cp" using assms(5) by (auto simp: CreateConnection_def split: option.splits)
  have ping: "refs_ok st ch1 \<Longrightarrow> i \<in> set (ch_connections ch1) \<Longrightarrow> guarded K P Q L W R ch1 \<Longrightarrow> readable \<Longrightarrow> guarded K P Q L W R (on_conn i (ReceivedPing now) ch1)" for i ch1
    using guarded_on_conn[of st ch1 i K P Q L W R "ReceivedPing now"] guarded_states(3) assms(4) by blast
  show ?thesis
  proof (cases "GetConnection cp (cand_address r)")
    case None
    note n = new_connection_refs[OF assms(1) p None, of "uint now"]
    show ?thesis
      using assms(2,5) p None n ping[OF n(1,2)] guarded_new[OF assms(2) p assms(3), of "uint now"] by (auto simp: CreateConnection_def Let_def split: if_splits)
  next
    case (Some i)
    then have "i \<in> set (ch_connections ch)"
      using assms(1) p GetConnection_Some[OF Some] by (fastforce simp: refs_ok_def table_ok_def)
    then show ?thesis
      using assms(2,5) p Some ping[OF assms(1)] by (auto simp: CreateConnection_def Let_def split: if_splits option.splits)
  qed
qed

lemma create_on_guarded:
  "create_on pids r origin readable now (b, ch) = Some (ok, ch') \<Longrightarrow> refs_ok st ch \<Longrightarrow> guarded K P Q L W R ch \<Longrightarrow> cand_password r \<in> P \<Longrightarrow>
   (readable \<longrightarrow> R) \<Longrightarrow> guarded K P Q L W R ch'"
proof (induction pids arbitrary: b ch)
  case (Cons pid pids)
  then obtain ok1 ch1 where c: "CreateConnection pid r origin readable now ch = Some (ok1, ch1)"
    "create_on pids r origin readable now (b \<or> ok1 \<and> origin = Some pid, ch1) = Some (ok, ch')"
    by (auto split: option.splits)
  show ?case
    using Cons.IH[OF c(2) _ CreateConnection_guarded[OF Cons.prems(2-5) c(1)]] CreateConnection_refs[OF Cons.prems(2) c(1)] Cons.prems(4,5) by simp
qed simp

lemma CreateConnections_guarded:
  assumes "refs_ok st ch" "guarded K P Q L W R ch" "key_of K r \<in> P" "readable \<longrightarrow> R" "CreateConnections r origin readable now ch = Some (ok, ch')"
  shows "guarded K P Q L W R ch'"
proof -
  define r1 where "r1 = r\<lparr>cand_generation := GetRemoteCandidateGeneration ch r\<rparr>"
  define r2 where "r2 = (if cand_username r = [] then r1\<lparr>cand_username := ch_remote_ufrag ch\<rparr> else r1)"
  define r3 where "r3 = (if cand_password r = [] then r2\<lparr>cand_password := ch_remote_pwd ch\<rparr> else r2)"
  have pw: "cand_password r3 \<in> P" using assms(3) guardedD(4)[OF assms(2)] by (auto simp: r3_def r2_def r1_def key_of_def split: if_splits)
  define pids where "pids = rev (ch_ports ch) @ (case origin of Some q \<Rightarrow> if q \<in> set (ch_ports ch) then [] else [q] | None \<Rightarrow> [])"
  have e: "CreateConnections r origin readable now ch =
      map_option (\<lambda>(created, ch). (created, RememberRemoteCandidate r3 origin ch)) (create_on pids r3 origin readable now (False, ch))"
    unfolding CreateConnections_def Let_def r3_def r2_def r1_def pids_def ..
  obtain b ch1 where c: "create_on pids r3 origin readable now (False, ch) = Some (b, ch1)" "ch' = RememberRemoteCandidate r3 origin ch1"
    using assms(5)[unfolded e] by (auto simp: map_option_case split: option.splits)
  have g: "guarded K P Q L W R ch1" by (rule create_on_guarded[OF c(1) assms(1,2) pw assms(4)])
  define rs where "rs = ch_remotes ch'"
  have rs: "ch' = ch1\<lparr>ch_remotes := rs\<rparr>" "set rs \<subseteq> insert (r3, origin) (set (ch_remotes ch1))"
    using c(2) by (auto simp: rs_def RememberRemoteCandidate_def Let_def)
  have "\<forall>x\<in>set rs. cand_password (fst x) \<in> P" using rs(2) pw guardedD(3)[OF g] by auto
  then show ?thesis using g by (simp add: guarded_def rs(1))
qed

lemma OnCandidate_guarded:
  assumes "refs_ok st ch" "guarded K P Q L W R ch" "key_of K r \<in> P" "OnCandidate r now ch = Some ch'"
  shows "guarded K P Q L W R ch'"
proof -
  obtain b ch1 where c: "CreateConnections r None False now ch = Some (b, ch1)" "SortConnections now ch1 = Some ch'"
    using assms(4) by (auto simp: OnCandidate_def split: option.splits)
  show ?thesis
    by (rule SortConnections_guarded[OF CreateConnections_refs[OF assms(1) c(1)] CreateConnections_guarded[OF assms(1-3) _ c(1)] c(2)]) simp
qed

lemma create_for_guarded:
  "create_for pid rs now ch = Some ch' \<Longrightarrow> refs_ok st ch \<Longrightarrow> guarded K P Q L W R ch \<Longrightarrow> (\<And>r. r \<in> set rs \<Longrightarrow> cand_password (fst r) \<in> P) \<Longrightarrow> guarded K P Q L W R ch'"
proof (induction pid rs now ch rule: create_for.induct)
  case (2 pid r origin rs now ch)
  then obtain b ch1 where c: "CreateConnection pid r origin False now ch = Some (b, ch1)" "create_for pid rs now ch1 = Some ch'"
    by (auto split: option.splits)
  have "refs_ok st ch1" using CreateConnection_refs[OF "2.prems"(2) c(1)] by simp
  moreover have "guarded K P Q L W R ch1"
    by (rule CreateConnection_guarded[OF "2.prems"(2,3) _ _ c(1)]) (use "2.prems"(4)[of "(r, origin)"] in simp_all)
  ultimately show ?case using "2.IH"[OF c(1) refl c(2)] "2.prems"(4) by simp
qed simp

lemma OnPortReady_guarded:
  assumes ok: "refs_ok st ch" and g: "guarded K P Q L W R ch" and q: "port_password (cp_port cp) \<in> Q"
    and run: "chan_step (PortReadyOp cp now) ch = Some ch'"
  shows "guarded K P Q L W R ch'"
proof -
  define cp' where "cp' = cp\<lparr>cp_port := (cp_port cp)\<lparr>ice_protocol := ch_protocol ch, port_role := ch_role ch, port_tiebreaker := ch_tiebreaker ch\<rparr>, cp_table := []\<rparr>"
  define ch1 where "ch1 = (set_port (ch_next ch) cp' (ch\<lparr>ch_next := ch_next ch + 1\<rparr>))\<lparr>ch_ports := ch_ports ch @ [ch_next ch]\<rparr>"
  have ok1: "refs_ok st ch1" unfolding ch1_def by (rule new_port_refs[OF ok]) (simp add: cp'_def)
  have g1: "guarded K P Q L W R ch1" using g q by (simp add: ch1_def guarded_def set_port_def cp'_def)
  obtain ch2 where c: "create_for (ch_next ch) (ch_remotes ch) now ch1 = Some ch2" "SortConnections now ch2 = Some ch'"
    using run by (auto simp: OnPortReady_def cp'_def[symmetric] ch1_def Let_def set_port_def split: option.splits)
  show ?thesis
    by (rule SortConnections_guarded[OF create_for_refs[OF c(1) ok1] create_for_guarded[OF c(1) ok1 g1] c(2)]) (rule guardedD(3)[OF g])
qed

lemma OnUnknownAddress_guarded:
  assumes ok: "refs_ok st ch" and g: "guarded K P Q L W R ch" and r: R
    and run: "OnUnknownAddress pid a proto m u tid muxed now ch = Some ch'"
  shows "guarded K P Q L W R ch'"
proof -
  obtain cp where p: "ch_ports_mem ch pid = Some cp" using run by (auto simp: OnUnknownAddress_def split: option.splits)
  show ?thesis
  proof (cases "remote_password_of ch u")
    case None
    then show ?thesis using run g p guarded_flags(1)[OF g] by (auto simp: OnUnknownAddress_def)
  next
    case (Some pw)
    define cand where "cand = (case known_candidate ch u proto a of Some r \<Rightarrow> r | None \<Rightarrow> new_candidate cp a proto u pw tid)"
    have "pw \<in> P"
    proof -
      have "filter (\<lambda>x. cand_username (fst x) = u) (ch_remotes ch) \<noteq> []" "pw = cand_password (fst (last (filter (\<lambda>x. cand_username (fst x) = u) (ch_remotes ch))))"
        using Some by (auto simp: remote_password_of_def split: list.splits)
      then show ?thesis using guardedD(3)[OF g] last_in_set[of "filter (\<lambda>x. cand_username (fst x) = u) (ch_remotes ch)"] by auto
    qed
    moreover have "cand_password r \<in> P" if "known_candidate ch u proto a = Some r" for r
      using that guardedD(3)[OF g] find_in by (fastforce simp: known_candidate_def Let_def)
    ultimately have "cand_password cand \<in> P"
      by (auto simp: cand_def new_candidate_def Let_def split: option.split)
    then have cp: "key_of K cand \<in> P" using guardedD(5)[OF g] by (auto simp: key_of_def)
    obtain created ch1 where c: "CreateConnections cand (Some pid) True now ch = Some (created, ch1)"
      using run p Some by (auto simp: OnUnknownAddress_def Let_def cand_def[symmetric] split: option.splits)
    have ok1: "refs_ok st ch1" by (rule CreateConnections_refs[OF ok c])
    have g1: "guarded K P Q L W R ch1" by (rule CreateConnections_guarded[OF ok g cp _ c]) (use r in simp)
    show ?thesis
    proof (cases created)
      case False
      then show ?thesis using run p Some c guarded_flags(1)[OF g1] by (auto simp: OnUnknownAddress_def Let_def cand_def[symmetric])
    next
      case True
      then obtain ch2 where ch2: "respond pid m a now ch1 = Some ch2" "SortConnections now ch2 = Some ch'"
        using run p Some c by (auto simp: OnUnknownAddress_def Let_def cand_def[symmetric] split: option.splits)
      have at: "conn_at (chan_log e ch1) i = conn_at ch1 i" for e i by (rule conn_at_cong) (simp_all add: chan_log_def)
      have "guarded K P Q L W R (on_conn i (ReceivedPing now) (chan_log e ch1))" if "conn_at ch1 i \<noteq> None" for i e
        by (rule guarded_on_conn[OF chan_log_refs[OF ok1] _ guarded_flags(1)[OF g1]])
          (use that at_connections[OF ok1] r guarded_states(3) in \<open>auto simp: chan_log_def\<close>)
      then have "guarded K P Q L W R ch2"
        using ch2(1) g1 guarded_flags(1)[OF g1] by (auto simp: respond_def Let_def at split: option.splits if_splits)
      then show ?thesis using SortConnections_guarded[OF respond_refs[OF ok1 ch2(1)] _ ch2(2)] by blast
    qed
  qed
qed

lemma UDPPort_guarded:
  assumes ok: "refs_ok st ch" and g: "guarded K P Q L W R ch" and run: "UDPPort_OnReadPacket pid data a tid now ch = Some ch'"
    and w: "\<And>key. key \<in> P \<Longrightarrow> authenticated data key \<Longrightarrow> W" and r: "\<And>key. key \<in> Q \<Longrightarrow> authenticated data key \<Longrightarrow> R"
  shows "guarded K P Q L W R ch'"
proof -
  obtain cp where p: "ch_ports_mem ch pid = Some cp" using run by (auto simp: UDPPort_OnReadPacket_def split: option.splits)
  have cp: "ice_protocol (cp_port cp) = ICEPROTO_RFC5245" "port_password (cp_port cp) \<in> Q" using guardedD(2)[OF g p] by simp_all
  show ?thesis
  proof (cases "GetConnection cp a")
    case (Some i)
    then obtain cp' c c' where c: "conn_at ch i = Some (cp', c)" "conn_OnReadPacket (cp_port cp) now data (c\<lparr>conn_log := []\<rparr>) = Some c'" "ch' = set_conn i c' ch"
      using run p by (auto simp: UDPPort_OnReadPacket_def split: option.splits)
    have "conn_guarded P L W R c" using c(1) guardedD(1)[OF g] by (auto simp: conn_at_def split: option.splits)
    then have "conn_guarded P L W R c'" using guarded_packet[OF _ cp(1) w r[OF cp(2)] c(2)] by simp
    then show ?thesis unfolding c(3) by (rule guarded_set_conn[OF g])
  next
    case None
    obtain stun msg u events where m: "GetStunMessage (cp_port cp) data a = Some (stun, msg, u, events)"
      using run p None by (cases "GetStunMessage (cp_port cp) data a") (auto simp: UDPPort_OnReadPacket_def Port_OnReadPacket_def)
    define ch1 where "ch1 = fold (\<lambda>e. chan_log (ChPort pid e)) events ch"
    have ok1: "refs_ok st ch1" "guarded K P Q L W R ch1" unfolding ch1_def by (rule chan_logs_refs[OF ok], rule guarded_logs[OF g])
    note logged = chan_logs_refs[OF ok1(1)] guarded_logs[OF ok1(2)]
    have un: "refs_ok st c \<Longrightarrow> guarded K P Q L W R c \<Longrightarrow> stun \<Longrightarrow> msg = Some m1 \<Longrightarrow> m_type m1 = STUN_BINDING_REQUEST \<Longrightarrow>
        OnUnknownAddress pid a proto m1 u tid False now c = Some ch' \<Longrightarrow> guarded K P Q L W R ch'" for c m1 proto
      using OnUnknownAddress_guarded r[OF cp(2) request_authenticated[OF cp(1), of data a m1 u events]] m by simp
    have "Port_OnReadPacket pid data a UDP_PROTOCOL_NAME tid now ch = Some ch'" using run p None by (simp add: UDPPort_OnReadPacket_def)
    then have "(if \<not> stun then Some ch1 else case msg of None \<Rightarrow> Some ch1 | Some msg \<Rightarrow>
      if m_type msg = STUN_BINDING_REQUEST then
        (if ice_protocol (cp_port cp) = ICEPROTO_RFC5245 then
           (case MaybeIceRoleConflict (cp_port cp) a msg u of None \<Rightarrow> None
            | Some (ok, events) \<Rightarrow>
              let ch = fold (\<lambda>e. chan_log (ChPort pid e)) events ch1
              in if ok then OnUnknownAddress pid a UDP_PROTOCOL_NAME msg u tid False now ch else Some ch)
         else OnUnknownAddress pid a UDP_PROTOCOL_NAME msg u tid False now ch1)
      else Some ch1) = Some ch'"
      unfolding Port_OnReadPacket_def p m option.case prod.case Let_def ch1_def .
    then show ?thesis
      using ok1 logged cp(1) by (auto simp: Let_def split: if_splits option.splits intro: un[OF ok1] un[OF logged])
  qed
qed

section \<open>Every operation\<close>

lemma guarded_ports: "guarded K P Q L W R ch \<Longrightarrow> guarded K P Q L W R (set_port pid (cp\<lparr>cp_lifetime := l\<rparr>) ch)" if "ch_ports_mem ch pid = Some cp"
  using that by (auto simp: guarded_def set_port_def)

lemma guarded_CheckTimeout: "guarded K P Q L W R ch \<Longrightarrow> guarded K P Q L W R (Port_CheckTimeout pid ch)"
  by (auto simp: guarded_def Port_CheckTimeout_def OnPortDestroyed_def split: option.split if_splits)

lemma guarded_up: "guarded K P Q L W R ch \<Longrightarrow> (ch_writable ch \<longrightarrow> W) \<and> (ch_readable ch \<longrightarrow> R)"
  unfolding guarded_def by blast

lemma destroyed_fields:
  assumes "OnConnectionDestroyed i ch = Some ch'"
  shows "ch_ports_mem ch' = ch_ports_mem ch" "ch_conns_mem ch' = ch_conns_mem ch" "ch_remotes ch' = ch_remotes ch"
    "ch_remote_pwd ch' = ch_remote_pwd ch" "ch_protocol ch' = ch_protocol ch" "ch_remote_mode ch' = ch_remote_mode ch"
    "ch_writable ch' = ch_writable ch" "ch_readable ch' = ch_readable ch"
  using assms by (auto simp: OnConnectionDestroyed_def SwitchBestConnectionTo_def RequestSort_def post_msg_def Let_def split: if_splits)

lemma delete_guarded:
  assumes g: "guarded K P Q L W R ch" and run: "delete_connection i ch = Some ch'"
  shows "guarded K P Q L W R ch'"
proof -
  obtain pid c cp where i: "ch_conns_mem ch i = Some (pid, c)" "ch_ports_mem ch pid = Some cp"
    using run by (auto simp: delete_connection_def split: option.splits)
  define cp' where "cp' = cp\<lparr>cp_table := filter (\<lambda>e. \<not> sa_eq (fst e) (cand_address (conn_remote c))) (cp_table cp)\<rparr>"
  define v where "v = Port_CheckTimeout pid (set_port pid cp' ch)"
  have "guarded K P Q L W R (set_port pid cp' ch)" using g i(2) by (auto simp: guarded_def set_port_def cp'_def)
  then have v: "guarded K P Q L W R v" unfolding v_def by (rule guarded_CheckTimeout)
  obtain w where w: "OnConnectionDestroyed i v = Some w" "ch' = w\<lparr>ch_conns_mem := (ch_conns_mem w)(i := None), ch_msgs := filter (\<lambda>m. m \<noteq> MSG_DELETE i) (ch_msgs w)\<rparr>"
    using run i by (auto simp: delete_connection_def Let_def cp'_def[symmetric] v_def[symmetric] split: if_splits)
  have "guarded K P Q L W R w"
    using guarded_cong[OF v] destroyed_fields[OF w(1)] guarded_up[OF v] by simp
  then have "conn_guarded P L W R d" if "ch_conns_mem ch' j = Some (q, d)" for j q d
    using that guardedD(1) by (auto simp: w(2) split: if_splits)
  with \<open>guarded K P Q L W R w\<close> show ?thesis unfolding guarded_def by (simp add: w(2))
qed

lemma on_ports_guarded:
  assumes g: "guarded K P Q L W R ch" and f: "\<And>p. port_password (f p) = port_password p \<and> (ice_protocol p = ICEPROTO_RFC5245 \<longrightarrow> ice_protocol (f p) = ICEPROTO_RFC5245)"
  shows "guarded K P Q L W R (on_ports f ch)"
proof -
  have "ice_protocol (cp_port cp) = ICEPROTO_RFC5245 \<and> port_password (cp_port cp) \<in> Q" if "ch_ports_mem (on_ports f ch) pid = Some cp" for pid cp
    using that guardedD(2)[OF g, of pid] f by (auto simp: on_ports_def split: if_splits)
  then show ?thesis using g unfolding guarded_def by (simp add: on_ports_def)
qed

lemma message_guarded:
  assumes ok: "refs_ok st ch" and g: "guarded K P Q L W R ch" and run: "chan_OnMessage m tid now ch = Some ch'"
  shows "guarded K P Q L W R ch'"
proof (cases "m \<in> set (ch_msgs ch)")
  case True
  define ch1 where "ch1 = ch\<lparr>ch_msgs := remove1 m (ch_msgs ch)\<rparr>"
  have ok1: "refs_ok st ch1"
    by (rule refs_ok_keep[OF ok]) (use refs_msgs[OF ok] in \<open>auto simp: ch1_def same_objects_def dest: notin_set_remove1\<close>)
  have g1: "guarded K P Q L W R ch1" using g by (simp add: ch1_def guarded_def)
  show ?thesis
    using run True SortConnections_guarded[OF ok1 g1] OnPing_guarded[OF ok1 g1] delete_guarded[OF g1]
    by (cases m) (simp_all add: chan_OnMessage_def ch1_def Let_def)
qed (use assms in \<open>simp add: chan_OnMessage_def\<close>)

text \<open>The keys an ICE channel knows of after some operations: those of the other side, which are the passwords
  of the credentials and of the candidates, a candidate without one getting that of the credentials the
  channel has then, and those of its own ports. The channel starts without credentials.\<close>

fun remote_keys :: "bytes \<Rightarrow> ChanOp list \<Rightarrow> bytes set" where
  "remote_keys pwd [] = {}"
| "remote_keys pwd (x # xs) =
     (case x of
        RemoteCredentialsOp u p \<Rightarrow> insert p (remote_keys p xs)
      | CandidateOp r now \<Rightarrow> insert (key_of pwd r) (remote_keys pwd xs)
      | _ \<Rightarrow> remote_keys pwd xs)"

text \<open>The order the signalling should keep: no candidate without a password before the credentials.\<close>

fun credentials_first :: "bytes \<Rightarrow> ChanOp list \<Rightarrow> bool" where
  "credentials_first pwd [] = True"
| "credentials_first pwd (x # xs) =
     (case x of
        RemoteCredentialsOp u p \<Rightarrow> p \<noteq> [] \<and> credentials_first p xs
      | CandidateOp r now \<Rightarrow> (cand_password r = [] \<longrightarrow> pwd \<noteq> []) \<and> credentials_first pwd xs
      | _ \<Rightarrow> credentials_first pwd xs)"

lemma credentials_first_keys: "credentials_first pwd xs \<Longrightarrow> [] \<notin> remote_keys pwd xs"
  by (induction pwd xs rule: credentials_first.induct) (auto simp: key_of_def split: ChanOp.splits if_splits)

definition local_keys :: "ChanOp list \<Rightarrow> bytes set" where
  "local_keys ops = {port_password (cp_port cp) |cp. \<exists>now. PortReadyOp cp now \<in> set ops}"

definition packet_with :: "ChanOp list \<Rightarrow> bytes set \<Rightarrow> bool" where
  "packet_with ops keys \<longleftrightarrow> (\<exists>pid data addr random_id now. ChanPacketOp pid data addr random_id now \<in> set ops \<and> (\<exists>key\<in>keys. authenticated data key))"

lemma credentials_guarded:
  assumes "guarded K P Q L W R ch" "p \<in> P"
  shows "guarded p P Q L W R (SetRemoteIceCredentials u p ch)"
proof -
  have "guarded p P Q L W R (ch\<lparr>ch_remote_pwd := p\<rparr>)" using assms by (simp add: guarded_def)
  then show ?thesis
    using guarded_cong[of p P Q L W R "ch\<lparr>ch_remote_pwd := p\<rparr>" "SetRemoteIceCredentials u p ch"] guarded_up[OF assms(1)]
    by (simp add: SetRemoteIceCredentials_def Let_def)
qed

definition next_key :: "bytes \<Rightarrow> ChanOp \<Rightarrow> bytes" where
  "next_key pwd x = (case x of RemoteCredentialsOp u p \<Rightarrow> p | _ \<Rightarrow> pwd)"

lemma step_guarded:
  assumes ok: "refs_ok st ch" and g: "guarded K P Q L W R ch" and run: "chan_step x ch = Some ch'"
    and x: "\<And>u p. x \<noteq> RemoteCredentialsOp u p" "\<And>r now. x = CandidateOp r now \<Longrightarrow> key_of K r \<in> P"
      "\<And>cp now. x = PortReadyOp cp now \<Longrightarrow> port_password (cp_port cp) \<in> Q" "x = RemoteModeOp ICEMODE_LITE \<Longrightarrow> L" "\<And>p. x \<noteq> ProtocolOp p"
      "\<And>pid data a tid now key. x = ChanPacketOp pid data a tid now \<Longrightarrow> authenticated data key \<Longrightarrow> (key \<in> P \<longrightarrow> W) \<and> (key \<in> Q \<longrightarrow> R)"
  shows "guarded K P Q L W R ch'"
proof (cases x)
  case (PortReadyToSendOp pid)
  then obtain cp where cp: "ch_ports_mem ch pid = Some cp" "ch' = fold (\<lambda>i. on_conn i conn_OnReadyToSend) (map snd (cp_table cp)) ch"
    using run by (auto simp: Port_OnReadyToSend_def)
  then show ?thesis using walk_guarded[OF ok g table_connections[OF ok cp(1)]] guarded_notify(1) by simp
next
  case StatsOp
  then show ?thesis using walk_guarded[OF ok g order_refl] guarded_notify(2) run by (auto simp: chan_GetStats_def)
next
  case (IncomingOnlyOp b)
  then have "ch' = ch\<lparr>ch_incoming_only := b\<rparr>" using run by (simp add: set_incoming_only_def)
  then show ?thesis using g by (simp add: guarded_def)
next
  case (ResetOp b)
  then have "ch' = chan_Reset b ch" using run by simp
  then show ?thesis using g ResetOp by (simp add: guarded_def Reset_eff)
next
  case (MessageOp m tid now)
  then show ?thesis using message_guarded[OF ok g] run by simp
next
  case (ChanPacketOp pid data a tid now)
  show ?thesis
  proof (rule UDPPort_guarded[OF ok g])
    show "UDPPort_OnReadPacket pid data a tid now ch = Some ch'" using run ChanPacketOp by simp
  qed (use x(6)[OF ChanPacketOp] in blast)+
next
  case (DispatchOp i late)
  then obtain cp c c' where c: "conn_at ch i = Some (cp, c)" "conn_Dispatch late (c\<lparr>conn_log := []\<rparr>) = Some c'" "ch' = set_conn i c' ch"
    using run by (auto simp: chan_Dispatch_def split: option.splits)
  have "conn_guarded P L W R c" using c(1) guardedD(1)[OF g] by (auto simp: conn_at_def split: option.splits)
  then show ?thesis unfolding c(3) using guarded_Dispatch[OF _ c(2)] by (intro guarded_set_conn[OF g]) simp
next
  case (CandidateOp r now)
  then show ?thesis using OnCandidate_guarded[OF ok g x(2)[OF CandidateOp]] run by simp
next
  case (PortReadyOp cp now)
  show ?thesis using OnPortReady_guarded[OF ok g x(3)[OF PortReadyOp] run[unfolded PortReadyOp]] .
next
  case (PortTimeoutOp pid)
  then obtain cp where "ch_ports_mem ch pid = Some cp" "ch' = Port_CheckTimeout pid (set_port pid (cp\<lparr>cp_lifetime := LT_POSTTIMEOUT\<rparr>) ch)"
    using run by (auto simp: Port_OnMessage_def split: option.splits)
  then show ?thesis using guarded_CheckTimeout[OF guarded_ports[OF _ g]] by simp
next
  case (RoleOp role)
  have "guarded K P Q L W R (ch\<lparr>ch_role := role\<rparr>)" using g by (simp add: guarded_def)
  then have "guarded K P Q L W R (chan_SetRole role ch)" using g by (simp add: chan_SetRole_def on_ports_guarded)
  then show ?thesis using run RoleOp by simp
next
  case (ProtocolOp p)
  then show ?thesis using x(5) by blast
next
  case (RemoteCredentialsOp u p)
  then show ?thesis using x(1) by blast
next
  case (RemoteModeOp m)
  then have "ch' = ch\<lparr>ch_remote_mode := m\<rparr>" "m = ICEMODE_LITE \<longrightarrow> L" using run x(4) by (auto simp: SetRemoteIceMode_def)
  then show ?thesis using g by (simp add: guarded_def)
next
  case (CredentialsOp u p)
  then have "ch' = SetIceCredentials u p ch" using run by simp
  moreover have "guarded K P Q L W R (ch\<lparr>ch_ufrag := u, ch_pwd := p\<rparr>)" using g by (simp add: guarded_def)
  ultimately show ?thesis using guarded_flags(4) by (simp add: SetIceCredentials_def Let_def)
next
  case (TiebreakerOp t)
  then have "ch' = chan_SetTiebreaker t ch" using run by simp
  then show ?thesis using guarded_cong[OF g, of ch'] guarded_up[OF g] g by (simp add: chan_SetTiebreaker_def split: if_splits)
next
  case ConnectOp
  then have "ch' = chan_Connect ch" using run by simp
  then show ?thesis using g guarded_flags(2)[OF guarded_flags(4)[OF g]] by (simp add: chan_Connect_def)
next
  case SignalingOp
  then have "ch' = OnSignalingReady ch" using run by simp
  then show ?thesis using guarded_cong[OF g, of ch'] guarded_up[OF g] by (simp add: OnSignalingReady_def AddAllocatorSession_def chan_log_def)
qed

lemma run_guarded:
  assumes "refs_ok False ch" "guarded K P (local_keys ops) (RemoteModeOp ICEMODE_LITE \<in> set ops) (packet_with ops P) R ch"
    "packet_with ops (local_keys ops) \<Longrightarrow> R" "\<forall>p. ProtocolOp p \<notin> set ops" "chan_run xs ch = Some ch'" "set xs \<subseteq> set ops" "remote_keys K xs \<subseteq> P"
  shows "\<exists>K'. guarded K' P (local_keys ops) (RemoteModeOp ICEMODE_LITE \<in> set ops) (packet_with ops P) R ch'"
  using assms(1,2,5-7)
proof (induction xs ch arbitrary: K rule: chan_run.induct)
  case (2 x xs ch)
  then obtain ch1 where c: "chan_step x ch = Some ch1" "chan_run xs ch1 = Some ch'" by (auto split: option.splits)
  have x: "x \<in> set ops" using "2.prems"(4) by simp
  have keys: "remote_keys (next_key K x) xs \<subseteq> remote_keys K (x # xs)" by (auto simp: next_key_def split: ChanOp.splits)
  have "guarded (next_key K x) P (local_keys ops) (RemoteModeOp ICEMODE_LITE \<in> set ops) (packet_with ops P) R ch1"
  proof (cases "\<exists>u p. x = RemoteCredentialsOp u p")
    case True
    then show ?thesis using credentials_guarded[OF "2.prems"(2)] c(1) "2.prems"(5) by (auto simp: next_key_def)
  next
    case False
    then have k: "next_key K x = K" by (cases x) (simp_all add: next_key_def)
    show ?thesis
      unfolding k
      proof (rule step_guarded[OF "2.prems"(1,2) c(1)])
        show "\<And>u p. x \<noteq> RemoteCredentialsOp u p" using False by blast
        show "\<And>r now. x = CandidateOp r now \<Longrightarrow> key_of K r \<in> P" using "2.prems"(5) by auto
        show "\<And>cp now. x = PortReadyOp cp now \<Longrightarrow> port_password (cp_port cp) \<in> local_keys ops" using x by (auto simp: local_keys_def)
        show "x = RemoteModeOp ICEMODE_LITE \<Longrightarrow> RemoteModeOp ICEMODE_LITE \<in> set ops" using x by simp
        show "\<And>p. x \<noteq> ProtocolOp p" using x assms(4) by auto
        show "\<And>pid data a tid now key. x = ChanPacketOp pid data a tid now \<Longrightarrow> authenticated data key \<Longrightarrow>
            (key \<in> P \<longrightarrow> packet_with ops P) \<and> (key \<in> local_keys ops \<longrightarrow> R)"
          using x assms(3) unfolding packet_with_def by blast
      qed
  qed
  then show ?case using "2.IH"[OF c(1) chan_step_refs[OF "2.prems"(1) c(1)] _ c(2)] "2.prems"(4,5) keys by simp
qed auto

text \<open>C2: Nobody without the passwords can bring an ICE channel up, whatever packets come, however they are
  mixed with what the owner does and with the timers: the channel or one of its connections is writable only
  after a packet with an integrity attribute under a password of the other side, and readable only after one
  under the password of a port of its own, or, with an ICE lite peer, under a password of the other side. The
  passwords of the other side are the ones the signalling has brought; none of them is empty if it has brought
  no empty credentials, and no candidate without a password before the credentials.\<close>
theorem channel_authenticated:
  assumes "chan_run ops (chan_SetIceProtocolType ICEPROTO_RFC5245 (P2PTransportChannel_new filter_turn)) = Some ch"
    "\<forall>p. ProtocolOp p \<notin> set ops"
  shows "(ch_writable ch \<or> (\<exists>i pid c. ch_conns_mem ch i = Some (pid, c) \<and> write_state c = STATE_WRITABLE) \<longrightarrow>
      (\<exists>pid data addr random_id now. ChanPacketOp pid data addr random_id now \<in> set ops \<and> (\<exists>key\<in>remote_keys [] ops. authenticated data key))) \<and>
    (ch_readable ch \<or> (\<exists>i pid c. ch_conns_mem ch i = Some (pid, c) \<and> read_state c = STATE_READABLE) \<longrightarrow>
      (\<exists>pid data addr random_id now. ChanPacketOp pid data addr random_id now \<in> set ops \<and>
         ((\<exists>key\<in>local_keys ops. authenticated data key) \<or> RemoteModeOp ICEMODE_LITE \<in> set ops \<and> (\<exists>key\<in>remote_keys [] ops. authenticated data key)))) \<and>
    (credentials_first [] ops \<longrightarrow> [] \<notin> remote_keys [] ops)"
proof -
  define ch0 where "ch0 = chan_SetIceProtocolType ICEPROTO_RFC5245 (P2PTransportChannel_new filter_turn)"
  define P where "P = remote_keys [] ops"
  define W where "W = packet_with ops P"
  define L where "L = (RemoteModeOp ICEMODE_LITE \<in> set ops)"
  define R where "R = (packet_with ops (local_keys ops) \<or> L \<and> W)"
  have "refs_ok False ch0"
    using on_ports_refs[OF setters_refs(7)[OF refs_ok_new]] by (simp add: ch0_def chan_SetIceProtocolType_def)
  moreover have "guarded [] P (local_keys ops) L W R ch0"
    by (simp add: guarded_def ch0_def chan_SetIceProtocolType_def on_ports_def P2PTransportChannel_new_def R_def)
  ultimately obtain K where g: "guarded K P (local_keys ops) L W R ch"
    using run_guarded[of ch0 "[]" P ops R ops ch] assms unfolding ch0_def W_def L_def R_def P_def by blast
  have w: "ch_writable ch \<or> (\<exists>i pid c. ch_conns_mem ch i = Some (pid, c) \<and> write_state c = STATE_WRITABLE) \<longrightarrow> W"
    and r: "ch_readable ch \<or> (\<exists>i pid c. ch_conns_mem ch i = Some (pid, c) \<and> read_state c = STATE_READABLE) \<longrightarrow> R"
    using g by (auto simp: guarded_def conn_guarded_def)
  show ?thesis
    using w r credentials_first_keys[of "[]" ops] unfolding R_def W_def L_def P_def packet_with_def by blast
qed

section \<open>Examples\<close>

definition example_chan_port :: ChanPort where
  "example_chan_port =
     \<lparr>cp_port = (example_port 65 ROLE_CONTROLLED 0)\<lparr>port_candidates := [example_candidate 65]\<rparr>, cp_network = 0, cp_shared = False,
      cp_lifetime = LT_PRETIMEOUT, cp_table = []\<rparr>"

definition example_chan_ops :: "ChanOp list" where
  "example_chan_ops =
     [RoleOp ROLE_CONTROLLED, PortReadyOp example_chan_port 0, RemoteCredentialsOp [66, 66, 66, 66] (replicate 22 66),
      CandidateOp ((example_candidate 66)\<lparr>cand_protocol := UDP_PROTOCOL_NAME, cand_username := [], cand_password := []\<rparr>) 0]"

definition example_chan_start :: IceChannel where
  "example_chan_start = chan_SetIceProtocolType ICEPROTO_RFC5245 (P2PTransportChannel_new False)"

lemma example_chan_made:
  "(case chan_run example_chan_ops example_chan_start of
      None \<Rightarrow> False
    | Some ch \<Rightarrow>
      (case (conn_at ch 1, ch_ports_mem ch 0, ch_conns_mem ch 1) of
         (Some (cp, c), Some cp', Some (pid, c')) \<Rightarrow>
           pid = 0 \<and> cp' = cp \<and> cp_port cp = cp_port example_chan_port \<and>
           GetConnection cp (SocketAddress_of (IPAddress_host 7) 5000) = Some 1 \<and>
           cand_username (conn_remote c) = [66, 66, 66, 66] \<and> cand_password (conn_remote c) = replicate 22 66 \<and> cand_address (conn_remote c) = SocketAddress_of (IPAddress_host 7) 5000
       | _ \<Rightarrow> False))"
  by code_simp

lemma chan_run_snoc: "chan_run (xs @ [x]) ch = (case chan_run xs ch of None \<Rightarrow> None | Some ch \<Rightarrow> chan_step x ch)"
  by (induction xs arbitrary: ch) (auto split: option.split)

text \<open>The check of a peer makes the connection of the example readable.\<close>

lemma example_chan_packet:
  "\<exists>data ch pid c. chan_run (example_chan_ops @ [ChanPacketOp 0 data (SocketAddress_of (IPAddress_host 7) 5000) [] 200]) example_chan_start = Some ch \<and>
     ch_conns_mem ch 1 = Some (pid, c) \<and> read_state c = STATE_READABLE"
proof -
  obtain ch cp c where ch: "chan_run example_chan_ops example_chan_start = Some ch" "conn_at ch 1 = Some (cp, c)" "ch_ports_mem ch 0 = Some cp"
    "\<exists>c'. ch_conns_mem ch 1 = Some (0, c')" "cp_port cp = cp_port example_chan_port" "GetConnection cp (SocketAddress_of (IPAddress_host 7) 5000) = Some 1"
    "cand_username (conn_remote c) = [66, 66, 66, 66]" "cand_address (conn_remote c) = SocketAddress_of (IPAddress_host 7) 5000"
    using example_chan_made by (auto split: option.splits)
  obtain data b1 where b: "conn_OnReadPacket (cp_port cp) 200 data (c\<lparr>conn_log := []\<rparr>) = Some b1" "read_state b1 = STATE_READABLE"
    using checks_connect[of "cp_port cp" "example_port 66 ROLE_CONTROLLING 5" "replicate 12 1"
        "Connection_new (example_candidate 66) (example_candidate 65) 0" "c\<lparr>conn_log := []\<rparr>" 100 0 200 300] example_address_ok ch(5,7,8)
    by (simp add: kStunTransactionIdLength_def Connection_new_def idle_def StunRequestManager_new_def example_candidate_def example_port_def example_chan_port_def) blast
  have "chan_run (example_chan_ops @ [ChanPacketOp 0 data (SocketAddress_of (IPAddress_host 7) 5000) [] 200]) example_chan_start = Some (set_conn 1 b1 ch)"
    using ch b(1) by (simp add: chan_run_snoc UDPPort_OnReadPacket_def)
  moreover obtain c' where "ch_conns_mem ch 1 = Some (0, c')" using ch(4) by blast
  ultimately show ?thesis
    using set_conn_eff(1)[of ch 1 0 c' b1] b(2)
    by (intro exI[of _ data] exI[of _ "set_conn 1 b1 ch"] exI[of _ 0] exI[of _ "b1\<lparr>conn_log := []\<rparr>"]) simp
qed

theorem channel_authenticated_witness:
  "\<exists>ops data. credentials_first [] ops \<and> [] \<notin> remote_keys [] ops \<and> (\<exists>ch pid c. chan_run ops example_chan_start = Some ch \<and> ch_conns_mem ch 1 = Some (pid, c) \<and> read_state c = STATE_READABLE) \<and>
     ops = example_chan_ops @ [ChanPacketOp 0 data (SocketAddress_of (IPAddress_host 7) 5000) [] 200] \<and>
     authenticated data (replicate 22 65)"
proof -
  obtain data ch pid c where c: "chan_run (example_chan_ops @ [ChanPacketOp 0 data (SocketAddress_of (IPAddress_host 7) 5000) [] 200]) example_chan_start = Some ch"
    "ch_conns_mem ch 1 = Some (pid, c)" "read_state c = STATE_READABLE"
    using example_chan_packet by blast
  define ops where "ops = example_chan_ops @ [ChanPacketOp 0 data (SocketAddress_of (IPAddress_host 7) 5000) [] 200]"
  have k: "local_keys ops = {replicate 22 65}"
    by (auto simp: local_keys_def ops_def example_chan_ops_def example_chan_port_def example_port_def)
  have "\<exists>pid data addr random_id now. ChanPacketOp pid data addr random_id now \<in> set ops \<and> authenticated data (replicate 22 65)"
    using channel_authenticated[OF c(1)[unfolded example_chan_start_def], THEN conjunct2, THEN conjunct1] c(2,3)
    unfolding ops_def[symmetric] k by (force simp: ops_def example_chan_ops_def)
  then have a: "authenticated data (replicate 22 65)" by (auto simp: ops_def example_chan_ops_def)
  have f: "credentials_first [] ops" by (simp add: ops_def example_chan_ops_def)
  then have "[] \<notin> remote_keys [] ops"
    using channel_authenticated[OF c(1)[unfolded example_chan_start_def]] by (auto simp: ops_def example_chan_ops_def)
  with f c a show ?thesis unfolding ops_def by blast
qed

end
