(* ===== verification/IceChannelProps.thy ===== *)
theory IceChannelProps
  imports IceChannelAuth
begin

text \<open>
  What an ICE channel promises its owner: pointers that lead to objects, a state that is the one of
  its connections, and a best connection that no other one beats.
\<close>

section \<open>The best connection\<close>

text \<open>Which connection is the head of the sorted list, and that \<^verbatim>\<open>ShouldSwitch\<close> always takes it.\<close>

definition beats :: "ChanPort \<times> Connection \<Rightarrow> ChanPort \<times> Connection \<Rightarrow> bool" where
  "beats a b \<longleftrightarrow> preferred a b \<and> (preferred b a \<longrightarrow> conn_rtt (snd a) \<le> conn_rtt (snd b))"

lemma Compare_beats: "gen_of a < 2 ^ 31 \<Longrightarrow> gen_of b < 2 ^ 31 \<Longrightarrow> \<not> ConnectionCompare b a \<longleftrightarrow> beats a b"
  using Compare_lt[of b a] preferred_total[of a b] by (auto simp: beats_def)

lemma beats_trans: "beats a b \<Longrightarrow> beats b c \<Longrightarrow> beats a c"
  unfolding beats_def using preferred_trans by (meson order_trans)

lemma beats_total: "beats a b \<or> beats b a"
  using preferred_total[of a b] by (auto simp: beats_def)

definition gens_small :: "IceChannel \<Rightarrow> bool" where
  "gens_small ch \<longleftrightarrow> list_all (\<lambda>i. gen_of (at ch i) < 2 ^ 31) (ch_connections ch)"

lemma gens_smallD: "gens_small ch \<Longrightarrow> i \<in> set (ch_connections ch) \<Longrightarrow> gen_of (at ch i) < 2 ^ 31"
  by (simp add: gens_small_def list_all_iff)

lemma sorted_at [simp]: "at (sorted_chan ch) i = at ch i"
  by (rule at_cong) (simp_all add: sorted_chan_def)

lemma the_conn_at: "the_conn ch i = snd (at ch i)"
  by (simp add: at_def)

lemma switched_at [simp]: "at (switched ch) i = at ch i"
  by (rule at_cong) (simp_all add: switched_fields)

lemma sorted_head:
  assumes "gens_small ch" "ch_connections (sorted_chan ch) = b # is" "j \<in> set (ch_connections ch)"
  shows "beats (at ch b) (at ch j)"
proof -
  define lt where "lt = (\<lambda>i j. ConnectionCompare (at ch i) (at ch j))"
  have s: "stable_sort lt (ch_connections ch) = b # is" using assms(2) by (simp add: sorted_chan_def lt_def)
  then have b: "b \<in> set (ch_connections ch)" using stable_sort_set(1)[of lt "ch_connections ch"] by (metis list.set_intros(1))
  have lt: "x \<in> set (ch_connections ch) \<Longrightarrow> y \<in> set (ch_connections ch) \<Longrightarrow> \<not> lt x y \<longleftrightarrow> beats (at ch y) (at ch x)" for x y
    using Compare_beats gens_smallD[OF assms(1)] by (simp add: lt_def)
  have "\<not> lt j b"
  proof (rule stable_sort_hd[where lt = lt, OF _ _ s assms(3)])
    show "\<not> lt y x" if "x \<in> set (ch_connections ch)" "y \<in> set (ch_connections ch)" "lt x y" for x y
      using lt[of x y] lt[of y x] that beats_total by blast
    show "\<not> lt x z" if "x \<in> set (ch_connections ch)" "y \<in> set (ch_connections ch)" "z \<in> set (ch_connections ch)" "\<not> lt x y" "\<not> lt y z" for x y z
      using lt[of x y] lt[of y z] lt[of x z] that beats_trans by blast
  qed
  then show ?thesis using lt b assms(3) by blast
qed

definition chooses :: "IceChannel \<Rightarrow> bool" where
  "chooses ch \<longleftrightarrow> ch_protocol ch \<noteq> ICEPROTO_RFC5245 \<or> ch_role ch = ROLE_CONTROLLING"

lemma switched_best:
  assumes "refs_ok st ch" "gens_small ch" "chooses ch"
  shows "ch_best (switched (sorted_chan ch)) = top_connection (sorted_chan ch)"
proof -
  define s where "s = sorted_chan ch"
  have f: "ch_protocol s = ch_protocol ch" "ch_role s = ch_role ch" "ch_best s = ch_best ch" "set (ch_connections s) = set (ch_connections ch)"
    by (simp_all add: s_def sorted_chan_def)
  have "ShouldSwitch s (ch_best s) (top_connection s) \<or> ch_best s = top_connection s"
  proof (cases "ch_best s"; cases "ch_connections s")
    fix a b "is" assume a: "ch_best s = Some a" and b: "ch_connections s = b # is"
    have in_s: "a \<in> set (ch_connections ch)" "b \<in> set (ch_connections ch)"
      using best_in[OF assms(1)] a b f(3,4) by auto
    have "beats (at ch b) (at ch a)"
      using sorted_head[OF assms(2) b[unfolded s_def] in_s(1)] .
    then have "should_switch (at ch a) (at ch b)"
      using Compare_static(2,3)[OF gens_smallD[OF assms(2) in_s(1)] gens_smallD[OF assms(2) in_s(2)]]
      by (auto simp: should_switch_def Let_def beats_def word_le_nat_alt)
    then show ?thesis using a b sorted_at[of ch] by (simp add: ShouldSwitch_def top_connection_def s_def at_def)
  qed (auto simp: ShouldSwitch_def top_connection_def)
  then show ?thesis
    using assms(3) unfolding switched_fields s_def[symmetric] by (auto simp: f chooses_def)
qed

lemma pruned_beats:
  assumes "pruned_from ch ch'" "ch_best ch = Some b" "beats (at ch b) (at ch j)"
  shows "beats (at ch' b) (at ch' j)"
proof -
  have b: "rank_of (at ch' b) = rank_of (at ch b)" using assms(1,2) by (simp add: pruned_from_def rank_of_def at_def)
  have j: "rank_of (at ch j) \<le> rank_of (at ch' j)" using assms(1) by (simp add: pruned_from_def)
  have e: "prio_of (at ch' i) = prio_of (at ch i)" "gen_of (at ch' i) = gen_of (at ch i)" "conn_rtt (snd (at ch' i)) = conn_rtt (snd (at ch i))" for i
    using assms(1) by (simp_all add: pruned_from_def at_def)
  have st: "static_ge (at ch' x) (at ch' y) = static_ge (at ch x) (at ch y)" for x y by (simp add: static_ge_def e)
  have "preferred (at ch' b) (at ch' j)" using assms(3) b j by (auto simp: beats_def preferred_def st)
  moreover have "preferred (at ch j) (at ch b)" if "preferred (at ch' j) (at ch' b)"
    using that assms(3) b j by (auto simp: beats_def preferred_def st)
  ultimately show ?thesis using assms(3) by (auto simp: beats_def e)
qed

lemma set_states_frame: "refs_ok st ch \<Longrightarrow> ch_best (set_states ch) = ch_best ch \<and> ch_connections (set_states ch) = ch_connections ch \<and> at (set_states ch) i = at ch i"
proof -
  assume "refs_ok st ch"
  then have "ch_writable ch \<longrightarrow> ch_was_writable ch" by (simp add: refs_ok_def)
  from set_states_eff[OF this] obtain ss r l where s: "set_states ch = ch\<lparr>ch_sessions := ss, ch_was_writable := best_writable ch, ch_writable := best_writable ch,
     ch_readable := r, ch_log := l\<rparr>" by blast
  have "at (set_states ch) i = at ch i" by (rule at_cong(1)) (simp_all add: s)
  then show ?thesis by (simp add: s)
qed

lemma Update_remote_port:
  assumes "refs_ok st ch"
  shows "gens_small (UpdateConnectionStates now ch) = gens_small ch"
proof -
  have "i \<in> set (ch_connections ch) \<Longrightarrow> refs_ok st ch \<Longrightarrow> conn_remote (the_conn (on_conn i (UpdateState now) ch) j) = conn_remote (the_conn ch j)" for i j ch
    using on_conn_eff(2,3)[of st ch i, where f = "UpdateState now"] by (cases "j = i") simp_all
  then have "set is \<subseteq> set (ch_connections ch) \<Longrightarrow> refs_ok st ch \<Longrightarrow> conn_remote (the_conn (fold (\<lambda>i. on_conn i (UpdateState now)) is ch) j) = conn_remote (the_conn ch j)" for "is" j ch
  proof (induction "is" arbitrary: ch)
    case (Cons i "is")
    have "refs_ok st (on_conn i (UpdateState now) ch)" "set is \<subseteq> set (ch_connections (on_conn i (UpdateState now) ch))"
      using Cons.prems on_conn_refs[of st ch i "UpdateState now"] on_conn_eff(1)[of st ch i "UpdateState now"] by (simp_all add: framed_def)
    then show ?case using Cons.IH[of "on_conn i (UpdateState now) ch"] Cons.prems by simp
  qed simp
  then show ?thesis
    using assms Update_refs[OF assms, of now] by (simp add: gens_small_def gen_of_def at_def UpdateConnectionStates_def[symmetric] framed_def)
      (simp add: UpdateConnectionStates_def)
qed

lemma sort_best:
  assumes "refs_ok st ch" "gens_small ch" "chooses ch" "SortConnections now ch = Some ch'" "j \<in> set (ch_connections ch')"
  shows "\<exists>b. ch_best ch' = Some b \<and> b \<in> set (ch_connections ch') \<and> beats (at ch' b) (at ch' j) \<and>
    the_conn ch' b = the_conn (UpdateConnectionStates now ch) b"
proof -
  define u where "u = UpdateConnectionStates now ch"
  define s where "s = switched (sorted_chan u)"
  define p where "p = fold prune_network (remdups (map (\<lambda>i. cp_network (the_port u i)) (ch_connections u))) s"
  have u: "refs_ok st u" "gens_small u" "chooses u"
    using Update_refs[OF assms(1), of now] Update_remote_port[OF assms(1), of now] assms(2,3) by (simp_all add: u_def chooses_def framed_def)
  have s: "refs_ok st s" unfolding s_def by (intro switched_refs sorted_refs u)
  have p: "refs_ok st p" "framed s p" "pruned_from s p" using prunes_refs[OF s] prunes_from[OF s] by (simp_all add: p_def)
  have ch': "ch' = set_states p"
    using assms(4) refs_live(1)[OF assms(1)] by (simp add: SortConnections_def sort_step_eq p_def s_def u_def)
  note f = set_states_frame[OF p(1)]
  have conns: "ch_connections ch' = ch_connections (sorted_chan u)" "set (ch_connections ch') = set (ch_connections u)"
    using f p(2) by (simp_all add: ch' framed_def s_def switched_fields) (simp add: sorted_chan_def)
  then obtain b "is" where b: "ch_connections (sorted_chan u) = b # is" using assms(5) by (cases "ch_connections (sorted_chan u)") auto
  have best: "ch_best s = Some b" using switched_best[OF u] b by (simp add: s_def top_connection_def)
  have "beats (at s b) (at s j)" using sorted_head[OF u(2) b] assms(5) conns(2) by (simp add: s_def)
  moreover have "the_conn ch' b = the_conn u b"
    using set_states_frame[OF p(1), of b] p(3) best by (simp add: ch' pruned_from_def at_def s_def) (simp add: at_def[symmetric] the_conn_at)
  ultimately show ?thesis
    using pruned_beats[OF p(3) best] best p(3) f conns(1) b by (simp add: ch' pruned_from_def u_def)
qed

lemma sort_gens:
  assumes "refs_ok st ch" "gens_small ch" "SortConnections now ch = Some ch'"
  shows "gens_small ch'"
proof -
  define u where "u = UpdateConnectionStates now ch"
  define s where "s = switched (sorted_chan u)"
  define p where "p = fold prune_network (remdups (map (\<lambda>i. cp_network (the_port u i)) (ch_connections u))) s"
  have u: "refs_ok st u" "gens_small u"
    using Update_refs[OF assms(1), of now] Update_remote_port[OF assms(1), of now] assms(2) by (simp_all add: u_def)
  have s: "refs_ok st s" unfolding s_def by (intro switched_refs sorted_refs u)
  have p: "refs_ok st p" "framed s p" "pruned_from s p" using prunes_refs[OF s] prunes_from[OF s] by (simp_all add: p_def)
  have "ch' = set_states p"
    using assms(3) refs_live(1)[OF assms(1)] by (simp add: SortConnections_def sort_step_eq p_def s_def u_def)
  then have "at ch' i = at p i" "ch_connections ch' = ch_connections p" for i using set_states_frame[OF p(1)] by simp_all
  moreover have "set (ch_connections p) = set (ch_connections u)" using p(2) by (simp add: framed_def s_def switched_fields) (simp add: sorted_chan_def)
  ultimately show ?thesis using u(2) p(3) by (simp add: gens_small_def list_all_iff pruned_from_def s_def)
qed

text \<open>Among connections that compare alike the fastest is taken, whatever the difference: \<^verbatim>\<open>kMinImprovement\<close>
  never keeps the channel from switching after it has sorted, although its comment asks for that improvement.\<close>

lemma tie_takes_fastest:
  assumes "refs_ok st ch" "gens_small ch" "chooses ch" "SortConnections now ch = Some ch'" "ch_best ch' = Some b"
    "j \<in> set (ch_connections ch')" "CompareConnections (at ch' b) (at ch' j) = 0"
  shows "conn_rtt (the_conn ch' b) \<le> conn_rtt (the_conn ch' j)"
proof -
  have b: "b \<in> set (ch_connections ch')" "beats (at ch' b) (at ch' j)"
    using sort_best[OF assms(1-4,6)] assms(5) by auto
  have g: "gens_small ch'" by (rule sort_gens[OF assms(1,2,4)])
  have "preferred (at ch' j) (at ch' b)"
    using assms(7) Compare_static(3)[OF gens_smallD[OF g b(1)] gens_smallD[OF g assms(6)]] by simp
  then show ?thesis using b(2) by (simp add: beats_def at_def)
qed

section \<open>A controlled channel does not choose\<close>

definition keeps_choice :: "IceChannel \<Rightarrow> IceChannel \<Rightarrow> bool" where
  "keeps_choice ch ch' \<longleftrightarrow>
     (ch_best ch' = ch_best ch \<or> ch_best ch' \<noteq> None \<and> ch_best ch' = ch_pending ch) \<and> (ch_pending ch' = ch_pending ch \<or> ch_pending ch' = None)"

lemma keeps_refl [simp]: "keeps_choice ch ch"
  by (simp add: keeps_choice_def)

lemma keeps_trans: "keeps_choice a b \<Longrightarrow> keeps_choice b c \<Longrightarrow> keeps_choice a c"
  unfolding keeps_choice_def by metis

text \<open>Signals without a nomination.\<close>

definition unnominated :: "ConnEvent \<Rightarrow> bool" where
  "unnominated e \<longleftrightarrow> (case e of UseCandidate w \<Rightarrow> False | _ \<Rightarrow> True)"

lemma unnominated_signal: "unnominated e \<Longrightarrow> keeps_choice ch (conn_signal pid i e ch)"
  by (cases e) (auto simp: unnominated_def keeps_choice_def OnConnectionStateChange_def RequestSort_def post_msg_def chan_log_def SwitchBestConnectionTo_def
      chan_OnReadPacket_def chan_OnReadyToSend_def Let_def)

lemma unnominated_signals: "\<forall>e\<in>set es. unnominated e \<Longrightarrow> keeps_choice ch (fold (conn_signal pid i) es ch)"
proof (induction es arbitrary: ch)
  case (Cons e es)
  then show ?case using keeps_trans[OF unnominated_signal[of e ch pid i] Cons.IH[of "conn_signal pid i e ch"]] by simp
qed simp

definition no_nomination :: "Connection \<Rightarrow> bool" where
  "no_nomination c \<longleftrightarrow> (\<forall>e\<in>set (conn_log c). unnominated e)"

lemma set_no_nomination:
  "no_nomination c \<Longrightarrow> no_nomination (set_read_state v c)" "no_nomination c \<Longrightarrow> no_nomination (set_write_state w c)"
  by (auto simp: conn_setters unnominated_def no_nomination_def)

lemma UpdateState_no_nomination: "no_nomination c \<Longrightarrow> no_nomination (UpdateState now c)"
  by (simp add: UpdateState_def Let_def set_no_nomination)

lemma on_conn_keeps:
  assumes "\<And>c. conn_log c = [] \<Longrightarrow> no_nomination (f c)"
  shows "keeps_choice ch (on_conn i f ch)"
proof (cases "ch_conns_mem ch i")
  case (Some e)
  obtain pid c0 where e: "e = (pid, c0)" by (cases e)
  define c where "c = f ((the_conn ch i)\<lparr>conn_log := []\<rparr>)"
  have "\<forall>e\<in>set (rev (conn_log c)). unnominated e" using assms[of "(the_conn ch i)\<lparr>conn_log := []\<rparr>"] by (simp add: c_def no_nomination_def)
  from unnominated_signals[OF this, of "ch\<lparr>ch_conns_mem := (ch_conns_mem ch)(i \<mapsto> (pid, c\<lparr>conn_log := []\<rparr>))\<rparr>" pid i] show ?thesis
    using Some e by (simp add: on_conn_def set_conn_def c_def keeps_choice_def)
qed (simp add: on_conn_def set_conn_def)

lemma fold_keeps: "(\<And>x ch. keeps_choice ch (f x ch)) \<Longrightarrow> keeps_choice ch (fold f xs ch)"
  by (induction xs arbitrary: ch) (auto intro: keeps_trans)

lemma controlled_sort:
  assumes "refs_ok st ch" "\<not> chooses ch" "SortConnections now ch = Some ch'"
  shows "ch_best ch' = ch_best ch \<or> ch_best ch' \<noteq> None \<and> ch_best ch' = ch_pending ch"
proof -
  define u where "u = UpdateConnectionStates now ch"
  have ku: "keeps_choice ch u"
    unfolding u_def UpdateConnectionStates_def by (intro fold_keeps on_conn_keeps UpdateState_no_nomination) (simp add: no_nomination_def)
  define s where "s = switched (sorted_chan u)"
  have u: "refs_ok st u" "\<not> chooses u"
    using Update_refs[OF assms(1), of now] assms(2) by (simp_all add: u_def chooses_def framed_def)
  have sb: "ch_best s = ch_best u" using u(2) by (simp add: s_def switched_fields chooses_def) (simp add: sorted_chan_def)
  have s: "refs_ok st s" unfolding s_def by (intro switched_refs sorted_refs u)
  have "ch' = set_states (fold prune_network (remdups (map (\<lambda>i. cp_network (the_port u i)) (ch_connections u))) s)"
    using assms(3) refs_live(1)[OF assms(1)] by (simp add: SortConnections_def sort_step_eq s_def u_def)
  then have "ch_best ch' = ch_best s"
    using set_states_frame[OF conjunct1[OF prunes_refs[OF s]]] prunes_from[OF s] by (simp add: pruned_from_def)
  then show ?thesis using ku sb by (auto simp: keeps_choice_def)
qed

section \<open>The next check\<close>

lemma oldest_spec:
  "oldest_pingable ch is b t = Some i \<Longrightarrow> (b \<noteq> None \<Longrightarrow> \<exists>j. b = Some j \<and> last_ping_sent (the_conn ch j) = t) \<Longrightarrow>
     (b = Some i \<or> i \<in> set is \<and> IsPingable ch (the_conn ch i)) \<and> last_ping_sent (the_conn ch i) \<le> t \<and>
     (\<forall>j\<in>set is. IsPingable ch (the_conn ch j) \<longrightarrow> last_ping_sent (the_conn ch i) \<le> last_ping_sent (the_conn ch j))"
proof (induction ch "is" b t rule: oldest_pingable.induct)
  case (2 ch k "is" b t)
  show ?case
  proof (cases "IsPingable ch (the_conn ch k) \<and> last_ping_sent (the_conn ch k) < t")
    case True
    then show ?thesis using "2.IH"(1)[OF True] "2.prems" by auto
  next
    case False
    then have "IsPingable ch (the_conn ch k) \<longrightarrow> t \<le> last_ping_sent (the_conn ch k)" by auto
    then show ?thesis using "2.IH"(2)[OF False] "2.prems" False by auto
  qed
qed auto

lemma oldest_none: "oldest_pingable ch is b t = None \<Longrightarrow> b = None \<and> (\<forall>j\<in>set is. IsPingable ch (the_conn ch j) \<longrightarrow> t \<le> last_ping_sent (the_conn ch j))"
  by (induction ch "is" b t rule: oldest_pingable.induct) (auto split: if_splits simp: not_less)

section \<open>Properties\<close>


text \<open>C13: After its connections have been sorted, an ICE channel is writable exactly if its best connection is, and
  readable exactly if one of its connections is.\<close>
theorem channel_state_sorted:
  assumes "chan_run ops (P2PTransportChannel_new filter_turn) = Some ch" "SortConnections now ch = Some ch'"
  shows "ch_writable ch' = (\<exists>i. ch_best ch' = Some i \<and> i \<in> set (ch_connections ch') \<and> write_state (the_conn ch' i) = STATE_WRITABLE) \<and>
    ch_readable ch' = (\<exists>i\<in>set (ch_connections ch'). read_state (the_conn ch' i) = STATE_READABLE)"
proof -
  have ok: "refs_ok False ch" by (rule chan_runs_refs(1)[OF assms(1)])
  define u where "u = UpdateConnectionStates now ch"
  define p where "p = fold prune_network (remdups (map (\<lambda>i. cp_network (the_port u i)) (ch_connections u))) (switched (sorted_chan u))"
  have p: "refs_ok False p"
    using prunes_refs[OF switched_refs[OF sorted_refs]] Update_refs[OF ok] by (simp add: p_def u_def)
  have "refs_ok False ch'" using SortConnections_refs[OF ok, of now] assms(2) by auto
  then have b: "ch_best ch' = Some i \<Longrightarrow> i \<in> set (ch_connections ch')" for i by (rule best_in)
  have "ch' = set_states p"
    using assms(2) refs_live(1)[OF ok] by (simp add: SortConnections_def sort_step_eq p_def u_def)
  moreover have "ch_writable p \<longrightarrow> ch_was_writable p" using p by (simp add: refs_ok_def)
  from set_states_eff[OF this] obtain ss l where "set_states p = p\<lparr>ch_sessions := ss, ch_was_writable := best_writable p, ch_writable := best_writable p,
     ch_readable := (\<exists>i\<in>set (ch_connections p). read_state (the_conn p i) = STATE_READABLE), ch_log := l\<rparr>" by blast
  ultimately have e: "ch_writable ch' = best_writable p" "ch_readable ch' = (\<exists>i\<in>set (ch_connections p). read_state (the_conn p i) = STATE_READABLE)"
    "ch_best ch' = ch_best p" "ch_connections ch' = ch_connections p" "ch_conns_mem ch' = ch_conns_mem p" "ch_ports_mem ch' = ch_ports_mem p" by simp_all
  have "the_conn ch' i = the_conn p i" for i using at_cong(2)[OF e(5,6)] .
  then show ?thesis using b e by (auto simp: best_writable_def split: option.split)
qed

text \<open>C9: Where the channel chooses (it does not run ICE, or has the controlling role), once its connections have
  been sorted there is a best one and it compares at least as well as every other one: it is more writable, or
  as writable and of a higher priority, or of the same priority and of an equal or newer generation. Sorting and
  pruning leave it alone: it is as the update of the states left it. The sum of the generations of a connection
  is below \<open>2^31\<close>.\<close>
theorem channel_best_connection:
  assumes "chan_run ops (P2PTransportChannel_new filter_turn) = Some ch" "SortConnections now ch = Some ch'"
    "ch_protocol ch \<noteq> ICEPROTO_RFC5245 \<or> ch_role ch = ROLE_CONTROLLING"
    "\<forall>i\<in>set (ch_connections ch). uint (cand_generation (conn_remote (the_conn ch i)) + port_generation (cp_port (the_port ch i))) < 2 ^ 31"
    "ch_connections ch' \<noteq> []"
  shows "\<exists>b. ch_best ch' = Some b \<and> b \<in> set (ch_connections ch') \<and>
    (\<forall>j\<in>set (ch_connections ch'). 0 \<le> CompareConnections (the_port ch' b, the_conn ch' b) (the_port ch' j, the_conn ch' j)) \<and>
    the_conn ch' b = the_conn (UpdateConnectionStates now ch) b"
proof -
  have ok: "refs_ok False ch" by (rule chan_runs_refs(1)[OF assms(1)])
  have g: "gens_small ch" using assms(4) by (simp add: gens_small_def list_all_iff gen_of_def at_def)
  have c: "chooses ch" using assms(3) by (simp add: chooses_def)
  have g': "gens_small ch'" by (rule sort_gens[OF ok g assms(2)])
  note s = sort_best[OF ok g c assms(2)]
  obtain k where "k \<in> set (ch_connections ch')" using assms(5) by (cases "ch_connections ch'") auto
  from s[OF this] obtain b where b: "ch_best ch' = Some b" "b \<in> set (ch_connections ch')"
    "the_conn ch' b = the_conn (UpdateConnectionStates now ch) b" by blast
  have "0 \<le> CompareConnections (at ch' b) (at ch' j)" if "j \<in> set (ch_connections ch')" for j
    using s[OF that] b Compare_static(2)[OF gens_smallD[OF g' b(2)] gens_smallD[OF g' that]] by (simp add: beats_def)
  then show ?thesis using b by (auto simp: at_def)
qed

text \<open>C19: A channel in the controlled role never chooses its best connection by sorting: it stays, or becomes the
  one that the controlling side has nominated.\<close>
theorem controlled_channel_follows:
  assumes "chan_run ops (P2PTransportChannel_new filter_turn) = Some ch" "SortConnections now ch = Some ch'"
    "ch_protocol ch = ICEPROTO_RFC5245" "ch_role ch \<noteq> ROLE_CONTROLLING"
  shows "ch_best ch' = ch_best ch \<or> (\<exists>i. ch_pending ch = Some i \<and> ch_best ch' = Some i)"
  using controlled_sort[OF chan_runs_refs(1)[OF assms(1)] _ assms(2)] assms(3,4) by (auto simp: chooses_def)

text \<open>C40: The connection to check next is the best one whenever that is writable and its last check is
  \<^verbatim>\<open>MAX_CURRENT_WRITABLE_DELAY\<close> or longer ago. Otherwise it is one that can be checked and that has not been checked
  for longer than any other that can be, and there is none only if none can be checked.\<close>
theorem next_ping_oldest:
  assumes "\<forall>i\<in>set (ch_connections ch). last_ping_sent (the_conn ch i) < 0xFFFFFFFF"
  shows "if \<exists>b. ch_best ch = Some b \<and> write_state (the_conn ch b) = STATE_WRITABLE \<and> last_ping_sent (the_conn ch b) + MAX_CURRENT_WRITABLE_DELAY \<le> now
    then FindNextPingableConnection now ch = ch_best ch
    else case FindNextPingableConnection now ch of
      None \<Rightarrow> \<forall>i\<in>set (ch_connections ch). \<not> IsPingable ch (the_conn ch i)
    | Some i \<Rightarrow>
        i \<in> set (ch_connections ch) \<and> IsPingable ch (the_conn ch i) \<and>
        (\<forall>j\<in>set (ch_connections ch). IsPingable ch (the_conn ch j) \<longrightarrow> last_ping_sent (the_conn ch i) \<le> last_ping_sent (the_conn ch j))"
proof (cases "\<exists>b. ch_best ch = Some b \<and> write_state (the_conn ch b) = STATE_WRITABLE \<and> last_ping_sent (the_conn ch b) + MAX_CURRENT_WRITABLE_DELAY \<le> now")
  case True
  then show ?thesis by (auto simp: FindNextPingableConnection_def)
next
  case False
  then have f: "FindNextPingableConnection now ch = oldest_pingable ch (ch_connections ch) None 0xFFFFFFFF"
    by (auto simp: FindNextPingableConnection_def Let_def split: option.splits)
  have "case FindNextPingableConnection now ch of
      None \<Rightarrow> \<forall>i\<in>set (ch_connections ch). \<not> IsPingable ch (the_conn ch i)
    | Some i \<Rightarrow>
        i \<in> set (ch_connections ch) \<and> IsPingable ch (the_conn ch i) \<and>
        (\<forall>j\<in>set (ch_connections ch). IsPingable ch (the_conn ch j) \<longrightarrow> last_ping_sent (the_conn ch i) \<le> last_ping_sent (the_conn ch j))"
  proof (cases "FindNextPingableConnection now ch")
    case None
    from oldest_none[OF this[unfolded f]] show ?thesis using assms None by (auto simp: not_less[symmetric])
  next
    case (Some i)
    from oldest_spec[OF this[unfolded f]] show ?thesis using Some by simp
  qed
  then show ?thesis by (simp only: if_not_P[OF False])
qed

section \<open>Examples\<close>

text \<open>A channel with a port, a remote candidate and the connection between them, in either role.\<close>

definition example_run :: "TransportRole \<Rightarrow> ChanOp list" where
  "example_run role = [ProtocolOp ICEPROTO_RFC5245, RoleOp role, PortReadyOp example_chan_port 0,
     CandidateOp ((example_candidate 66)\<lparr>cand_protocol := UDP_PROTOCOL_NAME\<rparr>) 0]"

definition example_made :: "TransportRole \<Rightarrow> bool" where
  "example_made role =
     (case chan_run (example_run role) (P2PTransportChannel_new False) of
        None \<Rightarrow> False
      | Some ch \<Rightarrow>
        (case SortConnections 10 ch of
           None \<Rightarrow> False
         | Some ch' \<Rightarrow>
           ch_connections ch = [1] \<and> ch_connections ch' = [1] \<and> ch_protocol ch = ICEPROTO_RFC5245 \<and> ch_role ch = role \<and>
           uint (cand_generation (conn_remote (the_conn ch 1)) + port_generation (cp_port (the_port ch 1))) < 2 ^ 31 \<and>
           last_ping_sent (the_conn ch 1) < 0xFFFFFFFF \<and> ch_best ch' = (if role = ROLE_CONTROLLING then Some 1 else None) \<and>
           FindNextPingableConnection 10 ch = Some 1))"

lemma example_made_controlling: "example_made ROLE_CONTROLLING"
  by code_simp

lemma example_made_controlled: "example_made ROLE_CONTROLLED"
  by code_simp


theorem channel_state_sorted_witness:
  "\<exists>ch ch'. chan_run (example_run ROLE_CONTROLLED) (P2PTransportChannel_new False) = Some ch \<and> SortConnections 10 ch = Some ch' \<and>
     ch_best ch' = None \<and> \<not> ch_writable ch'"
proof -
  obtain ch ch' where c: "chan_run (example_run ROLE_CONTROLLED) (P2PTransportChannel_new False) = Some ch" "SortConnections 10 ch = Some ch'" "ch_best ch' = None"
    using example_made_controlled by (auto simp: example_made_def split: option.splits)
  from channel_state_sorted[OF c(1,2)] c show ?thesis by auto
qed

theorem channel_best_connection_witness:
  "\<exists>ch ch'. chan_run (example_run ROLE_CONTROLLING) (P2PTransportChannel_new False) = Some ch \<and> SortConnections 10 ch = Some ch' \<and>
     ch_best ch' = Some 1 \<and> the_conn ch' 1 = the_conn (UpdateConnectionStates 10 ch) 1"
proof -
  obtain ch ch' where c: "chan_run (example_run ROLE_CONTROLLING) (P2PTransportChannel_new False) = Some ch" "SortConnections 10 ch = Some ch'"
    "ch_connections ch = [1]" "ch_connections ch' = [1]" "ch_role ch = ROLE_CONTROLLING"
    "uint (cand_generation (conn_remote (the_conn ch 1)) + port_generation (cp_port (the_port ch 1))) < 2 ^ 31"
    using example_made_controlling by (auto simp: example_made_def split: option.splits)
  from channel_best_connection[OF c(1,2) disjI2[OF c(5)]] c show ?thesis by auto
qed

theorem controlled_channel_follows_witness:
  "\<exists>ch ch'. chan_run (example_run ROLE_CONTROLLED) (P2PTransportChannel_new False) = Some ch \<and> SortConnections 10 ch = Some ch' \<and>
     ch_connections ch' = [1] \<and> (ch_best ch' = ch_best ch \<or> ch_best ch' = ch_pending ch)"
proof -
  obtain ch ch' where c: "chan_run (example_run ROLE_CONTROLLED) (P2PTransportChannel_new False) = Some ch" "SortConnections 10 ch = Some ch'"
    "ch_connections ch' = [1]" "ch_protocol ch = ICEPROTO_RFC5245" "ch_role ch \<noteq> ROLE_CONTROLLING"
    using example_made_controlled by (auto simp: example_made_def split: option.splits)
  from controlled_channel_follows[OF c(1,2,4,5)] c show ?thesis by auto
qed

theorem next_ping_oldest_witness:
  "\<exists>ch. chan_run (example_run ROLE_CONTROLLING) (P2PTransportChannel_new False) = Some ch \<and> FindNextPingableConnection 10 ch = Some 1 \<and>
     (IsPingable ch (the_conn ch 1) \<or> ch_best ch = Some 1)"
proof -
  obtain ch where c: "chan_run (example_run ROLE_CONTROLLING) (P2PTransportChannel_new False) = Some ch" "FindNextPingableConnection 10 ch = Some 1"
    "ch_connections ch = [1]" "last_ping_sent (the_conn ch 1) < 0xFFFFFFFF"
    using example_made_controlling by (auto simp: example_made_def split: option.splits)
  from next_ping_oldest[of ch 10] c show ?thesis by (auto split: if_splits)
qed

end
