(* ===== verification/RtpUtils.thy ===== *)
theory RtpUtils
  imports ByteOrder
begin

text \<open>
  The RTP and RTCP header accessors of \<^verbatim>\<open>talk/media/base/rtputils.h\<close> and
  \<^verbatim>\<open>rtputils.cc\<close>. A packet is a byte list; the pointers the code compares with
  \<^verbatim>\<open>NULL\<close> are valid here. A reader gives \<open>None\<close> where the code returns false. The
  writers ignore the length they are given: they return their result with the memory they leave,
  and \<open>None\<close> for a write outside it.
\<close>

section \<open>Constants\<close>

definition kRtpVersion :: int where "kRtpVersion = 2"
definition kRtpFlagsOffset :: nat where "kRtpFlagsOffset = 0"
definition kRtpPayloadTypeOffset :: nat where "kRtpPayloadTypeOffset = 1"
definition kRtpSeqNumOffset :: nat where "kRtpSeqNumOffset = 2"
definition kRtpTimestampOffset :: nat where "kRtpTimestampOffset = 4"
definition kRtpSsrcOffset :: nat where "kRtpSsrcOffset = 8"
definition kRtcpPayloadTypeOffset :: nat where "kRtcpPayloadTypeOffset = 1"
definition kMinRtpPacketLen :: nat where "kMinRtpPacketLen = 12"
definition kMaxRtpPacketLen :: nat where "kMaxRtpPacketLen = 2048"
definition kMinRtcpPacketLen :: nat where "kMinRtcpPacketLen = 4"
definition kRtcpTypeSDES :: int where "kRtcpTypeSDES = 202"

lemmas rtp_offsets = kRtpFlagsOffset_def kRtpPayloadTypeOffset_def kRtpSeqNumOffset_def kRtpTimestampOffset_def
  kRtpSsrcOffset_def kRtcpPayloadTypeOffset_def kMinRtpPacketLen_def kMinRtcpPacketLen_def

record RtpHeader =
  rtp_payload_type :: int
  rtp_seq_num :: int
  rtp_timestamp :: u32
  rtp_ssrc :: u32

section \<open>Fields at an offset\<close>

definition GetUint8 :: "u8 list \<Rightarrow> nat \<Rightarrow> int" where
  "GetUint8 data offset = uint (data ! offset)"

definition GetUint16 :: "u8 list \<Rightarrow> nat \<Rightarrow> int" where
  "GetUint16 data offset = uint (GetBE16 (drop offset data))"

definition GetUint32 :: "u8 list \<Rightarrow> nat \<Rightarrow> u32" where
  "GetUint32 data offset = GetBE32 (drop offset data)"

definition SetUint8 :: "u8 list \<Rightarrow> nat \<Rightarrow> int \<Rightarrow> (bool \<times> u8 list) option" where
  "SetUint8 data offset value =
     (if offset < length data then Some (True, Set8 data offset (word_of_int value)) else None)"

definition SetUint16 :: "u8 list \<Rightarrow> nat \<Rightarrow> int \<Rightarrow> (bool \<times> u8 list) option" where
  "SetUint16 data offset value =
     (if offset + 2 \<le> length data
      then Some (True, take offset data @ SetBE16 (drop offset data) (word_of_int value)) else None)"

definition SetUint32 :: "u8 list \<Rightarrow> nat \<Rightarrow> u32 \<Rightarrow> (bool \<times> u8 list) option" where
  "SetUint32 data offset value =
     (if offset + 4 \<le> length data
      then Some (True, take offset data @ SetBE32 (drop offset data) value) else None)"

section \<open>Readers\<close>

definition GetRtpFlags :: "u8 list \<Rightarrow> int option" where
  "GetRtpFlags data = (if length data < kMinRtpPacketLen then None else Some (GetUint8 data kRtpFlagsOffset))"

definition GetRtpPayloadType :: "u8 list \<Rightarrow> int option" where
  "GetRtpPayloadType data =
     (if length data < kMinRtpPacketLen then None else Some (GetUint8 data kRtpPayloadTypeOffset AND 0x7F))"

definition GetRtpSeqNum :: "u8 list \<Rightarrow> int option" where
  "GetRtpSeqNum data = (if length data < kMinRtpPacketLen then None else Some (GetUint16 data kRtpSeqNumOffset))"

definition GetRtpTimestamp :: "u8 list \<Rightarrow> u32 option" where
  "GetRtpTimestamp data = (if length data < kMinRtpPacketLen then None else Some (GetUint32 data kRtpTimestampOffset))"

definition GetRtpSsrc :: "u8 list \<Rightarrow> u32 option" where
  "GetRtpSsrc data = (if length data < kMinRtpPacketLen then None else Some (GetUint32 data kRtpSsrcOffset))"

definition GetRtpHeaderLen :: "u8 list \<Rightarrow> nat option" where
  "GetRtpHeaderLen header =
     (if length header < kMinRtpPacketLen then None
      else
        let header_size = kMinRtpPacketLen + unat (header ! 0 AND 0xF) * 4
        in if length header < header_size then None
           else if header ! 0 AND 0x10 \<noteq> 0 then
             (if length header < header_size + 4 then None
              else
                let header_size = header_size + (unat (GetBE16 (drop (header_size + 2) header)) + 1) * 4
                in if length header < header_size then None else Some header_size)
           else Some header_size)"

definition GetRtpVersion :: "u8 list \<Rightarrow> int option" where
  "GetRtpVersion data = (if length data = 0 then None else Some (drop_bit 6 (uint (data ! 0)) AND 0x3))"

definition GetRtpHeader :: "u8 list \<Rightarrow> RtpHeader option" where
  "GetRtpHeader data =
     (case GetRtpPayloadType data of
        None \<Rightarrow> None
      | Some pt \<Rightarrow>
        (case GetRtpSeqNum data of
           None \<Rightarrow> None
         | Some sn \<Rightarrow>
           (case GetRtpTimestamp data of
              None \<Rightarrow> None
            | Some ts \<Rightarrow>
              (case GetRtpSsrc data of
                 None \<Rightarrow> None
               | Some ss \<Rightarrow> Some \<lparr>rtp_payload_type = pt, rtp_seq_num = sn, rtp_timestamp = ts, rtp_ssrc = ss\<rparr>))))"

definition GetRtcpType :: "u8 list \<Rightarrow> int option" where
  "GetRtcpType data = (if length data < kMinRtcpPacketLen then None else Some (GetUint8 data kRtcpPayloadTypeOffset))"

definition GetRtcpSsrc :: "u8 list \<Rightarrow> u32 option" where
  "GetRtcpSsrc data =
     (if length data < kMinRtcpPacketLen + 4 then None
      else
        case GetRtcpType data of
          None \<Rightarrow> None
        | Some pl_type \<Rightarrow> if pl_type = kRtcpTypeSDES then None else Some (GetBE32 (drop 4 data)))"

section \<open>Writers\<close>

definition SetRtpHeaderFlags :: "u8 list \<Rightarrow> bool \<Rightarrow> bool \<Rightarrow> int \<Rightarrow> (bool \<times> u8 list) option" where
  "SetRtpHeaderFlags data padding extension csrc_count =
     (if csrc_count > 0x0F then Some (False, data)
      else
        let flags = 0;
            flags = flags OR push_bit 6 kRtpVersion;
            flags = flags OR push_bit 5 (if padding then 1 else 0);
            flags = flags OR push_bit 4 (if extension then 1 else 0);
            flags = flags OR csrc_count
        in SetUint8 data kRtpFlagsOffset flags)"

definition SetRtpPayloadType :: "u8 list \<Rightarrow> int \<Rightarrow> (bool \<times> u8 list) option" where
  "SetRtpPayloadType data value =
     (if value \<ge> 0x7F then Some (False, data) else SetUint8 data kRtpPayloadTypeOffset (value AND 0x7F))"

definition SetRtpSeqNum :: "u8 list \<Rightarrow> int \<Rightarrow> (bool \<times> u8 list) option" where
  "SetRtpSeqNum data value = SetUint16 data kRtpSeqNumOffset value"

definition SetRtpTimestamp :: "u8 list \<Rightarrow> u32 \<Rightarrow> (bool \<times> u8 list) option" where
  "SetRtpTimestamp data value = SetUint32 data kRtpTimestampOffset value"

definition SetRtpSsrc :: "u8 list \<Rightarrow> u32 \<Rightarrow> (bool \<times> u8 list) option" where
  "SetRtpSsrc data value = SetUint32 data kRtpSsrcOffset value"

text \<open>\<^verbatim>\<open>a && b\<close> on writers: the second runs on what the first left, if that returned true.\<close>

definition and_then :: "(bool \<times> u8 list) option \<Rightarrow> (u8 list \<Rightarrow> (bool \<times> u8 list) option) \<Rightarrow> (bool \<times> u8 list) option" where
  "and_then r f = (case r of None \<Rightarrow> None | Some (ok, data) \<Rightarrow> if ok then f data else Some (False, data))"

definition SetRtpHeader :: "u8 list \<Rightarrow> RtpHeader \<Rightarrow> (bool \<times> u8 list) option" where
  "SetRtpHeader data header =
     and_then (SetRtpHeaderFlags data False False 0) (\<lambda>data.
     and_then (SetRtpPayloadType data (rtp_payload_type header)) (\<lambda>data.
     and_then (SetRtpSeqNum data (rtp_seq_num header)) (\<lambda>data.
     and_then (SetRtpTimestamp data (rtp_timestamp header)) (\<lambda>data.
     SetRtpSsrc data (rtp_ssrc header)))))"

section \<open>Properties\<close>

lemma rtp_header_len_bounds:
  "GetRtpHeaderLen data = Some n \<Longrightarrow> kMinRtpPacketLen \<le> n \<and> n \<le> length data \<and> n mod 4 = 0"
  by (auto simp: GetRtpHeaderLen_def Let_def kMinRtpPacketLen_def split: if_split_asm)

text \<open>The fields of the header lie side by side.\<close>

definition rtp_header_bytes :: "RtpHeader \<Rightarrow> u8 list" where
  "rtp_header_bytes h =
     [0x80, word_of_int (rtp_payload_type h AND 0x7F)] @ be_bytes 2 (word_of_int (rtp_seq_num h) :: u16) @
      be_bytes 4 (rtp_timestamp h) @ be_bytes 4 (rtp_ssrc h)"

lemma length_rtp_header_bytes [simp]: "length (rtp_header_bytes h) = 12"
  by (simp add: rtp_header_bytes_def)

lemma SetRtpHeader_bytes:
  assumes "12 \<le> length data" "rtp_payload_type h < 0x7F"
  shows "SetRtpHeader data h = Some (True, rtp_header_bytes h @ drop 12 data)"
proof -
  obtain a b rest where "data = a # b # rest" "10 \<le> length rest"
    using assms(1) by (cases data; cases "tl data") auto
  then show ?thesis
    using assms(2)
    by (simp add: SetRtpHeader_def and_then_def SetRtpHeaderFlags_def SetRtpPayloadType_def SetRtpSeqNum_def
      SetRtpTimestamp_def SetRtpSsrc_def rtp_offsets SetUint8_def SetUint16_def SetUint32_def Set8_def
      SetBE16_eq SetBE32_eq kRtpVersion_def rtp_header_bytes_def)
qed

lemma and_127: "(v :: int) AND 0x7F = v mod 0x80"
  using take_bit_eq_mask[of 7 v] by (simp add: take_bit_eq_mod mask_eq_exp_minus_1)

lemma GetRtpHeader_bytes:
  assumes "0 \<le> rtp_payload_type h" "rtp_payload_type h < 0x80" "0 \<le> rtp_seq_num h" "rtp_seq_num h < 0x10000"
  shows "GetRtpHeader (rtp_header_bytes h @ rest) = Some h"
proof -
  have "uint (word_of_int (rtp_payload_type h AND 0x7F) :: u8) AND 0x7F = rtp_payload_type h"
    "uint (word_of_int (rtp_seq_num h) :: u16) = rtp_seq_num h"
    using assms by (simp_all add: and_127 uint_word_of_int)
  then show ?thesis
    by (simp add: GetRtpHeader_def GetRtpPayloadType_def GetRtpSeqNum_def GetRtpTimestamp_def GetRtpSsrc_def rtp_offsets
      GetUint8_def GetUint16_def GetUint32_def GetBE16_eq GetBE32_eq rtp_header_bytes_def be_word_be_bytes)
qed

text \<open>\<^verbatim>\<open>SetRtpHeader\<close> on a buffer of at least 12 bytes writes a header of 12
  bytes and version 2 that \<^verbatim>\<open>GetRtpHeader\<close> reads back, and leaves the payload alone, for
  every payload type it accepts; type 127, which the reader allows, it refuses after it has
  written the first byte.\<close>
theorem rtp_header_roundtrip:
  assumes "12 \<le> length data" "0 \<le> rtp_payload_type h" "rtp_payload_type h < 0x80" "0 \<le> rtp_seq_num h" "rtp_seq_num h < 0x10000"
  shows "if rtp_payload_type h < 0x7F then
     \<exists>packet. SetRtpHeader data h = Some (True, packet) \<and> length packet = length data \<and>
       GetRtpHeader packet = Some h \<and> GetRtpHeaderLen packet = Some 12 \<and> GetRtpVersion packet = Some 2 \<and>
       drop 12 packet = drop 12 data
     else GetRtpHeader (rtp_header_bytes h @ drop 12 data) = Some h \<and> SetRtpHeader data h = Some (False, data[0 := 0x80])"
proof (cases "rtp_payload_type h < 0x7F")
  case True
  have "GetRtpHeaderLen (rtp_header_bytes h @ drop 12 data) = Some 12"
    "GetRtpVersion (rtp_header_bytes h @ drop 12 data) = Some 2"
    by (simp_all add: GetRtpHeaderLen_def GetRtpVersion_def kMinRtpPacketLen_def rtp_header_bytes_def)
  then show ?thesis
    using True assms SetRtpHeader_bytes[of data h] GetRtpHeader_bytes[of h] by simp
next
  case False
  then show ?thesis
    using assms GetRtpHeader_bytes[of h]
    by (auto simp: SetRtpHeader_def and_then_def SetRtpHeaderFlags_def SetRtpPayloadType_def rtp_offsets SetUint8_def
        Set8_def kRtpVersion_def)
qed

theorem rtp_header_roundtrip_witness:
  "\<exists>packet. SetRtpHeader (replicate 20 7) \<lparr>rtp_payload_type = 96, rtp_seq_num = 65535, rtp_timestamp = 160, rtp_ssrc = 0xABCD\<rparr> = Some (True, packet) \<and>
     GetRtpHeader packet = Some \<lparr>rtp_payload_type = 96, rtp_seq_num = 65535, rtp_timestamp = 160, rtp_ssrc = 0xABCD\<rparr>"
  using rtp_header_roundtrip[of "replicate 20 7" "\<lparr>rtp_payload_type = 96, rtp_seq_num = 65535, rtp_timestamp = 160, rtp_ssrc = 0xABCD\<rparr>"]
  by auto

end
