(* ===== verification/MuxFilters.thy ===== *)
theory MuxFilters
  imports StreamParams RtpUtils
begin

text \<open>
  The two filters that sort the packets of a shared transport channel:
  \<^verbatim>\<open>talk/session/media/ssrcmuxfilter.cc\<close>, which accepts the packets of the streams it
  knows, and \<^verbatim>\<open>talk/session/media/rtcpmuxfilter.cc\<close>, the negotiation of RTCP on the RTP
  channel and the test that tells the two apart.
\<close>

section \<open>SsrcMuxFilter\<close>

definition kSsrc01 :: u32 where "kSsrc01 = 1"

type_synonym SsrcMuxFilter = "StreamParams list"

definition SsrcMuxFilter_new :: SsrcMuxFilter where "SsrcMuxFilter_new = []"

definition Ssrc_IsActive :: "SsrcMuxFilter \<Rightarrow> bool" where
  "Ssrc_IsActive streams \<longleftrightarrow> streams \<noteq> []"

definition Ssrc_AddStream :: "SsrcMuxFilter \<Rightarrow> StreamParams \<Rightarrow> bool \<times> SsrcMuxFilter" where
  "Ssrc_AddStream streams stream =
     (if GetStreamBySsrc streams (first_ssrc stream) \<noteq> None then (False, streams) else (True, streams @ [stream]))"

definition Ssrc_RemoveStream :: "SsrcMuxFilter \<Rightarrow> u32 \<Rightarrow> bool \<times> SsrcMuxFilter" where
  "Ssrc_RemoveStream streams ssrc = RemoveStreamBySsrc streams ssrc"

definition FindStream :: "SsrcMuxFilter \<Rightarrow> u32 \<Rightarrow> bool" where
  "FindStream streams ssrc = (if ssrc = 0 then False else GetStreamBySsrc streams ssrc \<noteq> None)"

text \<open>The result of \<^verbatim>\<open>GetRtpSsrc\<close> is not looked at: a short packet has SSRC 0.\<close>

definition DemuxPacket :: "SsrcMuxFilter \<Rightarrow> u8 list \<Rightarrow> bool \<Rightarrow> bool" where
  "DemuxPacket streams data rtcp =
     (if \<not> rtcp then
        (case GetRtpSsrc data of None \<Rightarrow> FindStream streams 0 | Some ssrc \<Rightarrow> FindStream streams ssrc)
      else
        case GetRtcpType data of
          None \<Rightarrow> False
        | Some pl_type \<Rightarrow>
          if pl_type = kRtcpTypeSDES then True
          else
            case GetRtcpSsrc data of
              None \<Rightarrow> False
            | Some ssrc \<Rightarrow> if ssrc = kSsrc01 then True else FindStream streams ssrc)"

subsection \<open>What the filter lets through\<close>

lemma FindStream_iff: "FindStream streams ssrc \<longleftrightarrow> ssrc \<noteq> 0 \<and> (\<exists>s\<in>set streams. has_ssrc s ssrc)"
  using GetStream_None[of streams "StreamSelector_ssrc ssrc"] by (auto simp: FindStream_def GetStreamBySsrc_def)

lemma FindStream_AddStream:
  "Ssrc_AddStream streams s = (True, t) \<Longrightarrow> FindStream t ssrc \<longleftrightarrow> FindStream streams ssrc \<or> ssrc \<noteq> 0 \<and> has_ssrc s ssrc"
  by (auto simp: Ssrc_AddStream_def FindStream_iff split: if_split_asm)

lemma FindStream_RemoveStream:
  "ssrc \<noteq> 0 \<Longrightarrow> FindStream (snd (Ssrc_RemoveStream streams ssrc)) x \<longleftrightarrow>
     x \<noteq> 0 \<and> (\<exists>s\<in>set streams. has_ssrc s x \<and> \<not> has_ssrc s ssrc)"
  by (auto simp: Ssrc_RemoveStream_def RemoveStreamBySsrc_def RemoveStream_eq FindStream_iff)

lemma RemoveStream_zero:
  "Ssrc_RemoveStream streams 0 =
     (\<exists>s\<in>set streams. groupid s = [] \<and> stream_id s = [], filter (\<lambda>s. \<not> (groupid s = [] \<and> stream_id s = [])) streams)"
  by (simp add: Ssrc_RemoveStream_def RemoveStreamBySsrc_def RemoveStream_eq)

lemma DemuxPacket_rtp: "DemuxPacket streams data False \<longleftrightarrow> (\<exists>ssrc. GetRtpSsrc data = Some ssrc \<and> FindStream streams ssrc)"
  by (auto simp: DemuxPacket_def FindStream_iff split: option.splits)

text \<open>The SSRCs the filter lets through.\<close>

definition known_ssrcs :: "SsrcMuxFilter \<Rightarrow> u32 set" where
  "known_ssrcs streams = (\<Union>s\<in>set streams. set (ssrcs s)) - {0}"

lemma known_FindStream: "ssrc \<in> known_ssrcs streams \<longleftrightarrow> FindStream streams ssrc"
  by (auto simp: known_ssrcs_def FindStream_iff has_ssrc_def)

text \<open>C22: The filter is the set of the SSRCs of its streams: it accepts the RTP packets whose SSRC is
  in the set, adding a stream adds its SSRCs, and removing an SSRC takes out every stream that has it,
  and with it the stream's other SSRCs. A zero SSRC is not one of them, but removing it removes the
  streams without identifiers, the ones made by \<^verbatim>\<open>CreateLegacy\<close> among them.\<close>
theorem ssrc_filter_set:
  "(DemuxPacket streams data False \<longleftrightarrow> (\<exists>ssrc. GetRtpSsrc data = Some ssrc \<and> ssrc \<in> known_ssrcs streams)) \<and>
   known_ssrcs (snd (Ssrc_AddStream streams s)) =
     known_ssrcs streams \<union> (if fst (Ssrc_AddStream streams s) then set (ssrcs s) - {0} else {}) \<and>
   (if ssrc \<noteq> 0
    then fst (Ssrc_RemoveStream streams ssrc) = (ssrc \<in> known_ssrcs streams) \<and>
      known_ssrcs (snd (Ssrc_RemoveStream streams ssrc)) = known_ssrcs (filter (\<lambda>t. ssrc \<notin> set (ssrcs t)) streams)
    else snd (Ssrc_RemoveStream streams ssrc) = filter (\<lambda>t. \<not> (groupid t = [] \<and> stream_id t = [])) streams)"
proof (intro conjI)
  show "DemuxPacket streams data False \<longleftrightarrow> (\<exists>ssrc. GetRtpSsrc data = Some ssrc \<and> ssrc \<in> known_ssrcs streams)"
    by (simp add: DemuxPacket_rtp known_FindStream)
  show "known_ssrcs (snd (Ssrc_AddStream streams s)) =
     known_ssrcs streams \<union> (if fst (Ssrc_AddStream streams s) then set (ssrcs s) - {0} else {})"
    by (auto simp: Ssrc_AddStream_def known_ssrcs_def)
  show "if ssrc \<noteq> 0
    then fst (Ssrc_RemoveStream streams ssrc) = (ssrc \<in> known_ssrcs streams) \<and>
      known_ssrcs (snd (Ssrc_RemoveStream streams ssrc)) = known_ssrcs (filter (\<lambda>t. ssrc \<notin> set (ssrcs t)) streams)
    else snd (Ssrc_RemoveStream streams ssrc) = filter (\<lambda>t. \<not> (groupid t = [] \<and> stream_id t = [])) streams"
    by (auto simp: RemoveStream_zero Ssrc_RemoveStream_def RemoveStreamBySsrc_def RemoveStream_eq known_ssrcs_def has_ssrc_def)
qed

text \<open>Removing SSRC 0 from a filter with a stream for SSRC 7 removes that stream.\<close>

lemma remove_zero_removes_legacy: "Ssrc_RemoveStream [CreateLegacy 7] 0 = (True, [])"
  by (simp add: RemoveStream_zero CreateLegacy_def)

section \<open>RtcpMuxFilter\<close>

datatype ContentSource = CS_LOCAL | CS_REMOTE

datatype MuxState = ST_INIT | ST_RECEIVEDOFFER | ST_SENTOFFER | ST_SENTPRANSWER | ST_RECEIVEDPRANSWER | ST_ACTIVE

fun mux_rank :: "MuxState \<Rightarrow> nat" where
  "mux_rank ST_INIT = 0"
| "mux_rank ST_RECEIVEDOFFER = 1"
| "mux_rank ST_SENTOFFER = 2"
| "mux_rank ST_SENTPRANSWER = 3"
| "mux_rank ST_RECEIVEDPRANSWER = 4"
| "mux_rank ST_ACTIVE = 5"

lemma mux_rank_inj: "mux_rank a = mux_rank b \<longleftrightarrow> a = b"
  by (cases a; cases b) simp_all

instantiation MuxState :: linorder
begin

definition less_eq_MuxState :: "MuxState \<Rightarrow> MuxState \<Rightarrow> bool" where
  "less_eq_MuxState a b \<longleftrightarrow> mux_rank a \<le> mux_rank b"

definition less_MuxState :: "MuxState \<Rightarrow> MuxState \<Rightarrow> bool" where
  "less_MuxState a b \<longleftrightarrow> mux_rank a < mux_rank b"

instance
  by standard (auto simp: less_eq_MuxState_def less_MuxState_def mux_rank_inj)

end

record RtcpMuxFilter =
  mux_state :: MuxState
  offer_enable :: bool

definition RtcpMuxFilter_new :: RtcpMuxFilter where
  "RtcpMuxFilter_new = \<lparr>mux_state = ST_INIT, offer_enable = False\<rparr>"

definition Mux_IsActive :: "RtcpMuxFilter \<Rightarrow> bool" where
  "Mux_IsActive f \<longleftrightarrow> mux_state f = ST_SENTPRANSWER \<or> mux_state f = ST_RECEIVEDPRANSWER \<or> mux_state f = ST_ACTIVE"

definition Mux_ExpectOffer :: "RtcpMuxFilter \<Rightarrow> bool \<Rightarrow> ContentSource \<Rightarrow> bool" where
  "Mux_ExpectOffer f enable source \<longleftrightarrow>
     mux_state f = ST_INIT \<or>
     mux_state f = ST_ACTIVE \<and> enable = offer_enable f \<or>
     mux_state f = ST_SENTOFFER \<and> source = CS_LOCAL \<or>
     mux_state f = ST_RECEIVEDOFFER \<and> source = CS_REMOTE"

definition Mux_ExpectAnswer :: "RtcpMuxFilter \<Rightarrow> ContentSource \<Rightarrow> bool" where
  "Mux_ExpectAnswer f source \<longleftrightarrow>
     mux_state f = ST_SENTOFFER \<and> source = CS_REMOTE \<or>
     mux_state f = ST_RECEIVEDOFFER \<and> source = CS_LOCAL \<or>
     mux_state f = ST_SENTPRANSWER \<and> source = CS_LOCAL \<or>
     mux_state f = ST_RECEIVEDPRANSWER \<and> source = CS_REMOTE"

definition Mux_SetOffer :: "RtcpMuxFilter \<Rightarrow> bool \<Rightarrow> ContentSource \<Rightarrow> bool \<times> RtcpMuxFilter" where
  "Mux_SetOffer f enable src =
     (if \<not> Mux_ExpectOffer f enable src then (False, f)
      else (True, f\<lparr>offer_enable := enable, mux_state := (if src = CS_LOCAL then ST_SENTOFFER else ST_RECEIVEDOFFER)\<rparr>))"

definition Mux_SetProvisionalAnswer :: "RtcpMuxFilter \<Rightarrow> bool \<Rightarrow> ContentSource \<Rightarrow> bool \<times> RtcpMuxFilter" where
  "Mux_SetProvisionalAnswer f answer_enable src =
     (if \<not> Mux_ExpectAnswer f src then (False, f)
      else if offer_enable f then
        (if answer_enable then (True, f\<lparr>mux_state := (if src = CS_REMOTE then ST_RECEIVEDPRANSWER else ST_SENTPRANSWER)\<rparr>)
         else (True, f\<lparr>mux_state := (if src = CS_REMOTE then ST_SENTOFFER else ST_RECEIVEDOFFER)\<rparr>))
      else if answer_enable then (False, f)
      else (True, f))"

definition Mux_SetAnswer :: "RtcpMuxFilter \<Rightarrow> bool \<Rightarrow> ContentSource \<Rightarrow> bool \<times> RtcpMuxFilter" where
  "Mux_SetAnswer f answer_enable src =
     (if \<not> Mux_ExpectAnswer f src then (False, f)
      else if offer_enable f \<and> answer_enable then (True, f\<lparr>mux_state := ST_ACTIVE\<rparr>)
      else if answer_enable then (False, f)
      else (True, f\<lparr>mux_state := ST_INIT\<rparr>))"

definition DemuxRtcp :: "RtcpMuxFilter \<Rightarrow> u8 list \<Rightarrow> bool" where
  "DemuxRtcp f data =
     (if \<not> offer_enable f \<or> mux_state f < ST_SENTOFFER then False
      else let type = (if length data \<ge> 2 then uint (data ! 1) AND 0x7F else 0) in 64 \<le> type \<and> type < 96)"

subsection \<open>Two ends\<close>

text \<open>
  A negotiation between two ends: the party \<open>by\<close> makes each description. It sets it as its
  local one and the other end as the remote one.
\<close>

datatype MuxOp = Offer bool | PrAnswer bool | Answer bool

fun mux_apply :: "MuxOp \<Rightarrow> ContentSource \<Rightarrow> RtcpMuxFilter \<Rightarrow> bool \<times> RtcpMuxFilter" where
  "mux_apply (Offer e) src f = Mux_SetOffer f e src"
| "mux_apply (PrAnswer e) src f = Mux_SetProvisionalAnswer f e src"
| "mux_apply (Answer e) src f = Mux_SetAnswer f e src"

datatype Party = Alice | Bob

fun mux_exchange :: "Party \<times> MuxOp \<Rightarrow> RtcpMuxFilter \<times> RtcpMuxFilter \<Rightarrow> (bool \<times> bool) \<times> RtcpMuxFilter \<times> RtcpMuxFilter" where
  "mux_exchange (by, op) (a, b) =
     (let (ra, a) = mux_apply op (if by = Alice then CS_LOCAL else CS_REMOTE) a;
          (rb, b) = mux_apply op (if by = Bob then CS_LOCAL else CS_REMOTE) b
      in ((ra, rb), a, b))"

inductive mux_negotiated :: "RtcpMuxFilter \<times> RtcpMuxFilter \<Rightarrow> bool" where
  start: "mux_negotiated (RtcpMuxFilter_new, RtcpMuxFilter_new)"
| step: "mux_negotiated ends \<Longrightarrow> mux_negotiated (snd (mux_exchange m ends))"

fun mux_mirror :: "MuxState \<Rightarrow> MuxState" where
  "mux_mirror ST_RECEIVEDOFFER = ST_SENTOFFER"
| "mux_mirror ST_SENTOFFER = ST_RECEIVEDOFFER"
| "mux_mirror ST_SENTPRANSWER = ST_RECEIVEDPRANSWER"
| "mux_mirror ST_RECEIVEDPRANSWER = ST_SENTPRANSWER"
| "mux_mirror s = s"

text \<open>The ends are in mirrored states, and only an offered filter is active.\<close>

definition mux_agree :: "RtcpMuxFilter \<times> RtcpMuxFilter \<Rightarrow> bool" where
  "mux_agree ends \<longleftrightarrow>
     mux_state (snd ends) = mux_mirror (mux_state (fst ends)) \<and> offer_enable (fst ends) = offer_enable (snd ends) \<and>
     (Mux_IsActive (fst ends) \<longrightarrow> offer_enable (fst ends))"

lemmas mux_ops = Mux_SetOffer_def Mux_SetProvisionalAnswer_def Mux_SetAnswer_def Mux_ExpectOffer_def Mux_ExpectAnswer_def Mux_IsActive_def

lemma mux_exchange_agree:
  assumes "mux_agree ends" "mux_exchange m ends = ((ra, rb), ends')"
  shows "ra = rb \<and> mux_agree ends'"
proof -
  obtain a b by' op where *: "ends = (a, b)" "m = (by', op)" by (metis surj_pair)
  show ?thesis
    using assms unfolding *
    by (cases op; cases by'; cases "mux_state a"; cases a; cases b) (auto simp: mux_agree_def mux_ops split: if_split_asm prod.splits)
qed

lemma mux_negotiated_agree: "mux_negotiated ends \<Longrightarrow> mux_agree ends"
proof (induction rule: mux_negotiated.induct)
  case start
  then show ?case by (simp add: mux_agree_def RtcpMuxFilter_new_def Mux_IsActive_def)
next
  case (step ends m)
  then show ?case
    using mux_exchange_agree[of ends m] by (metis prod.collapse)
qed

lemma mux_active_demux:
  "Mux_IsActive f \<Longrightarrow> offer_enable f \<Longrightarrow>
   DemuxRtcp f data \<longleftrightarrow> length data \<ge> 2 \<and> 64 \<le> uint (data ! 1) AND 0x7F \<and> uint (data ! 1) AND 0x7F < 96"
  by (auto simp: Mux_IsActive_def DemuxRtcp_def less_MuxState_def Let_def)

text \<open>C35: After any sequence of offers, provisional and final answers by either side, valid or not,
  two ends that see the same descriptions accept and refuse the same next one and are both active or
  both not; an active end sorts out every RTCP packet type and no RTP one.\<close>
theorem rtcp_mux_agreement:
  assumes "mux_negotiated (a, b)" "mux_exchange m (a, b) = ((ra, rb), a', b')"
  shows "ra = rb \<and> Mux_IsActive a' = Mux_IsActive b' \<and>
    (Mux_IsActive a' \<longrightarrow> (\<forall>data. length data \<ge> 2 \<longrightarrow>
       DemuxRtcp a' data = DemuxRtcp b' data \<and> (DemuxRtcp a' data \<longleftrightarrow> uint (data ! 1) AND 0x7F \<in> {64..<96})))"
proof -
  have "ra = rb" "mux_agree (a', b')"
    using mux_exchange_agree[OF mux_negotiated_agree[OF assms(1)] assms(2)] by auto
  moreover from this(2) have "Mux_IsActive a' = Mux_IsActive b'"
    by (cases "mux_state a'") (auto simp: mux_agree_def Mux_IsActive_def)
  ultimately show ?thesis
    by (auto simp: mux_agree_def mux_active_demux)
qed

text \<open>An active pair renegotiates: the filter is switched off, which the header file rules out.\<close>

lemma mux_deactivated:
  "mux_exchange (Bob, Answer False) (snd (mux_exchange (Alice, Offer True)
     (\<lparr>mux_state = ST_ACTIVE, offer_enable = True\<rparr>, \<lparr>mux_state = ST_ACTIVE, offer_enable = True\<rparr>))) =
   ((True, True), \<lparr>mux_state = ST_INIT, offer_enable = True\<rparr>, \<lparr>mux_state = ST_INIT, offer_enable = True\<rparr>)"
  by (simp add: mux_ops)

theorem rtcp_mux_agreement_witness:
  "Mux_IsActive \<lparr>mux_state = ST_ACTIVE, offer_enable = True\<rparr> \<and>
   DemuxRtcp \<lparr>mux_state = ST_ACTIVE, offer_enable = True\<rparr> [0x80, 200]"
proof -
  have "mux_negotiated (snd (mux_exchange (Alice, Offer True) (RtcpMuxFilter_new, RtcpMuxFilter_new)))"
    by (intro mux_negotiated.intros)
  then have n: "mux_negotiated (\<lparr>mux_state = ST_SENTOFFER, offer_enable = True\<rparr>, \<lparr>mux_state = ST_RECEIVEDOFFER, offer_enable = True\<rparr>)"
    by (simp add: RtcpMuxFilter_new_def mux_ops)
  have "mux_exchange (Bob, Answer True)
      (\<lparr>mux_state = ST_SENTOFFER, offer_enable = True\<rparr>, \<lparr>mux_state = ST_RECEIVEDOFFER, offer_enable = True\<rparr>) =
    ((True, True), \<lparr>mux_state = ST_ACTIVE, offer_enable = True\<rparr>, \<lparr>mux_state = ST_ACTIVE, offer_enable = True\<rparr>)"
    by (simp add: mux_ops)
  from rtcp_mux_agreement[OF n this] show ?thesis
    by (auto simp: Mux_IsActive_def)
qed

end
