(* ===== verification/Srtp.thy ===== *)
theory Srtp
  imports MuxFilters Base64 TimeUtils
begin

text \<open>
  \<^verbatim>\<open>talk/session/media/srtpfilter.h\<close> and \<^verbatim>\<open>srtpfilter.cc\<close>: the
  negotiation of the SRTP keys of a channel (\<^verbatim>\<open>SrtpFilter\<close>), one direction of a
  protected channel (\<^verbatim>\<open>SrtpSession\<close>) and the report of failures
  (\<^verbatim>\<open>SrtpStat\<close>).

  The library libsrtp is a parameter: a record of the functions the code calls, over a type of
  contexts and one of policies that are never looked into. A null session pointer is \<open>None\<close>;
  an operation that would follow one has the result \<open>None\<close>. The list of all sessions and the
  events of the library, which are only logged, are left out.
\<close>

section \<open>Parameters\<close>

definition CS_AES_CM_128_HMAC_SHA1_80 :: bytes where
  "CS_AES_CM_128_HMAC_SHA1_80 = text_bytes ''AES_CM_128_HMAC_SHA1_80''"
definition CS_AES_CM_128_HMAC_SHA1_32 :: bytes where
  "CS_AES_CM_128_HMAC_SHA1_32 = text_bytes ''AES_CM_128_HMAC_SHA1_32''"
definition SRTP_MASTER_KEY_LEN :: nat where "SRTP_MASTER_KEY_LEN = 30"

record CryptoParams =
  tag :: int
  cipher_suite :: bytes
  key_params :: bytes
  session_params :: bytes

definition CryptoParams_new :: CryptoParams where
  "CryptoParams_new = \<lparr>tag = 0, cipher_suite = [], key_params = [], session_params = []\<rparr>"

definition CryptoParams_Matches :: "CryptoParams \<Rightarrow> CryptoParams \<Rightarrow> bool" where
  "CryptoParams_Matches p params \<longleftrightarrow> tag p = tag params \<and> cipher_suite p = cipher_suite params"

datatype SsrcType = ssrc_any_outbound | ssrc_any_inbound

record 'p srtp_policy =
  pol_ssrc_type :: SsrcType
  pol_ssrc_value :: u32
  pol_rtp :: 'p
  pol_rtcp :: 'p
  pol_key :: bytes
  pol_window_size :: nat
  pol_allow_repeat_tx :: nat

text \<open>What the code calls of libsrtp. A packet function gets the context, the memory and the length
  of the packet in it, and gives an error code, the memory, the new length and the context.\<close>

record ('c, 'p) libsrtp =
  err_status_ok :: int
  err_status_auth_fail :: int
  err_status_replay_fail :: int
  err_status_replay_old :: int
  srtp_init :: int
  srtp_install_event_handler :: int
  aes_cm_128_hmac_sha1_80 :: 'p
  aes_cm_128_hmac_sha1_32 :: 'p
  auth_tag_len :: "'p \<Rightarrow> int"
  srtp_create :: "'p srtp_policy \<Rightarrow> int \<times> 'c option"
  srtp_protect :: "'c \<Rightarrow> bytes \<Rightarrow> int \<Rightarrow> int \<times> bytes \<times> int \<times> 'c"
  srtp_protect_rtcp :: "'c \<Rightarrow> bytes \<Rightarrow> int \<Rightarrow> int \<times> bytes \<times> int \<times> 'c"
  srtp_unprotect :: "'c \<Rightarrow> bytes \<Rightarrow> int \<Rightarrow> int \<times> bytes \<times> int \<times> 'c"
  srtp_unprotect_rtcp :: "'c \<Rightarrow> bytes \<Rightarrow> int \<Rightarrow> int \<times> bytes \<times> int \<times> 'c"

section \<open>SrtpStat\<close>

datatype SrtpMode = PROTECT | UNPROTECT
datatype SrtpError = ERROR_NONE | ERROR_FAIL | ERROR_AUTH | ERROR_REPLAY

fun mode_value :: "SrtpMode \<Rightarrow> nat" where
  "mode_value PROTECT = 0"
| "mode_value UNPROTECT = 1"

fun error_value :: "SrtpError \<Rightarrow> nat" where
  "error_value ERROR_NONE = 0"
| "error_value ERROR_FAIL = 1"
| "error_value ERROR_AUTH = 2"
| "error_value ERROR_REPLAY = 3"

record FailureKey =
  fk_ssrc :: u32
  fk_mode :: SrtpMode
  fk_error :: SrtpError

definition failure_less :: "FailureKey \<Rightarrow> FailureKey \<Rightarrow> bool" where
  "failure_less k key \<longleftrightarrow>
     fk_ssrc k < fk_ssrc key \<or> mode_value (fk_mode k) < mode_value (fk_mode key) \<or> error_value (fk_error k) < error_value (fk_error key)"

text \<open>
  \<open>failures k\<close> is \<^verbatim>\<open>failures_[k].last_signal_time\<close>, 0 when there is no entry. The
  table is keyed by equality, what \<^verbatim>\<open>std::map\<close> does when its comparison is a strict weak
  order; \<open>failure_less\<close> is not one (\<open>failure_less_not_an_order\<close> below), so the behaviour of
  the real table is undefined once it holds two keys.
\<close>

record SrtpStat =
  failures :: "FailureKey \<Rightarrow> u32"
  signal_silent_time :: u32

definition SrtpStat_new :: SrtpStat where
  "SrtpStat_new = \<lparr>failures = (\<lambda>_. 0), signal_silent_time = 1000\<rparr>"

text \<open>The new state, and the error signalled if any.\<close>

definition HandleSrtpResult :: "u32 \<Rightarrow> FailureKey \<Rightarrow> SrtpStat \<Rightarrow> FailureKey option \<times> SrtpStat" where
  "HandleSrtpResult current_time key st =
     (if fk_error key \<noteq> ERROR_NONE then
        let last_signal_time = failures st key
        in if last_signal_time = 0 \<or> TimeDiff current_time last_signal_time > sint (signal_silent_time st)
           then (Some key, st\<lparr>failures := (failures st)(key := current_time)\<rparr>)
           else (None, st)
      else (None, st))"

definition AddProtectRtpResult :: "('c, 'p) libsrtp \<Rightarrow> u32 \<Rightarrow> u32 \<Rightarrow> int \<Rightarrow> SrtpStat \<Rightarrow> FailureKey option \<times> SrtpStat" where
  "AddProtectRtpResult lib now ssrc result st =
     HandleSrtpResult now
       \<lparr>fk_ssrc = ssrc, fk_mode = PROTECT,
        fk_error = (if result = err_status_ok lib then ERROR_NONE
                    else if result = err_status_auth_fail lib then ERROR_AUTH else ERROR_FAIL)\<rparr> st"

definition AddUnprotectRtpResult :: "('c, 'p) libsrtp \<Rightarrow> u32 \<Rightarrow> u32 \<Rightarrow> int \<Rightarrow> SrtpStat \<Rightarrow> FailureKey option \<times> SrtpStat" where
  "AddUnprotectRtpResult lib now ssrc result st =
     HandleSrtpResult now
       \<lparr>fk_ssrc = ssrc, fk_mode = UNPROTECT,
        fk_error = (if result = err_status_ok lib then ERROR_NONE
                    else if result = err_status_auth_fail lib then ERROR_AUTH
                    else if result = err_status_replay_fail lib \<or> result = err_status_replay_old lib then ERROR_REPLAY
                    else ERROR_FAIL)\<rparr> st"

definition AddProtectRtcpResult :: "('c, 'p) libsrtp \<Rightarrow> u32 \<Rightarrow> int \<Rightarrow> SrtpStat \<Rightarrow> FailureKey option \<times> SrtpStat" where
  "AddProtectRtcpResult lib now result st = AddProtectRtpResult lib now 0 result st"

definition AddUnprotectRtcpResult :: "('c, 'p) libsrtp \<Rightarrow> u32 \<Rightarrow> int \<Rightarrow> SrtpStat \<Rightarrow> FailureKey option \<times> SrtpStat" where
  "AddUnprotectRtcpResult lib now result st = AddUnprotectRtpResult lib now 0 result st"

section \<open>SrtpSession\<close>

text \<open>\<open>last_send_seq_num\<close> is \<open>None\<close> when it holds an indeterminate value.\<close>

record 'c SrtpSession =
  session_ctx :: "'c option"
  rtp_auth_tag_len :: int
  rtcp_auth_tag_len :: int
  srtp_stat :: SrtpStat
  last_send_seq_num :: "int option"

definition SrtpSession_new :: "'c SrtpSession" where
  "SrtpSession_new = \<lparr>session_ctx = None, rtp_auth_tag_len = 0, rtcp_auth_tag_len = 0, srtp_stat = SrtpStat_new, last_send_seq_num = Some (-1)\<rparr>"

definition session_silent_time :: "u32 \<Rightarrow> 'c SrtpSession \<Rightarrow> 'c SrtpSession" where
  "session_silent_time ms s = s\<lparr>srtp_stat := (srtp_stat s)\<lparr>signal_silent_time := ms\<rparr>\<rparr>"

text \<open>\<open>inited\<close> is the static \<^verbatim>\<open>SrtpSession::inited_\<close>.\<close>

definition SrtpSession_Init :: "('c, 'p) libsrtp \<Rightarrow> bool \<Rightarrow> bool \<times> bool" where
  "SrtpSession_Init lib inited =
     (if \<not> inited then
        (if srtp_init lib \<noteq> err_status_ok lib then (False, inited)
         else if srtp_install_event_handler lib \<noteq> err_status_ok lib then (False, inited)
         else (True, True))
      else (True, inited))"

text \<open>The policies for RTP and RTCP of a cipher suite.\<close>

definition suite_policy :: "('c, 'p) libsrtp \<Rightarrow> bytes \<Rightarrow> ('p \<times> 'p) option" where
  "suite_policy lib cs =
     (if cs = CS_AES_CM_128_HMAC_SHA1_80 then Some (aes_cm_128_hmac_sha1_80 lib, aes_cm_128_hmac_sha1_80 lib)
      else if cs = CS_AES_CM_128_HMAC_SHA1_32 then Some (aes_cm_128_hmac_sha1_32 lib, aes_cm_128_hmac_sha1_80 lib)
      else None)"

definition key_policy :: "SsrcType \<Rightarrow> 'p \<Rightarrow> 'p \<Rightarrow> bytes \<Rightarrow> 'p srtp_policy" where
  "key_policy type rtp rtcp key =
     \<lparr>pol_ssrc_type = type, pol_ssrc_value = 0, pol_rtp = rtp, pol_rtcp = rtcp, pol_key = key,
      pol_window_size = 1024, pol_allow_repeat_tx = 1\<rparr>"

text \<open>The key is \<open>None\<close> for a null pointer.\<close>

definition SetKey :: "('c, 'p) libsrtp \<Rightarrow> SsrcType \<Rightarrow> bytes \<Rightarrow> bytes option \<Rightarrow> bool \<times> 'c SrtpSession \<Rightarrow> bool \<times> bool \<times> 'c SrtpSession" where
  "SetKey lib type cs key = (\<lambda>(inited, s).
     if session_ctx s \<noteq> None then (False, inited, s)
     else
       case SrtpSession_Init lib inited of
         (False, inited) \<Rightarrow> (False, inited, s)
       | (True, inited) \<Rightarrow>
         (case suite_policy lib cs of
            None \<Rightarrow> (False, inited, s)
          | Some (rtp, rtcp) \<Rightarrow>
            (case key of
               None \<Rightarrow> (False, inited, s)
             | Some key \<Rightarrow>
               if length key \<noteq> SRTP_MASTER_KEY_LEN then (False, inited, s)
               else
                 let policy = key_policy type rtp rtcp key;
                     (err, ctx) = srtp_create lib policy;
                     s = s\<lparr>session_ctx := ctx\<rparr>
                 in if err \<noteq> err_status_ok lib then (False, inited, s)
                    else (True, inited, s\<lparr>rtp_auth_tag_len := auth_tag_len lib (pol_rtp policy),
                                          rtcp_auth_tag_len := auth_tag_len lib (pol_rtcp policy)\<rparr>))))"

definition session_SetSend :: "('c, 'p) libsrtp \<Rightarrow> bytes \<Rightarrow> bytes option \<Rightarrow> bool \<times> 'c SrtpSession \<Rightarrow> bool \<times> bool \<times> 'c SrtpSession" where
  "session_SetSend lib cs key = SetKey lib ssrc_any_outbound cs key"

definition session_SetRecv :: "('c, 'p) libsrtp \<Rightarrow> bytes \<Rightarrow> bytes option \<Rightarrow> bool \<times> 'c SrtpSession \<Rightarrow> bool \<times> bool \<times> 'c SrtpSession" where
  "session_SetRecv lib cs key = SetKey lib ssrc_any_inbound cs key"

text \<open>
  A packet operation gives its result, the memory, \<^verbatim>\<open>*out_len\<close> (\<open>None\<close> when it is
  not assigned), the error signalled and the session. \<open>in_len\<close> is at most the size of the
  memory \<open>p\<close>.
\<close>

type_synonym 'c packet_result = "bool \<times> bytes \<times> int option \<times> FailureKey option \<times> 'c SrtpSession"

definition session_ProtectRtp :: "('c, 'p) libsrtp \<Rightarrow> u32 \<Rightarrow> bytes \<Rightarrow> int \<Rightarrow> int \<Rightarrow> 'c SrtpSession \<Rightarrow> 'c packet_result" where
  "session_ProtectRtp lib now p in_len max_len s =
     (case session_ctx s of
        None \<Rightarrow> (False, p, None, None, s)
      | Some ctx \<Rightarrow>
        let need_len = in_len + rtp_auth_tag_len s
        in if max_len < need_len then (False, p, None, None, s)
           else
             let (err, p, out_len, ctx) = srtp_protect lib ctx p in_len;
                 s = s\<lparr>session_ctx := Some ctx\<rparr>;
                 (sig, stat) = (case GetRtpSsrc (take (nat in_len) p) of
                                  None \<Rightarrow> (None, srtp_stat s)
                                | Some ssrc \<Rightarrow> AddProtectRtpResult lib now ssrc err (srtp_stat s));
                 s = s\<lparr>srtp_stat := stat\<rparr>;
                 seq_num = GetRtpSeqNum (take (nat in_len) p)
             in if err \<noteq> err_status_ok lib then (False, p, Some out_len, sig, s)
                else (True, p, Some out_len, sig, s\<lparr>last_send_seq_num := seq_num\<rparr>))"

definition session_ProtectRtcp :: "('c, 'p) libsrtp \<Rightarrow> u32 \<Rightarrow> bytes \<Rightarrow> int \<Rightarrow> int \<Rightarrow> 'c SrtpSession \<Rightarrow> 'c packet_result" where
  "session_ProtectRtcp lib now p in_len max_len s =
     (case session_ctx s of
        None \<Rightarrow> (False, p, None, None, s)
      | Some ctx \<Rightarrow>
        let need_len = in_len + 4 + rtcp_auth_tag_len s
        in if max_len < need_len then (False, p, None, None, s)
           else
             let (err, p, out_len, ctx) = srtp_protect_rtcp lib ctx p in_len;
                 s = s\<lparr>session_ctx := Some ctx\<rparr>;
                 (sig, stat) = AddProtectRtcpResult lib now err (srtp_stat s);
                 s = s\<lparr>srtp_stat := stat\<rparr>
             in (err = err_status_ok lib, p, Some out_len, sig, s))"

definition session_UnprotectRtp :: "('c, 'p) libsrtp \<Rightarrow> u32 \<Rightarrow> bytes \<Rightarrow> int \<Rightarrow> 'c SrtpSession \<Rightarrow> 'c packet_result" where
  "session_UnprotectRtp lib now p in_len s =
     (case session_ctx s of
        None \<Rightarrow> (False, p, None, None, s)
      | Some ctx \<Rightarrow>
        let (err, p, out_len, ctx) = srtp_unprotect lib ctx p in_len;
            s = s\<lparr>session_ctx := Some ctx\<rparr>;
            (sig, stat) = (case GetRtpSsrc (take (nat in_len) p) of
                             None \<Rightarrow> (None, srtp_stat s)
                           | Some ssrc \<Rightarrow> AddUnprotectRtpResult lib now ssrc err (srtp_stat s));
            s = s\<lparr>srtp_stat := stat\<rparr>
        in (err = err_status_ok lib, p, Some out_len, sig, s))"

definition session_UnprotectRtcp :: "('c, 'p) libsrtp \<Rightarrow> u32 \<Rightarrow> bytes \<Rightarrow> int \<Rightarrow> 'c SrtpSession \<Rightarrow> 'c packet_result" where
  "session_UnprotectRtcp lib now p in_len s =
     (case session_ctx s of
        None \<Rightarrow> (False, p, None, None, s)
      | Some ctx \<Rightarrow>
        let (err, p, out_len, ctx) = srtp_unprotect_rtcp lib ctx p in_len;
            s = s\<lparr>session_ctx := Some ctx\<rparr>;
            (sig, stat) = AddUnprotectRtcpResult lib now err (srtp_stat s);
            s = s\<lparr>srtp_stat := stat\<rparr>
        in (err = err_status_ok lib, p, Some out_len, sig, s))"

section \<open>SrtpFilter\<close>

datatype SrtpState =
    SF_INIT | SF_SENTOFFER | SF_RECEIVEDOFFER | SF_SENTPRANSWER_NO_CRYPTO | SF_RECEIVEDPRANSWER_NO_CRYPTO
  | SF_ACTIVE | SF_SENTUPDATEDOFFER | SF_RECEIVEDUPDATEDOFFER | SF_SENTPRANSWER | SF_RECEIVEDPRANSWER

fun srtp_rank :: "SrtpState \<Rightarrow> nat" where
  "srtp_rank SF_INIT = 0"
| "srtp_rank SF_SENTOFFER = 1"
| "srtp_rank SF_RECEIVEDOFFER = 2"
| "srtp_rank SF_SENTPRANSWER_NO_CRYPTO = 3"
| "srtp_rank SF_RECEIVEDPRANSWER_NO_CRYPTO = 4"
| "srtp_rank SF_ACTIVE = 5"
| "srtp_rank SF_SENTUPDATEDOFFER = 6"
| "srtp_rank SF_RECEIVEDUPDATEDOFFER = 7"
| "srtp_rank SF_SENTPRANSWER = 8"
| "srtp_rank SF_RECEIVEDPRANSWER = 9"

text \<open>\<open>srtp_errors\<close> records what the filter has signalled, \<open>srtp_inited\<close> the static flag
  of the sessions.\<close>

record 'c SrtpFilter =
  sf_state :: SrtpState
  signal_silent_time_in_ms :: u32
  offer_params :: "CryptoParams list"
  send_session :: "'c SrtpSession option"
  recv_session :: "'c SrtpSession option"
  send_rtcp_session :: "'c SrtpSession option"
  recv_rtcp_session :: "'c SrtpSession option"
  applied_send_params :: CryptoParams
  applied_recv_params :: CryptoParams
  srtp_errors :: "FailureKey list"
  srtp_inited :: bool

definition SrtpFilter_new :: "bool \<Rightarrow> 'c SrtpFilter" where
  "SrtpFilter_new inited =
     \<lparr>sf_state = SF_INIT, signal_silent_time_in_ms = 0, offer_params = [], send_session = None, recv_session = None,
      send_rtcp_session = None, recv_rtcp_session = None, applied_send_params = CryptoParams_new,
      applied_recv_params = CryptoParams_new, srtp_errors = [], srtp_inited = inited\<rparr>"

definition Srtp_IsActive :: "'c SrtpFilter \<Rightarrow> bool" where
  "Srtp_IsActive f \<longleftrightarrow> srtp_rank (sf_state f) \<ge> srtp_rank SF_ACTIVE"

definition Srtp_ExpectOffer :: "'c SrtpFilter \<Rightarrow> ContentSource \<Rightarrow> bool" where
  "Srtp_ExpectOffer f source \<longleftrightarrow>
     sf_state f = SF_INIT \<or> sf_state f = SF_ACTIVE \<or>
     sf_state f = SF_SENTOFFER \<and> source = CS_LOCAL \<or>
     sf_state f = SF_SENTUPDATEDOFFER \<and> source = CS_LOCAL \<or>
     sf_state f = SF_RECEIVEDOFFER \<and> source = CS_REMOTE \<or>
     sf_state f = SF_RECEIVEDUPDATEDOFFER \<and> source = CS_REMOTE"

definition StoreParams :: "CryptoParams list \<Rightarrow> ContentSource \<Rightarrow> 'c SrtpFilter \<Rightarrow> bool \<times> 'c SrtpFilter" where
  "StoreParams params source f =
     (let f = f\<lparr>offer_params := params\<rparr>
      in (True, f\<lparr>sf_state := (if sf_state f = SF_INIT then (if source = CS_LOCAL then SF_SENTOFFER else SF_RECEIVEDOFFER)
                               else (if source = CS_LOCAL then SF_SENTUPDATEDOFFER else SF_RECEIVEDUPDATEDOFFER))\<rparr>))"

definition Srtp_SetOffer :: "CryptoParams list \<Rightarrow> ContentSource \<Rightarrow> 'c SrtpFilter \<Rightarrow> bool \<times> 'c SrtpFilter" where
  "Srtp_SetOffer params source f =
     (if \<not> Srtp_ExpectOffer f source then (False, f) else StoreParams params source f)"

definition Srtp_ExpectAnswer :: "'c SrtpFilter \<Rightarrow> ContentSource \<Rightarrow> bool" where
  "Srtp_ExpectAnswer f source \<longleftrightarrow>
     sf_state f = SF_SENTOFFER \<and> source = CS_REMOTE \<or>
     sf_state f = SF_RECEIVEDOFFER \<and> source = CS_LOCAL \<or>
     sf_state f = SF_SENTUPDATEDOFFER \<and> source = CS_REMOTE \<or>
     sf_state f = SF_RECEIVEDUPDATEDOFFER \<and> source = CS_LOCAL \<or>
     sf_state f = SF_SENTPRANSWER_NO_CRYPTO \<and> source = CS_LOCAL \<or>
     sf_state f = SF_SENTPRANSWER \<and> source = CS_LOCAL \<or>
     sf_state f = SF_RECEIVEDPRANSWER_NO_CRYPTO \<and> source = CS_REMOTE \<or>
     sf_state f = SF_RECEIVEDPRANSWER \<and> source = CS_REMOTE"

definition CreateSrtpSessions :: "'c SrtpFilter \<Rightarrow> 'c SrtpFilter" where
  "CreateSrtpSessions f =
     f\<lparr>send_session := Some (session_silent_time (signal_silent_time_in_ms f) SrtpSession_new),
       applied_send_params := CryptoParams_new,
       recv_session := Some (session_silent_time (signal_silent_time_in_ms f) SrtpSession_new),
       applied_recv_params := CryptoParams_new\<rparr>"

definition NegotiateParams :: "CryptoParams list \<Rightarrow> 'c SrtpFilter \<Rightarrow> CryptoParams option" where
  "NegotiateParams answer_params f =
     (if length answer_params = 1 \<and> offer_params f \<noteq> []
      then List.find (\<lambda>it. CryptoParams_Matches (answer_params ! 0) it) (offer_params f) else None)"

text \<open>Decodes the key into an array of \<open>len\<close> bytes.\<close>

definition ParseKeyParams :: "bytes \<Rightarrow> nat \<Rightarrow> bytes option" where
  "ParseKeyParams key_text len =
     (if take 7 key_text \<noteq> text_bytes ''inline:'' then None
      else case DecodeFromArray (drop 7 key_text) DO_STRICT of
             (ok, key_str, _) \<Rightarrow> if \<not> ok \<or> length key_str \<noteq> len then None else Some key_str)"

text \<open>\<^verbatim>\<open>a->SetSend(...) && b->SetRecv(...)\<close> on the two sessions of a filter: \<open>None\<close> when a
  pointer it follows is null.\<close>

definition set_send_recv ::
  "('c, 'p) libsrtp \<Rightarrow> bytes \<Rightarrow> bytes option \<Rightarrow> bytes \<Rightarrow> bytes option \<Rightarrow> 'c SrtpFilter \<Rightarrow> (bool \<times> 'c SrtpFilter) option" where
  "set_send_recv lib send_cs send_key recv_cs recv_key f =
     (case send_session f of
        None \<Rightarrow> None
      | Some ss \<Rightarrow>
        (case session_SetSend lib send_cs send_key (srtp_inited f, ss) of
           (ok, inited, ss) \<Rightarrow>
             let f = f\<lparr>send_session := Some ss, srtp_inited := inited\<rparr>
             in if \<not> ok then Some (False, f)
                else
                  case recv_session f of
                    None \<Rightarrow> None
                  | Some rs \<Rightarrow>
                    (case session_SetRecv lib recv_cs recv_key (srtp_inited f, rs) of
                       (ok, inited, rs) \<Rightarrow> Some (ok, f\<lparr>recv_session := Some rs, srtp_inited := inited\<rparr>))))"

definition ApplyParams :: "('c, 'p) libsrtp \<Rightarrow> CryptoParams \<Rightarrow> CryptoParams \<Rightarrow> 'c SrtpFilter \<Rightarrow> (bool \<times> 'c SrtpFilter) option" where
  "ApplyParams lib send_params recv_params f =
     (if cipher_suite (applied_send_params f) = cipher_suite send_params \<and>
         key_params (applied_send_params f) = key_params send_params \<and>
         cipher_suite (applied_recv_params f) = cipher_suite recv_params \<and>
         key_params (applied_recv_params f) = key_params recv_params then Some (True, f)
      else
        case (ParseKeyParams (key_params send_params) SRTP_MASTER_KEY_LEN, ParseKeyParams (key_params recv_params) SRTP_MASTER_KEY_LEN) of
          (Some send_key, Some recv_key) \<Rightarrow>
            (case set_send_recv lib (cipher_suite send_params) (Some send_key) (cipher_suite recv_params) (Some recv_key)
                    (CreateSrtpSessions f) of
               None \<Rightarrow> None
             | Some (ret, f) \<Rightarrow>
               if ret then Some (True, f\<lparr>applied_send_params := send_params, applied_recv_params := recv_params\<rparr>)
               else Some (False, f))
        | _ \<Rightarrow> Some (False, f))"

definition ResetParams :: "'c SrtpFilter \<Rightarrow> bool \<times> 'c SrtpFilter" where
  "ResetParams f = (True, f\<lparr>offer_params := [], sf_state := SF_INIT\<rparr>)"

definition DoSetAnswer :: "('c, 'p) libsrtp \<Rightarrow> CryptoParams list \<Rightarrow> ContentSource \<Rightarrow> bool \<Rightarrow> 'c SrtpFilter \<Rightarrow> (bool \<times> 'c SrtpFilter) option" where
  "DoSetAnswer lib answer_params source final f =
     (if \<not> Srtp_ExpectAnswer f source then Some (False, f)
      else if answer_params = [] then
        (if final then Some (ResetParams f)
         else Some (True, f\<lparr>sf_state := (if source = CS_LOCAL then SF_SENTPRANSWER_NO_CRYPTO else SF_RECEIVEDPRANSWER_NO_CRYPTO)\<rparr>))
      else
        case NegotiateParams answer_params f of
          None \<Rightarrow> Some (False, f)
        | Some selected_params \<Rightarrow>
          let send_params = (if source = CS_REMOTE then selected_params else answer_params ! 0);
              recv_params = (if source = CS_REMOTE then answer_params ! 0 else selected_params)
          in case ApplyParams lib send_params recv_params f of
               None \<Rightarrow> None
             | Some (ok, f) \<Rightarrow>
               if \<not> ok then Some (False, f)
               else if final then Some (True, f\<lparr>offer_params := [], sf_state := SF_ACTIVE\<rparr>)
               else Some (True, f\<lparr>sf_state := (if source = CS_LOCAL then SF_SENTPRANSWER else SF_RECEIVEDPRANSWER)\<rparr>))"

definition Srtp_SetAnswer :: "('c, 'p) libsrtp \<Rightarrow> CryptoParams list \<Rightarrow> ContentSource \<Rightarrow> 'c SrtpFilter \<Rightarrow> (bool \<times> 'c SrtpFilter) option" where
  "Srtp_SetAnswer lib answer_params source f = DoSetAnswer lib answer_params source True f"

definition Srtp_SetProvisionalAnswer :: "('c, 'p) libsrtp \<Rightarrow> CryptoParams list \<Rightarrow> ContentSource \<Rightarrow> 'c SrtpFilter \<Rightarrow> (bool \<times> 'c SrtpFilter) option" where
  "Srtp_SetProvisionalAnswer lib answer_params source f = DoSetAnswer lib answer_params source False f"

definition SetRtpParams :: "('c, 'p) libsrtp \<Rightarrow> bytes \<Rightarrow> bytes option \<Rightarrow> bytes \<Rightarrow> bytes option \<Rightarrow> 'c SrtpFilter \<Rightarrow> (bool \<times> 'c SrtpFilter) option" where
  "SetRtpParams lib send_cs send_key recv_cs recv_key f =
     (if sf_state f = SF_ACTIVE then Some (False, f)
      else
        case set_send_recv lib send_cs send_key recv_cs recv_key (CreateSrtpSessions f) of
          None \<Rightarrow> None
        | Some (ok, f) \<Rightarrow> if ok then Some (True, f\<lparr>sf_state := SF_ACTIVE\<rparr>) else Some (False, f))"

text \<open>Both sessions are set up with \<^verbatim>\<open>SetRecv\<close>.\<close>

definition SetRtcpParams :: "('c, 'p) libsrtp \<Rightarrow> bytes \<Rightarrow> bytes option \<Rightarrow> bytes \<Rightarrow> bytes option \<Rightarrow> 'c SrtpFilter \<Rightarrow> bool \<times> 'c SrtpFilter" where
  "SetRtcpParams lib send_cs send_key recv_cs recv_key f =
     (if send_rtcp_session f \<noteq> None \<or> recv_rtcp_session f \<noteq> None then (False, f)
      else
        let (ok, inited, ss) = session_SetRecv lib send_cs send_key
              (srtp_inited f, session_silent_time (signal_silent_time_in_ms f) SrtpSession_new);
            f = f\<lparr>send_rtcp_session := Some ss, srtp_inited := inited\<rparr>
        in if \<not> ok then (False, f)
           else
             let (ok, inited, rs) = session_SetRecv lib recv_cs recv_key
                   (srtp_inited f, session_silent_time (signal_silent_time_in_ms f) SrtpSession_new)
             in (ok, f\<lparr>recv_rtcp_session := Some rs, srtp_inited := inited\<rparr>))"

text \<open>A packet goes to a session of the filter; its error is signalled by the filter.\<close>

definition on_session :: "('c SrtpSession \<Rightarrow> 'c packet_result) \<Rightarrow> 'c SrtpSession option \<Rightarrow> ('c SrtpSession \<Rightarrow> 'c SrtpFilter \<Rightarrow> 'c SrtpFilter) \<Rightarrow>
    'c SrtpFilter \<Rightarrow> (bool \<times> bytes \<times> int option \<times> 'c SrtpFilter) option" where
  "on_session op session store f =
     (case session of
        None \<Rightarrow> None
      | Some s \<Rightarrow>
        (case op s of
           (ok, p, out_len, sig, s) \<Rightarrow>
             Some (ok, p, out_len,
               (store s f)\<lparr>srtp_errors := srtp_errors f @ (case sig of None \<Rightarrow> [] | Some k \<Rightarrow> [k])\<rparr>)))"

definition ProtectRtp :: "('c, 'p) libsrtp \<Rightarrow> u32 \<Rightarrow> bytes \<Rightarrow> int \<Rightarrow> int \<Rightarrow> 'c SrtpFilter \<Rightarrow> (bool \<times> bytes \<times> int option \<times> 'c SrtpFilter) option" where
  "ProtectRtp lib now p in_len max_len f =
     (if \<not> Srtp_IsActive f then Some (False, p, None, f)
      else on_session (session_ProtectRtp lib now p in_len max_len) (send_session f) (\<lambda>s f. f\<lparr>send_session := Some s\<rparr>) f)"

definition ProtectRtcp :: "('c, 'p) libsrtp \<Rightarrow> u32 \<Rightarrow> bytes \<Rightarrow> int \<Rightarrow> int \<Rightarrow> 'c SrtpFilter \<Rightarrow> (bool \<times> bytes \<times> int option \<times> 'c SrtpFilter) option" where
  "ProtectRtcp lib now p in_len max_len f =
     (if \<not> Srtp_IsActive f then Some (False, p, None, f)
      else if send_rtcp_session f \<noteq> None
      then on_session (session_ProtectRtcp lib now p in_len max_len) (send_rtcp_session f) (\<lambda>s f. f\<lparr>send_rtcp_session := Some s\<rparr>) f
      else on_session (session_ProtectRtcp lib now p in_len max_len) (send_session f) (\<lambda>s f. f\<lparr>send_session := Some s\<rparr>) f)"

definition UnprotectRtp :: "('c, 'p) libsrtp \<Rightarrow> u32 \<Rightarrow> bytes \<Rightarrow> int \<Rightarrow> 'c SrtpFilter \<Rightarrow> (bool \<times> bytes \<times> int option \<times> 'c SrtpFilter) option" where
  "UnprotectRtp lib now p in_len f =
     (if \<not> Srtp_IsActive f then Some (False, p, None, f)
      else on_session (session_UnprotectRtp lib now p in_len) (recv_session f) (\<lambda>s f. f\<lparr>recv_session := Some s\<rparr>) f)"

definition UnprotectRtcp :: "('c, 'p) libsrtp \<Rightarrow> u32 \<Rightarrow> bytes \<Rightarrow> int \<Rightarrow> 'c SrtpFilter \<Rightarrow> (bool \<times> bytes \<times> int option \<times> 'c SrtpFilter) option" where
  "UnprotectRtcp lib now p in_len f =
     (if \<not> Srtp_IsActive f then Some (False, p, None, f)
      else if recv_rtcp_session f \<noteq> None
      then on_session (session_UnprotectRtcp lib now p in_len) (recv_rtcp_session f) (\<lambda>s f. f\<lparr>recv_rtcp_session := Some s\<rparr>) f
      else on_session (session_UnprotectRtcp lib now p in_len) (recv_session f) (\<lambda>s f. f\<lparr>recv_session := Some s\<rparr>) f)"

definition set_signal_silent_time :: "u32 \<Rightarrow> 'c SrtpFilter \<Rightarrow> 'c SrtpFilter option" where
  "set_signal_silent_time ms f =
     (let f = f\<lparr>signal_silent_time_in_ms := ms\<rparr>
      in if sf_state f = SF_ACTIVE then
           (case (send_session f, recv_session f) of
              (Some ss, Some rs) \<Rightarrow>
                Some (f\<lparr>send_session := Some (session_silent_time ms ss), recv_session := Some (session_silent_time ms rs),
                        send_rtcp_session := map_option (session_silent_time ms) (send_rtcp_session f),
                        recv_rtcp_session := map_option (session_silent_time ms) (recv_rtcp_session f)\<rparr>)
            | _ \<Rightarrow> None)
         else Some f)"

section \<open>When an active filter has its sessions\<close>

text \<open>The calls that change the filter.\<close>

datatype SrtpOp =
    SetOffer_op "CryptoParams list" ContentSource
  | SetAnswer_op "CryptoParams list" ContentSource bool
  | SetRtpParams_op bytes "bytes option" bytes "bytes option"
  | SetRtcpParams_op bytes "bytes option" bytes "bytes option"
  | Silent_op u32
  | ProtectRtp_op u32 bytes int int
  | ProtectRtcp_op u32 bytes int int
  | UnprotectRtp_op u32 bytes int
  | UnprotectRtcp_op u32 bytes int

text \<open>The filter after a call, \<open>None\<close> when the call follows a null pointer.\<close>

fun srtp_call :: "('c, 'p) libsrtp \<Rightarrow> SrtpOp \<Rightarrow> 'c SrtpFilter \<Rightarrow> 'c SrtpFilter option" where
  "srtp_call lib (SetOffer_op params source) f = Some (snd (Srtp_SetOffer params source f))"
| "srtp_call lib (SetAnswer_op params source final) f = map_option snd (DoSetAnswer lib params source final f)"
| "srtp_call lib (SetRtpParams_op scs sk rcs rk) f = map_option snd (SetRtpParams lib scs sk rcs rk f)"
| "srtp_call lib (SetRtcpParams_op scs sk rcs rk) f = Some (snd (SetRtcpParams lib scs sk rcs rk f))"
| "srtp_call lib (Silent_op ms) f = set_signal_silent_time ms f"
| "srtp_call lib (ProtectRtp_op now p in_len max_len) f = map_option (\<lambda>(_, _, _, f). f) (ProtectRtp lib now p in_len max_len f)"
| "srtp_call lib (ProtectRtcp_op now p in_len max_len) f = map_option (\<lambda>(_, _, _, f). f) (ProtectRtcp lib now p in_len max_len f)"
| "srtp_call lib (UnprotectRtp_op now p in_len) f = map_option (\<lambda>(_, _, _, f). f) (UnprotectRtp lib now p in_len f)"
| "srtp_call lib (UnprotectRtcp_op now p in_len) f = map_option (\<lambda>(_, _, _, f). f) (UnprotectRtcp lib now p in_len f)"

text \<open>A call that respects the protocol: no new offer replaces one that is not answered while the
  filter has not been active, and the answers name a cipher suite.\<close>

definition orderly :: "'c SrtpFilter \<Rightarrow> SrtpOp \<Rightarrow> bool" where
  "orderly f op =
     (case op of
        SetOffer_op params source \<Rightarrow>
          sf_state f \<noteq> SF_SENTOFFER \<and> sf_state f \<noteq> SF_RECEIVEDOFFER
      | SetAnswer_op params source final \<Rightarrow> list_all (\<lambda>p. cipher_suite p \<noteq> []) params
      | _ \<Rightarrow> True)"

fun srtp_run :: "('c, 'p) libsrtp \<Rightarrow> SrtpOp list \<Rightarrow> 'c SrtpFilter \<Rightarrow> 'c SrtpFilter option" where
  "srtp_run lib [] f = Some f"
| "srtp_run lib (op # ops) f = (case srtp_call lib op f of None \<Rightarrow> None | Some f \<Rightarrow> srtp_run lib ops f)"

fun orderly_run :: "('c, 'p) libsrtp \<Rightarrow> SrtpOp list \<Rightarrow> 'c SrtpFilter \<Rightarrow> bool" where
  "orderly_run lib [] f \<longleftrightarrow> True"
| "orderly_run lib (op # ops) f \<longleftrightarrow> orderly f op \<and> (case srtp_call lib op f of None \<Rightarrow> True | Some f \<Rightarrow> orderly_run lib ops f)"

text \<open>The sessions are made together; an active filter has them, and parameters were only applied to
  sessions.\<close>

definition srtp_inv :: "'c SrtpFilter \<Rightarrow> bool" where
  "srtp_inv f \<longleftrightarrow>
     (send_session f = None \<longleftrightarrow> recv_session f = None) \<and>
     (Srtp_IsActive f \<longrightarrow> send_session f \<noteq> None) \<and>
     (cipher_suite (applied_send_params f) \<noteq> [] \<longrightarrow> send_session f \<noteq> None)"

lemma srtp_inv_new: "srtp_inv (SrtpFilter_new inited)"
  by (simp add: srtp_inv_def SrtpFilter_new_def Srtp_IsActive_def CryptoParams_new_def)

lemma set_send_recv_sessions:
  assumes "send_session f \<noteq> None" "recv_session f \<noteq> None"
  shows "\<exists>ok f'. set_send_recv lib scs sk rcs rk f = Some (ok, f') \<and> send_session f' \<noteq> None \<and> recv_session f' \<noteq> None \<and>
    sf_state f' = sf_state f \<and> applied_send_params f' = applied_send_params f"
  using assms by (auto simp: set_send_recv_def Let_def split: prod.splits)

lemma CreateSrtpSessions_ok:
  "send_session (CreateSrtpSessions f) \<noteq> None" "recv_session (CreateSrtpSessions f) \<noteq> None"
  "sf_state (CreateSrtpSessions f) = sf_state f" "cipher_suite (applied_send_params (CreateSrtpSessions f)) = []"
  by (simp_all add: CreateSrtpSessions_def CryptoParams_new_def)

text \<open>The outcome of setting up new sessions: they exist, whether or not their keys were set.\<close>

definition keyed_from :: "'c SrtpFilter \<Rightarrow> 'c SrtpFilter \<Rightarrow> bool" where
  "keyed_from f f' \<longleftrightarrow> send_session f' \<noteq> None \<and> recv_session f' \<noteq> None \<and> sf_state f' = sf_state f"

lemma set_send_recv_new:
  obtains ok f' where "set_send_recv lib scs sk rcs rk (CreateSrtpSessions f) = Some (ok, f')" "keyed_from f f'"
  using set_send_recv_sessions[OF CreateSrtpSessions_ok(1,2), of lib scs sk rcs rk] CreateSrtpSessions_ok(3)[of f]
  by (metis keyed_from_def)

lemma ApplyParams_ok:
  assumes "srtp_inv f" "cipher_suite cps \<noteq> []"
  shows "\<exists>ok f'. ApplyParams lib cps cpr f = Some (ok, f') \<and> sf_state f' = sf_state f \<and>
     (keyed_from f f' \<or> \<not> ok \<and> f' = f)"
proof (cases "cipher_suite (applied_send_params f) = cipher_suite cps \<and> key_params (applied_send_params f) = key_params cps \<and>
       cipher_suite (applied_recv_params f) = cipher_suite cpr \<and> key_params (applied_recv_params f) = key_params cpr")
  case True
  then show ?thesis
    using assms by (auto simp: ApplyParams_def srtp_inv_def keyed_from_def)
next
  case False
  show ?thesis
  proof (cases "ParseKeyParams (key_params cps) SRTP_MASTER_KEY_LEN")
    case None
    then show ?thesis unfolding ApplyParams_def if_not_P[OF False] by auto
  next
    case (Some sk)
    show ?thesis
    proof (cases "ParseKeyParams (key_params cpr) SRTP_MASTER_KEY_LEN")
      case None
      then show ?thesis using Some unfolding ApplyParams_def if_not_P[OF False] by auto
    next
      case (Some rk)
      obtain ok f' where s: "set_send_recv lib (cipher_suite cps) (Some sk) (cipher_suite cpr) (Some rk) (CreateSrtpSessions f) = Some (ok, f')"
          "keyed_from f f'"
        using set_send_recv_new by blast
      then show ?thesis
        using Some \<open>ParseKeyParams (key_params cps) SRTP_MASTER_KEY_LEN = Some sk\<close>
        unfolding ApplyParams_def if_not_P[OF False] by (auto simp: keyed_from_def)
    qed
  qed
qed

lemma srtp_inv_keyed: "keyed_from f f' \<Longrightarrow> srtp_inv (f'\<lparr>sf_state := st\<rparr>)"
  by (auto simp: keyed_from_def srtp_inv_def)

lemma srtp_inv_keyed_same: "keyed_from f f' \<Longrightarrow> srtp_inv f'"
  by (auto simp: keyed_from_def srtp_inv_def)

lemma NegotiateParams_suite:
  "NegotiateParams answer f = Some p \<Longrightarrow> list_all (\<lambda>p. cipher_suite p \<noteq> []) answer \<Longrightarrow>
     cipher_suite p \<noteq> [] \<and> cipher_suite (answer ! 0) \<noteq> [] \<and> CryptoParams_Matches (answer ! 0) p \<and> p \<in> set (offer_params f) \<and> length answer = 1"
  by (auto simp: NegotiateParams_def find_Some_iff CryptoParams_Matches_def list_all_length split: if_split_asm)

lemma DoSetAnswer_inv:
  assumes "srtp_inv f" "list_all (\<lambda>p. cipher_suite p \<noteq> []) answer"
  shows "\<exists>ok f'. DoSetAnswer lib answer source final f = Some (ok, f') \<and> srtp_inv f'"
proof (cases "Srtp_ExpectAnswer f source")
  case False
  then show ?thesis using assms(1) by (auto simp: DoSetAnswer_def intro: exI[of _ False])
next
  case expect: True
  show ?thesis
  proof (cases "answer = []")
    case True
    then show ?thesis
      using assms(1) expect by (auto simp: DoSetAnswer_def ResetParams_def srtp_inv_def Srtp_IsActive_def)
  next
    case False
    show ?thesis
    proof (cases "NegotiateParams answer f")
      case None
      then show ?thesis using assms(1) expect False by (auto simp: DoSetAnswer_def intro: exI[of _ False])
    next
      case (Some sel)
      have suites: "cipher_suite (if source = CS_REMOTE then sel else answer ! 0) \<noteq> []"
        using NegotiateParams_suite[OF Some assms(2)] by simp
      obtain ok f' where a: "ApplyParams lib (if source = CS_REMOTE then sel else answer ! 0) (if source = CS_REMOTE then answer ! 0 else sel) f = Some (ok, f')"
          "sf_state f' = sf_state f" "keyed_from f f' \<or> \<not> ok \<and> f' = f"
        using ApplyParams_ok[OF assms(1) suites] by blast
      have inv': "srtp_inv f'"
        using a(3) assms(1) srtp_inv_keyed_same by auto
      have inv'': "srtp_inv (f'\<lparr>offer_params := ps, sf_state := st\<rparr>)" "srtp_inv (f'\<lparr>sf_state := st\<rparr>)" if ok for st ps
        using a that srtp_inv_keyed[of f f' st] by (auto simp: srtp_inv_def Srtp_IsActive_def)
      show ?thesis
      proof (cases ok)
        case True
        then show ?thesis
          using expect False Some a(1) inv'' by (intro exI[of _ True]) (cases final; simp add: DoSetAnswer_def Let_def)
      next
        case False
        then show ?thesis
          using expect \<open>answer \<noteq> []\<close> Some a(1) inv' by (intro exI[of _ False]) (simp add: DoSetAnswer_def Let_def)
      qed
    qed
  qed
qed

lemma SetOffer_inv:
  "srtp_inv f \<Longrightarrow> sf_state f \<noteq> SF_SENTOFFER \<Longrightarrow> sf_state f \<noteq> SF_RECEIVEDOFFER \<Longrightarrow> srtp_inv (snd (Srtp_SetOffer params source f))"
  by (auto simp: Srtp_SetOffer_def StoreParams_def Srtp_ExpectOffer_def srtp_inv_def Srtp_IsActive_def Let_def)

lemma SetRtpParams_inv:
  assumes "srtp_inv f"
  shows "\<exists>ok f'. SetRtpParams lib scs sk rcs rk f = Some (ok, f') \<and> srtp_inv f'"
proof (cases "sf_state f = SF_ACTIVE")
  case True
  then show ?thesis using assms by (auto simp: SetRtpParams_def intro: exI[of _ False])
next
  case False
  obtain ok f' where "set_send_recv lib scs sk rcs rk (CreateSrtpSessions f) = Some (ok, f')" "keyed_from f f'"
    using set_send_recv_new by blast
  then show ?thesis
    using False srtp_inv_keyed[of f f' SF_ACTIVE] srtp_inv_keyed_same[of f f'] by (cases ok) (auto simp: SetRtpParams_def)
qed

lemma SetRtcpParams_inv: "srtp_inv f \<Longrightarrow> srtp_inv (snd (SetRtcpParams lib scs sk rcs rk f))"
  by (auto simp: SetRtcpParams_def srtp_inv_def Srtp_IsActive_def Let_def split: prod.splits)

lemma silent_inv: "srtp_inv f \<Longrightarrow> \<exists>f'. set_signal_silent_time ms f = Some f' \<and> srtp_inv f'"
  by (auto simp: set_signal_silent_time_def srtp_inv_def Srtp_IsActive_def Let_def split: option.splits)

lemma packet_inv:
  assumes "srtp_inv f"
  shows "\<exists>ok p' n f'. ProtectRtp lib now p in_len max_len f = Some (ok, p', n, f') \<and> srtp_inv f'"
    and "\<exists>ok p' n f'. ProtectRtcp lib now p in_len max_len f = Some (ok, p', n, f') \<and> srtp_inv f'"
    and "\<exists>ok p' n f'. UnprotectRtp lib now p in_len f = Some (ok, p', n, f') \<and> srtp_inv f'"
    and "\<exists>ok p' n f'. UnprotectRtcp lib now p in_len f = Some (ok, p', n, f') \<and> srtp_inv f'"
  using assms
  by (auto simp: ProtectRtp_def ProtectRtcp_def UnprotectRtp_def UnprotectRtcp_def on_session_def srtp_inv_def Srtp_IsActive_def
      split: option.splits prod.splits)

lemma srtp_call_inv:
  assumes "srtp_inv f" "orderly f op"
  shows "\<exists>f'. srtp_call lib op f = Some f' \<and> srtp_inv f'"
proof (cases op)
  case (SetAnswer_op params source final)
  then show ?thesis using assms DoSetAnswer_inv[of f params lib source final] by (auto simp: orderly_def)
next
  case (SetRtpParams_op scs sk rcs rk)
  then show ?thesis using SetRtpParams_inv[OF assms(1), of lib scs sk rcs rk] by auto
next
  case (ProtectRtp_op now p in_len max_len)
  then show ?thesis using packet_inv(1)[OF assms(1), of lib now p in_len max_len] by auto
next
  case (ProtectRtcp_op now p in_len max_len)
  then show ?thesis using packet_inv(2)[OF assms(1), of lib now p in_len max_len] by auto
next
  case (UnprotectRtp_op now p in_len)
  then show ?thesis using packet_inv(3)[OF assms(1), of lib now p in_len] by auto
next
  case (UnprotectRtcp_op now p in_len)
  then show ?thesis using packet_inv(4)[OF assms(1), of lib now p in_len] by auto
qed (use assms in \<open>auto simp: orderly_def SetOffer_inv SetRtcpParams_inv silent_inv\<close>)

lemma srtp_run_inv:
  "srtp_inv f \<Longrightarrow> orderly_run lib ops f \<Longrightarrow> \<exists>f'. srtp_run lib ops f = Some f' \<and> srtp_inv f'"
proof (induction ops arbitrary: f)
  case (Cons op ops)
  then obtain f' where "srtp_call lib op f = Some f'" "srtp_inv f'"
    using srtp_call_inv[of f op lib] by auto
  with Cons show ?case by simp
qed simp

section \<open>Keys agree\<close>

text \<open>What the code relies on: the library starts, and makes a context for every policy.\<close>

definition lib_works :: "('c, 'p) libsrtp \<Rightarrow> bool" where
  "lib_works lib \<longleftrightarrow>
     srtp_init lib = err_status_ok lib \<and> srtp_install_event_handler lib = err_status_ok lib \<and>
     (\<forall>policy. \<exists>ctx. srtp_create lib policy = (err_status_ok lib, Some ctx))"

definition session_keyed :: "('c, 'p) libsrtp \<Rightarrow> SsrcType \<Rightarrow> bytes \<Rightarrow> bytes \<Rightarrow> 'c SrtpSession option \<Rightarrow> bool" where
  "session_keyed lib type cs key s \<longleftrightarrow>
     (case (s, suite_policy lib cs) of
        (Some s, Some (rtp, rtcp)) \<Rightarrow>
          session_ctx s \<noteq> None \<and> session_ctx s = snd (srtp_create lib (key_policy type rtp rtcp key)) \<and>
          rtp_auth_tag_len s = auth_tag_len lib rtp \<and> rtcp_auth_tag_len s = auth_tag_len lib rtcp
      | _ \<Rightarrow> False)"

lemma SetKey_keyed:
  assumes "lib_works lib" "session_ctx s = None" "suite_policy lib cs \<noteq> None" "length key = SRTP_MASTER_KEY_LEN"
  shows "\<exists>s'. SetKey lib type cs (Some key) (inited, s) = (True, True, s') \<and> session_keyed lib type cs key (Some s')"
proof -
  obtain rtp rtcp where p: "suite_policy lib cs = Some (rtp, rtcp)" using assms(3) by auto
  obtain ctx where c: "srtp_create lib (key_policy type rtp rtcp key) = (err_status_ok lib, Some ctx)"
    using assms(1) by (auto simp: lib_works_def)
  have "SrtpSession_Init lib inited = (True, True)"
    using assms(1) by (simp add: SrtpSession_Init_def lib_works_def)
  then show ?thesis
    using assms p c by (simp add: SetKey_def session_keyed_def Let_def key_policy_def)
qed

lemma set_send_recv_keyed:
  assumes "lib_works lib" "suite_policy lib scs \<noteq> None" "suite_policy lib rcs \<noteq> None"
    "length sk = SRTP_MASTER_KEY_LEN" "length rk = SRTP_MASTER_KEY_LEN"
  shows "\<exists>f'. set_send_recv lib scs (Some sk) rcs (Some rk) (CreateSrtpSessions f) = Some (True, f') \<and>
    session_keyed lib ssrc_any_outbound scs sk (send_session f') \<and> session_keyed lib ssrc_any_inbound rcs rk (recv_session f') \<and>
    sf_state f' = sf_state f"
proof -
  define new :: "'a SrtpSession" where "new = session_silent_time (signal_silent_time_in_ms f) SrtpSession_new"
  have new: "session_ctx new = None" by (simp add: new_def session_silent_time_def SrtpSession_new_def)
  obtain ss where ss: "SetKey lib ssrc_any_outbound scs (Some sk) (srtp_inited f, new) = (True, True, ss)"
      "session_keyed lib ssrc_any_outbound scs sk (Some ss)"
    using SetKey_keyed[OF assms(1) new assms(2,4)] by blast
  obtain rs where rs: "SetKey lib ssrc_any_inbound rcs (Some rk) (True, new) = (True, True, rs)"
      "session_keyed lib ssrc_any_inbound rcs rk (Some rs)"
    using SetKey_keyed[OF assms(1) new assms(3,5)] by blast
  show ?thesis
    using ss rs by (simp add: set_send_recv_def CreateSrtpSessions_def session_SetSend_def session_SetRecv_def Let_def flip: new_def)
qed

lemma ParseKeyParams_length: "ParseKeyParams k n = Some key \<Longrightarrow> length key = n"
  by (auto simp: ParseKeyParams_def split: prod.splits if_split_asm)

lemma DoSetAnswer_keyed:
  assumes lib: "lib_works lib" and expect: "Srtp_ExpectAnswer f source" and neg: "NegotiateParams [ans] f = Some sel"
    and suite: "suite_policy lib (cipher_suite ans) \<noteq> None"
    and fresh: "cipher_suite (applied_send_params f) = []"
    and keys: "ParseKeyParams (key_params sel) SRTP_MASTER_KEY_LEN = Some ko" "ParseKeyParams (key_params ans) SRTP_MASTER_KEY_LEN = Some ka"
    and cases: "skey = (if source = CS_REMOTE then ko else ka)" "rkey = (if source = CS_REMOTE then ka else ko)"
  shows "\<exists>f'. DoSetAnswer lib [ans] source True f = Some (True, f') \<and> sf_state f' = SF_ACTIVE \<and>
    session_keyed lib ssrc_any_outbound (cipher_suite ans) skey (send_session f') \<and>
    session_keyed lib ssrc_any_inbound (cipher_suite ans) rkey (recv_session f')"
proof -
  have cs: "cipher_suite sel = cipher_suite ans"
    using neg by (auto simp: NegotiateParams_def find_Some_iff CryptoParams_Matches_def split: if_split_asm)
  have ne: "cipher_suite ans \<noteq> []"
    using suite by (auto simp: suite_policy_def CS_AES_CM_128_HMAC_SHA1_80_def CS_AES_CM_128_HMAC_SHA1_32_def text_bytes_def)
  have len: "length skey = SRTP_MASTER_KEY_LEN" "length rkey = SRTP_MASTER_KEY_LEN"
    using cases keys by (auto dest: ParseKeyParams_length)
  obtain f' where f': "set_send_recv lib (cipher_suite ans) (Some skey) (cipher_suite ans) (Some rkey) (CreateSrtpSessions f) = Some (True, f')"
    "session_keyed lib ssrc_any_outbound (cipher_suite ans) skey (send_session f')"
    "session_keyed lib ssrc_any_inbound (cipher_suite ans) rkey (recv_session f')"
    using set_send_recv_keyed[OF lib suite suite len] by blast
  show ?thesis
    using expect neg cs ne fresh keys cases f' by (cases source) (simp_all add: DoSetAnswer_def ApplyParams_def Let_def)
qed

text \<open>C8: When an offer and an answer that selects one of its parameters have been set at both ends, both
  filters are active, and each end sends with the key the other receives with: the offerer with the
  key of the selected parameters, the answerer with the key of the answer.\<close>
theorem srtp_keys_agree:
  assumes "lib_works lib" "List.find (CryptoParams_Matches ans) offer = Some sel"
    "suite_policy lib (cipher_suite ans) \<noteq> None"
    "ParseKeyParams (key_params sel) SRTP_MASTER_KEY_LEN = Some ko"
    "ParseKeyParams (key_params ans) SRTP_MASTER_KEY_LEN = Some ka"
  shows "\<exists>a b. Srtp_SetAnswer lib [ans] CS_REMOTE (snd (Srtp_SetOffer offer CS_LOCAL (SrtpFilter_new i))) = Some (True, a) \<and>
    Srtp_SetAnswer lib [ans] CS_LOCAL (snd (Srtp_SetOffer offer CS_REMOTE (SrtpFilter_new j))) = Some (True, b) \<and>
    Srtp_IsActive a \<and> Srtp_IsActive b \<and>
    session_keyed lib ssrc_any_outbound (cipher_suite ans) ko (send_session a) \<and>
    session_keyed lib ssrc_any_inbound (cipher_suite ans) ko (recv_session b) \<and>
    session_keyed lib ssrc_any_outbound (cipher_suite ans) ka (send_session b) \<and>
    session_keyed lib ssrc_any_inbound (cipher_suite ans) ka (recv_session a)"
proof -
  have ne: "offer \<noteq> []" using assms(2) by auto
  define fa :: "'a SrtpFilter" where "fa = snd (Srtp_SetOffer offer CS_LOCAL (SrtpFilter_new i))"
  define fb :: "'a SrtpFilter" where "fb = snd (Srtp_SetOffer offer CS_REMOTE (SrtpFilter_new j))"
  have a: "Srtp_ExpectAnswer fa CS_REMOTE" "NegotiateParams [ans] fa = Some sel" "cipher_suite (applied_send_params fa) = []"
    using assms(2) ne by (simp_all add: fa_def Srtp_SetOffer_def StoreParams_def Srtp_ExpectOffer_def SrtpFilter_new_def Srtp_ExpectAnswer_def
      NegotiateParams_def CryptoParams_new_def)
  have b: "Srtp_ExpectAnswer fb CS_LOCAL" "NegotiateParams [ans] fb = Some sel" "cipher_suite (applied_send_params fb) = []"
    using assms(2) ne by (simp_all add: fb_def Srtp_SetOffer_def StoreParams_def Srtp_ExpectOffer_def SrtpFilter_new_def Srtp_ExpectAnswer_def
      NegotiateParams_def CryptoParams_new_def)
  show ?thesis
    using DoSetAnswer_keyed[OF assms(1) a(1,2) assms(3) a(3) assms(4,5) refl refl]
      DoSetAnswer_keyed[OF assms(1) b(1,2) assms(3) b(3) assms(4,5) refl refl]
    by (auto simp: Srtp_SetAnswer_def Srtp_IsActive_def fa_def fb_def)
qed

text \<open>C15: A filter whose callers do not replace an unanswered first offer and whose answers name a cipher
  suite never follows a null session, whatever the calls, their order and the answers of libsrtp.\<close>
theorem srtp_no_null_session:
  assumes "orderly_run lib ops (SrtpFilter_new inited)"
  shows "\<exists>f. srtp_run lib ops (SrtpFilter_new inited) = Some f \<and> (Srtp_IsActive f \<longrightarrow> send_session f \<noteq> None \<and> recv_session f \<noteq> None)"
  using srtp_run_inv[OF srtp_inv_new assms] by (auto simp: srtp_inv_def)

text \<open>When a second local offer replaces the first before it is answered, the filter takes itself for
  active although it has no session, and the next packet to protect follows a null pointer; so it does
  with a remote offer.\<close>
theorem srtp_reoffer_active:
  "\<exists>f. snd (Srtp_SetOffer ps2 src (snd (Srtp_SetOffer ps1 src (SrtpFilter_new inited)))) = f \<and>
     Srtp_IsActive f \<and> send_session f = None \<and> recv_session f = None \<and>
     ProtectRtp lib now p in_len max_len f = None \<and> UnprotectRtp lib now p in_len f = None"
  by (cases src) (simp_all add: Srtp_SetOffer_def StoreParams_def Srtp_ExpectOffer_def SrtpFilter_new_def Srtp_IsActive_def
    ProtectRtp_def UnprotectRtp_def on_session_def)

section \<open>Examples\<close>

text \<open>A library whose contexts are the keys and which adds a tag of ten zero bytes.\<close>

definition plain_srtp :: "(bytes, nat) libsrtp" where
  "plain_srtp =
     \<lparr>err_status_ok = 0, err_status_auth_fail = 7, err_status_replay_fail = 9, err_status_replay_old = 10,
      srtp_init = 0, srtp_install_event_handler = 0, aes_cm_128_hmac_sha1_80 = 10, aes_cm_128_hmac_sha1_32 = 4,
      auth_tag_len = int, srtp_create = (\<lambda>policy. (0, Some (pol_key policy))),
      srtp_protect = (\<lambda>ctx p n. (0, p, n + 10, ctx)), srtp_protect_rtcp = (\<lambda>ctx p n. (0, p, n + 14, ctx)),
      srtp_unprotect = (\<lambda>ctx p n. (0, p, n - 10, ctx)), srtp_unprotect_rtcp = (\<lambda>ctx p n. (0, p, n - 14, ctx))\<rparr>"

lemma plain_srtp_works: "lib_works plain_srtp"
  by (simp add: lib_works_def plain_srtp_def)

definition example_params :: "u8 \<Rightarrow> CryptoParams" where
  "example_params b =
     \<lparr>tag = 1, cipher_suite = CS_AES_CM_128_HMAC_SHA1_80,
      key_params = text_bytes ''inline:'' @ Base64_Encode (replicate 30 b), session_params = []\<rparr>"

lemma ParseKeyParams_example: "ParseKeyParams (key_params (example_params b)) SRTP_MASTER_KEY_LEN = Some (replicate 30 b)"
  by (simp add: ParseKeyParams_def example_params_def strict_decode_encode text_bytes_def SRTP_MASTER_KEY_LEN_def)

theorem srtp_keys_agree_witness:
  "\<exists>a b. Srtp_SetAnswer plain_srtp [example_params 2] CS_REMOTE
       (snd (Srtp_SetOffer [example_params 1] CS_LOCAL (SrtpFilter_new True))) = Some (True, a) \<and>
     Srtp_SetAnswer plain_srtp [example_params 2] CS_LOCAL
       (snd (Srtp_SetOffer [example_params 1] CS_REMOTE (SrtpFilter_new False))) = Some (True, b) \<and>
     session_keyed plain_srtp ssrc_any_outbound CS_AES_CM_128_HMAC_SHA1_80 (replicate 30 1) (send_session a) \<and>
     session_keyed plain_srtp ssrc_any_inbound CS_AES_CM_128_HMAC_SHA1_80 (replicate 30 1) (recv_session b)"
proof -
  have "List.find (CryptoParams_Matches (example_params 2)) [example_params 1] = Some (example_params 1)"
    "suite_policy plain_srtp (cipher_suite (example_params 2)) \<noteq> None" "cipher_suite (example_params 2) = CS_AES_CM_128_HMAC_SHA1_80"
    by (simp_all add: CryptoParams_Matches_def example_params_def suite_policy_def)
  from srtp_keys_agree[OF plain_srtp_works this(1,2) ParseKeyParams_example ParseKeyParams_example, of True False] this(3)
  show ?thesis by auto
qed

theorem srtp_no_null_session_witness:
  "\<exists>f. srtp_run plain_srtp
     [SetOffer_op [example_params 1] CS_LOCAL, SetAnswer_op [example_params 2] CS_REMOTE True,
      SetOffer_op [] CS_LOCAL, ProtectRtp_op 5 (replicate 40 0) 30 40] (SrtpFilter_new False) = Some f"
proof -
  have c: "cipher_suite (example_params 2) \<noteq> []"
    by (simp add: example_params_def CS_AES_CM_128_HMAC_SHA1_80_def text_bytes_def)
  define f1 :: "bytes SrtpFilter" where "f1 = snd (Srtp_SetOffer [example_params 1] CS_LOCAL (SrtpFilter_new False))"
  have "Srtp_ExpectAnswer f1 CS_REMOTE" "NegotiateParams [example_params 2] f1 = Some (example_params 1)"
    "cipher_suite (applied_send_params f1) = []" "suite_policy plain_srtp (cipher_suite (example_params 2)) \<noteq> None"
    by (simp_all add: f1_def Srtp_SetOffer_def StoreParams_def Srtp_ExpectOffer_def SrtpFilter_new_def Srtp_ExpectAnswer_def
      NegotiateParams_def CryptoParams_new_def CryptoParams_Matches_def example_params_def suite_policy_def)
  from DoSetAnswer_keyed[OF plain_srtp_works this(1,2,4,3) ParseKeyParams_example ParseKeyParams_example refl refl]
  obtain f2 where f2: "DoSetAnswer plain_srtp [example_params 2] CS_REMOTE True f1 = Some (True, f2)" "sf_state f2 = SF_ACTIVE"
    by blast
  have "orderly_run plain_srtp [SetOffer_op [example_params 1] CS_LOCAL, SetAnswer_op [example_params 2] CS_REMOTE True,
      SetOffer_op [] CS_LOCAL, ProtectRtp_op 5 (replicate 40 0) 30 40] (SrtpFilter_new False)"
    using c f2 by (simp add: orderly_def flip: f1_def) (simp add: SrtpFilter_new_def split: option.split)
  from srtp_no_null_session[OF this] show ?thesis by auto
qed

section \<open>Two oddities\<close>

lemma failure_less_not_an_order:
  "failure_less \<lparr>fk_ssrc = 1, fk_mode = UNPROTECT, fk_error = ERROR_AUTH\<rparr> \<lparr>fk_ssrc = 2, fk_mode = PROTECT, fk_error = ERROR_AUTH\<rparr> \<and>
   failure_less \<lparr>fk_ssrc = 2, fk_mode = PROTECT, fk_error = ERROR_AUTH\<rparr> \<lparr>fk_ssrc = 1, fk_mode = UNPROTECT, fk_error = ERROR_AUTH\<rparr>"
  by (simp add: failure_less_def)

text \<open>A provisional answer without parameters switches an active filter off until the final one.\<close>

lemma pranswer_deactivates:
  assumes "sf_state f = SF_ACTIVE"
  shows "\<exists>f'. Srtp_SetProvisionalAnswer lib [] CS_REMOTE (snd (Srtp_SetOffer ps CS_LOCAL f)) = Some (True, f') \<and> \<not> Srtp_IsActive f'"
  using assms
  by (simp add: Srtp_SetOffer_def StoreParams_def Srtp_ExpectOffer_def Srtp_SetProvisionalAnswer_def DoSetAnswer_def
      Srtp_ExpectAnswer_def Srtp_IsActive_def)

end
