(* ===== verification/PtcpState.thy ===== *)
theory PtcpState
  imports FifoBuf ByteBuf TimeUtils
begin

text \<open>
  \<^verbatim>\<open>PseudoTcp\<close> of \<^verbatim>\<open>talk/p2p/base/pseudotcp.h\<close> and
  \<^verbatim>\<open>pseudotcp.cc\<close>: the reliable stream over datagrams. This theory holds the
  constants, the state and the operations that touch no network.

  The record has the class's members. Two more fields make an execution a function: \<open>t_nows\<close>
  counts the reads of the clock, and \<open>t_log\<close> is what was told to the owner through
  \<^verbatim>\<open>IPseudoTcpNotify\<close>, packets included, oldest first. The environment answers:
  \<open>e_now\<close> gives the time at each read of the clock and \<open>e_write\<close> the result of writing a
  packet, which may depend on everything the owner has seen. A callback of the owner that calls
  back into the object before it returns is not modelled.

  The value \<open>None\<close> of an operation is behaviour that C++ leaves undefined: an iterator past
  the end, a shift by the width or more, a division by zero, a read outside a buffer or of memory
  never written. \<^verbatim>\<open>ASSERT\<close> does nothing, as in a release build.
\<close>

section \<open>Constants\<close>

definition PACKET_MAXIMUMS :: "u16 list" where
  "PACKET_MAXIMUMS = [65535, 32000, 17914, 8166, 4352, 2002, 1492, 1006, 508, 296, 0]"

definition MAX_PACKET :: u32 where "MAX_PACKET = 65535"
definition MIN_PACKET :: u32 where "MIN_PACKET = 296"
definition IP_HEADER_SIZE :: u32 where "IP_HEADER_SIZE = 20"
definition UDP_HEADER_SIZE :: u32 where "UDP_HEADER_SIZE = 8"
definition JINGLE_HEADER_SIZE :: u32 where "JINGLE_HEADER_SIZE = 64"
definition DEFAULT_RCV_BUF_SIZE :: u32 where "DEFAULT_RCV_BUF_SIZE = 60 * 1024"
definition DEFAULT_SND_BUF_SIZE :: u32 where "DEFAULT_SND_BUF_SIZE = 90 * 1024"
definition HEADER_SIZE :: u32 where "HEADER_SIZE = 24"
definition PACKET_OVERHEAD :: u32 where
  "PACKET_OVERHEAD = HEADER_SIZE + UDP_HEADER_SIZE + IP_HEADER_SIZE + JINGLE_HEADER_SIZE"
definition MIN_RTO :: u32 where "MIN_RTO = 250"
definition DEF_RTO :: u32 where "DEF_RTO = 3000"
definition MAX_RTO :: u32 where "MAX_RTO = 60000"
definition DEF_ACK_DELAY :: u32 where "DEF_ACK_DELAY = 100"
definition FLAG_CTL :: u8 where "FLAG_CTL = 0x02"
definition FLAG_RST :: u8 where "FLAG_RST = 0x04"
definition CTL_CONNECT :: u8 where "CTL_CONNECT = 0"
definition TCP_OPT_EOL :: u8 where "TCP_OPT_EOL = 0"
definition TCP_OPT_NOOP :: u8 where "TCP_OPT_NOOP = 1"
definition TCP_OPT_MSS :: u8 where "TCP_OPT_MSS = 2"
definition TCP_OPT_WND_SCALE :: u8 where "TCP_OPT_WND_SCALE = 3"
definition DEFAULT_TIMEOUT :: int where "DEFAULT_TIMEOUT = 4000"
definition CLOSED_TIMEOUT :: int where "CLOSED_TIMEOUT = 60 * 1000"

lemmas ptcp_sizes = MAX_PACKET_def MIN_PACKET_def IP_HEADER_SIZE_def UDP_HEADER_SIZE_def JINGLE_HEADER_SIZE_def
  DEFAULT_RCV_BUF_SIZE_def DEFAULT_SND_BUF_SIZE_def HEADER_SIZE_def PACKET_OVERHEAD_def

lemmas ptcp_times = MIN_RTO_def DEF_RTO_def MAX_RTO_def DEF_ACK_DELAY_def DEFAULT_TIMEOUT_def CLOSED_TIMEOUT_def

definition long_to_bytes :: "u32 \<Rightarrow> u8 list" where
  "long_to_bytes val = store_host 4 (HostToNetwork32 val)"

definition short_to_bytes :: "u16 \<Rightarrow> u8 list" where
  "short_to_bytes val = store_host 2 (HostToNetwork16 val)"

definition bytes_to_long :: "u8 list \<Rightarrow> u32" where
  "bytes_to_long buf = NetworkToHost32 (load_host (take 4 buf))"

definition bytes_to_short :: "u8 list \<Rightarrow> u16" where
  "bytes_to_short buf = NetworkToHost16 (load_host (take 2 buf))"

definition bound :: "u32 \<Rightarrow> u32 \<Rightarrow> u32 \<Rightarrow> u32" where
  "bound lower middle upper = min (max lower middle) upper"

section \<open>State\<close>

datatype WriteResult = WR_SUCCESS | WR_TOO_LARGE | WR_FAIL

datatype errno = EINVAL | ENOTCONN | EWOULDBLOCK | ECONNABORTED | ECONNRESET

datatype PtcpEvent =
    OnTcpOpen
  | OnTcpReadable
  | OnTcpWriteable
  | OnTcpClosed errno
  | TcpWritePacket "u8 list" WriteResult

record Env =
  e_now :: "nat \<Rightarrow> u32"
  e_write :: "PtcpEvent list \<Rightarrow> u8 list \<Rightarrow> WriteResult"

datatype TcpState = TCP_LISTEN | TCP_SYN_SENT | TCP_SYN_RECEIVED | TCP_ESTABLISHED | TCP_CLOSED

datatype SendFlags = sfNone | sfDelayedAck | sfImmediateAck

datatype Shutdown = SD_NONE | SD_GRACEFUL | SD_FORCEFUL

datatype PtcpOption = OPT_NODELAY | OPT_ACKDELAY | OPT_RCVBUF | OPT_SNDBUF

record Segment =
  g_conv :: u32
  g_seq :: u32
  g_ack :: u32
  g_flags :: u8
  g_wnd :: u16
  g_data :: "u8 list"
  g_len :: u32
  g_tsval :: u32
  g_tsecr :: u32

record SSegment =
  s_seq :: u32
  s_len :: u32
  s_xmit :: u8
  s_bCtrl :: bool

record RSegment =
  r_seq :: u32
  r_len :: u32

record PseudoTcp =
  m_shutdown :: Shutdown
  m_error :: "errno option"
  m_state :: TcpState
  m_conv :: u32
  m_bReadEnable :: bool
  m_bWriteEnable :: bool
  m_bOutgoing :: bool
  m_lasttraffic :: u32
  m_rlist :: "RSegment list"
  m_rbuf_len :: u32
  m_rcv_nxt :: u32
  m_rcv_wnd :: u32
  m_lastrecv :: u32
  m_rwnd_scale :: u8
  m_rbuf :: FifoBuffer
  m_slist :: "SSegment list"
  m_sbuf_len :: u32
  m_snd_nxt :: u32
  m_snd_wnd :: u32
  m_lastsend :: u32
  m_snd_una :: u32
  m_swnd_scale :: u8
  m_sbuf :: FifoBuffer
  m_mss :: u32
  m_msslevel :: nat
  m_largest :: u32
  m_mtu_advise :: u32
  m_rto_base :: u32
  m_ts_recent :: u32
  m_ts_lastack :: u32
  m_rx_rttvar :: u32
  m_rx_srtt :: u32
  m_rx_rto :: u32
  m_ssthresh :: u32
  m_cwnd :: u32
  m_dup_acks :: u8
  m_recover :: u32
  m_t_ack :: u32
  m_use_nagling :: bool
  m_ack_delay :: u32
  m_support_wnd_scale :: bool
  t_nows :: nat
  t_log :: "PtcpEvent list"

definition Now :: "Env \<Rightarrow> PseudoTcp \<Rightarrow> u32 \<times> PseudoTcp" where
  "Now E s = (e_now E (t_nows s), s\<lparr>t_nows := Suc (t_nows s)\<rparr>)"

definition notify :: "PtcpEvent \<Rightarrow> PseudoTcp \<Rightarrow> PseudoTcp" where
  "notify ev s = s\<lparr>t_log := t_log s @ [ev]\<rparr>"

definition PseudoTcp_new :: "Env \<Rightarrow> u32 \<Rightarrow> PseudoTcp" where
  "PseudoTcp_new E conv =
     (let now = e_now E 0; mss = MIN_PACKET - PACKET_OVERHEAD in
      \<lparr>m_shutdown = SD_NONE, m_error = None, m_state = TCP_LISTEN, m_conv = conv,
       m_bReadEnable = True, m_bWriteEnable = False, m_bOutgoing = False, m_lasttraffic = now,
       m_rlist = [], m_rbuf_len = DEFAULT_RCV_BUF_SIZE, m_rcv_nxt = 0, m_rcv_wnd = DEFAULT_RCV_BUF_SIZE,
       m_lastrecv = now, m_rwnd_scale = 0, m_rbuf = FifoBuffer_new (unat DEFAULT_RCV_BUF_SIZE),
       m_slist = [], m_sbuf_len = DEFAULT_SND_BUF_SIZE, m_snd_nxt = 0, m_snd_wnd = 1, m_lastsend = now,
       m_snd_una = 0, m_swnd_scale = 0, m_sbuf = FifoBuffer_new (unat DEFAULT_SND_BUF_SIZE),
       m_mss = mss, m_msslevel = 0, m_largest = 0, m_mtu_advise = MAX_PACKET, m_rto_base = 0,
       m_ts_recent = 0, m_ts_lastack = 0, m_rx_rttvar = 0, m_rx_srtt = 0, m_rx_rto = DEF_RTO,
       m_ssthresh = DEFAULT_RCV_BUF_SIZE, m_cwnd = 2 * mss, m_dup_acks = 0, m_recover = 0, m_t_ack = 0,
       m_use_nagling = True, m_ack_delay = DEF_ACK_DELAY, m_support_wnd_scale = True,
       t_nows = 1, t_log = []\<rparr>)"

section \<open>Small operations\<close>

definition closedown :: "errno \<Rightarrow> PseudoTcp \<Rightarrow> PseudoTcp" where
  "closedown err s = notify (OnTcpClosed err) (s\<lparr>m_state := TCP_CLOSED\<rparr>)"

text \<open>The loop of \<^verbatim>\<open>adjustMTU\<close> over the packet sizes.\<close>

fun mtu_level :: "u16 list \<Rightarrow> u32 \<Rightarrow> nat \<Rightarrow> nat" where
  "mtu_level (p # q # ps) mtu level =
     (if q > 0 then (if ucast p \<le> mtu then level else mtu_level (q # ps) mtu (Suc level)) else level)"
| "mtu_level _ mtu level = level"

definition adjustMTU :: "PseudoTcp \<Rightarrow> PseudoTcp" where
  "adjustMTU s =
     (let s = s\<lparr>m_msslevel := mtu_level PACKET_MAXIMUMS (m_mtu_advise s) 0\<rparr>;
          s = s\<lparr>m_mss := m_mtu_advise s - PACKET_OVERHEAD\<rparr>;
          s = s\<lparr>m_ssthresh := max (m_ssthresh s) (2 * m_mss s)\<rparr>
      in s\<lparr>m_cwnd := max (m_cwnd s) (m_mss s)\<rparr>)"

definition NotifyMTU :: "u16 \<Rightarrow> PseudoTcp \<Rightarrow> PseudoTcp" where
  "NotifyMTU mtu s =
     (let s = s\<lparr>m_mtu_advise := ucast mtu\<rparr>
      in if m_state s = TCP_ESTABLISHED then adjustMTU s else s)"

definition resizeSendBuffer :: "u32 \<Rightarrow> PseudoTcp \<Rightarrow> PseudoTcp" where
  "resizeSendBuffer new_size s =
     s\<lparr>m_sbuf_len := new_size, m_sbuf := snd (SetCapacity (m_sbuf s) (unat new_size))\<rparr>"

function scale_loop :: "u32 \<Rightarrow> u8 \<Rightarrow> u32 \<times> u8" where
  "scale_loop new_size scale_factor =
     (if new_size > 0xFFFF then scale_loop (drop_bit 1 new_size) (scale_factor + 1) else (new_size, scale_factor))"
  by pat_completeness auto
termination
  by (relation "measure (\<lambda>(n, _). unat n)") (auto simp: drop_bit_eq_div unat_div word_less_nat_alt)

declare scale_loop.simps [simp del]

definition resizeReceiveBuffer :: "u32 \<Rightarrow> PseudoTcp \<Rightarrow> PseudoTcp" where
  "resizeReceiveBuffer new_size s =
     (let (new_size, scale_factor) = scale_loop new_size 0;
          new_size = push_bit (unat scale_factor) new_size;
          s = s\<lparr>m_rbuf := snd (SetCapacity (m_rbuf s) (unat new_size))\<rparr>;
          s = s\<lparr>m_rbuf_len := new_size, m_rwnd_scale := scale_factor, m_ssthresh := new_size\<rparr>
      in s\<lparr>m_rcv_wnd := of_nat (GetWriteRemaining (m_rbuf s))\<rparr>)"

definition isReceiveBufferFull :: "PseudoTcp \<Rightarrow> bool" where
  "isReceiveBufferFull s \<longleftrightarrow> GetWriteRemaining (m_rbuf s) = 0"

definition disableWindowScale :: "PseudoTcp \<Rightarrow> PseudoTcp" where
  "disableWindowScale s = s\<lparr>m_support_wnd_scale := False\<rparr>"

definition GetOption :: "PtcpOption \<Rightarrow> PseudoTcp \<Rightarrow> int" where
  "GetOption opt s =
     (case opt of
        OPT_NODELAY \<Rightarrow> if m_use_nagling s then 0 else 1
      | OPT_ACKDELAY \<Rightarrow> sint (m_ack_delay s)
      | OPT_SNDBUF \<Rightarrow> sint (m_sbuf_len s)
      | OPT_RCVBUF \<Rightarrow> sint (m_rbuf_len s))"

definition SetOption :: "PtcpOption \<Rightarrow> int \<Rightarrow> PseudoTcp \<Rightarrow> PseudoTcp" where
  "SetOption opt val s =
     (case opt of
        OPT_NODELAY \<Rightarrow> s\<lparr>m_use_nagling := (val = 0)\<rparr>
      | OPT_ACKDELAY \<Rightarrow> s\<lparr>m_ack_delay := word_of_int val\<rparr>
      | OPT_SNDBUF \<Rightarrow> resizeSendBuffer (word_of_int val) s
      | OPT_RCVBUF \<Rightarrow> resizeReceiveBuffer (word_of_int val) s)"

definition GetCongestionWindow :: "PseudoTcp \<Rightarrow> u32" where
  "GetCongestionWindow s = m_cwnd s"

definition GetBytesInFlight :: "PseudoTcp \<Rightarrow> u32" where
  "GetBytesInFlight s = m_snd_nxt s - m_snd_una s"

definition GetBytesBufferedNotSent :: "PseudoTcp \<Rightarrow> u32" where
  "GetBytesBufferedNotSent s = m_snd_una s + of_nat (GetBuffered (m_sbuf s)) - m_snd_nxt s"

definition GetRoundTripTimeEstimateMs :: "PseudoTcp \<Rightarrow> u32" where
  "GetRoundTripTimeEstimateMs s = m_rx_srtt s"

definition Close :: "bool \<Rightarrow> PseudoTcp \<Rightarrow> PseudoTcp" where
  "Close force s = s\<lparr>m_shutdown := (if force then SD_FORCEFUL else SD_GRACEFUL)\<rparr>"

definition GetError :: "PseudoTcp \<Rightarrow> errno option" where
  "GetError s = m_error s"

text \<open>\<open>None\<close> when the object is ready to be destroyed.\<close>

definition clock_check :: "u32 \<Rightarrow> PseudoTcp \<Rightarrow> int option" where
  "clock_check now s =
     (if m_shutdown s = SD_FORCEFUL then None
      else if m_shutdown s = SD_GRACEFUL \<and>
        (m_state s \<noteq> TCP_ESTABLISHED \<or> GetBuffered (m_sbuf s) = 0 \<and> m_t_ack s = 0) then None
      else if m_state s = TCP_CLOSED then Some CLOSED_TIMEOUT
      else
        let nTimeout = DEFAULT_TIMEOUT;
            nTimeout = (if m_t_ack s \<noteq> 0 then min nTimeout (TimeDiff (m_t_ack s + m_ack_delay s) now) else nTimeout);
            nTimeout = (if m_rto_base s \<noteq> 0 then min nTimeout (TimeDiff (m_rto_base s + m_rx_rto s) now) else nTimeout);
            nTimeout = (if m_snd_wnd s = 0 then min nTimeout (TimeDiff (m_lastsend s + m_rx_rto s) now) else nTimeout)
        in Some nTimeout)"

definition GetNextClock :: "u32 \<Rightarrow> PseudoTcp \<Rightarrow> int option" where
  "GetNextClock now s = clock_check now s"

end
