(* ===== verification/PtcpSend.thy ===== *)
theory PtcpSend
  imports PtcpState
begin

text \<open>
  The sending side of \<^verbatim>\<open>PseudoTcp\<close>: queueing bytes, building packets,
  transmitting a segment with the search for a packet size that fits, and
  \<^verbatim>\<open>attemptSend\<close>. An iterator into \<^verbatim>\<open>m_slist\<close> is an index.
\<close>

section \<open>Packets\<close>

definition packet_header :: "u32 \<Rightarrow> u32 \<Rightarrow> u32 \<Rightarrow> u8 \<Rightarrow> u16 \<Rightarrow> u32 \<Rightarrow> u32 \<Rightarrow> u8 list" where
  "packet_header conv seq ack flags wnd now ts_recent =
     long_to_bytes conv @ long_to_bytes seq @ long_to_bytes ack @ [0, flags] @ short_to_bytes wnd @
     long_to_bytes now @ long_to_bytes ts_recent"

definition packet :: "Env \<Rightarrow> u32 \<Rightarrow> u8 \<Rightarrow> u32 \<Rightarrow> u32 \<Rightarrow> PseudoTcp \<Rightarrow> (WriteResult \<times> PseudoTcp) option" where
  "packet E seq flags offset len s =
     (if unat HEADER_SIZE + unat len > unat MAX_PACKET then None
      else
        let (now, s) = Now E s;
            header = packet_header (m_conv s) seq (m_rcv_nxt s) flags
              (ucast (drop_bit (unat (m_rwnd_scale s)) (m_rcv_wnd s))) now (m_ts_recent s);
            s = s\<lparr>m_ts_lastack := m_rcv_nxt s\<rparr>;
            bytes = (if len \<noteq> 0 then snd (ReadOffset (m_sbuf s) (unat len) (unat offset)) else [])
        in if length bytes \<noteq> unat len then None
           else
             let wres = e_write E (t_log s) (header @ bytes);
                 s = notify (TcpWritePacket (header @ bytes) wres) s
             in if wres \<noteq> WR_SUCCESS \<and> 0 \<noteq> len then Some (wres, s)
                else
                  let s = s\<lparr>m_t_ack := 0\<rparr>;
                      s = (if len > 0 then s\<lparr>m_lastsend := now\<rparr> else s)
                  in Some (WR_SUCCESS, s\<lparr>m_lasttraffic := now, m_bOutgoing := True\<rparr>))"

section \<open>Queueing\<close>

definition ptcp_queue :: "u8 list \<Rightarrow> bool \<Rightarrow> PseudoTcp \<Rightarrow> u32 \<times> PseudoTcp" where
  "ptcp_queue data bCtrl s =
     (let len = of_nat (length data);
          available_space = GetWriteRemaining (m_sbuf s);
          len = (if len > of_nat available_space then of_nat available_space else len);
          s = (if m_slist s \<noteq> [] \<and> s_bCtrl (last (m_slist s)) = bCtrl \<and> s_xmit (last (m_slist s)) = 0
               then s\<lparr>m_slist := butlast (m_slist s) @ [(last (m_slist s))\<lparr>s_len := s_len (last (m_slist s)) + len\<rparr>]\<rparr>
               else s\<lparr>m_slist := m_slist s @ [\<lparr>s_seq = m_snd_una s + of_nat (GetBuffered (m_sbuf s)), s_len = len,
                      s_xmit = 0, s_bCtrl = bCtrl\<rparr>]\<rparr>);
          (_, written, sbuf) = FifoWrite (m_sbuf s) data (unat len)
      in (of_nat written, s\<lparr>m_sbuf := sbuf\<rparr>))"

definition connect_message :: "PseudoTcp \<Rightarrow> ByteBuffer" where
  "connect_message s =
     (let buf = ByteBuffer_empty ORDER_NETWORK;
          buf = WriteUInt8 buf CTL_CONNECT
      in if m_support_wnd_scale s then
           (let buf = WriteUInt8 buf TCP_OPT_WND_SCALE;
                buf = WriteUInt8 buf 1
            in WriteUInt8 buf (m_rwnd_scale s))
         else buf)"

definition queueConnectMessage :: "PseudoTcp \<Rightarrow> PseudoTcp" where
  "queueConnectMessage s =
     (let buf = connect_message s;
          s = s\<lparr>m_snd_wnd := of_nat (Length buf)\<rparr>
      in snd (ptcp_queue (take (Length buf) (Data buf)) True s))"

section \<open>Transmitting a segment\<close>

text \<open>
  The inner loop of \<^verbatim>\<open>transmit\<close>: go down the packet sizes until the segment size
  falls below what was tried. The flag is false when the list is exhausted.
\<close>

definition next_mss :: "PseudoTcp \<Rightarrow> PseudoTcp" where
  "next_mss s =
     (let s = s\<lparr>m_msslevel := m_msslevel s + 1\<rparr>;
          s = s\<lparr>m_mss := ucast (PACKET_MAXIMUMS ! m_msslevel s) - PACKET_OVERHEAD\<rparr>
      in s\<lparr>m_cwnd := 2 * m_mss s\<rparr>)"

lemma next_mss_level [simp]: "m_msslevel (next_mss s) = Suc (m_msslevel s)"
  by (simp add: next_mss_def Let_def)

function lower_mss :: "u32 \<Rightarrow> PseudoTcp \<Rightarrow> (bool \<times> u32 \<times> PseudoTcp) option" where
  "lower_mss nTransmit s =
     (if m_msslevel s + 1 \<ge> length PACKET_MAXIMUMS then None
      else if PACKET_MAXIMUMS ! (m_msslevel s + 1) = 0 then Some (False, nTransmit, s)
      else
        let s = next_mss s
        in if m_mss s < nTransmit then Some (True, m_mss s, s) else lower_mss nTransmit s)"
  by pat_completeness auto
termination by (relation "measure (\<lambda>(n, s). length PACKET_MAXIMUMS - m_msslevel s)") auto

declare lower_mss.simps [simp del]

lemma lower_mss_level:
  "lower_mss n s = Some (r, n', s') \<Longrightarrow>
   m_msslevel s \<le> m_msslevel s' \<and> m_msslevel s' < length PACKET_MAXIMUMS \<and> (r \<longrightarrow> m_msslevel s < m_msslevel s')"
proof (induction n s rule: lower_mss.induct)
  case (1 n s)
  then show ?case by (subst (asm) (2) lower_mss.simps) (fastforce simp: Let_def split: if_splits)
qed

lemma packet_level: "packet E seq flags off len s = Some (r, s') \<Longrightarrow> m_msslevel s' = m_msslevel s"
  by (auto simp: packet_def Now_def notify_def Let_def split: if_splits)

text \<open>The outer loop of \<^verbatim>\<open>transmit\<close>: the size that was sent, or failure.\<close>

function transmit_loop :: "Env \<Rightarrow> SSegment \<Rightarrow> u32 \<Rightarrow> PseudoTcp \<Rightarrow> (bool \<times> u32 \<times> PseudoTcp) option" where
  "transmit_loop E seg nTransmit s =
     (case packet E (s_seq seg) (if s_bCtrl seg then FLAG_CTL else 0) (s_seq seg - m_snd_una s) nTransmit s of
        None \<Rightarrow> None
      | Some (wres, s) \<Rightarrow>
          if wres = WR_SUCCESS then Some (True, nTransmit, s)
          else if wres = WR_FAIL then Some (False, nTransmit, s)
          else (case lower_mss nTransmit s of
                  None \<Rightarrow> None
                | Some (lowered, nTransmit, s) \<Rightarrow>
                    if lowered then transmit_loop E seg nTransmit s else Some (False, nTransmit, s)))"
  by pat_completeness auto
termination
  by (relation "measure (\<lambda>(E, seg, n, s). length PACKET_MAXIMUMS - m_msslevel s)")
    (auto dest!: lower_mss_level packet_level)

declare transmit_loop.simps [simp del]

definition transmit :: "Env \<Rightarrow> nat \<Rightarrow> u32 \<Rightarrow> PseudoTcp \<Rightarrow> (bool \<times> PseudoTcp) option" where
  "transmit E i now s =
     (if i \<ge> length (m_slist s) then None
      else
        let seg = m_slist s ! i in
        if s_xmit seg \<ge> (if m_state s = TCP_ESTABLISHED then 15 else 30) then Some (False, s)
        else case transmit_loop E seg (min (s_len seg) (m_mss s)) s of
          None \<Rightarrow> None
        | Some (sent, nTransmit, s) \<Rightarrow>
            if \<not> sent then Some (False, s)
            else
              let (seg, s) =
                (if nTransmit < s_len seg then
                   let subseg = \<lparr>s_seq = s_seq seg + nTransmit, s_len = s_len seg - nTransmit,
                                 s_xmit = s_xmit seg, s_bCtrl = s_bCtrl seg\<rparr>;
                       seg = seg\<lparr>s_len := nTransmit\<rparr>
                   in (seg, s\<lparr>m_slist := take i (m_slist s) @ [seg, subseg] @ drop (Suc i) (m_slist s)\<rparr>)
                 else (seg, s));
                  s = (if s_xmit seg = 0 then s\<lparr>m_snd_nxt := m_snd_nxt s + s_len seg\<rparr> else s);
                  s = s\<lparr>m_slist := (m_slist s)[i := seg\<lparr>s_xmit := s_xmit seg + 1\<rparr>]\<rparr>;
                  s = (if m_rto_base s = 0 then s\<lparr>m_rto_base := now\<rparr> else s)
              in Some (True, s))"

section \<open>Sending what the window allows\<close>

fun next_segment :: "SSegment list \<Rightarrow> nat option" where
  "next_segment [] = None"
| "next_segment (x # xs) = (if s_xmit x > 0 then map_option Suc (next_segment xs) else Some 0)"

definition congestion_window :: "PseudoTcp \<Rightarrow> u32" where
  "congestion_window s =
     (if m_dup_acks s = 1 \<or> m_dup_acks s = 2 then m_cwnd s + ucast (m_dup_acks s) * m_mss s else m_cwnd s)"

text \<open>The bytes that may be sent next, after the rules against silly windows.\<close>

definition available_to_send :: "PseudoTcp \<Rightarrow> u32" where
  "available_to_send s =
     (let nWindow = min (m_snd_wnd s) (congestion_window s);
          nInFlight = m_snd_nxt s - m_snd_una s;
          nUseable = (if nInFlight < nWindow then nWindow - nInFlight else 0);
          nAvailable = min (of_nat (GetBuffered (m_sbuf s)) - nInFlight) (m_mss s)
      in if nAvailable > nUseable then (if nUseable * 4 < nWindow then 0 else nUseable) else nAvailable)"

definition split_segment :: "nat \<Rightarrow> u32 \<Rightarrow> PseudoTcp \<Rightarrow> PseudoTcp" where
  "split_segment i nAvailable s =
     (let seg = m_slist s ! i in
      if s_len seg > nAvailable then
        let subseg = \<lparr>s_seq = s_seq seg + nAvailable, s_len = s_len seg - nAvailable, s_xmit = 0, s_bCtrl = s_bCtrl seg\<rparr>
        in s\<lparr>m_slist := take i (m_slist s) @ [seg\<lparr>s_len := nAvailable\<rparr>, subseg] @ drop (Suc i) (m_slist s)\<rparr>
      else s)"

text \<open>
  One round of \<^verbatim>\<open>attemptSend\<close>'s loop: \<open>Inl\<close> returns, \<open>Inr\<close> goes round again
  with \<^verbatim>\<open>sfNone\<close>.
\<close>

definition attemptSend_round :: "Env \<Rightarrow> u32 \<Rightarrow> SendFlags \<Rightarrow> PseudoTcp \<Rightarrow> (PseudoTcp + PseudoTcp) option" where
  "attemptSend_round E now sflags s =
     (let nAvailable = available_to_send s in
      if nAvailable = 0 then
        (if sflags = sfNone then Some (Inl s)
         else if sflags = sfImmediateAck \<or> m_t_ack s \<noteq> 0 then
           (case packet E (m_snd_nxt s) 0 0 0 s of None \<Rightarrow> None | Some (_, s) \<Rightarrow> Some (Inl s))
         else let (t, s) = Now E s in Some (Inl (s\<lparr>m_t_ack := t\<rparr>)))
      else if m_use_nagling s \<and> m_snd_nxt s > m_snd_una s \<and> nAvailable < m_mss s then Some (Inl s)
      else case next_segment (m_slist s) of
        None \<Rightarrow> None
      | Some i \<Rightarrow>
          (case transmit E i now (split_segment i nAvailable s) of
             None \<Rightarrow> None
           | Some (sent, s) \<Rightarrow> Some (if sent then Inr s else Inl s)))"

partial_function (option) attemptSend_loop :: "Env \<Rightarrow> u32 \<Rightarrow> SendFlags \<Rightarrow> PseudoTcp \<Rightarrow> PseudoTcp option" where
  "attemptSend_loop E now sflags s =
     (case attemptSend_round E now sflags s of
        None \<Rightarrow> None
      | Some r \<Rightarrow> (case r of Inl s \<Rightarrow> Some s | Inr s \<Rightarrow> attemptSend_loop E now sfNone s))"

declare attemptSend_loop.simps [code]

definition attemptSend :: "Env \<Rightarrow> SendFlags \<Rightarrow> PseudoTcp \<Rightarrow> PseudoTcp option" where
  "attemptSend E sflags s =
     (let (now, s) = Now E s;
          s = (if TimeDiff now (m_lastsend s) > uint (m_rx_rto s) then s\<lparr>m_cwnd := m_mss s\<rparr> else s)
      in attemptSend_loop E now sflags s)"

end
