(* ===== verification/PtcpRecv.thy ===== *)
theory PtcpRecv
  imports PtcpSend
begin

text \<open>
  The receiving side of \<^verbatim>\<open>PseudoTcp\<close>: parsing a packet, the options of a connect
  message, and \<^verbatim>\<open>process\<close> in the pieces its body has (control data, timestamp, new and
  duplicate acknowledgements, opening, the write notification, the data).
\<close>

section \<open>Options\<close>

definition applyWindowScaleOption :: "u8 \<Rightarrow> PseudoTcp \<Rightarrow> PseudoTcp" where
  "applyWindowScaleOption scale_factor s = s\<lparr>m_swnd_scale := scale_factor\<rparr>"

definition applyOption :: "u8 \<Rightarrow> u8 list \<Rightarrow> u32 \<Rightarrow> PseudoTcp \<Rightarrow> PseudoTcp" where
  "applyOption kind data len s =
     (if kind = TCP_OPT_MSS then s
      else if kind = TCP_OPT_WND_SCALE then
        (if len \<noteq> 1 then s else applyWindowScaleOption (data ! 0) s)
      else s)"

text \<open>
  The loop of \<^verbatim>\<open>parseOptions\<close>: false when an option is longer than what is left, which
  ends the function; otherwise the kinds that were given.
\<close>

function parse_options_loop :: "ByteBuffer \<Rightarrow> u8 set \<Rightarrow> PseudoTcp \<Rightarrow> bool \<times> u8 set \<times> PseudoTcp" where
  "parse_options_loop buf options_specified s =
     (if Length buf = 0 then (True, options_specified, s)
      else
        (case ReadUInt8 buf of
           None \<Rightarrow> (True, options_specified, s)
         | Some (kind, buf1) \<Rightarrow>
             if kind = TCP_OPT_EOL then (True, options_specified, s)
             else if kind = TCP_OPT_NOOP then parse_options_loop buf1 options_specified s
             else
               (case (case ReadUInt8 buf1 of None \<Rightarrow> (0, buf1) | Some r \<Rightarrow> r) of
                  (opt_len, buf2) \<Rightarrow>
                    if unat opt_len \<le> Length buf2 then
                      (case Consume buf2 (unat opt_len) of
                         None \<Rightarrow> (True, options_specified, s)
                       | Some buf3 \<Rightarrow>
                           parse_options_loop buf3 (insert kind options_specified)
                             (applyOption kind (Data buf2) (ucast opt_len) s))
                    else (False, options_specified, s))))"
  by pat_completeness auto
termination
  by (relation "measure (\<lambda>(buf, _). Length buf)")
    (auto dest!: ReadUInt_Length(1) Read_Length(3) split: option.splits)

declare parse_options_loop.simps [simp del]

definition parseOptions :: "u8 list \<Rightarrow> PseudoTcp \<Rightarrow> PseudoTcp" where
  "parseOptions data s =
     (case parse_options_loop (ByteBuffer_of data) {} s of
        (ok, options_specified, s) \<Rightarrow>
          if ok \<and> TCP_OPT_WND_SCALE \<notin> options_specified \<and> m_rwnd_scale s > 0 then
            (resizeReceiveBuffer DEFAULT_RCV_BUF_SIZE s)\<lparr>m_swnd_scale := 0\<rparr>
          else s)"

section \<open>Control data and opening\<close>

definition establish :: "PseudoTcp \<Rightarrow> PseudoTcp" where
  "establish s = notify OnTcpOpen (adjustMTU (s\<lparr>m_state := TCP_ESTABLISHED\<rparr>))"

text \<open>\<open>None\<close> when \<^verbatim>\<open>process\<close> returns false here; else whether the segment connects.\<close>

definition process_control :: "Segment \<Rightarrow> PseudoTcp \<Rightarrow> (bool \<times> PseudoTcp) option" where
  "process_control seg s =
     (if g_flags seg AND FLAG_CTL = 0 then Some (False, s)
      else if g_len seg = 0 then None
      else if g_data seg ! 0 = CTL_CONNECT then
        let s = parseOptions (drop 1 (g_data seg)) s
        in Some (True,
             if m_state s = TCP_LISTEN then queueConnectMessage (s\<lparr>m_state := TCP_SYN_RECEIVED\<rparr>)
             else if m_state s = TCP_SYN_SENT then establish s
             else s)
      else None)"

definition update_timestamp :: "Segment \<Rightarrow> PseudoTcp \<Rightarrow> PseudoTcp" where
  "update_timestamp seg s =
     (if g_seq seg \<le> m_ts_lastack s \<and> m_ts_lastack s < g_seq seg + g_len seg
      then s\<lparr>m_ts_recent := g_tsval seg\<rparr> else s)"

section \<open>Acknowledgements\<close>

text \<open>Round-trip time: \<^verbatim>\<open>long\<close> has 64 bits, so its arithmetic does not wrap here.\<close>

definition update_rtt :: "u32 \<Rightarrow> u32 \<Rightarrow> PseudoTcp \<Rightarrow> PseudoTcp" where
  "update_rtt now tsecr s =
     (if tsecr = 0 then s
      else
        let rtt = TimeDiff now tsecr in
        if rtt \<ge> 0 then
          let s = (if m_rx_srtt s = 0 then
                     s\<lparr>m_rx_srtt := word_of_int rtt, m_rx_rttvar := word_of_int (rtt div 2)\<rparr>
                   else
                     let s = s\<lparr>m_rx_rttvar :=
                           word_of_int ((uint (3 * m_rx_rttvar s) + abs (rtt - uint (m_rx_srtt s))) div 4)\<rparr>
                     in s\<lparr>m_rx_srtt := word_of_int ((uint (7 * m_rx_srtt s) + rtt) div 8)\<rparr>)
          in s\<lparr>m_rx_rto := bound MIN_RTO (m_rx_srtt s + max 1 (4 * m_rx_rttvar s)) MAX_RTO\<rparr>
        else s)"

text \<open>\<^verbatim>\<open>uint32(seg.wnd) << m_swnd_scale\<close>, undefined from a shift of 32 on.\<close>

definition scaled_window :: "u16 \<Rightarrow> u8 \<Rightarrow> u32 option" where
  "scaled_window wnd scale = (if unat scale < 32 then Some (push_bit (unat scale) (ucast wnd)) else None)"

text \<open>Taking the acknowledged bytes off the segment list; \<open>None\<close> is the front of an empty list.\<close>

fun free_segments :: "u32 \<Rightarrow> SSegment list \<Rightarrow> u32 \<Rightarrow> (SSegment list \<times> u32) option" where
  "free_segments nFree [] largest = (if nFree = 0 then Some ([], largest) else None)"
| "free_segments nFree (x # xs) largest =
     (if nFree = 0 then Some (x # xs, largest)
      else if nFree < s_len x then Some (x\<lparr>s_len := s_len x - nFree\<rparr> # xs, largest)
      else free_segments (nFree - s_len x) xs (if s_len x > largest then s_len x else largest))"

text \<open>Results of the pieces: the flag is false when \<^verbatim>\<open>process\<close> returns false.\<close>

definition retransmit :: "Env \<Rightarrow> u32 \<Rightarrow> PseudoTcp \<Rightarrow> (bool \<times> PseudoTcp) option" where
  "retransmit E now s =
     (case transmit E 0 now s of
        None \<Rightarrow> None
      | Some (sent, s) \<Rightarrow> Some (if sent then (True, s) else (False, closedown ECONNABORTED s)))"

definition new_ack :: "Env \<Rightarrow> u32 \<Rightarrow> Segment \<Rightarrow> PseudoTcp \<Rightarrow> (bool \<times> PseudoTcp) option" where
  "new_ack E now seg s =
     (let s = update_rtt now (g_tsecr seg) s in
      case scaled_window (g_wnd seg) (m_swnd_scale s) of
        None \<Rightarrow> None
      | Some wnd \<Rightarrow>
          let s = s\<lparr>m_snd_wnd := wnd\<rparr>;
              nAcked = g_ack seg - m_snd_una s;
              s = s\<lparr>m_snd_una := g_ack seg\<rparr>;
              s = s\<lparr>m_rto_base := (if m_snd_una s = m_snd_nxt s then 0 else now)\<rparr>;
              s = s\<lparr>m_sbuf := ConsumeReadData (m_sbuf s) (unat nAcked)\<rparr>
          in case free_segments nAcked (m_slist s) (m_largest s) of
            None \<Rightarrow> None
          | Some (slist, largest) \<Rightarrow>
              let s = s\<lparr>m_slist := slist, m_largest := largest\<rparr> in
              if m_dup_acks s \<ge> 3 then
                if m_snd_una s \<ge> m_recover s then
                  let nInFlight = m_snd_nxt s - m_snd_una s
                  in Some (True, s\<lparr>m_cwnd := min (m_ssthresh s) (nInFlight + m_mss s), m_dup_acks := 0\<rparr>)
                else case retransmit E now s of
                  None \<Rightarrow> None
                | Some (ok, s) \<Rightarrow>
                    if \<not> ok then Some (False, s)
                    else Some (True, s\<lparr>m_cwnd := m_cwnd s + (m_mss s - min nAcked (m_cwnd s))\<rparr>)
              else
                let s = s\<lparr>m_dup_acks := 0\<rparr> in
                if m_cwnd s < m_ssthresh s then Some (True, s\<lparr>m_cwnd := m_cwnd s + m_mss s\<rparr>)
                else if m_cwnd s = 0 then None
                else Some (True, s\<lparr>m_cwnd := m_cwnd s + max 1 (m_mss s * m_mss s div m_cwnd s)\<rparr>))"

definition dup_ack :: "Env \<Rightarrow> u32 \<Rightarrow> Segment \<Rightarrow> PseudoTcp \<Rightarrow> (bool \<times> PseudoTcp) option" where
  "dup_ack E now seg s =
     (case scaled_window (g_wnd seg) (m_swnd_scale s) of
        None \<Rightarrow> None
      | Some wnd \<Rightarrow>
          let s = s\<lparr>m_snd_wnd := wnd\<rparr> in
          if g_len seg > 0 then Some (True, s)
          else if m_snd_una s \<noteq> m_snd_nxt s then
            let s = s\<lparr>m_dup_acks := m_dup_acks s + 1\<rparr> in
            if m_dup_acks s = 3 then
              (case retransmit E now s of
                 None \<Rightarrow> None
               | Some (ok, s) \<Rightarrow>
                   if \<not> ok then Some (False, s)
                   else
                     let s = s\<lparr>m_recover := m_snd_nxt s\<rparr>;
                         nInFlight = m_snd_nxt s - m_snd_una s;
                         s = s\<lparr>m_ssthresh := max (nInFlight div 2) (2 * m_mss s)\<rparr>
                     in Some (True, s\<lparr>m_cwnd := m_ssthresh s + 3 * m_mss s\<rparr>))
            else if m_dup_acks s > 3 then Some (True, s\<lparr>m_cwnd := m_cwnd s + m_mss s\<rparr>)
            else Some (True, s)
          else Some (True, s\<lparr>m_dup_acks := 0\<rparr>))"

definition process_ack :: "Env \<Rightarrow> u32 \<Rightarrow> Segment \<Rightarrow> PseudoTcp \<Rightarrow> (bool \<times> PseudoTcp) option" where
  "process_ack E now seg s =
     (if g_ack seg > m_snd_una s \<and> g_ack seg \<le> m_snd_nxt s then new_ack E now seg s
      else if g_ack seg = m_snd_una s then dup_ack E now seg s
      else Some (True, s))"

section \<open>Data\<close>

definition notify_writeable :: "PseudoTcp \<Rightarrow> PseudoTcp" where
  "notify_writeable s =
     (let kIdealRefillSize = (m_sbuf_len s + m_rbuf_len s) div 2 in
      if m_bWriteEnable s \<and> of_nat (GetBuffered (m_sbuf s)) < kIdealRefillSize
      then notify OnTcpWriteable (s\<lparr>m_bWriteEnable := False\<rparr>) else s)"

definition ack_flags :: "Segment \<Rightarrow> PseudoTcp \<Rightarrow> SendFlags" where
  "ack_flags seg s =
     (if g_seq seg \<noteq> m_rcv_nxt s then sfImmediateAck
      else if g_len seg \<noteq> 0 then (if m_ack_delay s = 0 then sfImmediateAck else sfDelayedAck)
      else sfNone)"

text \<open>Cutting off what was received before, then what has no room.\<close>

definition trim_old :: "u32 \<Rightarrow> Segment \<Rightarrow> Segment" where
  "trim_old rcv_nxt seg =
     (if g_seq seg < rcv_nxt then
        let nAdjust = rcv_nxt - g_seq seg in
        if nAdjust < g_len seg then
          seg\<lparr>g_seq := g_seq seg + nAdjust, g_data := drop (unat nAdjust) (g_data seg), g_len := g_len seg - nAdjust\<rparr>
        else seg\<lparr>g_len := 0\<rparr>
      else seg)"

definition trim_window :: "u32 \<Rightarrow> u32 \<Rightarrow> Segment \<Rightarrow> Segment" where
  "trim_window rcv_nxt available_space seg =
     (if g_seq seg + g_len seg - rcv_nxt > available_space then
        let nAdjust = g_seq seg + g_len seg - rcv_nxt - available_space in
        if nAdjust < g_len seg then seg\<lparr>g_len := g_len seg - nAdjust\<rparr> else seg\<lparr>g_len := 0\<rparr>
      else seg)"

text \<open>Committing bytes that are in place: the new ones, and those of saved segments they reach.\<close>

definition commit_bytes :: "u32 \<Rightarrow> PseudoTcp \<Rightarrow> PseudoTcp" where
  "commit_bytes n s =
     s\<lparr>m_rbuf := ConsumeWriteBuffer (m_rbuf s) (unat n), m_rcv_nxt := m_rcv_nxt s + n, m_rcv_wnd := m_rcv_wnd s - n\<rparr>"

fun recover_segments :: "RSegment list \<Rightarrow> SendFlags \<Rightarrow> PseudoTcp \<Rightarrow> SendFlags \<times> PseudoTcp" where
  "recover_segments [] sflags s = (sflags, s\<lparr>m_rlist := []\<rparr>)"
| "recover_segments (r # rs) sflags s =
     (if r_seq r \<le> m_rcv_nxt s then
        if r_seq r + r_len r > m_rcv_nxt s then
          recover_segments rs sfImmediateAck (commit_bytes (r_seq r + r_len r - m_rcv_nxt s) s)
        else recover_segments rs sflags s
      else (sflags, s\<lparr>m_rlist := r # rs\<rparr>))"

definition insert_rsegment :: "RSegment \<Rightarrow> RSegment list \<Rightarrow> RSegment list" where
  "insert_rsegment r rlist =
     takeWhile (\<lambda>x. r_seq x < r_seq r) rlist @ [r] @ dropWhile (\<lambda>x. r_seq x < r_seq r) rlist"

text \<open>The flags for \<^verbatim>\<open>attemptSend\<close> and whether the reader has new data.\<close>

definition process_data :: "Segment \<Rightarrow> SendFlags \<Rightarrow> PseudoTcp \<Rightarrow> SendFlags \<times> bool \<times> PseudoTcp" where
  "process_data seg sflags s =
     (let seg = trim_old (m_rcv_nxt s) seg;
          seg = trim_window (m_rcv_nxt s) (of_nat (GetWriteRemaining (m_rbuf s))) seg;
          bIgnoreData = (g_flags seg AND FLAG_CTL \<noteq> 0 \<or> m_shutdown s \<noteq> SD_NONE)
      in if g_len seg > 0 then
           if bIgnoreData then
             (sflags, False, if g_seq seg = m_rcv_nxt s then s\<lparr>m_rcv_nxt := m_rcv_nxt s + g_len seg\<rparr> else s)
           else
             let nOffset = g_seq seg - m_rcv_nxt s;
                 (_, _, rbuf) = WriteOffset (m_rbuf s) (g_data seg) (unat (g_len seg)) (unat nOffset);
                 s = s\<lparr>m_rbuf := rbuf\<rparr>
             in if g_seq seg = m_rcv_nxt s then
                  let s = commit_bytes (g_len seg) s;
                      (sflags, s) = recover_segments (m_rlist s) sflags s
                  in (sflags, True, s)
                else
                  (sflags, False, s\<lparr>m_rlist := insert_rsegment \<lparr>r_seq = g_seq seg, r_len = g_len seg\<rparr> (m_rlist s)\<rparr>)
         else (sflags, False, s))"

section \<open>A segment\<close>

definition process :: "Env \<Rightarrow> Segment \<Rightarrow> PseudoTcp \<Rightarrow> (bool \<times> PseudoTcp) option" where
  "process E seg s =
     (if g_conv seg \<noteq> m_conv s then Some (False, s)
      else
        let (now, s) = Now E s;
            s = s\<lparr>m_lasttraffic := now, m_lastrecv := now, m_bOutgoing := False\<rparr>
        in if m_state s = TCP_CLOSED then Some (False, s)
           else if g_flags seg AND FLAG_RST \<noteq> 0 then Some (False, closedown ECONNRESET s)
           else case process_control seg s of
             None \<Rightarrow> Some (False, s)
           | Some (bConnect, s) \<Rightarrow>
               (case process_ack E now seg (update_timestamp seg s) of
                  None \<Rightarrow> None
                | Some (ok, s) \<Rightarrow>
                    if \<not> ok then Some (False, s)
                    else
                      let s = (if m_state s = TCP_SYN_RECEIVED \<and> \<not> bConnect then establish s else s);
                          s = notify_writeable s;
                          (sflags, bNewData, s) = process_data seg (ack_flags seg s) s
                      in case attemptSend E sflags s of
                        None \<Rightarrow> None
                      | Some s \<Rightarrow>
                          Some (True, if bNewData \<and> m_bReadEnable s
                            then notify OnTcpReadable (s\<lparr>m_bReadEnable := False\<rparr>) else s)))"

definition parse_segment :: "u8 list \<Rightarrow> Segment" where
  "parse_segment buffer =
     \<lparr>g_conv = bytes_to_long buffer, g_seq = bytes_to_long (drop 4 buffer), g_ack = bytes_to_long (drop 8 buffer),
      g_flags = buffer ! 13, g_wnd = bytes_to_short (drop 14 buffer),
      g_data = drop (unat HEADER_SIZE) buffer, g_len = of_nat (length buffer) - HEADER_SIZE,
      g_tsval = bytes_to_long (drop 16 buffer), g_tsecr = bytes_to_long (drop 20 buffer)\<rparr>"

text \<open>\<^verbatim>\<open>parse\<close> refuses less than 12 bytes, and reads 24.\<close>

definition parse :: "Env \<Rightarrow> u8 list \<Rightarrow> PseudoTcp \<Rightarrow> (bool \<times> PseudoTcp) option" where
  "parse E buffer s =
     (if length buffer < 12 then Some (False, s)
      else if length buffer < unat HEADER_SIZE then None
      else process E (parse_segment buffer) s)"

definition NotifyPacket :: "Env \<Rightarrow> u8 list \<Rightarrow> PseudoTcp \<Rightarrow> (bool \<times> PseudoTcp) option" where
  "NotifyPacket E buffer s =
     (if length buffer > unat MAX_PACKET then Some (False, s) else parse E buffer s)"

end
