(* ===== verification/PseudoTcp.thy ===== *)
theory PseudoTcp
  imports PtcpRecv
begin

text \<open>
  The entry points of \<^verbatim>\<open>PseudoTcp\<close> that send: connecting, the clock, and the stream
  interface, with the runs of a connection: any sequence of calls, in any order, against any
  environment.
\<close>

section \<open>Entry points\<close>

definition Connect :: "Env \<Rightarrow> PseudoTcp \<Rightarrow> (int \<times> PseudoTcp) option" where
  "Connect E s =
     (if m_state s \<noteq> TCP_LISTEN then Some (-1, s\<lparr>m_error := Some EINVAL\<rparr>)
      else
        let s = s\<lparr>m_state := TCP_SYN_SENT\<rparr>;
            s = queueConnectMessage s
        in case attemptSend E sfNone s of None \<Rightarrow> None | Some s \<Rightarrow> Some (0, s))"

text \<open>The three timers of \<^verbatim>\<open>NotifyClock\<close>; false when it returns.\<close>

definition clock_retransmit :: "Env \<Rightarrow> u32 \<Rightarrow> PseudoTcp \<Rightarrow> (bool \<times> PseudoTcp) option" where
  "clock_retransmit E now s =
     (if m_rto_base s \<noteq> 0 \<and> TimeDiff (m_rto_base s + m_rx_rto s) now \<le> 0 then
        (if m_slist s = [] then Some (True, s)
         else case retransmit E now s of
           None \<Rightarrow> None
         | Some (ok, s) \<Rightarrow>
             if \<not> ok then Some (False, s)
             else
               let nInFlight = m_snd_nxt s - m_snd_una s;
                   s = s\<lparr>m_ssthresh := max (nInFlight div 2) (2 * m_mss s)\<rparr>;
                   s = s\<lparr>m_cwnd := m_mss s\<rparr>;
                   rto_limit = (if m_state s \<in> {TCP_LISTEN, TCP_SYN_SENT, TCP_SYN_RECEIVED} then DEF_RTO else MAX_RTO);
                   s = s\<lparr>m_rx_rto := min rto_limit (m_rx_rto s * 2)\<rparr>
               in Some (True, s\<lparr>m_rto_base := now\<rparr>))
      else Some (True, s))"

definition clock_probe :: "Env \<Rightarrow> u32 \<Rightarrow> PseudoTcp \<Rightarrow> (bool \<times> PseudoTcp) option" where
  "clock_probe E now s =
     (if m_snd_wnd s = 0 \<and> TimeDiff (m_lastsend s + m_rx_rto s) now \<le> 0 then
        (if TimeDiff now (m_lastrecv s) \<ge> 15000 then Some (False, closedown ECONNABORTED s)
         else case packet E (m_snd_nxt s - 1) 0 0 0 s of
           None \<Rightarrow> None
         | Some (_, s) \<Rightarrow>
             let s = s\<lparr>m_lastsend := now\<rparr>
             in Some (True, s\<lparr>m_rx_rto := min MAX_RTO (m_rx_rto s * 2)\<rparr>))
      else Some (True, s))"

definition clock_ack :: "Env \<Rightarrow> u32 \<Rightarrow> PseudoTcp \<Rightarrow> PseudoTcp option" where
  "clock_ack E now s =
     (if m_t_ack s \<noteq> 0 \<and> TimeDiff (m_t_ack s + m_ack_delay s) now \<le> 0 then
        map_option snd (packet E (m_snd_nxt s) 0 0 0 s)
      else Some s)"

definition NotifyClock :: "Env \<Rightarrow> u32 \<Rightarrow> PseudoTcp \<Rightarrow> PseudoTcp option" where
  "NotifyClock E now s =
     (if m_state s = TCP_CLOSED then Some s
      else case clock_retransmit E now s of
        None \<Rightarrow> None
      | Some (ok, s) \<Rightarrow>
          if \<not> ok then Some s
          else case clock_probe E now s of
            None \<Rightarrow> None
          | Some (ok, s) \<Rightarrow> if \<not> ok then Some s else clock_ack E now s)"

text \<open>The stream interface: the value returned (-1 is \<^verbatim>\<open>SOCKET_ERROR\<close>), the bytes read.\<close>

definition Recv :: "Env \<Rightarrow> nat \<Rightarrow> PseudoTcp \<Rightarrow> (int \<times> u8 list \<times> PseudoTcp) option" where
  "Recv E len s =
     (if m_state s \<noteq> TCP_ESTABLISHED then Some (-1, [], s\<lparr>m_error := Some ENOTCONN\<rparr>)
      else
        let (result, data, rbuf) = FifoRead (m_rbuf s) len;
            s = s\<lparr>m_rbuf := rbuf\<rparr>
        in if result = SR_BLOCK then Some (-1, [], s\<lparr>m_bReadEnable := True, m_error := Some EWOULDBLOCK\<rparr>)
           else
             let available_space = GetWriteRemaining (m_rbuf s) in
             if of_nat available_space - m_rcv_wnd s \<ge> min (m_rbuf_len s div 2) (m_mss s) then
               let bWasClosed = (m_rcv_wnd s = 0);
                   s = s\<lparr>m_rcv_wnd := of_nat available_space\<rparr>
               in if bWasClosed then map_option (\<lambda>s. (int (length data), data, s)) (attemptSend E sfImmediateAck s)
                  else Some (int (length data), data, s)
             else Some (int (length data), data, s))"

definition Send :: "Env \<Rightarrow> u8 list \<Rightarrow> PseudoTcp \<Rightarrow> (int \<times> PseudoTcp) option" where
  "Send E buffer s =
     (if m_state s \<noteq> TCP_ESTABLISHED then Some (-1, s\<lparr>m_error := Some ENOTCONN\<rparr>)
      else if GetWriteRemaining (m_sbuf s) = 0 then
        Some (-1, s\<lparr>m_bWriteEnable := True, m_error := Some EWOULDBLOCK\<rparr>)
      else
        let (written, s) = ptcp_queue buffer False s
        in map_option (\<lambda>s. (sint written, s)) (attemptSend E sfNone s))"

section \<open>Runs\<close>

text \<open>Every call that can change the object.\<close>

datatype PtcpCall =
    CallConnect
  | CallNotifyMTU u16
  | CallNotifyClock u32
  | CallNotifyPacket "u8 list"
  | CallSetOption PtcpOption int
  | CallRecv nat
  | CallSend "u8 list"
  | CallClose bool

fun ptcp_call :: "Env \<Rightarrow> PtcpCall \<Rightarrow> PseudoTcp \<Rightarrow> PseudoTcp option" where
  "ptcp_call E CallConnect s = map_option snd (Connect E s)"
| "ptcp_call E (CallNotifyMTU mtu) s = Some (NotifyMTU mtu s)"
| "ptcp_call E (CallNotifyClock now) s = NotifyClock E now s"
| "ptcp_call E (CallNotifyPacket buffer) s = map_option snd (NotifyPacket E buffer s)"
| "ptcp_call E (CallSetOption opt val) s = Some (SetOption opt val s)"
| "ptcp_call E (CallRecv len) s = map_option (snd \<circ> snd) (Recv E len s)"
| "ptcp_call E (CallSend buffer) s = map_option snd (Send E buffer s)"
| "ptcp_call E (CallClose force) s = Some (Close force s)"

text \<open>The states an object can reach.\<close>

inductive ptcp_reachable :: "Env \<Rightarrow> u32 \<Rightarrow> PseudoTcp \<Rightarrow> bool" for E conv where
  reachable_new: "ptcp_reachable E conv (PseudoTcp_new E conv)"
| reachable_call: "ptcp_reachable E conv s \<Longrightarrow> ptcp_call E c s = Some s' \<Longrightarrow> ptcp_reachable E conv s'"

inductive_cases ptcp_reachableE: "ptcp_reachable E conv s"

fun ptcp_run :: "Env \<Rightarrow> PtcpCall list \<Rightarrow> PseudoTcp \<Rightarrow> PseudoTcp option" where
  "ptcp_run E [] s = Some s"
| "ptcp_run E (c # cs) s = (case ptcp_call E c s of None \<Rightarrow> None | Some s \<Rightarrow> ptcp_run E cs s)"

lemma ptcp_run_reachable: "ptcp_reachable E conv s \<Longrightarrow> ptcp_run E cs s = Some s' \<Longrightarrow> ptcp_reachable E conv s'"
  by (induction cs arbitrary: s) (auto split: option.splits intro: reachable_call)

end
