(* ===== verification/PtcpFrame.thy ===== *)
theory PtcpFrame
  imports PseudoTcp
begin

text \<open>
  What the operations of \<^verbatim>\<open>PseudoTcp\<close> leave alone, as one lemma per operation, and the
  first properties of all runs: the bounds of the retransmission timer, the order of the connection
  states, and the silence of a closed connection.
\<close>

section \<open>Sending\<close>

text \<open>The part of the state that sending never touches; the log only grows by packets.\<close>

definition is_packet :: "PtcpEvent \<Rightarrow> bool" where
  "is_packet ev \<longleftrightarrow> (case ev of TcpWritePacket _ _ \<Rightarrow> True | _ \<Rightarrow> False)"

definition stable :: "PseudoTcp \<Rightarrow> PseudoTcp" where
  "stable s = s\<lparr>m_bOutgoing := False, m_lasttraffic := 0, m_slist := [], m_snd_nxt := 0, m_lastsend := 0, m_mss := 0,
     m_msslevel := 0, m_rto_base := 0, m_ts_lastack := 0, m_cwnd := 0, m_t_ack := 0, t_nows := 0, t_log := []\<rparr>"

definition grows :: "PseudoTcp \<Rightarrow> PseudoTcp \<Rightarrow> bool" where
  "grows s s' \<longleftrightarrow> (\<exists>evs. t_log s' = t_log s @ evs \<and> (\<forall>ev\<in>set evs. is_packet ev))"

definition send_frame :: "PseudoTcp \<Rightarrow> PseudoTcp \<Rightarrow> bool" where
  "send_frame s s' \<longleftrightarrow> stable s' = stable s \<and> grows s s'"

lemma growsI: "t_log s' = t_log s \<Longrightarrow> grows s s'" "t_log s' = t_log s @ [TcpWritePacket p r] \<Longrightarrow> grows s s'"
  by (auto simp: grows_def is_packet_def)

lemma send_frame_refl [intro, simp]: "send_frame s s"
  by (simp add: send_frame_def growsI)

lemma send_frame_trans [trans]: "send_frame a b \<Longrightarrow> send_frame b c \<Longrightarrow> send_frame a c"
  unfolding send_frame_def grows_def by fastforce

lemma send_frame_D:
  assumes "send_frame s s'"
  shows "m_state s' = m_state s" "m_rx_rto s' = m_rx_rto s" "m_sbuf s' = m_sbuf s" "m_snd_una s' = m_snd_una s"
    "m_snd_wnd s' = m_snd_wnd s" "m_rbuf s' = m_rbuf s" "m_rcv_nxt s' = m_rcv_nxt s" "m_rlist s' = m_rlist s"
    "m_conv s' = m_conv s" "m_swnd_scale s' = m_swnd_scale s" "m_dup_acks s' = m_dup_acks s" "m_shutdown s' = m_shutdown s"
    "m_rcv_wnd s' = m_rcv_wnd s" "m_bReadEnable s' = m_bReadEnable s"
proof -
  have e: "stable s' = stable s" using assms by (simp add: send_frame_def)
  show "m_state s' = m_state s" "m_rx_rto s' = m_rx_rto s" "m_sbuf s' = m_sbuf s" "m_snd_una s' = m_snd_una s"
    "m_snd_wnd s' = m_snd_wnd s" "m_rbuf s' = m_rbuf s" "m_rcv_nxt s' = m_rcv_nxt s" "m_rlist s' = m_rlist s"
    "m_conv s' = m_conv s" "m_swnd_scale s' = m_swnd_scale s" "m_dup_acks s' = m_dup_acks s" "m_shutdown s' = m_shutdown s"
    "m_rcv_wnd s' = m_rcv_wnd s" "m_bReadEnable s' = m_bReadEnable s"
    using arg_cong[OF e, of m_state] arg_cong[OF e, of m_rx_rto] arg_cong[OF e, of m_sbuf] arg_cong[OF e, of m_snd_una]
      arg_cong[OF e, of m_snd_wnd] arg_cong[OF e, of m_rbuf] arg_cong[OF e, of m_rcv_nxt] arg_cong[OF e, of m_rlist]
      arg_cong[OF e, of m_conv] arg_cong[OF e, of m_swnd_scale] arg_cong[OF e, of m_dup_acks] arg_cong[OF e, of m_shutdown]
      arg_cong[OF e, of m_rcv_wnd] arg_cong[OF e, of m_bReadEnable]
    by (simp_all add: stable_def)
qed

lemma packet_frame: "packet E seq flags off len s = Some (r, s') \<Longrightarrow> send_frame s s'"
  by (auto simp: packet_def Now_def notify_def send_frame_def stable_def Let_def split: if_splits intro!: growsI)

lemma next_mss_frame: "send_frame s (next_mss s)"
  by (simp add: next_mss_def Let_def send_frame_def stable_def growsI)

lemma lower_mss_frame: "lower_mss n s = Some (r, n', s') \<Longrightarrow> send_frame s s'"
proof (induction n s rule: lower_mss.induct)
  case (1 n s)
  note d = 1(2)[unfolded lower_mss.simps[of n s] Let_def]
  consider "s' = s" | "s' = next_mss s" | "lower_mss n (next_mss s) = Some (r, n', s')"
      "\<not> length PACKET_MAXIMUMS \<le> m_msslevel s + 1" "PACKET_MAXIMUMS ! (m_msslevel s + 1) \<noteq> 0" "\<not> m_mss (next_mss s) < n"
    using d by (auto split: if_split_asm)
  then show ?case
  proof cases
    case 3
    have "send_frame (next_mss s) s'" by (rule 1(1)[OF 3(2,3) refl 3(4,1)])
    then show ?thesis by (rule send_frame_trans[OF next_mss_frame])
  qed (use next_mss_frame in auto)
qed

lemma transmit_loop_frame: "transmit_loop E seg n s = Some (r, n', s') \<Longrightarrow> send_frame s s'"
proof (induction E seg n s rule: transmit_loop.induct)
  case (1 E seg n s)
  obtain wres s1 where p: "packet E (s_seq seg) (if s_bCtrl seg then FLAG_CTL else 0) (s_seq seg - m_snd_una s) n s = Some (wres, s1)"
    using 1(2) by (subst (asm) transmit_loop.simps) (auto split: option.splits)
  note f = packet_frame[OF p]
  show ?case
  proof (cases "wres = WR_SUCCESS \<or> wres = WR_FAIL")
    case True
    then show ?thesis using 1(2) p f by (subst (asm) transmit_loop.simps) (auto split: if_splits)
  next
    case False
    then obtain low n2 s2 where l: "lower_mss n s1 = Some (low, n2, s2)"
      using 1(2) p by (subst (asm) transmit_loop.simps) (auto split: option.splits)
    note f2 = send_frame_trans[OF f lower_mss_frame[OF l]]
    show ?thesis
    proof (cases low)
      case True
      then have "transmit_loop E seg n2 s2 = Some (r, n', s')"
        using 1(2) p False l by (subst (asm) transmit_loop.simps) auto
      then have "send_frame s2 s'" using 1(1)[OF p refl _ _ l refl refl True] False by simp
      then show ?thesis by (rule send_frame_trans[OF f2])
    next
      case low: False
      then show ?thesis using 1(2) p False l f2 by (subst (asm) transmit_loop.simps) auto
    qed
  qed
qed

lemma transmit_frame:
  assumes "transmit E i now s = Some (r, s')"
  shows "send_frame s s'"
proof (cases "s_xmit (m_slist s ! i) \<ge> (if m_state s = TCP_ESTABLISHED then 15 else 30)")
  case True
  then show ?thesis using assms by (simp add: transmit_def Let_def split: if_splits)
next
  case False
  let ?seg = "m_slist s ! i"
  obtain sent n s1 where l: "transmit_loop E ?seg (min (s_len ?seg) (m_mss s)) s = Some (sent, n, s1)"
    using assms False by (auto simp: transmit_def Let_def split: if_splits option.splits)
  have "send_frame s1 s'"
    using assms False l by (auto simp: transmit_def Let_def send_frame_def stable_def growsI split: if_splits)
  then show ?thesis by (rule send_frame_trans[OF transmit_loop_frame[OF l]])
qed

lemma split_segment_frame: "send_frame s (split_segment i n s)"
  by (simp add: split_segment_def send_frame_def stable_def growsI Let_def)

lemma attemptSend_round_frame:
  "attemptSend_round E now f s = Some (Inl s') \<Longrightarrow> send_frame s s'"
  "attemptSend_round E now f s = Some (Inr s') \<Longrightarrow> send_frame s s'"
proof -
  have t: "transmit E i now (split_segment i n s) = Some (r, s') \<Longrightarrow> send_frame s s'" for i n r s'
    by (rule send_frame_trans[OF split_segment_frame transmit_frame])
  have n: "send_frame s (s\<lparr>t_nows := x, m_t_ack := y\<rparr>)" for x y by (simp add: send_frame_def stable_def growsI)
  show "attemptSend_round E now f s = Some (Inl s') \<Longrightarrow> send_frame s s'"
    "attemptSend_round E now f s = Some (Inr s') \<Longrightarrow> send_frame s s'"
    by (auto simp: attemptSend_round_def Let_def Now_def n split: if_splits option.splits prod.splits intro: packet_frame t)
qed

lemma attemptSend_loop_frame: "attemptSend_loop E now f s = Some s' \<Longrightarrow> send_frame s s'"
proof (induction rule: attemptSend_loop.raw_induct[rotated 1, consumes 1])
  case (1 loop E now f s s')
  then show ?case
    by (auto split: option.splits sum.splits intro: attemptSend_round_frame send_frame_trans)
qed

lemma attemptSend_frame: "attemptSend E f s = Some s' \<Longrightarrow> send_frame s s'"
proof -
  assume a: "attemptSend E f s = Some s'"
  obtain s1 where "attemptSend_loop E (e_now E (t_nows s)) f s1 = Some s'" "send_frame s s1"
    using a by (auto simp: attemptSend_def Now_def Let_def send_frame_def stable_def growsI)
  then show ?thesis using attemptSend_loop_frame send_frame_trans by blast
qed

section \<open>The timer and the connection state\<close>

definition rto_ok :: "PseudoTcp \<Rightarrow> bool" where
  "rto_ok s \<longleftrightarrow> MIN_RTO \<le> m_rx_rto s \<and> m_rx_rto s \<le> MAX_RTO"

fun state_rank :: "TcpState \<Rightarrow> nat" where
  "state_rank TCP_LISTEN = 0"
| "state_rank TCP_SYN_SENT = 1"
| "state_rank TCP_SYN_RECEIVED = 2"
| "state_rank TCP_ESTABLISHED = 3"
| "state_rank TCP_CLOSED = 4"

definition advances :: "PseudoTcp \<Rightarrow> PseudoTcp \<Rightarrow> bool" where
  "advances s s' \<longleftrightarrow> state_rank (m_state s) \<le> state_rank (m_state s') \<and> (rto_ok s \<longrightarrow> rto_ok s')"

lemma advances_refl [intro, simp]: "advances s s"
  by (simp add: advances_def)

lemma advances_trans [trans]: "advances a b \<Longrightarrow> advances b c \<Longrightarrow> advances a c"
  by (auto simp: advances_def)

lemma advancesI: "m_state s' = m_state s \<Longrightarrow> m_rx_rto s' = m_rx_rto s \<Longrightarrow> advances s s'"
  by (simp add: advances_def rto_ok_def)

lemma send_frame_advances: "send_frame s s' \<Longrightarrow> advances s s'"
  by (rule advancesI) (simp_all add: send_frame_D)

lemma closedown_advances [simp]: "advances s (closedown e s)"
  by (cases "m_state s") (simp_all add: closedown_def notify_def advances_def rto_ok_def)

lemma notify_simps [simp]:
  "m_state (notify ev s) = m_state s" "m_rx_rto (notify ev s) = m_rx_rto s" "m_slist (notify ev s) = m_slist s"
  "m_sbuf (notify ev s) = m_sbuf s" "m_snd_una (notify ev s) = m_snd_una s" "m_snd_nxt (notify ev s) = m_snd_nxt s"
  "m_mss (notify ev s) = m_mss s" "m_rbuf (notify ev s) = m_rbuf s" "m_rcv_nxt (notify ev s) = m_rcv_nxt s"
  "m_rlist (notify ev s) = m_rlist s" "m_snd_wnd (notify ev s) = m_snd_wnd s" "m_cwnd (notify ev s) = m_cwnd s"
  "m_dup_acks (notify ev s) = m_dup_acks s" "m_swnd_scale (notify ev s) = m_swnd_scale s"
  "m_rwnd_scale (notify ev s) = m_rwnd_scale s" "m_rcv_wnd (notify ev s) = m_rcv_wnd s" "m_conv (notify ev s) = m_conv s"
  by (simp_all add: notify_def)

lemma adjustMTU_simps [simp]: "m_state (adjustMTU s) = m_state s" "m_rx_rto (adjustMTU s) = m_rx_rto s"
  by (simp_all add: adjustMTU_def Let_def)

lemma ptcp_queue_simps [simp]:
  "m_state (snd (ptcp_queue d c s)) = m_state s" "m_rx_rto (snd (ptcp_queue d c s)) = m_rx_rto s"
  by (simp_all add: ptcp_queue_def Let_def split: prod.split)

lemma queueConnectMessage_simps [simp]:
  "m_state (queueConnectMessage s) = m_state s" "m_rx_rto (queueConnectMessage s) = m_rx_rto s"
  by (simp_all add: queueConnectMessage_def Let_def)

lemma resizeReceiveBuffer_advances: "advances s (resizeReceiveBuffer n s)"
  by (rule advancesI) (simp_all add: resizeReceiveBuffer_def Let_def split: prod.split)

text \<open>Options change the window scale only.\<close>

definition scale_frame :: "PseudoTcp \<Rightarrow> PseudoTcp \<Rightarrow> bool" where
  "scale_frame s s' \<longleftrightarrow> (\<exists>x. s' = s\<lparr>m_swnd_scale := x\<rparr>)"

lemma scale_frame_refl [intro, simp]: "scale_frame s s"
  unfolding scale_frame_def by (rule exI [of _ "m_swnd_scale s"]) simp

lemma scale_frame_trans: "scale_frame a b \<Longrightarrow> scale_frame b c \<Longrightarrow> scale_frame a c"
  by (auto simp: scale_frame_def)

lemma applyOption_frame: "scale_frame s (applyOption k d n s)"
proof (cases "k \<noteq> TCP_OPT_MSS \<and> k = TCP_OPT_WND_SCALE \<and> n = 1")
  case True
  then show ?thesis by (auto simp: applyOption_def applyWindowScaleOption_def scale_frame_def)
next
  case False
  then have "applyOption k d n s = s" by (auto simp: applyOption_def)
  then show ?thesis by simp
qed

lemma parse_options_loop_frame: "parse_options_loop buf opts s = (ok, opts', s') \<Longrightarrow> scale_frame s s'"
proof (induction buf opts s rule: parse_options_loop.induct)
  case (1 buf opts s)
  note d = 1(3)[unfolded parse_options_loop.simps[of buf opts s]]
  show ?case
  proof (cases "Length buf = 0 \<or> ReadUInt8 buf = None \<or> fst (the (ReadUInt8 buf)) = TCP_OPT_EOL")
    case True
    then show ?thesis using d by (auto split: option.splits if_split_asm)
  next
    case False
    then obtain kind buf1 where k: "Length buf \<noteq> 0" "ReadUInt8 buf = Some (kind, buf1)" "kind \<noteq> TCP_OPT_EOL" by auto
    show ?thesis
    proof (cases "kind = TCP_OPT_NOOP")
      case True
      then have "parse_options_loop buf1 opts s = (ok, opts', s')" using d k by simp
      then show ?thesis by (rule 1(1)[OF k(1,2) refl k(3) True])
    next
      case noop: False
      obtain opt_len buf2 where o: "(case ReadUInt8 buf1 of None \<Rightarrow> (0, buf1) | Some r \<Rightarrow> r) = (opt_len, buf2)" by force
      show ?thesis
      proof (cases "unat opt_len \<le> Length buf2 \<and> Consume buf2 (unat opt_len) \<noteq> None")
        case True
        then obtain buf3 where c: "unat opt_len \<le> Length buf2" "Consume buf2 (unat opt_len) = Some buf3" by auto
        let ?s = "applyOption kind (Data buf2) (ucast opt_len) s"
        have "parse_options_loop buf3 (insert kind opts) ?s = (ok, opts', s')" using d k noop o c by simp
        then have "scale_frame ?s s'" by (rule 1(2)[OF k(1,2) refl k(3) noop o[symmetric] c])
        then show ?thesis by (rule scale_frame_trans[OF applyOption_frame])
      next
        case False
        then show ?thesis using d k noop o by (auto split: if_split_asm)
      qed
    qed
  qed
qed

lemma scale_frame_D:
  assumes "scale_frame s s'"
  shows "m_state s' = m_state s" "m_rx_rto s' = m_rx_rto s" "m_slist s' = m_slist s" "m_sbuf s' = m_sbuf s"
    "m_rbuf s' = m_rbuf s" "m_snd_una s' = m_snd_una s" "m_snd_nxt s' = m_snd_nxt s" "m_rcv_nxt s' = m_rcv_nxt s"
  using assms by (auto simp: scale_frame_def)

lemma parseOptions_simps [simp]: "m_state (parseOptions d s) = m_state s" "m_rx_rto (parseOptions d s) = m_rx_rto s"
proof -
  obtain ok opts s' where p: "parse_options_loop (ByteBuffer_of d) {} s = (ok, opts, s')"
    by (cases "parse_options_loop (ByteBuffer_of d) {} s") auto
  note f = scale_frame_D[OF parse_options_loop_frame[OF p]]
  show "m_state (parseOptions d s) = m_state s" "m_rx_rto (parseOptions d s) = m_rx_rto s"
    using p f by (auto simp: parseOptions_def resizeReceiveBuffer_def Let_def split: prod.split)
qed

lemma establish_simps [simp]: "m_state (establish s) = TCP_ESTABLISHED" "m_rx_rto (establish s) = m_rx_rto s"
  by (simp_all add: establish_def)

lemma process_control_advances: "process_control seg s = Some (b, s') \<Longrightarrow> advances s s'"
  by (auto simp: process_control_def advances_def rto_ok_def Let_def split: if_split_asm)

lemma bound_ok: "MIN_RTO \<le> bound MIN_RTO m MAX_RTO \<and> bound MIN_RTO m MAX_RTO \<le> MAX_RTO"
  by (simp add: bound_def ptcp_times max_def min_def)

lemma update_rtt_advances: "advances s (update_rtt now e s)"
proof -
  have "m_state (update_rtt now e s) = m_state s \<and>
      (m_rx_rto (update_rtt now e s) = m_rx_rto s \<or> (\<exists>m. m_rx_rto (update_rtt now e s) = bound MIN_RTO m MAX_RTO))"
    by (auto simp: update_rtt_def Let_def)
  then show ?thesis using bound_ok by (auto simp: advances_def rto_ok_def)
qed

lemma retransmit_advances: "retransmit E now s = Some (ok, s') \<Longrightarrow> advances s s'"
  by (auto simp: retransmit_def split: option.splits if_splits
      intro: send_frame_advances[OF transmit_frame] advances_trans[OF send_frame_advances[OF transmit_frame] closedown_advances])

lemma new_ack_advances: "new_ack E now seg s = Some (ok, s') \<Longrightarrow> advances s s'"
proof -
  assume a: "new_ack E now seg s = Some (ok, s')"
  obtain wnd where w: "scaled_window (g_wnd seg) (m_swnd_scale (update_rtt now (g_tsecr seg) s)) = Some wnd"
    using a by (auto simp: new_ack_def Let_def split: option.splits)
  have "\<exists>s1. m_state s1 = m_state (update_rtt now (g_tsecr seg) s) \<and> m_rx_rto s1 = m_rx_rto (update_rtt now (g_tsecr seg) s) \<and> advances s1 s'"
    using a w by (auto simp: new_ack_def Let_def split: option.splits if_split_asm dest!: retransmit_advances)
      (force simp: advances_def rto_ok_def)+
  then show ?thesis using update_rtt_advances[of s now "g_tsecr seg"] by (auto simp: advances_def rto_ok_def)
qed

lemma dup_ack_advances: "dup_ack E now seg s = Some (ok, s') \<Longrightarrow> advances s s'"
  by (auto simp: dup_ack_def Let_def split: option.splits if_split_asm dest!: retransmit_advances)
    (simp_all add: advances_def rto_ok_def)

lemma process_ack_advances: "process_ack E now seg s = Some (ok, s') \<Longrightarrow> advances s s'"
  by (auto simp: process_ack_def split: if_split_asm intro: new_ack_advances dup_ack_advances)

lemma recover_segments_frame: "recover_segments rs f s = (f', s') \<Longrightarrow> m_state s' = m_state s \<and> m_rx_rto s' = m_rx_rto s"
  by (induction rs f s rule: recover_segments.induct) (auto simp: commit_bytes_def split: if_split_asm)

lemma process_data_frame: "process_data seg f s = (f', b, s') \<Longrightarrow> m_state s' = m_state s \<and> m_rx_rto s' = m_rx_rto s"
  by (auto simp: process_data_def Let_def commit_bytes_def split: if_split_asm prod.splits dest!: recover_segments_frame)

lemma notify_writeable_simps [simp]:
  "m_state (notify_writeable s) = m_state s" "m_rx_rto (notify_writeable s) = m_rx_rto s"
  by (simp_all add: notify_writeable_def Let_def)

lemma update_timestamp_simps [simp]:
  "m_state (update_timestamp seg s) = m_state s" "m_rx_rto (update_timestamp seg s) = m_rx_rto s"
  by (simp_all add: update_timestamp_def)

lemma process_advances:
  assumes "process E seg s = Some (ok, s')"
  shows "advances s s'"
proof -
  let ?now = "e_now E (t_nows s)"
  let ?s0 = "s\<lparr>t_nows := Suc (t_nows s), m_lasttraffic := ?now, m_lastrecv := ?now, m_bOutgoing := False\<rparr>"
  have 0: "advances s ?s0" by (rule advancesI) simp_all
  note d = assms[unfolded process_def Now_def Let_def prod.case]
  show ?thesis
  proof (cases "g_conv seg \<noteq> m_conv s \<or> m_state s = TCP_CLOSED \<or> g_flags seg AND FLAG_RST \<noteq> 0 \<or> process_control seg ?s0 = None")
    case True
    then have "s' = s \<or> s' = ?s0 \<or> s' = closedown ECONNRESET ?s0" using d by (auto split: if_split_asm)
    then show ?thesis using 0 advances_trans[OF 0 closedown_advances] by auto
  next
    case False
    then obtain c s1 where c: "process_control seg ?s0 = Some (c, s1)" by auto
    obtain ok2 s2 where a: "process_ack E ?now seg (update_timestamp seg s1) = Some (ok2, s2)"
      using d False c by (auto split: option.splits)
    have "advances s1 (update_timestamp seg s1)" by (rule advancesI) simp_all
    then have 2: "advances s s2"
      using advances_trans[OF 0 process_control_advances[OF c]] process_ack_advances[OF a] advances_trans by blast
    show ?thesis
    proof (cases ok2)
      case False
      then show ?thesis using d \<open>\<not> (_ \<or> _)\<close> c a 2 by simp
    next
      case True
      let ?s3 = "notify_writeable (if m_state s2 = TCP_SYN_RECEIVED \<and> \<not> c then establish s2 else s2)"
      have 3: "advances s2 ?s3" by (auto simp: advances_def rto_ok_def)
      obtain f b s4 where p: "process_data seg (ack_flags seg ?s3) ?s3 = (f, b, s4)"
        by (cases "process_data seg (ack_flags seg ?s3) ?s3") auto
      have 4: "advances ?s3 s4" using process_data_frame[OF p] by (intro advancesI) simp_all
      obtain s5 where s: "attemptSend E f s4 = Some s5"
        using d False c a True p by (auto split: option.splits)
      have "advances s5 s'"
        using d False c a True p s by (auto intro!: advancesI split: if_split_asm)
      moreover have "advances s s5"
        using 2 3 4 send_frame_advances[OF attemptSend_frame[OF s]] advances_trans by blast
      ultimately show ?thesis using advances_trans by blast
    qed
  qed
qed

lemma NotifyPacket_advances: "NotifyPacket E p s = Some (ok, s') \<Longrightarrow> advances s s'"
  by (auto simp: NotifyPacket_def parse_def intro: process_advances split: if_split_asm)

lemma Connect_advances: "Connect E s = Some (r, s') \<Longrightarrow> advances s s'"
proof (cases "m_state s = TCP_LISTEN")
  case True
  assume a: "Connect E s = Some (r, s')"
  have "advances s (queueConnectMessage (s\<lparr>m_state := TCP_SYN_SENT\<rparr>))"
    using True by (simp add: advances_def rto_ok_def)
  moreover have "attemptSend E sfNone (queueConnectMessage (s\<lparr>m_state := TCP_SYN_SENT\<rparr>)) = Some s'"
    using a True by (auto simp: Connect_def Let_def split: option.splits)
  ultimately show "advances s s'" using send_frame_advances[OF attemptSend_frame] advances_trans by blast
qed (auto simp: Connect_def intro: advancesI)

lemma rto_backoff: "MIN_RTO \<le> r \<Longrightarrow> r \<le> MAX_RTO \<Longrightarrow> l = DEF_RTO \<or> l = MAX_RTO \<Longrightarrow>
  MIN_RTO \<le> min l (r * 2) \<and> min l (r * 2) \<le> MAX_RTO"
proof -
  assume r: "MIN_RTO \<le> r" "r \<le> MAX_RTO" and l: "l = DEF_RTO \<or> l = MAX_RTO"
  have "unat r * 2 < 2 ^ 32" using r(2) by (simp add: ptcp_times word_le_nat_alt)
  then have "unat (r * 2) = unat r * 2" by (simp add: unat_mult_lem[THEN iffD1])
  then show ?thesis using r l by (auto simp: ptcp_times word_le_nat_alt min_def)
qed

lemma clock_retransmit_advances: "clock_retransmit E now s = Some (ok, s') \<Longrightarrow> advances s s'"
proof -
  assume a: "clock_retransmit E now s = Some (ok, s')"
  show ?thesis
  proof (cases "m_rto_base s \<noteq> 0 \<and> TimeDiff (m_rto_base s + m_rx_rto s) now \<le> 0 \<and> m_slist s \<noteq> []")
    case False
    then show ?thesis using a by (auto simp: clock_retransmit_def split: if_split_asm)
  next
    case True
    then obtain ok1 s1 where r: "retransmit E now s = Some (ok1, s1)"
      using a by (auto simp: clock_retransmit_def split: option.splits)
    note r1 = retransmit_advances[OF r]
    show ?thesis
    proof (cases ok1)
      case False
      then show ?thesis using a True r r1 by (simp add: clock_retransmit_def)
    next
      case True
      let ?l = "if m_state s1 \<in> {TCP_LISTEN, TCP_SYN_SENT, TCP_SYN_RECEIVED} then DEF_RTO else MAX_RTO"
      have "m_state s' = m_state s1" "m_rx_rto s' = min ?l (m_rx_rto s1 * 2)"
        using a \<open>m_rto_base s \<noteq> 0 \<and> _\<close> r True by (auto simp: clock_retransmit_def Let_def)
      then have "advances s1 s'" using rto_backoff[of "m_rx_rto s1" ?l] by (auto simp: advances_def rto_ok_def)
      then show ?thesis by (rule advances_trans[OF r1])
    qed
  qed
qed

lemma clock_probe_advances: "clock_probe E now s = Some (ok, s') \<Longrightarrow> advances s s'"
proof -
  assume a: "clock_probe E now s = Some (ok, s')"
  consider "s' = s" | "s' = closedown ECONNABORTED s"
    | r s1 where "packet E (m_snd_nxt s - 1) 0 0 0 s = Some (r, s1)" "m_state s' = m_state s1" "m_rx_rto s' = min MAX_RTO (m_rx_rto s1 * 2)"
    using a by (auto simp: clock_probe_def Let_def split: option.splits if_split_asm)
  then show ?thesis
  proof cases
    case 3
    have "advances s s1" by (rule send_frame_advances[OF packet_frame[OF 3(1)]])
    moreover have "advances s1 s'" using 3(2,3) rto_backoff[of "m_rx_rto s1" MAX_RTO] by (auto simp: advances_def rto_ok_def)
    ultimately show ?thesis by (rule advances_trans)
  qed simp_all
qed

lemma clock_ack_advances: "clock_ack E now s = Some s' \<Longrightarrow> advances s s'"
  by (auto simp: clock_ack_def split: if_split_asm intro: send_frame_advances[OF packet_frame])

lemma NotifyClock_advances: "NotifyClock E now s = Some s' \<Longrightarrow> advances s s'"
  by (auto simp: NotifyClock_def split: if_split_asm option.splits
      dest!: clock_retransmit_advances clock_probe_advances clock_ack_advances) (blast intro: advances_trans)+

lemma Recv_advances: "Recv E n s = Some (r, d, s') \<Longrightarrow> advances s s'"
proof -
  have t: "attemptSend E f (s\<lparr>m_rbuf := b, m_rcv_wnd := w\<rparr>) = Some s' \<Longrightarrow> advances s s'" for f b w
    using send_frame_advances[OF attemptSend_frame, of E f "s\<lparr>m_rbuf := b, m_rcv_wnd := w\<rparr>" s'] by (simp add: advances_def rto_ok_def)
  show "Recv E n s = Some (r, d, s') \<Longrightarrow> advances s s'"
    by (auto simp: Recv_def Let_def split: prod.splits if_split_asm intro: t advancesI)
qed

lemma Send_advances:
  assumes "Send E d s = Some (r, s')"
  shows "advances s s'"
proof (cases "m_state s = TCP_ESTABLISHED \<and> GetWriteRemaining (m_sbuf s) \<noteq> 0")
  case True
  then have a: "attemptSend E sfNone (snd (ptcp_queue d False s)) = Some s'"
    using assms by (auto simp: Send_def Let_def split: prod.splits)
  show ?thesis using send_frame_advances[OF attemptSend_frame[OF a]] by (simp add: advances_def rto_ok_def)
next
  case False
  then show ?thesis using assms by (intro advancesI) (auto simp: Send_def split: if_split_asm)
qed

lemma SetOption_advances: "advances s (SetOption opt v s)"
  using resizeReceiveBuffer_advances[of s "word_of_int v"]
  by (cases opt) (auto simp: SetOption_def resizeSendBuffer_def intro: advancesI)

lemma ptcp_call_advances: "ptcp_call E c s = Some s' \<Longrightarrow> advances s s'"
  by (cases c) (auto simp: NotifyMTU_def Close_def Let_def SetOption_advances
      intro: Connect_advances NotifyClock_advances NotifyPacket_advances Recv_advances Send_advances advancesI)

end
