(* ===== verification/PtcpProps.thy ===== *)
theory PtcpProps
  imports PtcpFrame
begin

text \<open>
  Properties of \<^verbatim>\<open>PseudoTcp\<close> that hold of all runs or need no invariant of the buffers:
  the retransmission timer, closing, the packet format, the window scale, the negotiation of
  options, and three packets that the code answers with undefined behaviour.
\<close>

section \<open>All runs\<close>

lemma reachable_rto: "ptcp_reachable E conv s \<Longrightarrow> rto_ok s"
proof (induction rule: ptcp_reachable.induct)
  case reachable_new
  show ?case by (simp add: rto_ok_def PseudoTcp_new_def Let_def ptcp_times)
next
  case (reachable_call s c s')
  then show ?case using ptcp_call_advances[of E c s s'] by (simp add: advances_def)
qed

text \<open>C29: whatever packets arrive, whatever the clock says and whatever the application does, the
  retransmission timeout stays between 250 milliseconds and 60 seconds.\<close>
theorem ptcp_rto_bounds:
  assumes "ptcp_reachable E conv s"
  shows "250 \<le> m_rx_rto s \<and> m_rx_rto s \<le> 60000"
  using reachable_rto[OF assms] by (simp add: rto_ok_def ptcp_times)

definition example_env :: Env where
  "example_env = \<lparr>e_now = \<lambda>n. 1000 + of_nat n, e_write = \<lambda>_ _. WR_SUCCESS\<rparr>"

lemma ptcp_rto_bounds_witness:
  "\<exists>s. ptcp_run example_env [CallSetOption OPT_NODELAY 1, CallNotifyMTU 1400, CallClose False] (PseudoTcp_new example_env 7) = Some s \<and>
    250 \<le> m_rx_rto s \<and> m_rx_rto s \<le> 60000"
proof -
  obtain s where s: "ptcp_run example_env [CallSetOption OPT_NODELAY 1, CallNotifyMTU 1400, CallClose False] (PseudoTcp_new example_env 7) = Some s"
    by simp
  show ?thesis using s ptcp_rto_bounds[OF ptcp_run_reachable[OF reachable_new s]] by blast
qed

lemma resize_log [simp]: "t_log (resizeReceiveBuffer n s) = t_log s" "t_log (resizeSendBuffer n s) = t_log s"
  by (simp_all add: resizeReceiveBuffer_def resizeSendBuffer_def Let_def split: prod.split)

lemma closed_call:
  assumes "m_state s = TCP_CLOSED" "ptcp_call E c s = Some s'"
  shows "m_state s' = TCP_CLOSED \<and> t_log s' = t_log s"
proof
  show "m_state s' = TCP_CLOSED"
    using ptcp_call_advances[OF assms(2)] assms(1) by (cases "m_state s'") (simp_all add: advances_def)
  have p: "process E seg s = Some (ok, s') \<Longrightarrow> t_log s' = t_log s" for seg ok
    using assms(1) by (auto simp: process_def Now_def Let_def split: if_split_asm)
  show "t_log s' = t_log s"
  proof (cases c)
    case (CallSetOption opt v)
    then show ?thesis using assms(2) by (cases opt) (auto simp: SetOption_def)
  qed (use assms p in \<open>auto simp: Connect_def NotifyMTU_def NotifyClock_def NotifyPacket_def parse_def Recv_def Send_def Close_def
        Let_def split: if_split_asm\<close>)
qed

text \<open>C30: no run takes a connection back to an earlier state, and a run from a closed connection
  stays closed, sends no packet and tells the application nothing.\<close>
theorem ptcp_closed_silent:
  assumes "ptcp_run E cs s = Some s'"
  shows "state_rank (m_state s) \<le> state_rank (m_state s') \<and>
    (m_state s = TCP_CLOSED \<longrightarrow> m_state s' = TCP_CLOSED \<and> t_log s' = t_log s)"
  using assms
proof (induction cs arbitrary: s)
  case (Cons c cs)
  then obtain s1 where 1: "ptcp_call E c s = Some s1" "ptcp_run E cs s1 = Some s'" by (auto split: option.splits)
  show ?case
    using Cons.IH[OF 1(2)] ptcp_call_advances[OF 1(1)] closed_call[OF _ 1(1)] by (auto simp: advances_def)
qed simp

lemma ptcp_closed_silent_witness:
  "let s = closedown ECONNRESET (PseudoTcp_new example_env 7)
   in \<exists>s'. ptcp_run example_env [CallConnect, CallNotifyClock 5000, CallSend [1, 2, 3], CallRecv 10] s = Some s' \<and>
     m_state s' = TCP_CLOSED \<and> t_log s' = [OnTcpClosed ECONNRESET]"
proof -
  let ?s = "closedown ECONNRESET (PseudoTcp_new example_env 7)"
  have c: "m_state ?s = TCP_CLOSED" "t_log ?s = [OnTcpClosed ECONNRESET]"
    by (simp_all add: closedown_def) (simp add: notify_def PseudoTcp_new_def Let_def)
  obtain s' where s': "ptcp_run example_env [CallConnect, CallNotifyClock 5000, CallSend [1, 2, 3], CallRecv 10] ?s = Some s'"
    using c(1) by (simp add: Connect_def NotifyClock_def Send_def Recv_def)
  from ptcp_closed_silent[OF s'] c have "m_state s' = TCP_CLOSED \<and> t_log s' = [OnTcpClosed ECONNRESET]" by metis
  with s' show ?thesis unfolding Let_def by blast
qed

section \<open>The packet format\<close>

lemma long_to_bytes_be: "long_to_bytes v = be_bytes 4 v" "short_to_bytes w = be_bytes 2 w"
  by (simp_all add: long_to_bytes_def short_to_bytes_def store_HostToNetwork)

lemma bytes_to_long_be: "bytes_to_long (be_bytes 4 v @ r) = v" "bytes_to_short (be_bytes 2 w @ r) = w"
  by (simp_all add: bytes_to_long_def bytes_to_short_def NetworkToHost_load be_word_be_bytes)

lemma length_packet_header [simp]: "length (packet_header conv seq ack flags wnd now ts) = 24"
  by (simp add: packet_header_def long_to_bytes_be)

lemma parse_packet_header:
  "parse_segment (packet_header conv seq ack flags wnd now ts_recent @ data) =
     \<lparr>g_conv = conv, g_seq = seq, g_ack = ack, g_flags = flags, g_wnd = wnd, g_data = data,
      g_len = of_nat (length data), g_tsval = now, g_tsecr = ts_recent\<rparr>"
proof -
  let ?b = "packet_header conv seq ack flags wnd now ts_recent @ data"
  have b: "?b = be_bytes 4 conv @ be_bytes 4 seq @ be_bytes 4 ack @ [0, flags] @ be_bytes 2 wnd @ be_bytes 4 now @ be_bytes 4 ts_recent @ data"
    by (simp add: packet_header_def long_to_bytes_be)
  have d: "drop 4 ?b = be_bytes 4 seq @ be_bytes 4 ack @ [0, flags] @ be_bytes 2 wnd @ be_bytes 4 now @ be_bytes 4 ts_recent @ data"
      "drop 8 ?b = be_bytes 4 ack @ [0, flags] @ be_bytes 2 wnd @ be_bytes 4 now @ be_bytes 4 ts_recent @ data"
      "drop 14 ?b = be_bytes 2 wnd @ be_bytes 4 now @ be_bytes 4 ts_recent @ data"
      "drop 16 ?b = be_bytes 4 now @ be_bytes 4 ts_recent @ data"
      "drop 20 ?b = be_bytes 4 ts_recent @ data"
      "drop 24 ?b = data"
    unfolding b by (simp_all add: drop_append)
  have f: "?b ! 13 = flags" unfolding b by (simp add: nth_append)
  have l: "of_nat (length ?b) - HEADER_SIZE = of_nat (length data)" by (simp add: HEADER_SIZE_def)
  show ?thesis
    unfolding parse_segment_def d f l
    by (simp add: HEADER_SIZE_def d bytes_to_long_be) (simp add: b bytes_to_long_be)
qed

text \<open>C31: parsing the bytes that \<^verbatim>\<open>packet\<close> builds gives back every field of the header
  and the data.\<close>
theorem ptcp_header_roundtrip:
  "parse_segment (packet_header conv seq ack flags wnd now ts_recent @ data) =
     \<lparr>g_conv = conv, g_seq = seq, g_ack = ack, g_flags = flags, g_wnd = wnd, g_data = data,
      g_len = of_nat (length data), g_tsval = now, g_tsecr = ts_recent\<rparr>"
  by (rule parse_packet_header)

section \<open>The window scale\<close>

lemma scale_loop_spec:
  "\<exists>j. scale_loop n k = (drop_bit j n, k + of_nat j) \<and> drop_bit j n \<le> 0xFFFF \<and> (j > 0 \<longrightarrow> drop_bit (j - 1) n > 0xFFFF)"
proof (induction n k rule: scale_loop.induct)
  case (1 n k)
  show ?case
  proof (cases "n > 0xFFFF")
    case False
    then show ?thesis by (intro exI[of _ 0]) (simp add: scale_loop.simps[of n k])
  next
    case True
    obtain j where j: "scale_loop (drop_bit 1 n) (k + 1) = (drop_bit j (drop_bit 1 n), k + 1 + of_nat j)"
        "drop_bit j (drop_bit 1 n) \<le> 0xFFFF" "j > 0 \<longrightarrow> drop_bit (j - 1) (drop_bit 1 n) > 0xFFFF"
      using 1[OF True] by auto
    have "drop_bit (Suc j - 1) n > 0xFFFF" using True j(3) by (cases j) (simp_all add: drop_bit_drop_bit)
    then show ?thesis using True j(1,2)
      by (intro exI[of _ "Suc j"]) (simp add: scale_loop.simps[of n k] drop_bit_drop_bit add.assoc)
  qed
qed

lemma unat_drop_bit: "unat (drop_bit j n) = unat n div 2 ^ j" for n :: u32
  by (rule trans[OF unat_drop_bit_eq drop_bit_eq_div])

lemma unat_push_bit: "unat n * 2 ^ j < 2 ^ 32 \<Longrightarrow> unat (push_bit j n) = unat n * 2 ^ j" for n :: u32
  by (subst unsigned_push_bit_eq) (simp add: push_bit_eq_mult take_bit_nat_eq_self)

lemma scale_le_16: "j > 0 \<longrightarrow> drop_bit (j - 1) n > 0xFFFF \<Longrightarrow> j \<le> 16" for n :: u32
proof (rule ccontr)
  assume j: "j > 0 \<longrightarrow> drop_bit (j - 1) n > 0xFFFF" "\<not> j \<le> 16"
  then have "unat n div 2 ^ (j - 1) > 65535" by (simp add: word_less_nat_alt unat_drop_bit)
  moreover have "unat n div 2 ^ (j - 1) \<le> unat n div 2 ^ 16" using j(2) by (intro div_le_mono2 power_increasing) auto
  moreover have "unat n div 2 ^ 16 < 65536" using unat_lt_u32[of n] by (intro less_mult_imp_div_less) simp
  ultimately show False by linarith
qed

text \<open>What the peer makes of the advertised window.\<close>

lemma window_field:
  assumes "drop_bit j n \<le> (0xFFFF :: u32)" "j \<le> 16"
  shows "scaled_window (ucast (drop_bit j (push_bit j (drop_bit j n)))) (of_nat j) = Some (push_bit j (drop_bit j n))"
proof -
  have uj: "unat (of_nat j :: u8) = j" using assms(2) by (simp add: unat_of_nat take_bit_nat_eq_self)
  have u: "unat (drop_bit j n) < 2 ^ 16" using assms(1) by (simp add: word_le_nat_alt)
  have "unat (push_bit j (drop_bit j n)) = unat (drop_bit j n) * 2 ^ j"
  proof -
    have "unat (drop_bit j n) * 2 ^ j \<le> unat n" by (simp add: unat_drop_bit)
    then have "unat (drop_bit j n) * 2 ^ j < 2 ^ 32" using unat_lt_u32[of n] by simp
    then show ?thesis by (rule unat_push_bit)
  qed
  then have "drop_bit j (push_bit j (drop_bit j n)) = drop_bit j n"
    by (intro word_unat_eq_iff[THEN iffD2]) (simp add: unat_drop_bit)
  moreover have "(ucast (ucast (drop_bit j n) :: u16) :: u32) = drop_bit j n"
    using u by (intro word_unat_eq_iff[THEN iffD2]) (simp add: unsigned_ucast_eq unsigned_take_bit_eq take_bit_nat_eq_self)
  ultimately show ?thesis using uj assms(2) by (simp add: scaled_window_def)
qed

text \<open>Sizing an empty receive buffer leaves a scale of at most 16, a buffer at most the size asked
  for and less than one unit of the scale below it, and a window field from which the peer computes
  exactly the window.\<close>
theorem ptcp_window_scale:
  assumes "fifo_inv (m_rbuf s)" "GetBuffered (m_rbuf s) = 0" "n \<noteq> 0"
  defines "s' \<equiv> resizeReceiveBuffer n s"
  shows "unat (m_rwnd_scale s') \<le> 16 \<and> m_rcv_wnd s' = m_rbuf_len s' \<and> unat (m_rbuf_len s') = buffer_length (m_rbuf s') \<and>
    m_rbuf_len s' \<le> n \<and> unat n < unat (m_rbuf_len s') + 2 ^ unat (m_rwnd_scale s') \<and>
    scaled_window (ucast (drop_bit (unat (m_rwnd_scale s')) (m_rcv_wnd s'))) (m_rwnd_scale s') = Some (m_rcv_wnd s')"
proof -
  obtain j where j: "scale_loop n 0 = (drop_bit j n, of_nat j)" "drop_bit j n \<le> 0xFFFF" "j > 0 \<longrightarrow> drop_bit (j - 1) n > 0xFFFF"
    using scale_loop_spec[of n 0] by auto
  have j16: "j \<le> 16" using j(3) by (rule scale_le_16)
  have uj: "unat (of_nat j :: u8) = j" using j16 by (simp add: unat_of_nat take_bit_nat_eq_self)
  let ?w = "push_bit j (drop_bit j n)"
  have le: "unat n div 2 ^ j * 2 ^ j \<le> unat n" by simp
  have uw: "unat ?w = unat n div 2 ^ j * 2 ^ j"
    using unat_push_bit[of "drop_bit j n" j] unat_lt_u32[of n] le by (simp add: unat_drop_bit)
  have "unat n mod 2 ^ j < 2 ^ j" by simp
  then have close: "unat n < unat ?w + 2 ^ j" unfolding uw using div_mult_mod_eq[of "unat n" "2 ^ j"] by linarith
  have pos: "0 < unat ?w"
  proof (cases "j = 0")
    case True
    then show ?thesis using assms(3) by (simp add: unat_gt_0)
  next
    case False
    then have "unat n div 2 ^ (j - 1) > 1" using j(3) by (simp add: word_less_nat_alt unat_drop_bit)
    then have "2 ^ (j - 1) * 2 \<le> unat n" by (simp add: less_eq_div_iff_mult_less_eq[symmetric] Suc_le_eq mult.commute)
    then have "2 ^ j \<le> unat n" using False by (cases j) simp_all
    then have "0 < unat n div 2 ^ j" by (simp add: div_greater_zero_iff)
    then show ?thesis unfolding uw by simp
  qed
  obtain r f where c: "SetCapacity (m_rbuf s) (unat ?w) = (r, f)" by (cases "SetCapacity (m_rbuf s) (unat ?w)")
  have f: "buffer_length f = unat ?w" "f_data_length f = 0"
    using SetCapacity_queue[OF assms(1) pos c] assms(2) by (auto simp: GetBuffered_def)
  have s': "m_rwnd_scale s' = of_nat j" "m_rbuf_len s' = ?w" "m_rbuf s' = f" "m_rcv_wnd s' = ?w"
    using j(1) uj c f by (simp_all add: s'_def resizeReceiveBuffer_def Let_def GetWriteRemaining_def)
  have "?w \<le> n" using le uw by (simp add: word_le_nat_alt)
  then show ?thesis
    using j16 uj f close window_field[OF j(2) j16] unfolding s' by simp
qed

lemma ptcp_window_scale_witness:
  "let s' = resizeReceiveBuffer 1000003 (PseudoTcp_new example_env 7)
   in m_rcv_wnd s' = m_rbuf_len s' \<and>
     scaled_window (ucast (drop_bit (unat (m_rwnd_scale s')) (m_rcv_wnd s'))) (m_rwnd_scale s') = Some (m_rcv_wnd s')"
proof -
  have "fifo_inv (m_rbuf (PseudoTcp_new example_env 7))" "GetBuffered (m_rbuf (PseudoTcp_new example_env 7)) = 0"
    using FifoBuffer_new_ok(1)[of "unat DEFAULT_RCV_BUF_SIZE"]
    by (simp_all add: PseudoTcp_new_def Let_def ptcp_sizes) (simp add: FifoBuffer_new_def GetBuffered_def)
  moreover have "(1000003 :: u32) \<noteq> 0" by simp
  ultimately show ?thesis unfolding Let_def using ptcp_window_scale by blast
qed

section \<open>Negotiating options\<close>

lemma bb_at_Data: "bb_at b (x # xs) \<Longrightarrow> Data b ! 0 = x"
  using Data_content[of b] by (cases "Data b"; cases "Length b") (auto simp: bb_at_def)

lemma connect_message_bytes:
  "take (Length (connect_message p)) (Data (connect_message p)) =
     CTL_CONNECT # (if m_support_wnd_scale p then [TCP_OPT_WND_SCALE, 1, m_rwnd_scale p] else [])"
proof -
  note w = bb_at_write(3)[OF bb_at_new(1), of CTL_CONNECT]
  have b: "be_bytes (Suc 0) v = [v]" for v :: u8 by (simp add: be_bytes_1)
  have "bb_at (connect_message p) (CTL_CONNECT # (if m_support_wnd_scale p then [TCP_OPT_WND_SCALE, 1, m_rwnd_scale p] else []))"
    using w bb_at_write(3)[OF bb_at_write(3)[OF bb_at_write(3)[OF w, of TCP_OPT_WND_SCALE], of 1], of "m_rwnd_scale p"]
    by (simp add: connect_message_def Let_def b)
  then show ?thesis using Data_content[of "connect_message p"] by (simp add: bb_at_def)
qed

lemma parseOptions_scale:
  "parseOptions [TCP_OPT_WND_SCALE, 1, k] s = s\<lparr>m_swnd_scale := k\<rparr>"
proof -
  have b: "be_bytes (Suc 0) v = [v]" for v :: u8 by (simp add: be_bytes_1)
  obtain b1 where b1: "ReadUInt8 (ByteBuffer_of [TCP_OPT_WND_SCALE, 1, k]) = Some (TCP_OPT_WND_SCALE, b1)" "bb_at b1 [1, k]"
    using bb_at_read(1)[of "ByteBuffer_of [TCP_OPT_WND_SCALE, 1, k]" TCP_OPT_WND_SCALE "[1, k]"] bb_at_new(2) by (auto simp: b)
  obtain b2 where b2: "ReadUInt8 b1 = Some (1, b2)" "bb_at b2 [k]"
    using bb_at_read(1)[of b1 1 "[k]"] b1(2) by (auto simp: b)
  obtain b3 where b3: "Consume b2 1 = Some b3" "bb_at b3 []"
    using bb_at_bytes(3)[of b2 "[k]" "[]" 1] b2(2) by auto
  have 3: "parse_options_loop b3 opts s' = (True, opts, s')" for opts s'
    using bb_at_Length[OF b3(2)] by (simp add: parse_options_loop.simps)
  have "parse_options_loop (ByteBuffer_of [TCP_OPT_WND_SCALE, 1, k]) {} s = (True, {TCP_OPT_WND_SCALE}, s\<lparr>m_swnd_scale := k\<rparr>)"
    using b1(1) b2(1) b3(1) bb_at_Length[OF bb_at_new(2)] bb_at_Length[OF b2(2)] bb_at_Data[OF b2(2)] 3
    by (subst parse_options_loop.simps)
      (simp add: TCP_OPT_WND_SCALE_def TCP_OPT_EOL_def TCP_OPT_NOOP_def TCP_OPT_MSS_def applyOption_def applyWindowScaleOption_def)
  then show ?thesis by (simp add: parseOptions_def)
qed

lemma parseOptions_Nil:
  "parseOptions [] s = (if m_rwnd_scale s > 0 then (resizeReceiveBuffer DEFAULT_RCV_BUF_SIZE s)\<lparr>m_swnd_scale := 0\<rparr> else s)"
  using bb_at_Length[OF bb_at_new(2), of "[]"]
  by (simp add: parseOptions_def parse_options_loop.simps)

text \<open>Reading the options of the peer's connect message sets the scale for the peer's windows to
  the scale of its receive buffer; from a peer that sends none, a receive buffer that needs a scale
  goes back to its default size.\<close>
theorem ptcp_options_roundtrip:
  "parseOptions (drop 1 (take (Length (connect_message p)) (Data (connect_message p)))) s =
    (if m_support_wnd_scale p then s\<lparr>m_swnd_scale := m_rwnd_scale p\<rparr>
     else if m_rwnd_scale s > 0 then (resizeReceiveBuffer DEFAULT_RCV_BUF_SIZE s)\<lparr>m_swnd_scale := 0\<rparr>
     else s)"
  unfolding connect_message_bytes using parseOptions_scale parseOptions_Nil by simp

section \<open>Packets the code is not ready for\<close>

text \<open>A packet of 12 to 23 bytes passes the length test, and fields beyond its end are read.\<close>
theorem ptcp_short_packet:
  assumes "12 \<le> length buffer" "length buffer < 24"
  shows "NotifyPacket E buffer s = None"
  using assms by (simp add: NotifyPacket_def parse_def ptcp_sizes)

lemma ptcp_short_packet_witness: "NotifyPacket example_env (replicate 12 0) (PseudoTcp_new example_env 0) = None"
  by (rule ptcp_short_packet) simp_all

lemma queueConnectMessage_keeps:
  "m_snd_una (queueConnectMessage s) = m_snd_una s" "m_swnd_scale (queueConnectMessage s) = m_swnd_scale s"
  by (simp_all add: queueConnectMessage_def ptcp_queue_def Let_def split: prod.split)

lemma process_ack_undefined:
  fixes s :: PseudoTcp and E :: Env
  defines "now \<equiv> e_now E (t_nows s)"
  defines "s0 \<equiv> s\<lparr>t_nows := Suc (t_nows s), m_lasttraffic := now, m_lastrecv := now, m_bOutgoing := False\<rparr>"
  assumes "g_conv seg = m_conv s" "m_state s \<noteq> TCP_CLOSED" "g_flags seg AND FLAG_RST = 0"
    "process_control seg s0 = Some (b, s1)" "process_ack E now seg (update_timestamp seg s1) = None"
  shows "process E seg s = None"
  using assms by (simp add: process_def Now_def Let_def)

text \<open>One connect packet whose window scale is 32 or more makes a fresh object that listens shift
  a 32-bit value by that many bits, which is undefined; the scale is stored as it comes.\<close>
theorem ptcp_scale_unchecked:
  assumes "unat k \<ge> 32"
  shows "NotifyPacket E (packet_header conv 0 0 FLAG_CTL wnd now ts @ [CTL_CONNECT, TCP_OPT_WND_SCALE, 1, k]) (PseudoTcp_new E conv) = None"
proof -
  define seg where "seg = parse_segment (packet_header conv 0 0 FLAG_CTL wnd now ts @ [CTL_CONNECT, TCP_OPT_WND_SCALE, 1, k])"
  define s where "s = PseudoTcp_new E conv"
  define s0 where "s0 = s\<lparr>t_nows := Suc (t_nows s), m_lasttraffic := e_now E (t_nows s), m_lastrecv := e_now E (t_nows s), m_bOutgoing := False\<rparr>"
  define s1 where "s1 = queueConnectMessage (s0\<lparr>m_swnd_scale := k, m_state := TCP_SYN_RECEIVED\<rparr>)"
  have f: "m_state s = TCP_LISTEN" "m_conv s = conv" "m_snd_una s0 = 0" "m_state s0 = TCP_LISTEN"
    by (simp_all add: s_def s0_def PseudoTcp_new_def Let_def)
  have g: "g_conv seg = conv" "g_flags seg = FLAG_CTL" "g_len seg = 4" "g_ack seg = 0"
      "g_data seg = [CTL_CONNECT, TCP_OPT_WND_SCALE, 1, k]"
    by (simp_all add: seg_def parse_packet_header)
  have c: "process_control seg s0 = Some (True, s1)"
    using f g by (simp add: process_control_def parseOptions_scale FLAG_CTL_def Let_def s1_def)
  have "m_swnd_scale (update_timestamp seg s1) = k" "m_snd_una (update_timestamp seg s1) = 0"
    using f by (simp_all add: update_timestamp_def queueConnectMessage_keeps s1_def)
  then have "process_ack E (e_now E (t_nows s)) seg (update_timestamp seg s1) = None"
    using assms g by (simp add: process_ack_def dup_ack_def scaled_window_def)
  then have "process E seg s = None"
    using process_ack_undefined[of seg s E True s1] c f g by (simp add: s0_def FLAG_CTL_def FLAG_RST_def)
  then show ?thesis by (simp add: NotifyPacket_def parse_def ptcp_sizes seg_def s_def)
qed

lemma ptcp_scale_unchecked_witness:
  "NotifyPacket example_env (packet_header 7 0 0 FLAG_CTL 1000 5 0 @ [CTL_CONNECT, TCP_OPT_WND_SCALE, 1, 255]) (PseudoTcp_new example_env 7) = None"
  by (rule ptcp_scale_unchecked) simp

end
