(* ===== verification/PtcpSender.thy ===== *)
theory PtcpSender
  imports PtcpProps
begin

text \<open>
  The sender of \<^verbatim>\<open>PseudoTcp\<close>: the segment list cuts the send buffer into
  consecutive ranges from the first unacknowledged byte, those sent first. Queueing, transmitting,
  retransmitting, acknowledging whole segments and \<^verbatim>\<open>attemptSend\<close> keep it so; from such a
  state \<^verbatim>\<open>attemptSend\<close> returns, stays inside the peer's window, and every packet it
  writes carries the bytes of the buffer at its sequence number.
\<close>

section \<open>Segment lists\<close>

fun chain :: "u32 \<Rightarrow> SSegment list \<Rightarrow> bool" where
  "chain a [] = True"
| "chain a (x # xs) = (s_seq x = a \<and> chain (a + s_len x) xs)"

definition seg_bytes :: "SSegment list \<Rightarrow> nat" where
  "seg_bytes xs = sum_list (map (unat \<circ> s_len) xs)"

lemma seg_bytes_simps [simp]:
  "seg_bytes [] = 0" "seg_bytes (x # xs) = unat (s_len x) + seg_bytes xs" "seg_bytes (xs @ ys) = seg_bytes xs + seg_bytes ys"
  by (simp_all add: seg_bytes_def)

lemma chain_append: "chain a (xs @ ys) \<longleftrightarrow> chain a xs \<and> chain (a + of_nat (seg_bytes xs)) ys"
  by (induction xs arbitrary: a) (auto simp: add.assoc)

definition sent_part :: "SSegment list \<Rightarrow> SSegment list" where
  "sent_part xs = takeWhile (\<lambda>x. s_xmit x > 0) xs"

definition unsent_part :: "SSegment list \<Rightarrow> SSegment list" where
  "unsent_part xs = dropWhile (\<lambda>x. s_xmit x > 0) xs"

definition sent_first :: "SSegment list \<Rightarrow> bool" where
  "sent_first xs \<longleftrightarrow> (\<forall>x\<in>set (unsent_part xs). s_xmit x = 0) \<and> (\<forall>x\<in>set xs. s_xmit x \<le> 30)"

lemma sent_unsent: "sent_part xs @ unsent_part xs = xs"
  by (simp add: sent_part_def unsent_part_def)

lemma parts_append:
  assumes "\<forall>x\<in>set xs. s_xmit x > 0" "\<forall>x\<in>set ys. s_xmit x = 0"
  shows "sent_part (xs @ ys) = xs" "unsent_part (xs @ ys) = ys"
  using assms by (induction xs) (auto simp: sent_part_def unsent_part_def takeWhile_eq_Nil_iff dropWhile_eq_self_iff intro: hd_in_set)

lemma sent_part_sent: "x \<in> set (sent_part xs) \<Longrightarrow> s_xmit x > 0"
  by (auto simp: sent_part_def dest: set_takeWhileD)

lemma next_segment_spec: "next_segment xs = (if unsent_part xs = [] then None else Some (length (sent_part xs)))"
  by (induction xs) (auto simp: sent_part_def unsent_part_def)

section \<open>The invariant\<close>

definition mss_ok :: "PseudoTcp \<Rightarrow> bool" where
  "mss_ok s \<longleftrightarrow> m_msslevel s \<le> 9 \<and> m_mss s \<le> 65511"

definition send_inv :: "PseudoTcp \<Rightarrow> bool" where
  "send_inv s \<longleftrightarrow>
     fifo_open (m_sbuf s) \<and> buffer_length (m_sbuf s) < 2 ^ 32 \<and> chain (m_snd_una s) (m_slist s) \<and>
     seg_bytes (m_slist s) = GetBuffered (m_sbuf s) \<and> sent_first (m_slist s) \<and>
     m_snd_nxt s = m_snd_una s + of_nat (seg_bytes (sent_part (m_slist s))) \<and> mss_ok s"

definition in_flight :: "PseudoTcp \<Rightarrow> nat" where
  "in_flight s = seg_bytes (sent_part (m_slist s))"

lemma send_inv_bytes:
  assumes "send_inv s"
  shows "seg_bytes (m_slist s) < 2 ^ 32" "in_flight s + seg_bytes (unsent_part (m_slist s)) = GetBuffered (m_sbuf s)"
    "unat (GetBytesInFlight s) = in_flight s"
proof -
  show b: "seg_bytes (m_slist s) < 2 ^ 32"
    using assms by (auto simp: send_inv_def GetBuffered_def fifo_open_def fifo_inv_def)
  have "seg_bytes (m_slist s) = in_flight s + seg_bytes (unsent_part (m_slist s))"
    unfolding in_flight_def by (simp only: seg_bytes_simps(3)[symmetric] sent_unsent)
  then show "in_flight s + seg_bytes (unsent_part (m_slist s)) = GetBuffered (m_sbuf s)" "unat (GetBytesInFlight s) = in_flight s"
    using assms b by (simp_all add: send_inv_def GetBytesInFlight_def in_flight_def unat_of_nat_u32)
qed

text \<open>A packet whose payload is the part of the buffer its sequence number names.\<close>

definition carries :: "PseudoTcp \<Rightarrow> u8 list \<Rightarrow> bool" where
  "carries s p \<longleftrightarrow>
     (let g = parse_segment p in
      length (g_data g) = unat (g_len g) \<and>
      g_data g = take (unat (g_len g)) (drop (unat (g_seq g - m_snd_una s)) (queue (m_sbuf s))))"

definition sends_buffer :: "PseudoTcp \<Rightarrow> PseudoTcp \<Rightarrow> bool" where
  "sends_buffer s s' \<longleftrightarrow> (\<exists>evs. t_log s' = t_log s @ evs \<and> (\<forall>p r. TcpWritePacket p r \<in> set evs \<longrightarrow> carries s p))"

text \<open>What building and resizing packets leaves alone.\<close>

definition core :: "PseudoTcp \<Rightarrow> PseudoTcp" where
  "core s = s\<lparr>m_bOutgoing := False, m_lasttraffic := 0, m_lastsend := 0, m_mss := 0, m_msslevel := 0,
     m_ts_lastack := 0, m_cwnd := 0, m_t_ack := 0, t_nows := 0, t_log := []\<rparr>"

definition inner :: "PseudoTcp \<Rightarrow> PseudoTcp \<Rightarrow> bool" where
  "inner s s' \<longleftrightarrow> core s' = core s \<and> sends_buffer s s' \<and> (mss_ok s \<longrightarrow> mss_ok s')"

lemma core_D:
  assumes "core s' = core s"
  shows "m_slist s' = m_slist s" "m_sbuf s' = m_sbuf s" "m_snd_una s' = m_snd_una s" "m_snd_nxt s' = m_snd_nxt s"
    "m_rto_base s' = m_rto_base s" "m_state s' = m_state s" "m_snd_wnd s' = m_snd_wnd s"
  using arg_cong[OF assms, of m_slist] arg_cong[OF assms, of m_sbuf] arg_cong[OF assms, of m_snd_una]
    arg_cong[OF assms, of m_snd_nxt] arg_cong[OF assms, of m_rto_base] arg_cong[OF assms, of m_state]
    arg_cong[OF assms, of m_snd_wnd]
  by (simp_all add: core_def)

lemma carries_cong: "m_snd_una s' = m_snd_una s \<Longrightarrow> m_sbuf s' = m_sbuf s \<Longrightarrow> carries s' = carries s"
  by (rule ext) (simp add: carries_def)

lemma sends_buffer_trans:
  "sends_buffer a b \<Longrightarrow> sends_buffer b c \<Longrightarrow> m_snd_una b = m_snd_una a \<Longrightarrow> m_sbuf b = m_sbuf a \<Longrightarrow> sends_buffer a c"
  unfolding sends_buffer_def using carries_cong[of b a] by fastforce

lemma sends_buffer_quiet: "t_log s' = t_log s \<Longrightarrow> sends_buffer s s'"
  by (simp add: sends_buffer_def)

lemma inner_trans: "inner a b \<Longrightarrow> inner b c \<Longrightarrow> inner a c"
  unfolding inner_def using sends_buffer_trans[of a b c] core_D(2,3)[of b a] by auto

lemma inner_refl [simp]: "inner s s"
  by (simp add: inner_def sends_buffer_quiet)

lemma send_inv_core:
  assumes "core s' = core s" "mss_ok s'" "send_inv s"
  shows "send_inv s'"
  using core_D[OF assms(1)] assms(2,3) by (simp add: send_inv_def)

section \<open>Writing a packet\<close>

lemma packet_ok:
  assumes "fifo_inv (m_sbuf s)" "unat len > 0 \<Longrightarrow> unat off + unat len \<le> GetBuffered (m_sbuf s)" "unat len \<le> 65511"
    "unat len > 0 \<Longrightarrow> off = seq - m_snd_una s"
  obtains r s' where "packet E seq flags off len s = Some (r, s')" "inner s s'" "len = 0 \<Longrightarrow> r = WR_SUCCESS"
    "m_mss s' = m_mss s" "m_msslevel s' = m_msslevel s"
proof -
  define bytes where "bytes = (if len \<noteq> 0 then snd (ReadOffset (m_sbuf s) (unat len) (unat off)) else [])"
  have b: "bytes = take (unat len) (drop (unat off) (queue (m_sbuf s)))" "length bytes = unat len"
  proof -
    have "bytes = take (unat len) (drop (unat off) (queue (m_sbuf s))) \<and> length bytes = unat len"
    proof (cases "len = 0")
      case False
      then have "unat len > 0" by (simp add: unat_gt_0)
      then show ?thesis using assms(1,2) False
        by (simp add: bytes_def ReadOffset_queue GetBuffered_def)
    qed (simp add: bytes_def)
    then show "bytes = take (unat len) (drop (unat off) (queue (m_sbuf s)))" "length bytes = unat len" by auto
  qed
  have big: "\<not> unat HEADER_SIZE + unat len > unat MAX_PACKET" using assms(3) by (simp add: ptcp_sizes)
  have car: "carries s (packet_header c seq a fl w n ts @ bytes)" for c a fl w n ts
  proof (cases "len = 0")
    case True
    then show ?thesis using b parse_packet_header[where data = "[]"] by (simp add: carries_def)
  next
    case False
    then have o: "seq - m_snd_una s = off" using assms(4) by (simp add: unat_gt_0)
    have l: "of_nat (length bytes) = len" by (simp add: b(2))
    show ?thesis unfolding carries_def Let_def parse_packet_header by (simp add: l b(2) o) (simp add: b(1))
  qed
  have sb: "t_log s' = t_log s @ [TcpWritePacket (packet_header c seq a fl w n ts @ bytes) r] \<Longrightarrow> sends_buffer s s'" for s' c a fl w n ts r
    using car by (auto simp: sends_buffer_def)
  have "\<exists>r s'. packet E seq flags off len s = Some (r, s') \<and> inner s s' \<and> (len = 0 \<longrightarrow> r = WR_SUCCESS) \<and>
      m_mss s' = m_mss s \<and> m_msslevel s' = m_msslevel s"
  proof (cases "len = 0")
    case True
    have "\<exists>s'. packet E seq flags off len s = Some (WR_SUCCESS, s') \<and> inner s s' \<and> m_mss s' = m_mss s \<and> m_msslevel s' = m_msslevel s"
      using big True sb[unfolded bytes_def] by (simp add: packet_def Now_def notify_def Let_def inner_def core_def mss_ok_def)
    then show ?thesis by blast
  next
    case False
    then have "snd (ReadOffset (m_sbuf s) (unat len) (unat off)) = bytes" by (simp add: bytes_def)
    then show ?thesis using big b(2) False
      by (simp add: packet_def Now_def notify_def Let_def inner_def core_def sb mss_ok_def)
  qed
  then show ?thesis using that by blast
qed

lemma sizes_step:
  "k \<le> 8 \<Longrightarrow> PACKET_MAXIMUMS ! Suc k \<noteq> 0 \<and> 180 \<le> ucast (PACKET_MAXIMUMS ! Suc k) - PACKET_OVERHEAD \<and>
     ucast (PACKET_MAXIMUMS ! Suc k) - PACKET_OVERHEAD \<le> (65511 :: u32)"
proof -
  assume "k \<le> 8"
  then have "k \<in> {0, 1, 2, 3, 4, 5, 6, 7, 8}" by auto
  then show ?thesis by (auto simp: PACKET_MAXIMUMS_def ptcp_sizes)
qed

lemma lower_mss_ok:
  "m_msslevel s \<le> 9 \<Longrightarrow> m_mss s \<le> 65511 \<Longrightarrow>
   \<exists>r n' s'. lower_mss n s = Some (r, n', s') \<and> inner s s' \<and> (r \<longrightarrow> n' < n \<and> 180 \<le> n' \<and> n' \<le> 65511)"
proof (induction n s rule: lower_mss.induct)
  case (1 n s)
  have len: "length PACKET_MAXIMUMS = 11" by (simp add: PACKET_MAXIMUMS_def)
  show ?case
  proof (cases "m_msslevel s \<le> 8")
    case False
    then have "m_msslevel s = 9" using 1(2) by simp
    then have "lower_mss n s = Some (False, n, s)" by (simp add: lower_mss.simps[of n s] PACKET_MAXIMUMS_def)
    then show ?thesis by (intro exI[of _ False] exI[of _ n] exI[of _ s]) simp
  next
    case True
    note st = sizes_step[OF True]
    have ge: "\<not> length PACKET_MAXIMUMS \<le> m_msslevel s + 1" using True len by simp
    have nx: "m_mss (next_mss s) = ucast (PACKET_MAXIMUMS ! Suc (m_msslevel s)) - PACKET_OVERHEAD"
      by (simp add: next_mss_def Let_def)
    have i: "inner s (next_mss s)" using st True nx
      by (auto simp: inner_def core_def next_mss_def Let_def mss_ok_def intro: sends_buffer_quiet)
    have u: "lower_mss n s = (if m_mss (next_mss s) < n then Some (True, m_mss (next_mss s), next_mss s) else lower_mss n (next_mss s))"
      using ge st by (subst lower_mss.simps) (simp add: Let_def)
    show ?thesis
    proof (cases "m_mss (next_mss s) < n")
      case True
      then show ?thesis using u i st nx by (intro exI[of _ True] exI[of _ "m_mss (next_mss s)"] exI[of _ "next_mss s"]) simp
    next
      case False
      have "\<exists>r n' s'. lower_mss n (next_mss s) = Some (r, n', s') \<and> inner (next_mss s) s' \<and> (r \<longrightarrow> n' < n \<and> 180 \<le> n' \<and> n' \<le> 65511)"
        by (rule 1(1)[OF ge _ refl False]) (use True st nx in simp_all)
      then show ?thesis using u False inner_trans[OF i] by auto
    qed
  qed
qed

text \<open>The outer loop: the size that was accepted is at most what was tried, and not zero.\<close>

lemma transmit_loop_ok:
  assumes "fifo_inv (m_sbuf s)" "mss_ok s" "unat (s_seq seg - m_snd_una s) + unat n \<le> GetBuffered (m_sbuf s)" "unat n \<le> 65511"
  shows "\<exists>r n' s'. transmit_loop E seg n s = Some (r, n', s') \<and> inner s s' \<and> (r \<longrightarrow> unat n' \<le> unat n \<and> (n \<noteq> 0 \<longrightarrow> n' \<noteq> 0))"
  using assms
proof (induction E seg n s rule: transmit_loop.induct)
  case (1 E seg n s)
  let ?fl = "if s_bCtrl seg then FLAG_CTL else 0" and ?off = "s_seq seg - m_snd_una s"
  obtain wres s1 where p: "packet E (s_seq seg) ?fl ?off n s = Some (wres, s1)" "inner s s1" "n = 0 \<Longrightarrow> wres = WR_SUCCESS"
    by (rule packet_ok[of s n ?off "s_seq seg" E ?fl]) (use 1(2,4,5) in auto)
  have m1: "mss_ok s1" and c1: "core s1 = core s" using p(2) 1(3) by (auto simp: inner_def)
  note u = transmit_loop.simps[of E seg n s, unfolded p(1)]
  show ?case
  proof (cases "wres = WR_TOO_LARGE")
    case False
    then have "transmit_loop E seg n s = Some (wres = WR_SUCCESS, n, s1)" using u by (cases wres) simp_all
    then show ?thesis using p(2) by simp
  next
    case True
    obtain low n2 s2 where l: "lower_mss n s1 = Some (low, n2, s2)" "inner s1 s2" "low \<Longrightarrow> n2 < n \<and> 180 \<le> n2 \<and> n2 \<le> 65511"
      using lower_mss_ok[of s1 n] m1 by (auto simp: mss_ok_def)
    have i2: "inner s s2" by (rule inner_trans[OF p(2) l(2)])
    show ?thesis
    proof (cases low)
      case low: False
      then have "transmit_loop E seg n s = Some (False, n2, s2)" using u l True by simp
      then show ?thesis using i2 by (intro exI[of _ False] exI[of _ n2] exI[of _ s2]) simp
    next
      case low: True
      then have eq: "transmit_loop E seg n s = transmit_loop E seg n2 s2" using u l True by simp
      have n2: "unat n2 < unat n" "n2 \<noteq> 0" "unat n2 \<le> 65511" using l(3)[OF low] by (auto simp: word_less_nat_alt word_le_nat_alt)
      have c2: "m_sbuf s2 = m_sbuf s" "m_snd_una s2 = m_snd_una s" using core_D[of s2 s] i2 by (auto simp: inner_def)
      have "\<exists>r n' s'. transmit_loop E seg n2 s2 = Some (r, n', s') \<and> inner s2 s' \<and> (r \<longrightarrow> unat n' \<le> unat n2 \<and> (n2 \<noteq> 0 \<longrightarrow> n' \<noteq> 0))"
      proof (rule 1(1)[OF p(1) refl _ _ l(1) refl refl low])
        show "wres \<noteq> WR_SUCCESS" "wres \<noteq> WR_FAIL" using True by simp_all
        show "mss_ok s2" using i2 1(3) by (simp add: inner_def)
      qed (use 1(2,4) c2 n2 in simp_all)
      then obtain r n' s' where "transmit_loop E seg n2 s2 = Some (r, n', s')" "inner s2 s'" "r \<longrightarrow> unat n' \<le> unat n2 \<and> n' \<noteq> 0"
        using n2(2) by auto
      then show ?thesis using eq inner_trans[OF i2] n2(1) by fastforce
    qed
  qed
qed

section \<open>Transmitting a segment\<close>

lemma send_invI:
  assumes "fifo_open (m_sbuf s)" "buffer_length (m_sbuf s) < 2 ^ 32" "mss_ok s" "m_slist s = S @ U"
    "\<forall>x\<in>set S. s_xmit x > 0" "\<forall>x\<in>set U. s_xmit x = 0" "\<forall>x\<in>set S. s_xmit x \<le> 30" "chain (m_snd_una s) (S @ U)"
    "seg_bytes (S @ U) = GetBuffered (m_sbuf s)" "m_snd_nxt s = m_snd_una s + of_nat (seg_bytes S)"
  shows "send_inv s \<and> in_flight s = seg_bytes S \<and> unsent_part (m_slist s) = U \<and> sent_part (m_slist s) = S"
  using assms parts_append[OF assms(5,6)] by (auto simp: send_inv_def in_flight_def sent_first_def)

lemma send_invE:
  assumes "send_inv s"
  obtains S U where "m_slist s = S @ U" "\<forall>x\<in>set S. s_xmit x > 0 \<and> s_xmit x \<le> 30" "\<forall>x\<in>set U. s_xmit x = 0"
    "sent_part (m_slist s) = S" "unsent_part (m_slist s) = U" "m_snd_nxt s = m_snd_una s + of_nat (seg_bytes S)"
proof
  let ?S = "sent_part (m_slist s)" and ?U = "unsent_part (m_slist s)"
  have sp: "?S @ ?U = m_slist s" by (rule sent_unsent)
  then show "m_slist s = ?S @ ?U" by simp
  have "set ?S \<subseteq> set (m_slist s)" by (metis sp Un_upper1 set_append)
  then show "\<forall>x\<in>set ?S. s_xmit x > 0 \<and> s_xmit x \<le> 30"
    using assms by (auto simp: send_inv_def sent_first_def dest: sent_part_sent)
  show "\<forall>x\<in>set ?U. s_xmit x = 0" "m_snd_nxt s = m_snd_una s + of_nat (seg_bytes ?S)"
    using assms by (auto simp: send_inv_def sent_first_def)
qed auto

text \<open>Cutting a segment in two keeps the list consecutive.\<close>

definition cut_seg :: "SSegment \<Rightarrow> u32 \<Rightarrow> u8 \<Rightarrow> u8 \<Rightarrow> SSegment list" where
  "cut_seg x n c d = x\<lparr>s_len := n, s_xmit := c\<rparr> #
     (if n < s_len x then [\<lparr>s_seq = s_seq x + n, s_len = s_len x - n, s_xmit = d, s_bCtrl = s_bCtrl x\<rparr>] else [])"

lemma cut_seg_ok:
  assumes "n \<le> s_len x"
  shows "seg_bytes (cut_seg x n c d) = unat (s_len x)" "chain a (cut_seg x n c d @ ys) \<longleftrightarrow> chain a (x # ys)"
proof -
  have "n < s_len x \<Longrightarrow> unat n + unat (s_len x - n) = unat (s_len x)"
    using unat_sub_u32[of n "s_len x"] by (auto simp: word_less_nat_alt word_le_nat_alt)
  then show "seg_bytes (cut_seg x n c d) = unat (s_len x)" using assms by (auto simp: cut_seg_def)
  show "chain a (cut_seg x n c d @ ys) \<longleftrightarrow> chain a (x # ys)"
  proof (cases "n < s_len x")
    case False
    then have "n = s_len x" using assms by simp
    then show ?thesis by (simp add: cut_seg_def)
  qed (simp add: cut_seg_def)
qed

lemma cut_seg_xmit: "list_all (\<lambda>y. s_xmit y = c \<or> s_xmit y = d) (cut_seg x n c d)"
  by (simp add: cut_seg_def)

text \<open>The segment at an index, with its place in the buffer.\<close>

lemma send_inv_at:
  assumes "send_inv s" "m_slist s = A @ x # B"
  shows "s_seq x = m_snd_una s + of_nat (seg_bytes A)" "unat (s_seq x - m_snd_una s) = seg_bytes A"
    "seg_bytes A + unat (s_len x) \<le> GetBuffered (m_sbuf s)"
proof -
  have c: "chain (m_snd_una s) (A @ x # B)" and b: "seg_bytes (A @ x # B) = GetBuffered (m_sbuf s)"
    using assms(1) unfolding send_inv_def assms(2) by blast+
  show q: "s_seq x = m_snd_una s + of_nat (seg_bytes A)" using c by (simp add: chain_append)
  show le: "seg_bytes A + unat (s_len x) \<le> GetBuffered (m_sbuf s)" using b by simp
  have "seg_bytes A < 2 ^ 32" using send_inv_bytes(1)[OF assms(1)] unfolding assms(2) by simp
  then show "unat (s_seq x - m_snd_una s) = seg_bytes A" unfolding q by (simp add: unat_of_nat_u32)
qed

lemma transmit_eq:
  assumes "m_slist s = A @ x # B" "length A = i" "\<not> s_xmit x \<ge> (if m_state s = TCP_ESTABLISHED then 15 else 30)"
    "transmit_loop E x (min (s_len x) (m_mss s)) s = Some (sent, n, s1)" "m_slist s1 = m_slist s" "n \<le> s_len x"
  shows "transmit E i now s =
    Some (if sent then
      (True, s1\<lparr>m_slist := A @ cut_seg x n (s_xmit x + 1) (s_xmit x) @ B,
                m_snd_nxt := (if s_xmit x = 0 then m_snd_nxt s1 + n else m_snd_nxt s1),
                m_rto_base := (if m_rto_base s1 = 0 then now else m_rto_base s1)\<rparr>)
      else (False, s1))"
proof -
  have i: "i < length (m_slist s)" "m_slist s ! i = x" "take i (m_slist s) = A" "drop (Suc i) (m_slist s) = B"
    using assms(1,2) by (auto simp: nth_append)
  have ne: "\<not> n < s_len x \<Longrightarrow> n = s_len x" using assms(6) by simp
  show ?thesis
    using i assms ne by (auto simp: transmit_def Let_def cut_seg_def list_update_append nth_append)
qed

text \<open>How much is left to send: every round of \<^verbatim>\<open>attemptSend\<close> lowers it.\<close>

definition to_send :: "PseudoTcp \<Rightarrow> nat" where
  "to_send s = 2 * seg_bytes (unsent_part (m_slist s)) + length (unsent_part (m_slist s))"

lemma transmit_ok:
  assumes inv: "send_inv s" and i: "i < length (m_slist s)" "i \<le> length (sent_part (m_slist s))"
  shows "\<exists>r s'. transmit E i now s = Some (r, s') \<and> send_inv s' \<and> sends_buffer s s' \<and>
    m_sbuf s' = m_sbuf s \<and> m_snd_una s' = m_snd_una s \<and> m_snd_wnd s' = m_snd_wnd s \<and>
    (if r \<and> i = length (sent_part (m_slist s))
     then in_flight s' \<le> in_flight s + unat (s_len (m_slist s ! i)) \<and> 
      (m_mss s \<noteq> 0 \<longrightarrow> to_send s' + (if s_len (m_slist s ! i) = 0 then 1 else 2) \<le> to_send s)
     else in_flight s' = in_flight s)"
proof -
  obtain S U where SU: "m_slist s = S @ U" "\<forall>x\<in>set S. s_xmit x > 0 \<and> s_xmit x \<le> 30" "\<forall>x\<in>set U. s_xmit x = 0"
    "sent_part (m_slist s) = S" "unsent_part (m_slist s) = U" "m_snd_nxt s = m_snd_una s + of_nat (seg_bytes S)"
    using inv by (rule send_invE) blast
  define A where "A = take i (m_slist s)"
  define x where "x = m_slist s ! i"
  define B where "B = drop (Suc i) (m_slist s)"
  have ABx: "m_slist s = A @ x # B" "length A = i" using i(1) by (simp_all add: A_def x_def B_def id_take_nth_drop)
  have len: "seg_bytes A + unat (s_len x) \<le> GetBuffered (m_sbuf s)" "unat (s_seq x - m_snd_una s) = seg_bytes A"
    using send_inv_at[OF inv ABx(1)] by auto
  have fi: "fifo_open (m_sbuf s)" "fifo_inv (m_sbuf s)" "buffer_length (m_sbuf s) < 2 ^ 32" "mss_ok s"
      "chain (m_snd_una s) (m_slist s)" "seg_bytes (m_slist s) = GetBuffered (m_sbuf s)"
    using inv by (simp_all add: send_inv_def fifo_open_def)
  show ?thesis
  proof (cases "s_xmit x \<ge> (if m_state s = TCP_ESTABLISHED then 15 else 30)")
    case True
    then have "transmit E i now s = Some (False, s)" using i(1) by (simp add: transmit_def x_def)
    then show ?thesis using inv by (intro exI[of _ False] exI[of _ s]) (simp add: sends_buffer_quiet)
  next
    case False
    let ?n = "min (s_len x) (m_mss s)"
    have n: "unat ?n \<le> unat (s_len x)" "unat ?n \<le> 65511"
      using fi(4) by (auto simp: mss_ok_def min_def word_le_nat_alt)
    obtain r n' s1 where l: "transmit_loop E x ?n s = Some (r, n', s1)" "inner s s1" "r \<Longrightarrow> unat n' \<le> unat ?n \<and> (?n \<noteq> 0 \<longrightarrow> n' \<noteq> 0)"
      using transmit_loop_ok[OF fi(2,4), of x ?n E] len n by auto
    have c1: "core s1 = core s" "mss_ok s1" "sends_buffer s s1" using l(2) fi(4) by (auto simp: inner_def)
    note d1 = core_D[OF c1(1)]
    show ?thesis
    proof (cases r)
      case r: False
      have "transmit E i now s = Some (False, s1)"
        using i(1) False l(1) r by (simp add: transmit_def x_def[symmetric])
      then show ?thesis using send_inv_core[OF c1(1,2) inv] c1 d1
        by (intro exI[of _ False] exI[of _ s1]) (simp add: in_flight_def)
    next
      case r: True
      have n': "n' \<le> s_len x" "s_len x \<noteq> 0 \<and> m_mss s \<noteq> 0 \<longrightarrow> n' \<noteq> 0"
        using l(3)[OF r] n by (auto simp: word_le_nat_alt min_def split: if_splits)
      have xm: "s_xmit x + 1 > 0 \<and> s_xmit x + 1 \<le> 30"
        using False by (auto simp: word_less_nat_alt word_le_nat_alt unat_word_ariths split: if_splits)
      define L where "L = cut_seg x n' (s_xmit x + 1) (s_xmit x)"
      define s' where "s' = s1\<lparr>m_slist := A @ L @ B,
                m_snd_nxt := (if s_xmit x = 0 then m_snd_nxt s1 + n' else m_snd_nxt s1),
                m_rto_base := (if m_rto_base s1 = 0 then now else m_rto_base s1)\<rparr>"
      have t: "transmit E i now s = Some (True, s')"
        using transmit_eq[OF ABx False l(1) d1(1) n'(1)] r by (simp add: s'_def L_def)
      note cl = cut_seg_ok[OF n'(1), where c = "s_xmit x + 1" and d = "s_xmit x"]
      have s': "m_sbuf s' = m_sbuf s" "m_snd_una s' = m_snd_una s" "m_snd_wnd s' = m_snd_wnd s" "mss_ok s'"
          "sends_buffer s s'" "m_slist s' = A @ L @ B"
          "m_snd_nxt s' = (if s_xmit x = 0 then m_snd_nxt s + n' else m_snd_nxt s)"
        using d1 c1(2,3) by (simp_all add: s'_def mss_ok_def sends_buffer_def)
      have cb: "chain (m_snd_una s) (A @ L @ B)" "seg_bytes (A @ L @ B) = GetBuffered (m_sbuf s)"
        using fi(5,6) unfolding L_def ABx(1) chain_append[of _ A] cl(2) by (simp_all add: cl(1))
      show ?thesis
      proof (cases "i < length S")
        case True
        obtain S2 where S2: "S = A @ x # S2" "B = S2 @ U"
          using True SU(1) by (intro that[of "drop (Suc i) S"]) (auto simp: A_def x_def B_def nth_append id_take_nth_drop)
        then have x0: "s_xmit x > 0" using SU(2) by simp
        have "\<forall>y\<in>set (A @ L @ S2). s_xmit y > 0 \<and> s_xmit y \<le> 30"
          using SU(2) xm x0 unfolding S2(1) L_def using cut_seg_xmit[where x = x and n = n' and c = "s_xmit x + 1" and d = "s_xmit x"] by (auto simp: list_all_iff)
        moreover have "s_xmit x \<noteq> 0" using x0 by simp
        ultimately have "send_inv s' \<and> in_flight s' = seg_bytes (A @ L @ S2) \<and> unsent_part (m_slist s') = U \<and> sent_part (m_slist s') = A @ L @ S2"
          using s' cb fi SU(3,6) S2 cl(1) by (intro send_invI; simp add: L_def)
        moreover have "seg_bytes (A @ L @ S2) = in_flight s"
          unfolding in_flight_def SU(4) S2(1) L_def using cl(1) by simp
        ultimately show ?thesis using t s' True SU(4) by auto
      next
        case False
        then have iS: "i = length S" using i(2) SU(4) by simp
        then have SA: "A = S" "U = x # B" using SU(1) ABx by simp_all
        have x0: "s_xmit x = 0" using SU(3) SA(2) by simp
        define R where "R = (if n' < s_len x then [\<lparr>s_seq = s_seq x + n', s_len = s_len x - n', s_xmit = 0, s_bCtrl = s_bCtrl x\<rparr>] else [])"
        define x1 where "x1 = x\<lparr>s_len := n', s_xmit := 1\<rparr>"
        have L: "L = x1 # R" by (simp add: L_def cut_seg_def x0 R_def x1_def)
        have "list_all (\<lambda>y. s_xmit y = 0) R" by (simp add: R_def)
        then have x1: "s_xmit x1 = 1" "s_len x1 = n'" "\<forall>y\<in>set R. s_xmit y = 0" by (simp_all add: x1_def list_all_iff)
        have "send_inv s' \<and> in_flight s' = seg_bytes (S @ [x1]) \<and> unsent_part (m_slist s') = R @ B \<and> sent_part (m_slist s') = S @ [x1]"
          using s' cb fi SU SA x1 by (intro send_invI; simp add: L x0 add.assoc ball_Un)
        then have inv': "send_inv s'" "in_flight s' = seg_bytes (S @ [x1])" "unsent_part (m_slist s') = R @ B" by auto
        have "in_flight s' \<le> in_flight s + unat (s_len x)"
          using n'(1) inv'(2) x1(2) SU(4) by (simp add: in_flight_def[of s] word_le_nat_alt)
        moreover have "m_mss s \<noteq> 0 \<longrightarrow> 2 * seg_bytes R + length R + (if s_len x = 0 then 1 else 2) \<le> 2 * unat (s_len x) + 1"
        proof (cases "n' < s_len x")
          case True
          then have "s_len x \<noteq> 0" "unat n' < unat (s_len x)" by (auto simp: word_less_nat_alt)
          then have "m_mss s \<noteq> 0 \<longrightarrow> 0 < unat n'" using n'(2) by (simp add: unat_gt_0)
          moreover have "seg_bytes R = unat (s_len x) - unat n'" "length R = 1"
            using True unat_sub_u32[of n' "s_len x"] n'(1) by (simp_all add: R_def)
          ultimately show ?thesis using \<open>unat n' < unat (s_len x)\<close> \<open>s_len x \<noteq> 0\<close> by auto
        next
          case False
          have "s_len x \<noteq> 0 \<Longrightarrow> unat (s_len x) > 0" by (simp add: unat_gt_0)
          then show ?thesis using False by (auto simp: R_def)
        qed
        then have "m_mss s \<noteq> 0 \<longrightarrow> to_send s' + (if s_len x = 0 then 1 else 2) \<le> to_send s"
          unfolding to_send_def inv'(3) SU(5) SA(2) by (auto split: if_split_asm)
        ultimately show ?thesis unfolding x_def[symmetric] using t s' inv'(1) iS SU(4)
          by (intro exI[of _ True] exI[of _ s']) simp
      qed
    qed
  qed
qed

section \<open>Sending what the window allows\<close>

lemma split_segment_ok:
  assumes inv: "send_inv s" and u: "unsent_part (m_slist s) = x # B" and n: "n \<noteq> 0"
  defines "i \<equiv> length (sent_part (m_slist s))"
  defines "s' \<equiv> split_segment i n s"
  shows "send_inv s' \<and> sends_buffer s s' \<and> m_sbuf s' = m_sbuf s \<and> m_snd_una s' = m_snd_una s \<and> m_snd_wnd s' = m_snd_wnd s \<and>
    m_mss s' = m_mss s \<and> sent_part (m_slist s') = sent_part (m_slist s) \<and> i < length (m_slist s') \<and>
    unat (s_len (m_slist s' ! i)) \<le> unat n \<and>
    to_send s' \<le> to_send s + (if s_len (m_slist s' ! i) = 0 then 0 else 1)"
proof -
  obtain S U where SU: "m_slist s = S @ U" "\<forall>x\<in>set S. s_xmit x > 0 \<and> s_xmit x \<le> 30" "\<forall>x\<in>set U. s_xmit x = 0"
    "sent_part (m_slist s) = S" "unsent_part (m_slist s) = U" "m_snd_nxt s = m_snd_una s + of_nat (seg_bytes S)"
    using inv by (rule send_invE) blast
  have U: "U = x # B" using SU(5) u by simp
  have x0: "s_xmit x = 0" using SU(3) U by simp
  have nth: "m_slist s ! i = x" "i < length (m_slist s)" "take i (m_slist s) = S" "drop (Suc i) (m_slist s) = B"
    using SU(1,4) U by (simp_all add: i_def nth_append)
  have fi: "fifo_open (m_sbuf s)" "buffer_length (m_sbuf s) < 2 ^ 32" "mss_ok s"
      "chain (m_snd_una s) (S @ x # B)" "seg_bytes (S @ x # B) = GetBuffered (m_sbuf s)"
    using inv SU(1) U by (simp_all add: send_inv_def)
  show ?thesis
  proof (cases "n < s_len x")
    case False
    then have "s' = s" using nth(1) by (simp add: s'_def split_segment_def Let_def)
    then show ?thesis using inv False nth by (simp add: sends_buffer_quiet word_less_nat_alt i_def)
  next
    case True
    define x1 where "x1 = x\<lparr>s_len := n\<rparr>"
    define x2 where "x2 = \<lparr>s_seq = s_seq x + n, s_len = s_len x - n, s_xmit = 0, s_bCtrl = s_bCtrl x\<rparr>"
    have s': "s' = s\<lparr>m_slist := S @ x1 # x2 # B\<rparr>"
      using True nth by (simp add: s'_def split_segment_def Let_def x1_def x2_def)
    have l: "s_xmit x1 = 0" "s_xmit x2 = 0" "unat (s_len x1) + unat (s_len x2) = unat (s_len x)"
        "s_seq x1 = s_seq x" "s_seq x2 = s_seq x + n" "s_len x1 = n" "n + s_len x2 = s_len x"
      using True x0 unat_sub_u32[of n "s_len x"] by (auto simp: x1_def x2_def word_less_nat_alt word_le_nat_alt)
    have "send_inv s' \<and> in_flight s' = seg_bytes S \<and> unsent_part (m_slist s') = x1 # x2 # B \<and> sent_part (m_slist s') = S"
      using fi SU U l by (intro send_invI; simp add: s' mss_ok_def chain_append add.assoc)
    moreover have "to_send s' \<le> to_send s + 1"
      using calculation l(3) unfolding to_send_def SU(5) U by simp
    moreover have "m_slist s' ! i = x1" "i < length (m_slist s')" using SU(4) by (simp_all add: s' i_def)
    ultimately show ?thesis using l n SU(4) by (auto simp: s' sends_buffer_quiet)
  qed
qed

lemma available_ok:
  assumes inv: "send_inv s" and a: "available_to_send s \<noteq> 0"
  shows "unat (available_to_send s) \<le> seg_bytes (unsent_part (m_slist s))"
    "in_flight s + unat (available_to_send s) \<le> unat (m_snd_wnd s)" "m_mss s \<noteq> 0"
proof -
  note b = send_inv_bytes[OF inv]
  define w where "w = min (m_snd_wnd s) (congestion_window s)"
  define f where "f = m_snd_nxt s - m_snd_una s"
  define u where "u = (if f < w then w - f else 0)"
  define q :: u32 where "q = of_nat (GetBuffered (m_sbuf s)) - f"
  have f: "unat f = in_flight s" using b(3) by (simp add: f_def GetBytesInFlight_def)
  have g: "GetBuffered (m_sbuf s) < 2 ^ 32" using inv b(1) by (simp add: send_inv_def)
  then have "unat (of_nat (GetBuffered (m_sbuf s)) :: u32) = GetBuffered (m_sbuf s)" by (rule unat_of_nat_u32)
  then have q: "unat q = seg_bytes (unsent_part (m_slist s))"
    using b(2) f unat_sub_u32[of f "of_nat (GetBuffered (m_sbuf s))"] by (simp add: q_def word_le_nat_alt)
  have av: "available_to_send s = (if min q (m_mss s) > u then (if u * 4 < w then 0 else u) else min q (m_mss s))"
    unfolding available_to_send_def Let_def w_def f_def u_def q_def by (rule refl)
  then have le: "available_to_send s \<le> q" "available_to_send s \<le> m_mss s" "available_to_send s \<le> u"
    by (auto simp: min_def split: if_splits)
  show "unat (available_to_send s) \<le> seg_bytes (unsent_part (m_slist s))" using le(1) q by (simp add: word_le_nat_alt)
  show "m_mss s \<noteq> 0" using le(2) a by (auto simp: word_le_nat_alt word_unat_eq_iff)
  have "u \<noteq> 0" using le(3) a by (auto simp: word_le_nat_alt word_unat_eq_iff)
  then have "f < w" "u = w - f" by (auto simp: u_def split: if_splits)
  then have "unat f + unat u = unat w" using unat_sub_u32[of f w] by (auto simp: word_le_nat_alt word_less_nat_alt)
  moreover have "unat w \<le> unat (m_snd_wnd s)" by (simp add: w_def min_def word_le_nat_alt)
  ultimately show "in_flight s + unat (available_to_send s) \<le> unat (m_snd_wnd s)" using le(3) f by (simp add: word_le_nat_alt)
qed

text \<open>What a step of sending keeps, and what it may add to what is in flight.\<close>

definition send_step :: "PseudoTcp \<Rightarrow> PseudoTcp \<Rightarrow> bool" where
  "send_step s s' \<longleftrightarrow>
     send_inv s' \<and> sends_buffer s s' \<and> m_sbuf s' = m_sbuf s \<and> m_snd_una s' = m_snd_una s \<and> m_snd_wnd s' = m_snd_wnd s \<and>
     in_flight s' \<le> max (in_flight s) (unat (m_snd_wnd s))"

lemma send_step_refl: "send_inv s \<Longrightarrow> send_step s s"
  by (simp add: send_step_def sends_buffer_quiet)

lemma send_step_trans: "send_step a b \<Longrightarrow> send_step b c \<Longrightarrow> send_step a c"
  unfolding send_step_def using sends_buffer_trans[of a b c] by auto

lemma inner_send_step: "send_inv s \<Longrightarrow> inner s s' \<Longrightarrow> send_step s s'"
  using send_inv_core[of s' s] core_D[of s' s]
  by (auto simp: send_step_def inner_def send_inv_def in_flight_def)

lemma attemptSend_round_ok:
  assumes inv: "send_inv s"
  shows "\<exists>r. attemptSend_round E now f s = Some r \<and>
    (case r of Inl s' \<Rightarrow> send_step s s' | Inr s' \<Rightarrow> send_step s s' \<and> to_send s' < to_send s)"
proof (cases "available_to_send s = 0")
  case True
  have fi: "fifo_inv (m_sbuf s)" using inv by (simp add: send_inv_def fifo_open_def)
  obtain r s1 where p: "packet E (m_snd_nxt s) 0 0 0 s = Some (r, s1)" "inner s s1"
    by (rule packet_ok[OF fi, of 0 0 "m_snd_nxt s" E 0]) auto
  have t: "inner s (s\<lparr>t_nows := n, m_t_ack := x\<rparr>)" for n x
    by (simp add: inner_def core_def mss_ok_def sends_buffer_quiet)
  show ?thesis using True p t send_step_refl[OF inv] inner_send_step[OF inv]
    by (simp add: attemptSend_round_def Now_def)
next
  case False
  note av = available_ok[OF inv False]
  show ?thesis
  proof (cases "m_use_nagling s \<and> m_snd_nxt s > m_snd_una s \<and> available_to_send s < m_mss s")
    case True
    then show ?thesis using False send_step_refl[OF inv] by (simp add: attemptSend_round_def)
  next
    case nagle: False
    let ?i = "length (sent_part (m_slist s))"
    have "unat (available_to_send s) \<noteq> 0" using False by (simp add: word_unat_eq_iff)
    then have "unsent_part (m_slist s) \<noteq> []" using av(1) by auto
    then obtain x B where u: "unsent_part (m_slist s) = x # B" by (cases "unsent_part (m_slist s)") auto
    then have n: "next_segment (m_slist s) = Some ?i" by (simp add: next_segment_spec)
    define s1 where "s1 = split_segment ?i (available_to_send s) s"
    note sp = split_segment_ok[OF inv u False, folded s1_def]
    obtain r s2 where t: "transmit E ?i now s1 = Some (r, s2)" "send_inv s2" "sends_buffer s1 s2" "m_sbuf s2 = m_sbuf s1"
        "m_snd_una s2 = m_snd_una s1" "m_snd_wnd s2 = m_snd_wnd s1"
        "if r then in_flight s2 \<le> in_flight s1 + unat (s_len (m_slist s1 ! ?i)) \<and>
            (m_mss s1 \<noteq> 0 \<longrightarrow> to_send s2 + (if s_len (m_slist s1 ! ?i) = 0 then 1 else 2) \<le> to_send s1)
         else in_flight s2 = in_flight s1"
      using transmit_ok[of s1 ?i E now] sp by auto
    have "in_flight s1 = in_flight s" using sp by (simp add: in_flight_def)
    moreover have "in_flight s + unat (s_len (m_slist s1 ! ?i)) \<le> unat (m_snd_wnd s)" using sp av(2) by linarith
    ultimately have "in_flight s2 \<le> max (in_flight s) (unat (m_snd_wnd s))" using t(7) by (auto split: if_splits)
    then have st: "send_step s s2"
      using t sp sends_buffer_trans[of s s1 s2] by (simp add: send_step_def)
    moreover have "r \<Longrightarrow> to_send s2 < to_send s" using t(7) sp av(3) by (auto split: if_splits)
    moreover have "attemptSend_round E now f s = Some (if r then Inr s2 else Inl s2)"
      unfolding attemptSend_round_def Let_def if_not_P[OF False] if_not_P[OF nagle] n by (simp add: t(1)[unfolded s1_def])
    ultimately show ?thesis by (cases r) simp_all
  qed
qed

lemma attemptSend_loop_ok: "send_inv s \<Longrightarrow> \<exists>s'. attemptSend_loop E now f s = Some s' \<and> send_step s s'"
proof (induction "to_send s" arbitrary: s f rule: less_induct)
  case less
  obtain r where r: "attemptSend_round E now f s = Some r"
      "case r of Inl s' \<Rightarrow> send_step s s' | Inr s' \<Rightarrow> send_step s s' \<and> to_send s' < to_send s"
    using attemptSend_round_ok[OF less(2)] by blast
  show ?case
  proof (cases r)
    case (Inl s')
    then show ?thesis using r by (simp add: attemptSend_loop.simps[of E now f s])
  next
    case (Inr s')
    then have s': "send_step s s'" "to_send s' < to_send s" using r(2) by auto
    then obtain s2 where "attemptSend_loop E now sfNone s' = Some s2" "send_step s' s2"
      using less(1)[OF s'(2), of sfNone] by (auto simp: send_step_def)
    then show ?thesis using r(1) Inr send_step_trans[OF s'(1)] by (auto simp: attemptSend_loop.simps[of E now f s])
  qed
qed

lemma attemptSend_ok:
  assumes "send_inv s"
  shows "\<exists>s'. attemptSend E f s = Some s' \<and> send_step s s'"
proof -
  define s0 where "s0 = (snd (Now E s))\<lparr>m_cwnd := (if TimeDiff (fst (Now E s)) (m_lastsend s) > uint (m_rx_rto s) then m_mss s else m_cwnd s)\<rparr>"
  have "inner s s0" by (simp add: s0_def Now_def inner_def core_def mss_ok_def sends_buffer_quiet)
  then have 0: "send_step s s0" by (rule inner_send_step[OF assms])
  moreover have "attemptSend E f s = attemptSend_loop E (e_now E (t_nows s)) f s0"
    by (simp add: attemptSend_def Now_def Let_def s0_def)
  moreover have "send_inv s0" using 0 by (simp add: send_step_def)
  ultimately show ?thesis using attemptSend_loop_ok send_step_trans by metis
qed

section \<open>Queueing\<close>

lemma FifoWrite_open:
  assumes "fifo_open f" "n \<le> length d" "n \<le> GetWriteRemaining f"
  obtains r f' where "FifoWrite f d n = (r, n, f')" "fifo_open f'" "queue f' = queue f @ take n d"
    "buffer_length f' = buffer_length f" "GetBuffered f' = GetBuffered f + n"
proof (cases "f_data_length f < buffer_length f")
  case True
  then show ?thesis
    using FifoWrite_queue[of f n d] assms that by (fastforce simp: fifo_open_def GetWriteRemaining_def GetBuffered_def)
next
  case False
  then have "f_data_length f = buffer_length f" "n = 0"
    using assms by (auto simp: fifo_open_def fifo_inv_def GetWriteRemaining_def)
  then show ?thesis using that[of SR_BLOCK f] assms(1) FifoWrite_full[of f d 0] by simp
qed

text \<open>The segment list after queueing \<open>n\<close> bytes.\<close>

definition queue_segment :: "SSegment list \<Rightarrow> u32 \<Rightarrow> u32 \<Rightarrow> bool \<Rightarrow> SSegment list" where
  "queue_segment xs seq n c =
     (if xs \<noteq> [] \<and> s_bCtrl (last xs) = c \<and> s_xmit (last xs) = 0
      then butlast xs @ [(last xs)\<lparr>s_len := s_len (last xs) + n\<rparr>]
      else xs @ [\<lparr>s_seq = seq, s_len = n, s_xmit = 0, s_bCtrl = c\<rparr>])"

lemma queue_segment_ok:
  assumes "\<forall>x\<in>set S. s_xmit x > 0" "\<forall>x\<in>set U. s_xmit x = 0" "chain a (S @ U)"
    "seg_bytes (S @ U) + unat n < 2 ^ 32" "seq = a + of_nat (seg_bytes (S @ U))"
  obtains U' where "queue_segment (S @ U) seq n c = S @ U'" "\<forall>x\<in>set U'. s_xmit x = 0" "chain a (S @ U')"
    "seg_bytes (S @ U') = seg_bytes (S @ U) + unat n"
proof (cases "S @ U \<noteq> [] \<and> s_bCtrl (last (S @ U)) = c \<and> s_xmit (last (S @ U)) = 0")
  case False
  define y where "y = \<lparr>s_seq = seq, s_len = n, s_xmit = 0, s_bCtrl = c\<rparr>"
  have y: "s_seq y = seq" "s_len y = n" "s_xmit y = 0" by (simp_all add: y_def)
  have "queue_segment (S @ U) seq n c = S @ U @ [y]"
    unfolding queue_segment_def if_not_P[OF False] by (simp add: y_def)
  then show ?thesis using assms y by (intro that[of "U @ [y]"]) (simp_all add: chain_append add.assoc ball_Un)
next
  case True
  have "U \<noteq> []"
  proof
    assume "U = []"
    then have "last S \<in> set S" "s_xmit (last S) = 0" using True by auto
    then show False using assms(1) by force
  qed
  then obtain V l where U: "U = V @ [l]" by (cases U rule: rev_cases) auto
  define y where "y = l\<lparr>s_len := s_len l + n\<rparr>"
  have y: "s_seq y = s_seq l" "s_len y = s_len l + n" "s_xmit y = s_xmit l" by (simp_all add: y_def)
  have "unat (s_len l) + unat n < 2 ^ 32" using assms(4) U by simp
  then have l: "unat (s_len y) = unat (s_len l) + unat n" by (simp add: y(2) unat_add_lem[THEN iffD1])
  have "queue_segment (S @ U) seq n c = S @ V @ [y]"
    using True unfolding U queue_segment_def by (simp add: y_def butlast_append)
  then show ?thesis using assms l y U by (intro that[of "V @ [y]"]) (simp_all add: chain_append ball_Un)
qed

lemma ptcp_queue_ok:
  assumes inv: "send_inv s" and d: "length d < 2 ^ 32"
  defines "n \<equiv> min (length d) (GetWriteRemaining (m_sbuf s))"
  obtains s' where "ptcp_queue d c s = (of_nat n, s')" "send_inv s'" "queue (m_sbuf s') = queue (m_sbuf s) @ take n d"
    "m_snd_una s' = m_snd_una s" "m_snd_wnd s' = m_snd_wnd s" "in_flight s' = in_flight s" "t_log s' = t_log s"
proof -
  obtain S U where SU: "m_slist s = S @ U" "\<forall>x\<in>set S. s_xmit x > 0 \<and> s_xmit x \<le> 30" "\<forall>x\<in>set U. s_xmit x = 0"
    "sent_part (m_slist s) = S" "unsent_part (m_slist s) = U" "m_snd_nxt s = m_snd_una s + of_nat (seg_bytes S)"
    using inv by (rule send_invE) blast
  have fi: "fifo_open (m_sbuf s)" "buffer_length (m_sbuf s) < 2 ^ 32" "mss_ok s"
      "chain (m_snd_una s) (S @ U)" "seg_bytes (S @ U) = GetBuffered (m_sbuf s)"
    using inv SU(1) by (simp_all add: send_inv_def)
  have room: "GetBuffered (m_sbuf s) + n \<le> buffer_length (m_sbuf s)" "n \<le> length d" "n \<le> GetWriteRemaining (m_sbuf s)"
    using fi(1) by (auto simp: n_def GetWriteRemaining_def GetBuffered_def fifo_open_def fifo_inv_def)
  then have n32: "n < 2 ^ 32" "unat (of_nat n :: u32) = n" using fi(2) by (auto intro: unat_of_nat_u32)
  have len: "(if of_nat (length d) > (of_nat (GetWriteRemaining (m_sbuf s)) :: u32)
      then of_nat (GetWriteRemaining (m_sbuf s)) else of_nat (length d)) = (of_nat n :: u32)"
  proof -
    have "GetWriteRemaining (m_sbuf s) < 2 ^ 32" using fi(2) by (simp add: GetWriteRemaining_def)
    then show ?thesis using d by (auto simp: n_def word_less_nat_alt unat_of_nat_u32)
  qed
  obtain r f' where w: "FifoWrite (m_sbuf s) d n = (r, n, f')" "fifo_open f'" "queue f' = queue (m_sbuf s) @ take n d"
    "buffer_length f' = buffer_length (m_sbuf s)" "GetBuffered f' = GetBuffered (m_sbuf s) + n"
    using FifoWrite_open[OF fi(1) room(2,3)] .
  define seq where "seq = m_snd_una s + of_nat (GetBuffered (m_sbuf s))"
  obtain U' where q: "queue_segment (S @ U) seq (of_nat n) c = S @ U'" "\<forall>x\<in>set U'. s_xmit x = 0" "chain (m_snd_una s) (S @ U')"
    "seg_bytes (S @ U') = seg_bytes (S @ U) + n"
  proof (rule queue_segment_ok[of S U "m_snd_una s" "of_nat n" seq c])
    show "seq = m_snd_una s + of_nat (seg_bytes (S @ U))" using fi(5) by (simp only: seq_def)
    show "seg_bytes (S @ U) + unat (of_nat n :: u32) < 2 ^ 32" using fi(2,5) room(1) n32(2) by simp
  qed (use SU(2,3) fi n32(2) in auto)
  define s' where "s' = s\<lparr>m_slist := S @ U', m_sbuf := f'\<rparr>"
  have p: "ptcp_queue d c s = (of_nat n, s')"
    using q(1) SU(1) w(1) n32(2) len by (auto simp: ptcp_queue_def Let_def s'_def queue_segment_def seq_def split: if_split_asm)
  have "send_inv s' \<and> in_flight s' = seg_bytes S \<and> unsent_part (m_slist s') = U' \<and> sent_part (m_slist s') = S"
    using SU q w fi by (intro send_invI; simp add: s'_def mss_ok_def)
  then show ?thesis using p w(3) SU(4) by (intro that[of s']) (simp_all add: s'_def in_flight_def)
qed

section \<open>Acknowledging\<close>

lemma free_segments_ok:
  "seg_bytes A = unat n \<Longrightarrow>
   \<exists>A' A'' l'. A = A' @ A'' \<and> seg_bytes A' = unat n \<and> free_segments n (A @ B) l = Some (A'' @ B, l')"
proof (induction A arbitrary: n l)
  case Nil
  then have "n = 0" by (simp add: word_unat_eq_iff)
  then show ?case by (cases B) simp_all
next
  case (Cons x A)
  show ?case
  proof (cases "n = 0")
    case True
    then show ?thesis by (intro exI[of _ "[]"] exI[of _ "x # A"]) simp
  next
    case False
    have le: "s_len x \<le> n" using Cons.prems by (simp add: word_le_nat_alt)
    then have "seg_bytes A = unat (n - s_len x)" using Cons.prems by (simp add: unat_sub_u32)
    from Cons.IH[OF this, of "if s_len x > l then s_len x else l"] obtain A' A'' l' where
      A: "A = A' @ A''" "seg_bytes A' = unat (n - s_len x)"
        "free_segments (n - s_len x) (A @ B) (if s_len x > l then s_len x else l) = Some (A'' @ B, l')" by blast
    have "free_segments n ((x # A) @ B) l = Some (A'' @ B, l')" using False le A(3) by (simp add: leD)
    then show ?thesis using A(1,2) Cons.prems le
      by (intro exI[of _ "x # A'"] exI[of _ A''] exI[of _ l']) (simp add: unat_sub_u32 word_le_nat_alt)
  qed
qed

lemma update_rtt_keeps [simp]:
  "m_slist (update_rtt now e s) = m_slist s" "m_sbuf (update_rtt now e s) = m_sbuf s"
  "m_snd_una (update_rtt now e s) = m_snd_una s" "m_snd_nxt (update_rtt now e s) = m_snd_nxt s"
  "m_mss (update_rtt now e s) = m_mss s" "m_msslevel (update_rtt now e s) = m_msslevel s"
  "m_dup_acks (update_rtt now e s) = m_dup_acks s" "m_cwnd (update_rtt now e s) = m_cwnd s"
  "m_ssthresh (update_rtt now e s) = m_ssthresh s" "m_swnd_scale (update_rtt now e s) = m_swnd_scale s"
  "m_largest (update_rtt now e s) = m_largest s" "m_state (update_rtt now e s) = m_state s"
  by (simp_all add: update_rtt_def Let_def)

text \<open>A new acknowledgement outside fast recovery.\<close>

lemma new_ack_eq:
  assumes "scaled_window (g_wnd seg) (m_swnd_scale s) = Some wnd" "m_dup_acks s < 3" "m_cwnd s \<noteq> 0"
    "free_segments (g_ack seg - m_snd_una s) (m_slist s) (m_largest s) = Some (sl, l')"
  shows "\<exists>c. new_ack E now seg s = Some (True, (update_rtt now (g_tsecr seg) s)\<lparr>m_snd_wnd := wnd, m_snd_una := g_ack seg,
    m_rto_base := (if g_ack seg = m_snd_nxt s then 0 else now), m_sbuf := ConsumeReadData (m_sbuf s) (unat (g_ack seg - m_snd_una s)),
    m_slist := sl, m_largest := l', m_dup_acks := 0, m_cwnd := c\<rparr>)"
proof -
  have d: "\<not> m_dup_acks s \<ge> 3" using assms(2) by simp
  show ?thesis
  proof (cases "m_cwnd s < m_ssthresh s")
    case True
    then show ?thesis using assms d
      by (intro exI[of _ "m_cwnd s + m_mss s"]) (simp add: new_ack_def Let_def)
  next
    case False
    then show ?thesis using assms d
      by (intro exI[of _ "m_cwnd s + max 1 (m_mss s * m_mss s div m_cwnd s)"]) (simp add: new_ack_def Let_def)
  qed
qed

text \<open>An acknowledgement that ends where a sent segment ends.\<close>

definition acks_segments :: "u32 \<Rightarrow> PseudoTcp \<Rightarrow> bool" where
  "acks_segments ack s \<longleftrightarrow> (\<exists>k \<le> length (sent_part (m_slist s)). unat (ack - m_snd_una s) = seg_bytes (take k (m_slist s)))"

lemma process_ack_ok:
  assumes inv: "send_inv s" and ack: "m_snd_una s < g_ack seg" "g_ack seg \<le> m_snd_nxt s" "acks_segments (g_ack seg) s"
    and ok: "m_dup_acks s < 3" "unat (m_swnd_scale s) < 32" "m_cwnd s \<noteq> 0"
  obtains s' where "process_ack E now seg s = Some (True, s')" "send_inv s'" "m_snd_una s' = g_ack seg" "m_snd_nxt s' = m_snd_nxt s"
    "queue (m_sbuf s') = drop (unat (g_ack seg - m_snd_una s)) (queue (m_sbuf s))"
    "m_snd_wnd s' = push_bit (unat (m_swnd_scale s)) (ucast (g_wnd seg))"
proof -
  define n where "n = g_ack seg - m_snd_una s"
  obtain S U where SU: "m_slist s = S @ U" "\<forall>x\<in>set S. s_xmit x > 0 \<and> s_xmit x \<le> 30" "\<forall>x\<in>set U. s_xmit x = 0"
    "sent_part (m_slist s) = S" "unsent_part (m_slist s) = U" "m_snd_nxt s = m_snd_una s + of_nat (seg_bytes S)"
    using inv by (rule send_invE) blast
  obtain k where k: "k \<le> length S" "unat n = seg_bytes (take k S)"
  proof -
    obtain k where "k \<le> length S" "unat n = seg_bytes (take k (m_slist s))"
      using ack(3)[unfolded acks_segments_def SU(4), folded n_def] by (elim exE conjE) (rule that)
    then show ?thesis using that[of k] SU(1) by simp
  qed
  obtain A A'' l' where A: "take k S = A @ A''" "seg_bytes A = unat n"
      "free_segments n (take k S @ drop k S @ U) (m_largest s) = Some (A'' @ drop k S @ U, l')"
    using free_segments_ok[OF k(2)[symmetric], of "drop k S @ U" "m_largest s"] by (elim exE conjE) (rule that)
  define T where "T = A'' @ drop k S"
  have ST: "S = A @ T" using A(1) append_take_drop_id[of k S] by (simp add: T_def)
  have fr: "free_segments n (m_slist s) (m_largest s) = Some (T @ U, l')"
    using A(3) by (simp only: SU(1) T_def append.assoc[symmetric] append_take_drop_id)
  have fi: "fifo_open (m_sbuf s)" "buffer_length (m_sbuf s) < 2 ^ 32" "mss_ok s"
      "chain (m_snd_una s) (S @ U)" "seg_bytes (S @ U) = GetBuffered (m_sbuf s)"
    using inv SU(1) by (simp_all add: send_inv_def)
  have "unat n \<le> f_data_length (m_sbuf s)" using fi(5) A(2) ST by (simp add: GetBuffered_def)
  then have cr: "fifo_inv (ConsumeReadData (m_sbuf s) (unat n))" "queue (ConsumeReadData (m_sbuf s) (unat n)) = drop (unat n) (queue (m_sbuf s))"
      "buffer_length (ConsumeReadData (m_sbuf s) (unat n)) = buffer_length (m_sbuf s)" "f_state (ConsumeReadData (m_sbuf s) (unat n)) = f_state (m_sbuf s)"
      "f_data_length (ConsumeReadData (m_sbuf s) (unat n)) = f_data_length (m_sbuf s) - unat n"
    using ConsumeReadData_queue[of "m_sbuf s" "unat n"] fi(1) by (auto simp: fifo_open_def)
  have ga: "g_ack seg = m_snd_una s + n" by (simp add: n_def)
  obtain s' where s': "new_ack E now seg s = Some (True, s')" "m_slist s' = T @ U" "m_sbuf s' = ConsumeReadData (m_sbuf s) (unat n)"
      "m_snd_una s' = g_ack seg" "m_snd_nxt s' = m_snd_nxt s" "m_mss s' = m_mss s" "m_msslevel s' = m_msslevel s"
      "m_snd_wnd s' = push_bit (unat (m_swnd_scale s)) (ucast (g_wnd seg))"
  proof -
    define wnd where "wnd = push_bit (unat (m_swnd_scale s)) (ucast (g_wnd seg) :: u32)"
    have "scaled_window (g_wnd seg) (m_swnd_scale s) = Some wnd" using ok(2) by (simp add: scaled_window_def wnd_def)
    from new_ack_eq[OF this ok(1,3) fr[unfolded n_def], of E now]
    show ?thesis by (elim exE) (rule that, assumption, simp_all add: wnd_def n_def)
  qed
  have "send_inv s' \<and> in_flight s' = seg_bytes T \<and> unsent_part (m_slist s') = U \<and> sent_part (m_slist s') = T"
  proof (rule send_invI)
    show "m_slist s' = T @ U" by (rule s'(2))
    show "m_snd_nxt s' = m_snd_una s' + of_nat (seg_bytes T)" using SU(6) ST A(2) s'(4,5) ga by simp
    show "chain (m_snd_una s') (T @ U)" using fi(4) A(2) unfolding ST append.assoc chain_append[of _ A] s'(4) ga by simp
    show "seg_bytes (T @ U) = GetBuffered (m_sbuf s')" using fi(5) A(2) ST s'(3) cr(5) by (simp add: GetBuffered_def)
  qed (use SU(2,3) ST s' cr fi in \<open>auto simp: mss_ok_def fifo_open_def\<close>)
  then show ?thesis using that[of s'] s' cr(2) ack(1,2) by (simp add: process_ack_def n_def)
qed

section \<open>Properties\<close>

text \<open>An established connection with six bytes to send, of which the first four are in flight.\<close>

definition example_sender :: PseudoTcp where
  "example_sender = (PseudoTcp_new example_env 7)\<lparr>m_state := TCP_ESTABLISHED, m_snd_wnd := 1000,
     m_sbuf := \<lparr>f_state = SS_OPEN, f_buffer = [1, 2, 3, 4, 5, 6, 0, 0], f_data_length = 6, f_read_position = 0, f_posted = []\<rparr>,
     m_slist := [\<lparr>s_seq = 0, s_len = 4, s_xmit = 1, s_bCtrl = False\<rparr>, \<lparr>s_seq = 4, s_len = 2, s_xmit = 0, s_bCtrl = False\<rparr>],
     m_snd_nxt := 4\<rparr>"

lemma example_sender_simps [simp]:
  "m_state example_sender = TCP_ESTABLISHED" "m_snd_una example_sender = 0" "m_snd_nxt example_sender = 4"
  "m_sbuf example_sender = \<lparr>f_state = SS_OPEN, f_buffer = [1, 2, 3, 4, 5, 6, 0, 0], f_data_length = 6, f_read_position = 0, f_posted = []\<rparr>"
  "m_slist example_sender = [\<lparr>s_seq = 0, s_len = 4, s_xmit = 1, s_bCtrl = False\<rparr>, \<lparr>s_seq = 4, s_len = 2, s_xmit = 0, s_bCtrl = False\<rparr>]"
  "m_snd_wnd example_sender = 1000" "m_dup_acks example_sender = 0" "m_swnd_scale example_sender = 0"
  "m_cwnd example_sender = 360" "m_mss example_sender = 180" "m_msslevel example_sender = 0"
  by (simp_all add: example_sender_def PseudoTcp_new_def Let_def ptcp_sizes)

lemma example_sender_inv: "send_inv example_sender"
  by (simp add: send_inv_def fifo_open_def fifo_inv_def buffer_length_def GetBuffered_def sent_first_def
      unsent_part_def sent_part_def mss_ok_def)

lemma example_sender_in_flight: "GetBytesInFlight example_sender = 4"
  by (simp add: GetBytesInFlight_def)

text \<open>C32: from a state whose segment list fits its buffer, \<^verbatim>\<open>attemptSend\<close> returns, for any
  answers of the network, in a state whose segment list fits its buffer.\<close>
theorem attemptSend_returns:
  assumes "send_inv s"
  shows "\<exists>s'. attemptSend E sflags s = Some s' \<and> send_inv s'"
  using attemptSend_ok[OF assms, of E sflags] by (auto simp: send_step_def)

lemma attemptSend_returns_witness: "\<exists>s'. attemptSend example_env sfImmediateAck example_sender = Some s' \<and> send_inv s'"
  by (rule attemptSend_returns[OF example_sender_inv])

text \<open>C14: \<^verbatim>\<open>attemptSend\<close> never puts more bytes in flight than the peer's window allows; when the
  window has shrunk below what is in flight already, it adds nothing.\<close>
theorem attemptSend_window:
  assumes "send_inv s" "attemptSend E sflags s = Some s'"
  shows "unat (GetBytesInFlight s') \<le> max (unat (GetBytesInFlight s)) (unat (m_snd_wnd s)) \<and> m_snd_wnd s' = m_snd_wnd s"
  using attemptSend_ok[OF assms(1), of E sflags] assms send_inv_bytes(3)[of s'] send_inv_bytes(3)[of s] by (auto simp: send_step_def)

lemma attemptSend_window_witness:
  "\<exists>s'. attemptSend example_env sfNone example_sender = Some s' \<and> unat (GetBytesInFlight s') \<le> 1000"
proof -
  obtain s' where "attemptSend example_env sfNone example_sender = Some s'"
    using attemptSend_ok[OF example_sender_inv] by blast
  with attemptSend_window[OF example_sender_inv this] show ?thesis by (auto simp: example_sender_in_flight)
qed

text \<open>C7: every packet \<^verbatim>\<open>attemptSend\<close> writes carries exactly the bytes of the send buffer that
  its sequence number and length name, whatever sizes the network made it try.\<close>
theorem attemptSend_packets:
  assumes "send_inv s" "attemptSend E sflags s = Some s'"
  shows "\<exists>evs. t_log s' = t_log s @ evs \<and>
    (\<forall>p r. TcpWritePacket p r \<in> set evs \<longrightarrow>
      (let g = parse_segment p
       in g_data g = take (unat (g_len g)) (drop (unat (g_seq g - m_snd_una s)) (queue (m_sbuf s)))))"
  using attemptSend_ok[OF assms(1), of E sflags] assms(2)
  by (auto simp: send_step_def sends_buffer_def carries_def Let_def)

lemma attemptSend_packets_witness:
  "\<exists>s' evs. attemptSend example_env sfNone example_sender = Some s' \<and> t_log s' = t_log example_sender @ evs \<and>
    (\<forall>p r. TcpWritePacket p r \<in> set evs \<longrightarrow>
      (let g = parse_segment p
       in g_data g = take (unat (g_len g)) (drop (unat (g_seq g - m_snd_una example_sender)) (queue (m_sbuf example_sender)))))"
proof -
  obtain s' where "attemptSend example_env sfNone example_sender = Some s'"
    using attemptSend_ok[OF example_sender_inv] by blast
  with attemptSend_packets[OF example_sender_inv this] show ?thesis by blast
qed

text \<open>C33: \<^verbatim>\<open>Send\<close> on an open connection accepts as many bytes as the buffer has room for, returns
  their number, and appends exactly those to the bytes waiting to be acknowledged.\<close>
theorem Send_queues:
  assumes "send_inv s" "m_state s = TCP_ESTABLISHED" "GetWriteRemaining (m_sbuf s) \<noteq> 0" "length d < 2 ^ 31"
  defines "n \<equiv> min (length d) (GetWriteRemaining (m_sbuf s))"
  shows "\<exists>s'. Send E d s = Some (int n, s') \<and> send_inv s' \<and> queue (m_sbuf s') = queue (m_sbuf s) @ take n d"
proof -
  obtain s1 where 1: "ptcp_queue d False s = (of_nat n, s1)" "send_inv s1" "queue (m_sbuf s1) = queue (m_sbuf s) @ take n d"
    using ptcp_queue_ok[OF assms(1), of d False] assms(4) unfolding n_def by auto
  obtain s2 where 2: "attemptSend E sfNone s1 = Some s2" "send_step s1 s2" using attemptSend_ok[OF 1(2)] by blast
  have "n < 2 ^ 31" using assms(4) by (simp add: n_def)
  then have "sint (of_nat n :: u32) = int n" by (simp add: sint_u32 uint_nat unat_of_nat_u32)
  then have "Send E d s = Some (int n, s2)" using assms(2,3) 1(1) 2(1) by (simp add: Send_def)
  then show ?thesis using 1(3) 2(2) by (auto simp: send_step_def)
qed

lemma Send_queues_witness:
  "\<exists>s'. Send example_env [7, 8, 9, 10] example_sender = Some (2, s') \<and> queue (m_sbuf s') = [1, 2, 3, 4, 5, 6, 7, 8]"
  using Send_queues[OF example_sender_inv, of "[7, 8, 9, 10]" example_env]
  by (auto simp: GetWriteRemaining_def buffer_length_def queue_def view_def)

text \<open>C12: an acknowledgement that ends with a sent segment, outside fast recovery, is taken: the
  acknowledged bytes leave the buffer, the window is the peer's, and the segment list fits the buffer
  again.\<close>
theorem ack_releases_bytes:
  assumes "send_inv s" "m_snd_una s < g_ack seg" "g_ack seg \<le> m_snd_nxt s" "acks_segments (g_ack seg) s"
    "m_dup_acks s < 3" "unat (m_swnd_scale s) < 32" "m_cwnd s \<noteq> 0"
  shows "\<exists>s'. process_ack E now seg s = Some (True, s') \<and> send_inv s' \<and> m_snd_una s' = g_ack seg \<and>
    queue (m_sbuf s') = drop (unat (g_ack seg - m_snd_una s)) (queue (m_sbuf s)) \<and>
    m_snd_wnd s' = push_bit (unat (m_swnd_scale s)) (ucast (g_wnd seg))"
  using process_ack_ok[OF assms, of E now] by metis

lemma ack_releases_bytes_witness:
  "\<exists>s'. process_ack example_env 2000 (parse_segment (packet_header 7 0 4 0 500 0 0)) example_sender = Some (True, s') \<and>
    queue (m_sbuf s') = [5, 6] \<and> m_snd_wnd s' = 500"
proof -
  let ?seg = "parse_segment (packet_header 7 0 4 0 500 0 0)"
  have g: "g_ack ?seg = 4" "g_wnd ?seg = 500" using parse_packet_header[where data = "[]"] by simp_all
  have "acks_segments (g_ack ?seg) example_sender"
    unfolding acks_segments_def by (rule exI[of _ 1]) (simp add: g sent_part_def)
  from ack_releases_bytes[OF example_sender_inv _ _ this, of example_env 2000] show ?thesis
    by (auto simp: g queue_def view_def)
qed

text \<open>Reading the send buffer in front of its first byte finds nothing.\<close>

lemma packet_before_buffer:
  assumes "fifo_inv (m_sbuf s)" "0 < unat n" "GetBuffered (m_sbuf s) + unat n < 2 ^ 32" "len \<noteq> 0"
  shows "packet E seq flags (- n) len s = None"
proof -
  have un: "uint n = int (unat n)" "uint (- n) = int (unat (- n))" by (rule uint_nat)+
  have u: "0 < uint n" using assms(2) un(1) by linarith
  have u2: "uint n < 2 ^ 32" using u32_lt[of n] by simp
  have "uint (- n) = (- uint n) mod 2 ^ 32" by (simp add: uint_word_ariths)
  also have "\<dots> = 2 ^ 32 - uint n" using u u2 by (simp add: zmod_zminus1_eq_if)
  finally have "uint (- n) = 4294967296 - uint n" by simp
  then have n: "unat (- n) = 4294967296 - unat n" unfolding un by linarith
  then have "\<not> unat (- n) < f_data_length (m_sbuf s)" using assms(3) by (simp add: GetBuffered_def)
  then have "snd (ReadOffset (m_sbuf s) (unat len) (unat (- n))) = []" using assms(1) by (simp add: ReadOffset_queue)
  then show ?thesis using assms(4) by (simp add: packet_def Now_def Let_def unat_eq_zero)
qed

text \<open>C34: an acknowledgement of part of the first segment shortens that segment but leaves its sequence
  number in front of the first unacknowledged byte, so retransmitting it reads outside the send buffer
  and would send memory that was never written.\<close>
theorem partial_ack_retransmit:
  assumes "send_inv s" "m_slist s = x # xs" "0 < s_xmit x" "s_xmit x < 15" "m_mss s \<noteq> 0"
    "m_snd_una s < g_ack seg" "g_ack seg \<le> m_snd_nxt s" "g_ack seg - m_snd_una s < s_len x"
    "m_dup_acks s < 3" "unat (m_swnd_scale s) < 32" "m_cwnd s \<noteq> 0"
  shows "\<exists>s'. process_ack E now seg s = Some (True, s') \<and> retransmit E later s' = None"
proof -
  define n where "n = g_ack seg - m_snd_una s"
  have n: "0 < unat n" "unat n < unat (s_len x)" using assms(6,8) by (auto simp: n_def unat_gt_0 word_less_nat_alt)
  then have "free_segments n (m_slist s) (m_largest s) = Some (x\<lparr>s_len := s_len x - n\<rparr> # xs, m_largest s)"
    using assms(2) by (auto simp: word_less_nat_alt)
  moreover define wnd where "wnd = push_bit (unat (m_swnd_scale s)) (ucast (g_wnd seg) :: u32)"
  have "scaled_window (g_wnd seg) (m_swnd_scale s) = Some wnd" using assms(10) by (simp add: scaled_window_def wnd_def)
  ultimately obtain s' where s': "new_ack E now seg s = Some (True, s')" "m_slist s' = x\<lparr>s_len := s_len x - n\<rparr> # xs"
      "m_sbuf s' = ConsumeReadData (m_sbuf s) (unat n)" "m_snd_una s' = g_ack seg" "m_mss s' = m_mss s" "m_state s' = m_state s"
    using new_ack_eq[of seg s wnd "x\<lparr>s_len := s_len x - n\<rparr> # xs" "m_largest s" E now] assms(9,11) by (auto simp: n_def)
  have sx: "s_seq x = m_snd_una s" using assms(1,2) by (simp add: send_inv_def)
  have le: "unat n \<le> f_data_length (m_sbuf s)" using assms(1,2) n(2) by (simp add: send_inv_def GetBuffered_def)
  have fi: "fifo_inv (m_sbuf s)" "f_data_length (m_sbuf s) < 2 ^ 32"
    using send_inv_bytes(1)[OF assms(1)] assms(1) by (simp_all add: send_inv_def fifo_open_def GetBuffered_def)
  define len where "len = min (s_len x - n) (m_mss s)"
  have "s_len x - n \<noteq> 0" using n(2) by auto
  then have "len \<noteq> 0" using assms(5) by (simp add: len_def min_def)
  then have "packet E (s_seq x) (if s_bCtrl x then FLAG_CTL else 0) (- n) len s' = None"
    using packet_before_buffer[of s' n len] ConsumeReadData_queue[OF fi(1) le] fi(2) le n(1) s'(3) by (simp add: GetBuffered_def)
  moreover have "s_seq x - g_ack seg = - n" by (simp add: sx n_def)
  ultimately have "transmit_loop E (x\<lparr>s_len := s_len x - n\<rparr>) len s' = None"
    using s'(4) by (simp add: transmit_loop.simps)
  moreover have "\<not> s_xmit x \<ge> (if m_state s' = TCP_ESTABLISHED then 15 else 30)"
    using assms(4) by (auto simp: word_less_nat_alt word_le_nat_alt)
  ultimately have "transmit E 0 later s' = None"
    using s'(2,5) by (simp add: transmit_def Let_def len_def)
  then show ?thesis using s'(1) assms(6,7) by (simp add: process_ack_def retransmit_def)
qed

lemma partial_ack_retransmit_witness:
  "\<exists>s'. process_ack example_env 2000 (parse_segment (packet_header 7 0 1 0 500 0 0)) example_sender = Some (True, s') \<and>
    retransmit example_env 9000 s' = None"
proof -
  have g: "g_ack (parse_segment (packet_header 7 0 1 0 500 0 0)) = 1" using parse_packet_header[where data = "[]"] by simp
  show ?thesis by (rule partial_ack_retransmit[OF example_sender_inv example_sender_simps(5)]) (simp_all add: g)
qed

end
