(* ===== verification/PtcpReceiver.thy ===== *)
theory PtcpReceiver
  imports PtcpSender
begin

text \<open>
  The receiver of \<^verbatim>\<open>PseudoTcp\<close> against the byte stream \<open>\<sigma>\<close> of its peer, indexed by
  sequence number. The invariant says that the receive buffer holds the stream from the first byte
  not yet read to \<^verbatim>\<open>m_rcv_nxt\<close>, and that every saved range beyond it lies in the free part of the
  ring where it will be committed. Packets that carry pieces of \<open>\<sigma>\<close>, in any order, repeated,
  overlapping or lost, keep the invariant, so the application reads a prefix of \<open>\<sigma>\<close>.
\<close>

section \<open>Segments of a stream\<close>

definition seg_of :: "u8 list \<Rightarrow> Segment \<Rightarrow> bool" where
  "seg_of \<sigma> seg \<longleftrightarrow>
     (0 < unat (g_len seg) \<longrightarrow>
        unat (g_seq seg) + unat (g_len seg) \<le> length \<sigma> \<and> unat (g_len seg) \<le> length (g_data seg) \<and>
        take (unat (g_len seg)) (g_data seg) = take (unat (g_len seg)) (drop (unat (g_seq seg)) \<sigma>))"

lemma seg_of_empty: "g_len seg = 0 \<Longrightarrow> seg_of \<sigma> seg"
  by (simp add: seg_of_def)

lemma unat_add_u32: "unat a + unat b < 2 ^ 32 \<Longrightarrow> unat (a + b) = unat a + unat b" for a b :: u32
  by (simp add: unat_add_lem[THEN iffD1])

lemma trim_old_ok:
  fixes nxt :: u32
  assumes "seg_of \<sigma> seg" "length \<sigma> < 2 ^ 32"
  defines "seg' \<equiv> trim_old nxt seg"
  shows "seg_of \<sigma> seg' \<and> (g_len seg' = 0 \<or> nxt \<le> g_seq seg') \<and> g_flags seg' = g_flags seg"
proof (cases "g_seq seg < nxt \<and> g_len seg \<noteq> 0")
  case False
  then have "seg' = seg \<or> g_len seg' = 0"
    by (auto simp: seg'_def trim_old_def Let_def)
  moreover have "g_flags seg' = g_flags seg" by (simp add: seg'_def trim_old_def Let_def)
  ultimately show ?thesis using False assms(1) by (auto simp: seg_of_empty not_less)
next
  case True
  let ?d = "nxt - g_seq seg"
  have d: "unat ?d = unat nxt - unat (g_seq seg)" using True by (intro unat_sub_u32 less_imp_le) simp
  show ?thesis
  proof (cases "?d < g_len seg")
    case False
    then have "seg' = seg\<lparr>g_len := 0\<rparr>" using True by (simp add: seg'_def trim_old_def Let_def)
    then show ?thesis by (simp add: seg_of_empty)
  next
    case lt: True
    then have s: "seg' = seg\<lparr>g_seq := nxt, g_data := drop (unat ?d) (g_data seg), g_len := g_len seg - ?d\<rparr>"
      using True by (simp add: seg'_def trim_old_def Let_def)
    have l: "unat (g_len seg - ?d) = unat (g_len seg) - unat ?d" using lt by (intro unat_sub_u32) simp
    have pos: "0 < unat (g_len seg)" using True by (simp add: unat_gt_0)
    have ltn: "unat ?d < unat (g_len seg)" using lt by (simp add: word_less_nat_alt)
    have an: "unat (g_seq seg) < unat nxt" using True by (simp add: word_less_nat_alt)
    have o: "unat (g_seq seg) + unat (g_len seg) \<le> length \<sigma>" "unat (g_len seg) \<le> length (g_data seg)"
        "take (unat (g_len seg)) (g_data seg) = take (unat (g_len seg)) (drop (unat (g_seq seg)) \<sigma>)"
      using assms(1) pos by (simp_all add: seg_of_def)
    have "drop (unat ?d) (take (unat (g_len seg)) (g_data seg)) = drop (unat ?d) (take (unat (g_len seg)) (drop (unat (g_seq seg)) \<sigma>))"
      using o(3) by simp
    then have "take (unat (g_len seg) - unat ?d) (drop (unat ?d) (g_data seg)) =
        take (unat (g_len seg) - unat ?d) (drop (unat nxt) \<sigma>)"
      using d an by (simp add: drop_take)
    then show ?thesis using s o l d an ltn by (simp add: seg_of_def, linarith)
  qed
qed

lemma trim_window_ok:
  fixes nxt :: u32
  assumes "seg_of \<sigma> seg" "length \<sigma> < 2 ^ 32" "g_len seg = 0 \<or> nxt \<le> g_seq seg" "avail < 2 ^ 32"
  defines "seg' \<equiv> trim_window nxt (of_nat avail) seg"
  shows "seg_of \<sigma> seg' \<and> g_seq seg' = g_seq seg \<and> g_flags seg' = g_flags seg \<and> g_data seg' = g_data seg \<and>
    (g_len seg' = 0 \<or> nxt \<le> g_seq seg' \<and> unat (g_seq seg') - unat nxt + unat (g_len seg') \<le> avail)"
proof (cases "g_len seg = 0")
  case True
  then show ?thesis by (simp add: seg'_def trim_window_def Let_def seg_of_empty)
next
  case False
  let ?x = "g_seq seg + g_len seg - nxt"
  have pos: "0 < unat (g_len seg)" using False by (simp add: unat_gt_0)
  have o: "unat (g_seq seg) + unat (g_len seg) \<le> length \<sigma>" "unat (g_len seg) \<le> length (g_data seg)"
      "take (unat (g_len seg)) (g_data seg) = take (unat (g_len seg)) (drop (unat (g_seq seg)) \<sigma>)"
    using assms(1) pos by (simp_all add: seg_of_def)
  have n: "unat nxt \<le> unat (g_seq seg)" using assms(3) False by (simp add: word_le_nat_alt)
  have e: "unat (g_seq seg + g_len seg) = unat (g_seq seg) + unat (g_len seg)"
    using o(1) assms(2) by (intro unat_add_u32) simp
  have x: "unat ?x = unat (g_seq seg) + unat (g_len seg) - unat nxt"
    using e n by (subst unat_sub_u32) (simp_all add: word_le_nat_alt)
  have a: "unat (of_nat avail :: u32) = avail" using assms(4) by (rule unat_of_nat_u32)
  show ?thesis
  proof (cases "?x > of_nat avail")
    case False
    then have "seg' = seg" by (simp add: seg'_def trim_window_def Let_def)
    moreover have "unat ?x \<le> avail" using False a by (simp add: word_less_nat_alt)
    ultimately show ?thesis using assms(1) n x by (auto simp: word_le_nat_alt)
  next
    case gt: True
    let ?d = "?x - of_nat avail"
    have d: "unat ?d = unat ?x - avail" using gt a by (subst unat_sub_u32) simp_all
    show ?thesis
    proof (cases "?d < g_len seg")
      case False
      then have "seg' = seg\<lparr>g_len := 0\<rparr>" using gt by (simp add: seg'_def trim_window_def Let_def)
      then show ?thesis by (simp add: seg_of_empty)
    next
      case True
      then have s: "seg' = seg\<lparr>g_len := g_len seg - ?d\<rparr>" using gt by (simp add: seg'_def trim_window_def Let_def)
      have ltn: "unat ?d < unat (g_len seg)" using True by (simp add: word_less_nat_alt)
      define L where "L = g_len seg - ?d"
      define m where "m = unat (g_len seg) - unat ?d"
      have l: "unat L = m" using True unfolding L_def m_def by (intro unat_sub_u32) simp
      have m: "m \<le> unat (g_len seg)" by (simp add: m_def)
      have gx: "avail < unat ?x" using gt a by (simp add: word_less_nat_alt)
      have "take m (take (unat (g_len seg)) (g_data seg)) = take m (take (unat (g_len seg)) (drop (unat (g_seq seg)) \<sigma>))"
        using o(3) by simp
      then have t: "take m (g_data seg) = take m (drop (unat (g_seq seg)) \<sigma>)" using m by (simp add: min_def)
      have "unat (g_seq seg) - unat nxt + m \<le> avail" unfolding m_def d using x n gx ltn[unfolded d] by linarith
      moreover have "seg_of \<sigma> seg'" using o(1,2) m t unfolding s L_def[symmetric] by (simp add: seg_of_def l)
      ultimately show ?thesis using n unfolding s L_def[symmetric] by (simp add: l word_le_nat_alt)
    qed
  qed
qed

section \<open>The invariant\<close>

text \<open>Positions \<open>a\<close> up to \<open>b\<close> of the stream are in their place of the ring.\<close>

definition in_place :: "u8 list \<Rightarrow> nat \<Rightarrow> FifoBuffer \<Rightarrow> nat \<Rightarrow> nat \<Rightarrow> bool" where
  "in_place \<sigma> q f a b \<longleftrightarrow> (\<forall>k. a \<le> k \<and> k < b \<longrightarrow> k - q < buffer_length f \<and> view f ! (k - q) = \<sigma> ! k)"

definition saved_ok :: "u8 list \<Rightarrow> nat \<Rightarrow> FifoBuffer \<Rightarrow> nat \<Rightarrow> RSegment list \<Rightarrow> bool" where
  "saved_ok \<sigma> q f p rs \<longleftrightarrow>
     (\<forall>r\<in>set rs. unat (r_seq r) + unat (r_len r) \<le> length \<sigma> \<and>
        in_place \<sigma> q f (max p (unat (r_seq r))) (unat (r_seq r) + unat (r_len r)))"

definition buffer_ok :: "u8 list \<Rightarrow> nat \<Rightarrow> FifoBuffer \<Rightarrow> nat \<Rightarrow> bool" where
  "buffer_ok \<sigma> q f p \<longleftrightarrow>
     fifo_open f \<and> buffer_length f < 2 ^ 32 \<and> length \<sigma> < 2 ^ 32 \<and> q \<le> p \<and> p \<le> length \<sigma> \<and>
     queue f = drop q (take p \<sigma>)"

definition recv_inv :: "u8 list \<Rightarrow> nat \<Rightarrow> PseudoTcp \<Rightarrow> bool" where
  "recv_inv \<sigma> q s \<longleftrightarrow>
     buffer_ok \<sigma> q (m_rbuf s) (unat (m_rcv_nxt s)) \<and> saved_ok \<sigma> q (m_rbuf s) (unat (m_rcv_nxt s)) (m_rlist s)"

lemma recv_inv_cong:
  "m_rbuf s' = m_rbuf s \<Longrightarrow> m_rcv_nxt s' = m_rcv_nxt s \<Longrightarrow> m_rlist s' = m_rlist s \<Longrightarrow> recv_inv \<sigma> q s \<Longrightarrow> recv_inv \<sigma> q s'"
  by (simp add: recv_inv_def)

lemma buffer_ok_length: "buffer_ok \<sigma> q f p \<Longrightarrow> f_data_length f = p - q \<and> p - q \<le> buffer_length f"
  using length_queue[of f] by (auto simp: buffer_ok_def fifo_open_def fifo_inv_def)

lemma in_place_mono: "in_place \<sigma> q f a b \<Longrightarrow> a \<le> a' \<Longrightarrow> b' \<le> b \<Longrightarrow> in_place \<sigma> q f a' b'"
  by (auto simp: in_place_def)

lemma saved_ok_mono: "saved_ok \<sigma> q f p rs \<Longrightarrow> p \<le> p' \<Longrightarrow> set rs' \<subseteq> set rs \<Longrightarrow> saved_ok \<sigma> q f p' rs'"
  unfolding saved_ok_def by (meson in_place_mono max.mono order_refl subsetD)

text \<open>Committing bytes that are in place.\<close>

lemma commit_ok:
  assumes b: "buffer_ok \<sigma> q f p" and i: "in_place \<sigma> q f p (p + n)" and n: "p + n \<le> length \<sigma>"
  defines "f' \<equiv> ConsumeWriteBuffer f n"
  shows "buffer_ok \<sigma> q f' (p + n) \<and> view f' = view f \<and> buffer_length f' = buffer_length f"
proof -
  have d: "f_data_length f = p - q" "fifo_inv f" "q \<le> p" "p \<le> length \<sigma>" "p - q \<le> buffer_length f"
    using buffer_ok_length[OF b] b by (auto simp: buffer_ok_def fifo_open_def)
  have fits: "f_data_length f + n \<le> buffer_length f"
  proof (cases n)
    case (Suc m)
    then have "p + m - q < buffer_length f" using i by (auto simp: in_place_def)
    then show ?thesis using Suc d by simp
  qed (use d in simp)
  note c = ConsumeWriteBuffer_queue[OF d(2) fits, folded f'_def]
  have "take (f_data_length f + n) (view f) = drop q (take (p + n) \<sigma>)"
  proof (rule list_eq_nthI)
    show "length (take (f_data_length f + n) (view f)) = length (drop q (take (p + n) \<sigma>))"
      using fits n d by simp
    fix j assume "j < length (drop q (take (p + n) \<sigma>))"
    then have j: "j < p + n - q" using n d by simp
    show "take (f_data_length f + n) (view f) ! j = drop q (take (p + n) \<sigma>) ! j"
    proof (cases "j < p - q")
      case True
      have "queue f ! j = drop q (take p \<sigma>) ! j" using b by (simp add: buffer_ok_def)
      moreover have "queue f ! j = view f ! j" using True d by (simp add: queue_def)
      moreover have "drop q (take p \<sigma>) ! j = \<sigma> ! (q + j)" using True d by simp
      ultimately show ?thesis using True j d n by simp
    next
      case False
      then have "p \<le> q + j" "q + j < p + n" using j d by auto
      then have "view f ! (q + j - q) = \<sigma> ! (q + j)" using i unfolding in_place_def by blast
      then show ?thesis using j d n by simp
    qed
  qed
  then show ?thesis using c b n d by (simp add: buffer_ok_def fifo_open_def)
qed

lemma commit_bytes_ok:
  assumes b: "buffer_ok \<sigma> q (m_rbuf s) (unat (m_rcv_nxt s))"
    and i: "in_place \<sigma> q (m_rbuf s) (unat (m_rcv_nxt s)) (unat (m_rcv_nxt s) + unat n)"
    and n: "unat (m_rcv_nxt s) + unat n \<le> length \<sigma>"
  defines "s' \<equiv> commit_bytes n s"
  shows "buffer_ok \<sigma> q (m_rbuf s') (unat (m_rcv_nxt s'))" "unat (m_rcv_nxt s') = unat (m_rcv_nxt s) + unat n"
    "saved_ok \<sigma> q (m_rbuf s) (unat (m_rcv_nxt s)) rs \<Longrightarrow> saved_ok \<sigma> q (m_rbuf s') (unat (m_rcv_nxt s')) rs"
proof -
  have "unat (m_rcv_nxt s) + unat n < 2 ^ 32" using n b by (simp add: buffer_ok_def)
  then show u: "unat (m_rcv_nxt s') = unat (m_rcv_nxt s) + unat n" by (simp add: s'_def commit_bytes_def unat_add_u32)
  note c = commit_ok[OF b i n]
  have r: "m_rbuf s' = ConsumeWriteBuffer (m_rbuf s) (unat n)" by (simp add: s'_def commit_bytes_def)
  show "buffer_ok \<sigma> q (m_rbuf s') (unat (m_rcv_nxt s'))" unfolding u r using c by blast
  assume "saved_ok \<sigma> q (m_rbuf s) (unat (m_rcv_nxt s)) rs"
  then have "saved_ok \<sigma> q (m_rbuf s) (unat (m_rcv_nxt s')) rs" by (rule saved_ok_mono) (use u in simp_all)
  then show "saved_ok \<sigma> q (m_rbuf s') (unat (m_rcv_nxt s')) rs"
    using c unfolding r saved_ok_def in_place_def by simp
qed

lemma recover_segments_ok:
  "buffer_ok \<sigma> q (m_rbuf s) (unat (m_rcv_nxt s)) \<Longrightarrow> saved_ok \<sigma> q (m_rbuf s) (unat (m_rcv_nxt s)) rs \<Longrightarrow>
   recv_inv \<sigma> q (snd (recover_segments rs f s)) \<and> m_rcv_nxt s \<le> m_rcv_nxt (snd (recover_segments rs f s))"
proof (induction rs arbitrary: s f)
  case Nil
  then show ?case by (simp add: recv_inv_def saved_ok_def)
next
  case (Cons r rs)
  have tl: "saved_ok \<sigma> q (m_rbuf s) (unat (m_rcv_nxt s)) rs" using Cons.prems(2) by (simp add: saved_ok_def)
  have h: "unat (r_seq r) + unat (r_len r) \<le> length \<sigma>"
      "in_place \<sigma> q (m_rbuf s) (max (unat (m_rcv_nxt s)) (unat (r_seq r))) (unat (r_seq r) + unat (r_len r))"
    using Cons.prems(2) by (simp_all add: saved_ok_def)
  have e: "unat (r_seq r + r_len r) = unat (r_seq r) + unat (r_len r)"
    using h(1) Cons.prems(1) by (intro unat_add_u32) (simp add: buffer_ok_def)
  show ?case
  proof (cases "r_seq r \<le> m_rcv_nxt s \<and> r_seq r + r_len r > m_rcv_nxt s")
    case False
    show ?thesis
    proof (cases "r_seq r \<le> m_rcv_nxt s")
      case True
      then show ?thesis using Cons.IH[OF Cons.prems(1) tl] False by simp
    next
      case False
      then show ?thesis using Cons.prems by (simp add: recv_inv_def)
    qed
  next
    case True
    define n where "n = r_seq r + r_len r - m_rcv_nxt s"
    have n: "unat (m_rcv_nxt s) + unat n = unat (r_seq r) + unat (r_len r)"
      using True e unat_sub_u32[of "m_rcv_nxt s" "r_seq r + r_len r"] by (simp add: n_def word_less_nat_alt word_le_nat_alt)
    have "max (unat (m_rcv_nxt s)) (unat (r_seq r)) = unat (m_rcv_nxt s)" using True by (simp add: word_le_nat_alt)
    then have "in_place \<sigma> q (m_rbuf s) (unat (m_rcv_nxt s)) (unat (m_rcv_nxt s) + unat n)" using h(2) n by simp
    note c = commit_bytes_ok[OF Cons.prems(1) this]
    have le: "unat (m_rcv_nxt s) + unat n \<le> length \<sigma>" using n h(1) by simp
    have "recv_inv \<sigma> q (snd (recover_segments rs sfImmediateAck (commit_bytes n s))) \<and>
        m_rcv_nxt (commit_bytes n s) \<le> m_rcv_nxt (snd (recover_segments rs sfImmediateAck (commit_bytes n s)))"
      by (rule Cons.IH[OF c(1)[OF le] c(3)[OF le tl]])
    moreover have "m_rcv_nxt s \<le> m_rcv_nxt (commit_bytes n s)" using c(2)[OF le] by (simp add: word_le_nat_alt)
    ultimately show ?thesis using True by (auto simp: n_def)
  qed
qed

lemma set_insert_rsegment: "set (insert_rsegment r rs) \<subseteq> insert r (set rs)"
  by (auto simp: insert_rsegment_def dest: set_takeWhileD set_dropWhileD)

text \<open>Writing a segment of the stream at its place.\<close>

lemma write_segment_ok:
  assumes b: "buffer_ok \<sigma> q f p" and s: "saved_ok \<sigma> q f p rs"
    and d: "n \<le> length d" "take n d = take n (drop a \<sigma>)" "a + n \<le> length \<sigma>"
    and a: "p \<le> a" "a - p + n \<le> buffer_length f - f_data_length f" "0 < n"
  obtains r c f' where "WriteOffset f d n (a - p) = (r, c, f')" "buffer_ok \<sigma> q f' p" "saved_ok \<sigma> q f' p rs"
    "in_place \<sigma> q f' a (a + n)"
proof -
  have l: "f_data_length f = p - q" "p - q \<le> buffer_length f" "fifo_inv f" "f_state f \<noteq> SS_CLOSED" "q \<le> p"
    using buffer_ok_length[OF b] b by (auto simp: buffer_ok_def fifo_open_def)
  have off: "f_data_length f + (a - p) = a - q" "f_data_length f + (a - p) < buffer_length f" "a - q + n \<le> buffer_length f"
    using l a by auto
  have copy: "min n (buffer_length f - f_data_length f - (a - p)) = n" using a by simp
  obtain f' where f': "WriteOffset f d n (a - p) = (SR_SUCCESS, n, f')" "fifo_inv f'"
      "view f' = blit (view f) (a - q) (take n d)" "queue f' = queue f" "buffer_length f' = buffer_length f"
      "f_state f' = f_state f" "f_data_length f' = f_data_length f"
    using WriteOffset_view[OF l(3,4) d(1) off(2)] unfolding copy off(1) by blast
  have v: "view f' ! j = (if a - q \<le> j \<and> j < a - q + n then \<sigma> ! (q + j) else view f ! j)" if "j < buffer_length f" for j
  proof -
    have len: "a - q + length (take n d) \<le> length (view f)" using off(3) d(1) by simp
    have t: "take n d ! (j - (a - q)) = \<sigma> ! (q + j)" if "a - q \<le> j" "j < a - q + n"
    proof -
      have "j - (a - q) < n" "a + (j - (a - q)) = q + j" using that a(1) l(5) by auto
      then show ?thesis unfolding d(2) using d(3) by (simp add: add.commute)
    qed
    have jl: "j < length (view f)" using that by simp
    have ln: "length (take n d) = n" using d(1) by simp
    show ?thesis unfolding f'(3) nth_blit[OF len jl] ln by (intro if_cong[OF refl] t refl) simp_all
  qed
  have keep: "in_place \<sigma> q f' x y" if "in_place \<sigma> q f x y" "q \<le> x" for x y
    unfolding in_place_def f'(5)
  proof (intro allI impI conjI)
    fix k assume k: "x \<le> k \<and> k < y"
    then show "k - q < buffer_length f" using that(1) by (simp add: in_place_def)
    then have "view f' ! (k - q) = (if a - q \<le> k - q \<and> k - q < a - q + n then \<sigma> ! (q + (k - q)) else view f ! (k - q))" by (rule v)
    moreover have "q + (k - q) = k" using k that(2) by simp
    moreover have "view f ! (k - q) = \<sigma> ! k" using that(1) k by (simp add: in_place_def)
    ultimately show "view f' ! (k - q) = \<sigma> ! k" by simp
  qed
  have "in_place \<sigma> q f' a (a + n)"
    unfolding in_place_def f'(5)
  proof (intro allI impI conjI)
    fix k assume k: "a \<le> k \<and> k < a + n"
    then show c: "k - q < buffer_length f" using off(3) a(1) l(5) by linarith
    have "a - q \<le> k - q \<and> k - q < a - q + n" "q + (k - q) = k" using k a(1) l(5) by auto
    then show "view f' ! (k - q) = \<sigma> ! k" using v[OF c] by presburger
  qed
  moreover have "buffer_ok \<sigma> q f' p" using b f' by (simp add: buffer_ok_def fifo_open_def)
  moreover have "saved_ok \<sigma> q f' p rs" using s keep l(5) unfolding saved_ok_def by (meson le_max_iff_disj)
  ultimately show ?thesis using that[OF f'(1)] by blast
qed

lemma process_data_ok:
  assumes inv: "recv_inv \<sigma> q s" and seg: "seg_of \<sigma> seg" and c: "g_flags seg AND FLAG_CTL = 0" "m_shutdown s = SD_NONE"
    and p: "process_data seg f s = (f', new, s')"
  shows "recv_inv \<sigma> q s' \<and> m_rcv_nxt s \<le> m_rcv_nxt s'"
proof -
  have b: "buffer_ok \<sigma> q (m_rbuf s) (unat (m_rcv_nxt s))" and sv: "saved_ok \<sigma> q (m_rbuf s) (unat (m_rcv_nxt s)) (m_rlist s)"
    using inv by (simp_all add: recv_inv_def)
  define avail where "avail = GetWriteRemaining (m_rbuf s)"
  define seg1 where "seg1 = trim_old (m_rcv_nxt s) seg"
  define seg2 where "seg2 = trim_window (m_rcv_nxt s) (of_nat avail) seg1"
  have l: "length \<sigma> < 2 ^ 32" "avail < 2 ^ 32" "avail = buffer_length (m_rbuf s) - f_data_length (m_rbuf s)"
    using b less_imp_diff_less by (auto simp: buffer_ok_def avail_def GetWriteRemaining_def)
  have 1: "seg_of \<sigma> seg1" "g_len seg1 = 0 \<or> m_rcv_nxt s \<le> g_seq seg1" "g_flags seg1 = g_flags seg"
    using trim_old_ok[OF seg l(1), of "m_rcv_nxt s"] unfolding seg1_def by blast+
  have 2: "seg_of \<sigma> seg2" "g_flags seg2 = g_flags seg"
      "g_len seg2 = 0 \<or> m_rcv_nxt s \<le> g_seq seg2 \<and> unat (g_seq seg2) - unat (m_rcv_nxt s) + unat (g_len seg2) \<le> avail"
    using trim_window_ok[OF 1(1) l(1) 1(2) l(2)] 1(3) unfolding seg2_def by auto
  show ?thesis
  proof (cases "g_len seg2 = 0")
    case True
    then have "s' = s" using p by (simp add: process_data_def Let_def seg1_def[symmetric] avail_def[symmetric] seg2_def[symmetric])
    then show ?thesis using inv by simp
  next
    case False
    have n: "0 < unat (g_len seg2)" using False by (simp add: unat_gt_0)
    have a: "unat (m_rcv_nxt s) \<le> unat (g_seq seg2)"
        "unat (g_seq seg2) - unat (m_rcv_nxt s) + unat (g_len seg2) \<le> buffer_length (m_rbuf s) - f_data_length (m_rbuf s)"
      using 2(3) False l(3) by (auto simp: word_le_nat_alt)
    have d: "unat (g_len seg2) \<le> length (g_data seg2)"
        "take (unat (g_len seg2)) (g_data seg2) = take (unat (g_len seg2)) (drop (unat (g_seq seg2)) \<sigma>)"
        "unat (g_seq seg2) + unat (g_len seg2) \<le> length \<sigma>"
      using 2(1) n by (simp_all add: seg_of_def)
    have o: "unat (g_seq seg2 - m_rcv_nxt s) = unat (g_seq seg2) - unat (m_rcv_nxt s)"
      using a(1) by (intro unat_sub_u32) (simp add: word_le_nat_alt)
    obtain r k f1 where w: "WriteOffset (m_rbuf s) (g_data seg2) (unat (g_len seg2)) (unat (g_seq seg2) - unat (m_rcv_nxt s)) = (r, k, f1)"
        "buffer_ok \<sigma> q f1 (unat (m_rcv_nxt s))" "saved_ok \<sigma> q f1 (unat (m_rcv_nxt s)) (m_rlist s)"
        "in_place \<sigma> q f1 (unat (g_seq seg2)) (unat (g_seq seg2) + unat (g_len seg2))"
      using write_segment_ok[OF b sv d a n] .
    define s1 where "s1 = s\<lparr>m_rbuf := f1\<rparr>"
    have s1: "m_rbuf s1 = f1" "m_rcv_nxt s1 = m_rcv_nxt s" "m_rlist s1 = m_rlist s" by (simp_all add: s1_def)
    have nc: "\<not> (g_flags seg2 AND FLAG_CTL \<noteq> 0 \<or> m_shutdown s \<noteq> SD_NONE)" using c 2(2) by simp
    have lt: "0 < g_len seg2" using False by (simp add: word_neq_0_conv)
    note P = p[unfolded process_data_def Let_def, folded seg1_def avail_def, folded seg2_def, unfolded if_P[OF lt] if_not_P[OF nc] o w(1) prod.case, folded s1_def]
    show ?thesis
    proof (cases "g_seq seg2 = m_rcv_nxt s")
      case False
      then have s': "s' = s1\<lparr>m_rlist := insert_rsegment \<lparr>r_seq = g_seq seg2, r_len = g_len seg2\<rparr> (m_rlist s1)\<rparr>"
        using P s1 by simp
      have "saved_ok \<sigma> q f1 (unat (m_rcv_nxt s)) (\<lparr>r_seq = g_seq seg2, r_len = g_len seg2\<rparr> # m_rlist s)"
        using w(3) in_place_mono[OF w(4)] d(3) by (simp add: saved_ok_def)
      then have "saved_ok \<sigma> q f1 (unat (m_rcv_nxt s)) (m_rlist s')"
        by (rule saved_ok_mono) (use set_insert_rsegment s1 s' in auto)
      then show ?thesis using w(2) s1 s' by (simp add: recv_inv_def)
    next
      case True
      have rs: "s' = snd (recover_segments (m_rlist (commit_bytes (g_len seg2) s1)) f (commit_bytes (g_len seg2) s1))"
        using P True s1 by (auto split: prod.splits)
      have i: "in_place \<sigma> q (m_rbuf s1) (unat (m_rcv_nxt s1)) (unat (m_rcv_nxt s1) + unat (g_len seg2))" using w(4) True s1 by simp
      have n: "unat (m_rcv_nxt s1) + unat (g_len seg2) \<le> length \<sigma>" using d(3) True s1 by simp
      have b1: "buffer_ok \<sigma> q (m_rbuf s1) (unat (m_rcv_nxt s1))" using w(2) s1 by simp
      note cb = commit_bytes_ok[OF b1 i n]
      have "m_rlist (commit_bytes (g_len seg2) s1) = m_rlist s" by (simp add: commit_bytes_def s1)
      then have "recv_inv \<sigma> q s' \<and> m_rcv_nxt (commit_bytes (g_len seg2) s1) \<le> m_rcv_nxt s'"
        unfolding rs using recover_segments_ok[OF cb(1) cb(3)] w(3) s1 by simp
      moreover have "m_rcv_nxt s \<le> m_rcv_nxt (commit_bytes (g_len seg2) s1)" using cb(2) s1(2) by (simp add: word_le_nat_alt)
      ultimately show ?thesis by (meson order_trans)
    qed
  qed
qed

section \<open>What touches the receive buffer\<close>

definition recv_part :: "PseudoTcp \<Rightarrow> FifoBuffer \<times> u32 \<times> RSegment list \<times> Shutdown" where
  "recv_part s = (m_rbuf s, m_rcv_nxt s, m_rlist s, m_shutdown s)"

lemma recv_part_inv: "recv_part s' = recv_part s \<Longrightarrow> recv_inv \<sigma> q s \<Longrightarrow> recv_inv \<sigma> q s'"
  by (simp add: recv_part_def recv_inv_cong)

lemma send_frame_recv: "send_frame s s' \<Longrightarrow> recv_part s' = recv_part s"
  by (simp add: recv_part_def send_frame_D)

lemma retransmit_recv: "retransmit E now s = Some (ok, s') \<Longrightarrow> recv_part s' = recv_part s"
proof -
  assume r: "retransmit E now s = Some (ok, s')"
  have "recv_part (closedown e s1) = recv_part s1" for e s1 by (simp add: closedown_def notify_def recv_part_def)
  then show ?thesis using r by (auto simp: retransmit_def split: option.splits if_split_asm dest!: transmit_frame send_frame_recv)
qed

lemma update_rtt_recv: "recv_part (update_rtt now e s) = recv_part s"
  by (simp add: update_rtt_def Let_def recv_part_def)

lemma new_ack_recv: "new_ack E now seg s = Some (ok, s') \<Longrightarrow> recv_part s' = recv_part s"
  using update_rtt_recv[of now "g_tsecr seg" s]
  by (auto simp: new_ack_def Let_def split: option.splits if_split_asm dest!: retransmit_recv) (simp_all add: recv_part_def)

lemma dup_ack_recv: "dup_ack E now seg s = Some (ok, s') \<Longrightarrow> recv_part s' = recv_part s"
  by (auto simp: dup_ack_def Let_def split: option.splits if_split_asm dest!: retransmit_recv) (simp_all add: recv_part_def)

lemma process_ack_recv: "process_ack E now seg s = Some (ok, s') \<Longrightarrow> recv_part s' = recv_part s"
  by (auto simp: process_ack_def split: if_split_asm intro: new_ack_recv dup_ack_recv)

lemma clock_recv:
  "clock_retransmit E now s = Some (ok, s') \<Longrightarrow> recv_part s' = recv_part s"
  "clock_probe E now s = Some (ok, s') \<Longrightarrow> recv_part s' = recv_part s"
  "clock_ack E now s = Some s' \<Longrightarrow> recv_part s' = recv_part s"
proof -
  show "clock_retransmit E now s = Some (ok, s') \<Longrightarrow> recv_part s' = recv_part s"
    by (auto simp: clock_retransmit_def Let_def split: option.splits if_split_asm dest!: retransmit_recv) (simp_all add: recv_part_def)
  show "clock_probe E now s = Some (ok, s') \<Longrightarrow> recv_part s' = recv_part s"
    by (auto simp: clock_probe_def Let_def closedown_def notify_def split: option.splits if_split_asm dest!: packet_frame send_frame_recv)
      (simp_all add: recv_part_def)
  show "clock_ack E now s = Some s' \<Longrightarrow> recv_part s' = recv_part s"
    by (auto simp: clock_ack_def split: if_split_asm dest!: packet_frame send_frame_recv)
qed

lemma NotifyClock_recv: "NotifyClock E now s = Some s' \<Longrightarrow> recv_part s' = recv_part s"
  by (auto simp: NotifyClock_def split: option.splits if_split_asm dest!: clock_recv)

lemma Send_recv: "Send E d s = Some (n, s') \<Longrightarrow> recv_part s' = recv_part s"
proof -
  assume s: "Send E d s = Some (n, s')"
  have q: "ptcp_queue d False s = (w, s1) \<Longrightarrow> recv_part s1 = recv_part s" for w s1
    by (auto simp: ptcp_queue_def Let_def recv_part_def split: prod.splits)
  show ?thesis
  proof (cases "m_state s = TCP_ESTABLISHED \<and> GetWriteRemaining (m_sbuf s) \<noteq> 0")
    case True
    obtain w s1 where 1: "ptcp_queue d False s = (w, s1)" by (cases "ptcp_queue d False s")
    then have "attemptSend E sfNone s1 = Some s'" using s True by (auto simp: Send_def Let_def)
    then show ?thesis using send_frame_recv[OF attemptSend_frame] q[OF 1] by simp
  next
    case False
    then show ?thesis using s by (auto simp: Send_def recv_part_def split: if_split_asm)
  qed
qed

lemma NotifyMTU_recv: "recv_part (NotifyMTU mtu s) = recv_part s"
  by (simp add: NotifyMTU_def adjustMTU_def Let_def recv_part_def)

lemma recover_segments_shutdown: "recover_segments rs f s = (f', s') \<Longrightarrow> m_shutdown s' = m_shutdown s"
  by (induction rs f s rule: recover_segments.induct) (auto simp: commit_bytes_def split: if_split_asm)

lemma process_data_shutdown: "process_data seg f s = (f', b, s') \<Longrightarrow> m_shutdown s' = m_shutdown s"
  by (auto simp: process_data_def Let_def commit_bytes_def split: if_split_asm prod.splits dest!: recover_segments_shutdown)

text \<open>A packet that is not a connect message.\<close>

definition data_packet :: "u8 list \<Rightarrow> u8 list \<Rightarrow> bool" where
  "data_packet \<sigma> p \<longleftrightarrow> seg_of \<sigma> (parse_segment p) \<and> g_flags (parse_segment p) AND FLAG_CTL = 0"

lemma process_recv:
  assumes inv: "recv_inv \<sigma> q s" and seg: "seg_of \<sigma> seg" "g_flags seg AND FLAG_CTL = 0" "m_shutdown s = SD_NONE"
    and p: "process E seg s = Some (ok, s')"
  shows "recv_inv \<sigma> q s' \<and> m_shutdown s' = SD_NONE \<and> m_rcv_nxt s \<le> m_rcv_nxt s'"
proof -
  define now where "now = e_now E (t_nows s)"
  define s0 where "s0 = s\<lparr>t_nows := Suc (t_nows s), m_lasttraffic := now, m_lastrecv := now, m_bOutgoing := False\<rparr>"
  have 0: "recv_part s0 = recv_part s" "m_state s0 = m_state s" by (simp_all add: s0_def recv_part_def)
  note d = p[unfolded process_def Now_def Let_def prod.case, folded now_def, folded s0_def]
  have pc: "process_control seg s0 = Some (False, s0)" using seg(2) by (simp add: process_control_def)
  have keep: "recv_part s1 = recv_part s \<Longrightarrow> recv_inv \<sigma> q s1 \<and> m_shutdown s1 = SD_NONE \<and> m_rcv_nxt s \<le> m_rcv_nxt s1" for s1
    using recv_part_inv[OF _ inv] seg(3) by (simp add: recv_part_def)
  show ?thesis
  proof (cases "g_conv seg \<noteq> m_conv s \<or> m_state s0 = TCP_CLOSED \<or> g_flags seg AND FLAG_RST \<noteq> 0")
    case True
    then have "s' = s \<or> s' = s0 \<or> s' = closedown ECONNRESET s0" using d by (auto split: if_split_asm)
    then have "recv_part s' = recv_part s" using 0 by (auto simp: closedown_def notify_def recv_part_def)
    then show ?thesis by (rule keep)
  next
    case False
    define s1 where "s1 = update_timestamp seg s0"
    have 1: "recv_part s1 = recv_part s" using 0 by (simp add: s1_def update_timestamp_def recv_part_def)
    obtain ok2 s2 where a: "process_ack E now seg s1 = Some (ok2, s2)"
      using d False pc by (auto simp: s1_def split: option.splits)
    have 2: "recv_part s2 = recv_part s" using process_ack_recv[OF a] 1 by simp
    show ?thesis
    proof (cases ok2)
      case False
      then have "s' = s2" using d \<open>\<not> (_ \<or> _)\<close> pc a by (simp add: s1_def)
      then show ?thesis using keep[OF 2] by simp
    next
      case True
      define s3 where "s3 = notify_writeable (if m_state s2 = TCP_SYN_RECEIVED then establish s2 else s2)"
      have 3: "recv_part s3 = recv_part s"
        using 2 by (simp add: s3_def notify_writeable_def establish_def adjustMTU_def notify_def Let_def recv_part_def)
      obtain f b s4 where p: "process_data seg (ack_flags seg s3) s3 = (f, b, s4)" by (cases "process_data seg (ack_flags seg s3) s3") auto
      have 4: "recv_inv \<sigma> q s4 \<and> m_rcv_nxt s3 \<le> m_rcv_nxt s4"
        using process_data_ok[OF recv_part_inv[OF 3 inv] seg(1,2) _ p] seg(3) 3 by (simp add: recv_part_def)
      have sh: "m_shutdown s4 = SD_NONE" using process_data_shutdown[OF p] 3 seg(3) by (simp add: recv_part_def)
      obtain s5 where s: "attemptSend E f s4 = Some s5" "recv_part s' = recv_part s5"
        using d False pc a True p by (auto simp: s1_def s3_def[symmetric] recv_part_def notify_def split: option.splits)
      have 5: "recv_part s' = recv_part s4" using s send_frame_recv[OF attemptSend_frame[OF s(1)]] by simp
      then show ?thesis using recv_part_inv[OF 5] 4 sh 3 by (simp add: recv_part_def)
    qed
  qed
qed

section \<open>Reading\<close>

lemma read_ok:
  assumes b: "buffer_ok \<sigma> q f p" and s: "saved_ok \<sigma> q f p rs" and n: "n \<le> f_data_length f"
  defines "f' \<equiv> ConsumeReadData f n"
  shows "buffer_ok \<sigma> (q + n) f' p" "saved_ok \<sigma> (q + n) f' p rs"
proof -
  have l: "f_data_length f = p - q" "fifo_inv f" "q \<le> p" "p - q \<le> buffer_length f"
    using buffer_ok_length[OF b] b by (auto simp: buffer_ok_def fifo_open_def)
  note c = ConsumeReadData_queue[OF l(2) n, folded f'_def]
  have "queue f' = drop (q + n) (take p \<sigma>)" using c(2) b by (simp add: buffer_ok_def add.commute)
  then show "buffer_ok \<sigma> (q + n) f' p" using b c n l by (simp add: buffer_ok_def fifo_open_def)
  have v: "view f' = rotate n (view f)"
    using advance_view[where f = f and n = n and m = "f_data_length f - n"] by (simp add: f'_def ConsumeReadData_def Let_def)
  have "in_place \<sigma> (q + n) f' a b" if i: "in_place \<sigma> q f a b" and a: "p \<le> a" for a b
    unfolding in_place_def c(3)
  proof (intro allI impI conjI)
    fix k assume k: "a \<le> k \<and> k < b"
    then have i': "k - q < buffer_length f" "view f ! (k - q) = \<sigma> ! k" using i by (simp_all add: in_place_def)
    have kn: "k - (q + n) + n = k - q" using k a n l by linarith
    show lt: "k - (q + n) < buffer_length f" using i'(1) by linarith
    show "view f' ! (k - (q + n)) = \<sigma> ! k"
      using i' lt kn unfolding v by (simp add: nth_rotate add.commute)
  qed
  then show "saved_ok \<sigma> (q + n) f' p rs" using s unfolding saved_ok_def by simp
qed

lemma Recv_ok:
  assumes inv: "recv_inv \<sigma> q s" and r: "Recv E n s = Some (x, d, s')"
  shows "recv_inv \<sigma> (q + length d) s' \<and> d = take (length d) (drop q \<sigma>) \<and> m_shutdown s' = m_shutdown s \<and>
    m_rcv_nxt s' = m_rcv_nxt s"
proof (cases "m_state s = TCP_ESTABLISHED \<and> GetBuffered (m_rbuf s) \<noteq> 0")
  case False
  have "recv_part s' = recv_part s \<and> d = []"
    using r False inv FifoRead_queue[of "m_rbuf s" n]
    by (auto simp: Recv_def Let_def recv_part_def GetBuffered_def recv_inv_def buffer_ok_def fifo_open_def split: if_split_asm)
  then show ?thesis using recv_part_inv[of s' s] inv by (simp add: recv_part_def)
next
  case True
  have b: "buffer_ok \<sigma> q (m_rbuf s) (unat (m_rcv_nxt s))" and sv: "saved_ok \<sigma> q (m_rbuf s) (unat (m_rcv_nxt s)) (m_rlist s)"
    using inv by (simp_all add: recv_inv_def)
  have fi: "fifo_inv (m_rbuf s)" "queue (m_rbuf s) = drop q (take (unat (m_rcv_nxt s)) \<sigma>)"
    using b by (simp_all add: buffer_ok_def fifo_open_def)
  define m where "m = min n (f_data_length (m_rbuf s))"
  define s1 where "s1 = s\<lparr>m_rbuf := ConsumeReadData (m_rbuf s) m\<rparr>"
  have rd: "FifoRead (m_rbuf s) n = (SR_SUCCESS, take n (queue (m_rbuf s)), ConsumeReadData (m_rbuf s) m)"
    using FifoRead_queue[OF fi(1), of n] True by (simp add: GetBuffered_def m_def)
  have s1: "recv_part s' = recv_part s1 \<and> d = take n (queue (m_rbuf s))"
  proof -
    have t: "attemptSend E fl (s1\<lparr>m_rcv_wnd := w\<rparr>) = Some s' \<Longrightarrow> recv_part s' = recv_part s1" for fl w
      using send_frame_recv[OF attemptSend_frame, of E fl "s1\<lparr>m_rcv_wnd := w\<rparr>" s'] by (simp add: recv_part_def)
    show ?thesis using r True unfolding Recv_def Let_def rd prod.case s1_def[symmetric]
      by (auto split: if_split_asm dest!: t) (simp_all add: recv_part_def)
  qed
  have ld: "length d = m" using s1 fi(1) by (simp add: m_def min.commute)
  have "recv_inv \<sigma> (q + m) s1"
    using read_ok[OF b sv, of m] by (simp add: recv_inv_def s1_def m_def)
  moreover have "d = take (length d) (drop q \<sigma>)"
  proof -
    have "d = take n (take (unat (m_rcv_nxt s) - q) (drop q \<sigma>))" using s1 fi(2) by (simp add: drop_take)
    then show ?thesis by (metis append_take_drop_id take_all_append take_take length_take)
  qed
  moreover have "recv_part s' = recv_part s1" using s1 by blast
  ultimately show ?thesis using recv_part_inv[of s' s1] unfolding ld by (simp add: recv_part_def s1_def)
qed

section \<open>Runs of the receiver\<close>

fun call_data :: "Env \<Rightarrow> PtcpCall \<Rightarrow> PseudoTcp \<Rightarrow> u8 list" where
  "call_data E (CallRecv n) s = (case Recv E n s of None \<Rightarrow> [] | Some (_, d, _) \<Rightarrow> d)"
| "call_data E _ s = []"

text \<open>A run with the bytes the application reads.\<close>

fun ptcp_deliver :: "Env \<Rightarrow> PtcpCall list \<Rightarrow> PseudoTcp \<Rightarrow> (u8 list \<times> PseudoTcp) option" where
  "ptcp_deliver E [] s = Some ([], s)"
| "ptcp_deliver E (c # cs) s =
     (case ptcp_call E c s of
        None \<Rightarrow> None
      | Some s' \<Rightarrow> map_option (\<lambda>(d, s''). (call_data E c s @ d, s'')) (ptcp_deliver E cs s'))"

text \<open>The calls of an established connection whose peer sends pieces of \<open>\<sigma>\<close>.\<close>

fun stream_call :: "u8 list \<Rightarrow> PtcpCall \<Rightarrow> bool" where
  "stream_call \<sigma> (CallNotifyPacket p) = data_packet \<sigma> p"
| "stream_call \<sigma> (CallSetOption opt v) = (opt \<noteq> OPT_RCVBUF)"
| "stream_call \<sigma> (CallClose force) = False"
| "stream_call \<sigma> CallConnect = False"
| "stream_call \<sigma> _ = True"

lemma stream_call_ok:
  assumes inv: "recv_inv \<sigma> q s" and sd: "m_shutdown s = SD_NONE" and c: "stream_call \<sigma> c" "ptcp_call E c s = Some s'"
  defines "d \<equiv> call_data E c s"
  shows "recv_inv \<sigma> (q + length d) s' \<and> m_shutdown s' = SD_NONE \<and> d = take (length d) (drop q \<sigma>) \<and> m_rcv_nxt s \<le> m_rcv_nxt s'"
proof -
  have k: "recv_part s' = recv_part s \<Longrightarrow> d = [] \<Longrightarrow> ?thesis"
    using recv_part_inv[of s' s] inv sd by (simp add: recv_part_def)
  show ?thesis
  proof (cases c)
    case (CallNotifyMTU m)
    then show ?thesis using c NotifyMTU_recv[of m s] by (intro k) (auto simp: d_def)
  next
    case (CallNotifyClock n)
    then show ?thesis using c NotifyClock_recv[of E n s s'] by (intro k) (auto simp: d_def)
  next
    case (CallNotifyPacket p)
    then obtain ok where n: "NotifyPacket E p s = Some (ok, s')" using c(2) by auto
    have d: "d = []" by (simp add: d_def CallNotifyPacket)
    show ?thesis
    proof (cases "process E (parse_segment p) s = Some (ok, s')")
      case True
      then show ?thesis using process_recv[OF inv _ _ sd True] c(1) CallNotifyPacket d by (simp add: data_packet_def)
    next
      case False
      then have "s' = s" using n by (auto simp: NotifyPacket_def parse_def split: if_split_asm)
      then show ?thesis using d by (intro k) simp_all
    qed
  next
    case (CallSetOption opt v)
    then have "recv_part s' = recv_part s" using c
      by (cases opt) (auto simp: SetOption_def resizeSendBuffer_def recv_part_def)
    then show ?thesis by (rule k) (simp add: d_def CallSetOption)
  next
    case (CallRecv n)
    then obtain x e where "Recv E n s = Some (x, e, s')" using c(2) by auto
    then show ?thesis using Recv_ok[OF inv, of E n x e s'] sd CallRecv by (simp add: d_def)
  next
    case (CallSend b)
    then obtain n where "Send E b s = Some (n, s')" using c(2) by auto
    then show ?thesis using Send_recv by (intro k) (auto simp: d_def CallSend)
  qed (use c in simp_all)
qed

lemma ptcp_deliver_ok:
  "recv_inv \<sigma> q s \<Longrightarrow> m_shutdown s = SD_NONE \<Longrightarrow> \<forall>c\<in>set cs. stream_call \<sigma> c \<Longrightarrow> ptcp_deliver E cs s = Some (d, s') \<Longrightarrow>
   recv_inv \<sigma> (q + length d) s' \<and> d = take (length d) (drop q \<sigma>) \<and> m_rcv_nxt s \<le> m_rcv_nxt s'"
proof (induction cs arbitrary: q s d)
  case (Cons c cs)
  obtain s1 where 1: "ptcp_call E c s = Some s1" using Cons.prems(4) by (auto split: option.splits)
  define d1 where "d1 = call_data E c s"
  obtain d2 where 2: "ptcp_deliver E cs s1 = Some (d2, s')" "d = d1 @ d2"
    using Cons.prems(4) 1 by (auto simp: d1_def)
  have 3: "recv_inv \<sigma> (q + length d1) s1 \<and> m_shutdown s1 = SD_NONE \<and> d1 = take (length d1) (drop q \<sigma>) \<and> m_rcv_nxt s \<le> m_rcv_nxt s1"
    using stream_call_ok[OF Cons.prems(1,2) _ 1] Cons.prems(3) unfolding d1_def by simp
  have 4: "recv_inv \<sigma> (q + length d1 + length d2) s' \<and> d2 = take (length d2) (drop (q + length d1) \<sigma>) \<and> m_rcv_nxt s1 \<le> m_rcv_nxt s'"
    by (rule Cons.IH[OF _ _ _ 2(1)]) (use 3 Cons.prems(3) in simp_all)
  have "take (length d1 + length d2) (drop q \<sigma>) = take (length d1) (drop q \<sigma>) @ take (length d2) (drop (q + length d1) \<sigma>)"
    by (simp add: take_add add.commute)
  then have t: "d = take (length d1 + length d2) (drop q \<sigma>)" using 2(2) 3 4 by metis
  have ld: "length d = length d1 + length d2" using 2(2) by simp
  have "m_rcv_nxt s \<le> m_rcv_nxt s'" using 3 4 by (meson order_trans)
  then show ?case unfolding ld using 4 t by (simp only: add.assoc simp_thms)
qed simp

section \<open>A data packet with nothing new to acknowledge\<close>

definition send_part where
  "send_part s = (m_slist s, m_sbuf s, m_snd_una s, m_snd_nxt s, m_mss s, m_msslevel s, m_state s, m_conv s, m_swnd_scale s)"

lemma send_part_inv: "send_part s' = send_part s \<Longrightarrow> send_inv s \<Longrightarrow> send_inv s'"
  by (simp add: send_part_def send_inv_def mss_ok_def)

lemma recover_segments_send: "recover_segments rs f s = (f', s') \<Longrightarrow> send_part s' = send_part s"
  by (induction rs f s rule: recover_segments.induct) (auto simp: commit_bytes_def send_part_def split: if_split_asm)

lemma process_data_send: "process_data seg f s = (f', b, s') \<Longrightarrow> send_part s' = send_part s"
  by (auto simp: process_data_def Let_def commit_bytes_def split: if_split_asm prod.splits dest!: recover_segments_send)
    (simp_all add: send_part_def)

lemma NotifyPacket_returns:
  fixes p :: "u8 list"
  defines "seg \<equiv> parse_segment p"
  assumes inv: "send_inv s" and st: "m_state s = TCP_ESTABLISHED" "unat (m_swnd_scale s) < 32"
    and seg: "g_conv seg = m_conv s" "g_flags seg = 0" "g_ack seg = m_snd_una s" "0 < g_len seg" "24 \<le> length p" "length p \<le> 65535"
  obtains s' where "NotifyPacket E p s = Some (True, s')" "send_inv s'" "m_state s' = TCP_ESTABLISHED"
    "m_swnd_scale s' = m_swnd_scale s" "m_conv s' = m_conv s" "m_snd_una s' = m_snd_una s"
proof -
  define now where "now = e_now E (t_nows s)"
  define s0 where "s0 = s\<lparr>t_nows := Suc (t_nows s), m_lasttraffic := now, m_lastrecv := now, m_bOutgoing := False\<rparr>"
  define s1 where "s1 = (update_timestamp seg s0)\<lparr>m_snd_wnd := push_bit (unat (m_swnd_scale s)) (ucast (g_wnd seg))\<rparr>"
  define s2 where "s2 = notify_writeable s1"
  obtain f b s3 where pd: "process_data seg (ack_flags seg s2) s2 = (f, b, s3)" by (cases "process_data seg (ack_flags seg s2) s2") auto
  have sp: "send_part s0 = send_part s" "send_part s1 = send_part s" "send_part s2 = send_part s"
    by (simp_all add: s0_def s1_def s2_def update_timestamp_def notify_writeable_def notify_def Let_def send_part_def)
  then have sp3: "send_part s3 = send_part s" using process_data_send[OF pd] by simp
  obtain s4 where a: "attemptSend E f s3 = Some s4" "send_step s3 s4" using attemptSend_ok[OF send_part_inv[OF sp3 inv]] by blast
  define s' where "s' = (if b \<and> m_bReadEnable s4 then notify OnTcpReadable (s4\<lparr>m_bReadEnable := False\<rparr>) else s4)"
  have m: "m_state s1 = TCP_ESTABLISHED" "m_swnd_scale (update_timestamp seg s0) = m_swnd_scale s" "m_snd_una (update_timestamp seg s0) = m_snd_una s"
      "m_state s0 = TCP_ESTABLISHED"
    using sp st by (simp_all add: send_part_def s1_def s0_def update_timestamp_def)
  have da: "process_ack E now seg (update_timestamp seg s0) = Some (True, s1)"
    using seg(3,4) st(2) m by (simp add: process_ack_def dup_ack_def scaled_window_def s1_def)
  have "process E seg s = Some (True, s')"
    unfolding process_def Now_def Let_def prod.case using seg(1,2) m(1,4) da pd a(1)
    by (simp add: now_def[symmetric] s0_def[symmetric] process_control_def s2_def[symmetric] s'_def)
  then have "NotifyPacket E p s = Some (True, s')" using seg(5,6) by (simp add: NotifyPacket_def parse_def ptcp_sizes seg_def)
  moreover have "send_inv s'"
    using a(2) send_part_inv[of s' s4] by (auto simp: send_step_def s'_def send_part_def notify_def)
  moreover have "m_state s' = m_state s \<and> m_swnd_scale s' = m_swnd_scale s \<and> m_conv s' = m_conv s \<and> m_snd_una s' = m_snd_una s"
    using sp3 send_frame_D[OF attemptSend_frame[OF a(1)]] by (simp add: send_part_def s'_def)
  ultimately show ?thesis using that st by simp
qed

lemma Recv_returns: "send_inv s \<Longrightarrow> Recv E n s \<noteq> None"
proof -
  assume inv: "send_inv s"
  have t: "attemptSend E fl (s\<lparr>m_rbuf := b, m_rcv_wnd := w\<rparr>) \<noteq> None" for fl b w
    using attemptSend_ok[OF send_part_inv[OF _ inv], of "s\<lparr>m_rbuf := b, m_rcv_wnd := w\<rparr>" E fl] by (auto simp: send_part_def)
  show ?thesis using t by (simp add: Recv_def Let_def split: prod.split)
qed

section \<open>Properties\<close>

text \<open>C5: whatever pieces of the peer's stream arrive, in whatever order, overlapping, repeated or with
  some missing, and whatever the clock and the sending side do meanwhile, the application reads the
  stream from where it stood, in order and without a gap, and what is buffered continues it.\<close>
theorem ptcp_stream_integrity:
  assumes "recv_inv \<sigma> q s" "m_shutdown s = SD_NONE" "\<forall>c\<in>set cs. stream_call \<sigma> c" "ptcp_deliver E cs s = Some (d, s')"
  shows "d = take (length d) (drop q \<sigma>) \<and> m_rcv_nxt s \<le> m_rcv_nxt s' \<and>
    queue (m_rbuf s') = drop (q + length d) (take (unat (m_rcv_nxt s')) \<sigma>)"
  using ptcp_deliver_ok[OF assms] by (auto simp: recv_inv_def buffer_ok_def)

definition example_receiver :: PseudoTcp where
  "example_receiver = (PseudoTcp_new example_env 7)\<lparr>m_state := TCP_ESTABLISHED, m_rbuf := FifoBuffer_new 8\<rparr>"

lemma example_receiver_ok:
  "length \<sigma> < 2 ^ 32 \<Longrightarrow> recv_inv \<sigma> 0 example_receiver" "m_shutdown example_receiver = SD_NONE" "send_inv example_receiver"
  "m_state example_receiver = TCP_ESTABLISHED" "m_conv example_receiver = 7" "m_snd_una example_receiver = 0" "m_swnd_scale example_receiver = 0"
proof -
  show "length \<sigma> < 2 ^ 32 \<Longrightarrow> recv_inv \<sigma> 0 example_receiver"
    using FifoBuffer_new_ok[of 8]
    by (simp add: recv_inv_def example_receiver_def PseudoTcp_new_def Let_def saved_ok_def buffer_ok_def fifo_open_def)
      (simp add: FifoBuffer_new_def)
  have "fifo_open (FifoBuffer_new n) \<and> buffer_length (FifoBuffer_new n) = n \<and> GetBuffered (FifoBuffer_new n) = 0" if "0 < n" for n
    using FifoBuffer_new_ok(1)[OF that] FifoBuffer_new_ok(3)[of n] by (simp add: fifo_open_def) (simp add: FifoBuffer_new_def GetBuffered_def)
  from this[of 92160] show "send_inv example_receiver"
    by (simp add: send_inv_def example_receiver_def PseudoTcp_new_def Let_def ptcp_sizes sent_first_def unsent_part_def sent_part_def mss_ok_def)
qed (simp_all add: example_receiver_def PseudoTcp_new_def Let_def)

lemma ptcp_stream_integrity_witness:
  "\<exists>d s'. ptcp_deliver example_env [CallNotifyPacket (packet_header 7 3 0 0 500 0 0 @ [4, 5]),
      CallNotifyPacket (packet_header 7 0 0 0 500 0 0 @ [1, 2, 3]), CallRecv 4] example_receiver = Some (d, s') \<and>
    d = take (length d) [1, 2, 3, 4, 5]"
proof -
  let ?p1 = "packet_header 7 3 0 0 500 0 0 @ [4, 5]" and ?p2 = "packet_header 7 0 0 0 500 0 0 @ [1, 2, 3]"
  let ?cs = "[CallNotifyPacket ?p1, CallNotifyPacket ?p2, CallRecv 4]"
  obtain s1 where 1: "NotifyPacket example_env ?p1 example_receiver = Some (True, s1)" "send_inv s1" "m_state s1 = TCP_ESTABLISHED"
      "m_swnd_scale s1 = 0" "m_conv s1 = 7" "m_snd_una s1 = 0"
    by (rule NotifyPacket_returns[of example_receiver ?p1 example_env]) (simp_all add: example_receiver_ok parse_packet_header)
  obtain s2 where 2: "NotifyPacket example_env ?p2 s1 = Some (True, s2)" "send_inv s2"
    by (rule NotifyPacket_returns[of s1 ?p2 example_env]) (use 1 in \<open>simp_all add: parse_packet_header\<close>)
  have "Recv example_env 4 s2 \<noteq> None" by (rule Recv_returns[OF 2(2)])
  then obtain d s' where r: "ptcp_deliver example_env ?cs example_receiver = Some (d, s')"
    using 1(1) 2(1) by auto
  have "\<forall>c\<in>set ?cs. stream_call [1, 2, 3, 4, 5] c"
    by (simp add: data_packet_def parse_packet_header seg_of_def)
  from ptcp_stream_integrity[OF example_receiver_ok(1,2) this r] show ?thesis using r by auto
qed

text \<open>Between two ends.\<close>

definition wrote :: "PseudoTcp \<Rightarrow> PseudoTcp \<Rightarrow> u8 list \<Rightarrow> bool" where
  "wrote s s' p \<longleftrightarrow> (\<exists>r. TcpWritePacket p r \<in> set (drop (length (t_log s)) (t_log s')))"

lemma carries_seg_of:
  assumes "carries s p" "queue (m_sbuf s) = drop (unat (m_snd_una s)) \<sigma>" "length \<sigma> < 2 ^ 32"
  shows "seg_of \<sigma> (parse_segment p)"
proof -
  define seg where "seg = parse_segment p"
  define o' where "o' = unat (g_seq seg - m_snd_una s)"
  have c: "length (g_data seg) = unat (g_len seg)" "g_data seg = take (unat (g_len seg)) (drop o' (queue (m_sbuf s)))"
    using assms(1) unfolding carries_def Let_def seg_def[symmetric] o'_def[symmetric] by blast+
  show ?thesis
  proof (cases "unat (g_len seg) = 0")
    case False
    have d: "g_data seg = take (unat (g_len seg)) (drop (unat (m_snd_una s) + o') \<sigma>)" using c(2) assms(2) by (simp add: add.commute)
    then have "length (g_data seg) = min (unat (g_len seg)) (length \<sigma> - (unat (m_snd_una s) + o'))" by simp
    then have le: "unat (m_snd_una s) + o' + unat (g_len seg) \<le> length \<sigma>" using c(1) False by linarith
    then have "unat (m_snd_una s + (g_seq seg - m_snd_una s)) = unat (m_snd_una s) + o'"
      using assms(3) unfolding o'_def by (intro unat_add_u32) simp
    then have "unat (g_seq seg) = unat (m_snd_una s) + o'" by simp
    then show ?thesis using le d c(1) by (simp add: seg_of_def seg_def[symmetric])
  qed (simp add: seg_of_def seg_def[symmetric])
qed

lemma wrote_seg_of:
  assumes "send_inv s" "attemptSend E f s = Some s'" "wrote s s' p"
    "queue (m_sbuf s) = drop (unat (m_snd_una s)) \<sigma>" "length \<sigma> < 2 ^ 32"
  shows "seg_of \<sigma> (parse_segment p)"
proof (rule carries_seg_of[OF _ assms(4,5)])
  have "sends_buffer s s'" using attemptSend_ok[OF assms(1), of E f] assms(2) by (simp add: send_step_def)
  then obtain evs where e: "t_log s' = t_log s @ evs" "\<forall>p r. TcpWritePacket p r \<in> set evs \<longrightarrow> carries s p"
    unfolding sends_buffer_def by blast
  moreover have "\<exists>r. TcpWritePacket p r \<in> set evs" using assms(3) e(1) by (simp add: wrote_def)
  ultimately show "carries s p" by blast
qed

text \<open>A sender with six bytes queued and nothing in flight, and what it writes.\<close>

definition example_queued :: PseudoTcp where
  "example_queued = example_sender\<lparr>m_slist := [\<lparr>s_seq = 0, s_len = 6, s_xmit = 0, s_bCtrl = False\<rparr>], m_snd_nxt := 0\<rparr>"

lemma example_queued_simps [simp]:
  "m_state example_queued = TCP_ESTABLISHED" "m_snd_una example_queued = 0" "m_snd_nxt example_queued = 0"
  "m_sbuf example_queued = \<lparr>f_state = SS_OPEN, f_buffer = [1, 2, 3, 4, 5, 6, 0, 0], f_data_length = 6, f_read_position = 0, f_posted = []\<rparr>"
  "m_slist example_queued = [\<lparr>s_seq = 0, s_len = 6, s_xmit = 0, s_bCtrl = False\<rparr>]"
  "m_snd_wnd example_queued = 1000" "m_dup_acks example_queued = 0" "m_cwnd example_queued = 360" "m_mss example_queued = 180"
  "m_msslevel example_queued = 0" "t_nows example_queued = 1" "t_log example_queued = []" "m_lastsend example_queued = 1000"
  "m_rx_rto example_queued = 3000" "m_conv example_queued = 7" "m_rcv_nxt example_queued = 0" "m_rwnd_scale example_queued = 0"
  "m_rcv_wnd example_queued = 61440" "m_ts_recent example_queued = 0" "m_use_nagling example_queued = True" "m_rto_base example_queued = 0"
  by (simp_all add: example_queued_def example_sender_def PseudoTcp_new_def Let_def ptcp_sizes ptcp_times example_env_def)

lemma example_queued_inv: "send_inv example_queued"
  by (simp add: send_inv_def fifo_open_def fifo_inv_def buffer_length_def GetBuffered_def sent_first_def
      unsent_part_def sent_part_def mss_ok_def)

lemma example_queued_sends:
  "\<exists>s'. attemptSend example_env sfNone example_queued = Some s' \<and>
    t_log s' = [TcpWritePacket (packet_header 7 0 0 0 61440 1002 0 @ [1, 2, 3, 4, 5, 6]) WR_SUCCESS]"
proof -
  have r: "snd (ReadOffset (m_sbuf example_queued) 6 0) = [1, 2, 3, 4, 5, 6]"
    by (subst ReadOffset_queue) (simp_all add: fifo_inv_def buffer_length_def queue_def view_def)
  have e: "e_now example_env n = 1000 + of_nat n" "e_write example_env l p = WR_SUCCESS" for n l p
    by (simp_all add: example_env_def)
  show ?thesis using r
    by (simp add: attemptSend_def Now_def e attemptSend_loop.simps attemptSend_round_def available_to_send_def congestion_window_def
      GetBuffered_def Let_def transmit_def split_segment_def transmit_loop.simps packet_def TimeDiff_def notify_def ptcp_sizes)
qed
text \<open>A call of the receiver in which every packet that arrives is one the sender wrote.\<close>

fun relay_call :: "u8 list \<Rightarrow> PseudoTcp \<Rightarrow> PseudoTcp \<Rightarrow> PtcpCall \<Rightarrow> bool" where
  "relay_call \<sigma> a a' (CallNotifyPacket p) = (wrote a a' p \<and> g_flags (parse_segment p) AND FLAG_CTL = 0)"
| "relay_call \<sigma> a a' c = stream_call \<sigma> c"

text \<open>C1: a sender whose buffer holds the stream from its first unacknowledged byte, and a receiver at
  any position of the same stream: whichever of the packets one \<^verbatim>\<open>attemptSend\<close> writes arrive, in
  whatever order and however often, the receiving application reads the stream in order.\<close>
theorem ptcp_end_to_end:
  assumes "send_inv a" "queue (m_sbuf a) = drop (unat (m_snd_una a)) \<sigma>" "length \<sigma> < 2 ^ 32"
    "attemptSend Ea sflags a = Some a'"
    "recv_inv \<sigma> q b" "m_shutdown b = SD_NONE" "\<forall>c\<in>set cs. relay_call \<sigma> a a' c" "ptcp_deliver Eb cs b = Some (d, b')"
  shows "d = take (length d) (drop q \<sigma>)"
proof -
  have "stream_call \<sigma> c" if "relay_call \<sigma> a a' c" for c
    using that wrote_seg_of[OF assms(1,4) _ assms(2,3)] by (cases c) (simp_all add: data_packet_def)
  then have "\<forall>c\<in>set cs. stream_call \<sigma> c" using assms(7) by blast
  then show ?thesis using ptcp_deliver_ok[OF assms(5,6) _ assms(8)] by blast
qed

lemma ptcp_end_to_end_witness:
  "\<exists>a' d b'. attemptSend example_env sfNone example_queued = Some a' \<and>
    ptcp_deliver example_env [CallNotifyPacket (packet_header 7 0 0 0 61440 1002 0 @ [1, 2, 3, 4, 5, 6]), CallRecv 6] example_receiver = Some (d, b') \<and>
    d = take (length d) [1, 2, 3, 4, 5, 6]"
proof -
  let ?p = "packet_header 7 0 0 0 61440 1002 0 @ [1, 2, 3, 4, 5, 6]"
  obtain a' where a: "attemptSend example_env sfNone example_queued = Some a'" "t_log a' = [TcpWritePacket ?p WR_SUCCESS]"
    using example_queued_sends by blast
  obtain s1 where 1: "NotifyPacket example_env ?p example_receiver = Some (True, s1)" "send_inv s1"
    by (rule NotifyPacket_returns[of example_receiver ?p example_env]) (simp_all add: example_receiver_ok parse_packet_header)
  have "Recv example_env 6 s1 \<noteq> None" by (rule Recv_returns[OF 1(2)])
  then obtain d b' where r: "ptcp_deliver example_env [CallNotifyPacket ?p, CallRecv 6] example_receiver = Some (d, b')"
    using 1(1) by auto
  have "queue (m_sbuf example_queued) = drop (unat (m_snd_una example_queued)) [1, 2, 3, 4, 5, 6]"
    by (simp add: queue_def view_def)
  moreover have "\<forall>c\<in>set [CallNotifyPacket ?p, CallRecv 6]. relay_call [1, 2, 3, 4, 5, 6] example_queued a' c"
    using a(2) by (simp add: wrote_def parse_packet_header)
  ultimately show ?thesis
    using ptcp_end_to_end[OF example_queued_inv _ _ a(1) example_receiver_ok(1,2) _ r] a(1) r by auto
qed

end
