(* ===== verification/Spec2Isabelle.thy ===== *)
theory Spec2Isabelle
  imports ByteBuf FifoBuf Crc32 Sha1 Md5 StringEncode MsgDigest Base64 IpAddr SockAddr StunAttr StunMsg StunProps StunSafety StunRequests IcePort IceConnection IceChannel IceChannelInv IceChannelRun IceChannelAuth IceChannelProps TimeUtils RtpUtils StreamParams MuxFilters Srtp PseudoTcp PtcpFrame PtcpProps PtcpSender PtcpReceiver
begin

text \<open>
  A verification library for \<^verbatim>\<open>libjingle\<close>, the C++ library under \<^verbatim>\<open>src/talk\<close> that the
  iOS demo of this repository links for its calls: the peer-to-peer transport, the secure real-time
  media below the codecs, and the byte-level code both stand on.

  \<^bold>\<open>The program and its parts.\<close> A call runs over channels. A \<^verbatim>\<open>P2PTransportChannel\<close> pairs the local
  ports of the machine with the candidates the other side has signalled; every pair is a
  \<^verbatim>\<open>Connection\<close>. Connections check each other with STUN binding requests that carry an HMAC-SHA1
  under the password of the receiving port; the channel sends its data on the best connection and prunes
  the others. What arrives is either media, which goes through the SSRC and RTCP-mux filters and SRTP, or the
  datagrams of a \<^verbatim>\<open>PseudoTcp\<close> stream. The model has one theory per part, from the bottom up; an
  import is a call.

  \<^bold>\<open>Bytes and digests\<close> (\<^verbatim>\<open>talk/base\<close>).
  \<^item> \<^verbatim>\<open>Prelude\<close>: machine integers as words, memory blocks as byte lists, big-endian numbers and the
    lemmas on them that all parts share.
  \<^item> \<^verbatim>\<open>ByteOrder\<close>: \<^verbatim>\<open>byteorder.h\<close>, on a little-endian host.
  \<^item> \<^verbatim>\<open>ByteBuf\<close>: \<^verbatim>\<open>ByteBuffer\<close> of \<^verbatim>\<open>bytebuffer.cc\<close> with its positions and growth. The locale
    \<open>byte_stream\<close> is what the parsers rely on, interpreted on the model.
  \<^item> \<^verbatim>\<open>FifoBuf\<close>: the circular \<^verbatim>\<open>FifoBuffer\<close> of \<^verbatim>\<open>stream.cc\<close>; the locales \<open>byte_fifo\<close> and its
    extension \<open>byte_window\<close> are what the stream protocol relies on.
  \<^item> \<^verbatim>\<open>Crc32\<close>, \<^verbatim>\<open>BlockHash\<close>, \<^verbatim>\<open>Sha1\<close>, \<^verbatim>\<open>Md5\<close>, \<^verbatim>\<open>MsgDigest\<close>: \<^verbatim>\<open>crc32.cc\<close>, \<^verbatim>\<open>sha1.cc\<close>, \<^verbatim>\<open>md5.cc\<close>,
    \<^verbatim>\<open>messagedigest.cc\<close>. Both hashes are interpretations of the locale \<open>digest_law\<close>: a digest depends on the
    bytes alone, not on how they were cut into updates.
  \<^item> \<^verbatim>\<open>StringEncode\<close>, \<^verbatim>\<open>Base64\<close>: the hexadecimal and base-64 codecs of \<^verbatim>\<open>stringencode.cc\<close> and \<^verbatim>\<open>base64.cc\<close>.
  \<^item> \<^verbatim>\<open>IpAddr\<close>, \<^verbatim>\<open>SockAddr\<close>: \<^verbatim>\<open>ipaddress.cc\<close> and \<^verbatim>\<open>socketaddress.cc\<close>. \<^verbatim>\<open>TimeUtils\<close>: the wrap-around time
    stamps of \<^verbatim>\<open>timeutils.cc\<close>.

  \<^bold>\<open>STUN and ICE\<close> (\<^verbatim>\<open>talk/p2p/base\<close>).
  \<^item> \<^verbatim>\<open>StunAttr\<close>, \<^verbatim>\<open>StunMsg\<close>: the attribute and message classes of \<^verbatim>\<open>stun.cc\<close>; an attribute is its type, its
    length and a value, a message class is an argument of the functions that are virtual. \<^verbatim>\<open>StunProps\<close> has what
    holds of messages the code has built (round trips, the integrity and fingerprint of a completed message),
    \<^verbatim>\<open>StunSafety\<close> what holds of any bytes.
  \<^item> \<^verbatim>\<open>StunRequests\<close>: \<^verbatim>\<open>stunrequest.cc\<close>, the retransmission of requests. The thread is the list of its delayed
    messages with their due times, and \<open>Dispatch\<close> is one turn of it.
  \<^item> \<^verbatim>\<open>IcePort\<close>: the part of \<^verbatim>\<open>port.cc\<close> that builds, accepts, refuses and answers checks.
  \<^item> \<^verbatim>\<open>IceConnection\<close>: \<^verbatim>\<open>Connection\<close> of \<^verbatim>\<open>port.cc\<close>, with \<open>conn_run\<close> for any sequence of its operations.
  \<^item> \<^verbatim>\<open>IceChannel\<close>: \<^verbatim>\<open>p2ptransportchannel.cc\<close>, with the connection table and the life time of a port and the
    connections and packets of a \<^verbatim>\<open>UDPPort\<close>; \<open>chan_run\<close> is any sequence of packets, timer messages and calls of
    the owner. \<^verbatim>\<open>IceChannelInv\<close> and \<^verbatim>\<open>IceChannelRun\<close> have the invariant of its pointers and that every operation
    keeps it, \<^verbatim>\<open>IceChannelAuth\<close> who can bring the channel up, \<^verbatim>\<open>IceChannelProps\<close> the rest of what it promises.

  \<^bold>\<open>The stream over datagrams\<close> (\<^verbatim>\<open>talk/p2p/base/pseudotcp.cc\<close>).
  \<^item> \<^verbatim>\<open>PtcpState\<close>, \<^verbatim>\<open>PtcpSend\<close>, \<^verbatim>\<open>PtcpRecv\<close>, \<^verbatim>\<open>PseudoTcp\<close>: the state, the sending side, the receiving side and the
    entry points of \<^verbatim>\<open>PseudoTcp\<close>. The clock and the answers of the network are the environment \<open>Env\<close>.
  \<^item> \<^verbatim>\<open>PtcpFrame\<close> has what each operation leaves alone, \<^verbatim>\<open>PtcpProps\<close> what holds of all runs, \<^verbatim>\<open>PtcpSender\<close> the
    invariant of the segment list against the send buffer, \<^verbatim>\<open>PtcpReceiver\<close> the invariant of the receive
    buffer against the stream of the peer, and the composition of both ends.

  \<^bold>\<open>Media\<close> (\<^verbatim>\<open>talk/media/base\<close>, \<^verbatim>\<open>talk/session/media\<close>).
  \<^item> \<^verbatim>\<open>RtpUtils\<close>: \<^verbatim>\<open>rtputils.cc\<close>. \<^verbatim>\<open>StreamParams\<close>: \<^verbatim>\<open>streamparams.cc\<close>. \<^verbatim>\<open>MuxFilters\<close>: \<^verbatim>\<open>ssrcmuxfilter.cc\<close> and
    \<^verbatim>\<open>rtcpmuxfilter.cc\<close>. \<^verbatim>\<open>Srtp\<close>: \<^verbatim>\<open>srtpfilter.cc\<close>, with the functions of libsrtp as a parameter.

  \<^bold>\<open>How the code is written here.\<close> A class is a record with the class's members; a method is a function that
  returns the new object, an out parameter is another result. Integers have the width of the code and wrap where
  it wraps. A result \<open>None\<close> stands for an access the code must not make (out of a buffer, through a null or
  dangling pointer, of an indeterminate value), so a theorem that a result is not \<open>None\<close> is a theorem of memory
  safety; a failure the code reports is a value. Pointers between connections, ports and channel are numbers of
  objects in a store, which are never used again. Signals, packets and posted messages are logs in the state. Random
  identifiers, the clock and the answers of the system are arguments of the operation that draws them.

  \<^bold>\<open>What the lemmas show.\<close>
  \<^item> Round trips: buffers, codecs, addresses, STUN messages, connect options and headers of the stream, RTP headers.
  \<^item> Reference definitions: the table CRC is the division of the polynomial, the hashes are those of the padded
    message, HMAC is that of RFC 2104, the pair priority is that of RFC 5245.
  \<^item> Authentication: what an accepted integrity attribute certifies; that connections and channels become readable
    and writable only by packets made with the passwords, over all sequences of operations.
  \<^item> Invariants over all runs: pointers of the channel, the timers and states of the stream, the buffers of
    sender and receiver, the sessions of an SRTP filter, the agreement of both ends on RTCP mux.
  \<^item> Functional behaviour: which connection is best, which is checked next, when one times out; what an acknowledgement
    releases; which end gives way in a role conflict.
  \<^item> Liveness and termination: every request ends after ten dispatches of the thread at most; two connections with
    each other's credentials connect; the send loop returns.
  \<^item> End to end: what the receiving application reads is a prefix of what the sending one wrote, whatever the network
    loses, repeats or reorders.

  \<^bold>\<open>Recursion and bounds.\<close> Loops are recursive functions with a measure, and no fuel is used. The only loop
  whose end depends on the environment, \<^verbatim>\<open>attemptSend\<close>, is a partial function whose value \<open>None\<close> includes
  running for ever; \<open>attemptSend_returns\<close> shows that from every state with a well-formed segment list it returns.
  Theorems about sequence numbers are about streams shorter than \<open>2^32\<close> bytes, those about time stamps about
  clocks that do not wrap in the time they speak of, the order of connections about generations below \<open>2^31\<close>; each
  says so in its hypotheses.

  \<^bold>\<open>What is not modelled.\<close> Sessions and their signalling, transports, TCP, relay and TURN ports and the port
  allocators, sockets and threads, DTLS and TLS, the media channels and engines, XML and XMPP, and the Objective-C
  client. They call the parts above or are called by the system; no theorem speaks of them. Inside the parts,
  logging, statistics and socket options are left out, and the textual forms of addresses. The role that a
  session takes after a role conflict, and the allocator that makes the ports, are outside: they are operations in
  the runs of the channel.
\<close>

end
